(* ===== verification/Prelude.thy ===== *)
theory Prelude
  imports Main "HOL-Library.Word"
begin

text \<open>
  Shared vocabulary of the development: the machine integer types of the C and C++ sources,
  the byte order helpers that several components use, and the lemmas that read a word
  operation as integer arithmetic when it does not wrap.

  The collection \<open>nowrap\<close> holds the (conditional) rewrite rules from \<^const>\<open>uint\<close> of a
  word operation to the operation on integers; \<open>bytes_simps\<close> holds the facts on the byte
  order helpers.
\<close>

unbundle bit_operations_syntax

named_theorems nowrap
named_theorems bytes_simps

type_synonym u8 = "8 word"
type_synonym u16 = "16 word"
type_synonym u32 = "32 word"
type_synonym u64 = "64 word"
type_synonym u128 = "128 word"

section \<open>Words read as integers\<close>

lemma uint_add_nowrap [nowrap]:
  "uint a + uint b < 2 ^ LENGTH('a) \<Longrightarrow> uint (a + b) = uint a + uint (b :: 'a::len word)"
  by (simp add: uint_word_ariths take_bit_int_eq_self)

lemma uint_mult_nowrap [nowrap]:
  "uint a * uint b < 2 ^ LENGTH('a) \<Longrightarrow> uint (a * b) = uint a * uint (b :: 'a::len word)"
  by (simp add: uint_word_ariths take_bit_int_eq_self)

lemma uint_sub_nowrap [nowrap]:
  assumes "uint b \<le> uint a"
  shows "uint (a - b) = uint a - uint (b :: 'a::len word)"
proof -
  have "uint a < 2 ^ LENGTH('a)" "0 \<le> uint b" by simp_all
  with assms have "uint a - uint b < 2 ^ LENGTH('a)" by linarith
  with assms show ?thesis by (simp add: uint_word_ariths take_bit_int_eq_self)
qed

lemma uint_drop_bit_div [nowrap]: "uint (drop_bit n (a :: 'a::len word)) = uint a div 2 ^ n"
proof -
  have "uint (drop_bit n a) = drop_bit n (take_bit LENGTH('a) (uint a))"
    by (rule unsigned_drop_bit_eq)
  then show ?thesis by (simp only: take_bit_int_eq_self[OF uint_ge_0 uint_lt2p] drop_bit_eq_div)
qed

lemma uint_and_mask_mod: "uint (a AND mask n) = uint (a :: 'a::len word) mod 2 ^ n"
proof -
  have "a AND mask n = take_bit n a" by (simp add: take_bit_eq_mask)
  then have "uint (a AND mask n) = take_bit n (uint a)" by (simp add: unsigned_take_bit_eq)
  then show ?thesis by (simp add: take_bit_eq_mod)
qed

lemma uint_ucast_up:
  "LENGTH('a) \<le> LENGTH('b) \<Longrightarrow> uint (ucast (a :: 'a::len word) :: 'b::len word) = uint a"
  by (simp add: unsigned_ucast_eq take_bit_int_eq_self less_le_trans[OF uint_lt2p])

lemma uint_of_nat_nowrap: "n < 2 ^ LENGTH('a) \<Longrightarrow> uint (word_of_nat n :: 'a::len word) = int n"
  by (simp add: unsigned_of_nat take_bit_nat_eq_self)

section \<open>Lists of a known length\<close>

lemma length4E:
  assumes "length xs = 4"
  obtains a b c d where "xs = [a, b, c, d]"
  using assms by (auto simp: length_Suc_conv eval_nat_numeral)

lemma length8E:
  assumes "length xs = 8"
  obtains a b c d e f g h where "xs = [a, b, c, d, e, f, g, h]"
  using assms by (auto simp: length_Suc_conv eval_nat_numeral)

end
