(* ===== verification/Wire.thy ===== *)
theory Wire
  imports Prelude
begin

text \<open>
  The binary serialisation of libraries/fc (include/fc/io/raw.hpp) that feeds the block and
  transaction digests: the raw little-endian bytes of fixed size values, the variable length
  \<open>unsigned_int\<close> and \<open>std::vector<char>\<close>. A packer returns the bytes it writes to the
  stream, or the exception of its FC_ASSERT; an unpacker takes the rest of the stream and
  returns the value with the bytes it left.

  \<open>Abort\<close> stands for a failed \<open>assert\<close> (undefined behaviour in a build with NDEBUG), \<open>Endless_Loop\<close> for a loop
  that does not end.

  The sources write the memory image of an integer; the model fixes the little-endian byte
  order of the x86-64 targets the build scripts name.
\<close>

datatype fc_error =
    Assert_Exception
  | Eof_Exception
  | Recover_Exception
  | Trx_Invalid_Arg_Exception
  | Parse_Error_Exception
  | Bad_Cast_Exception
  | Key_Not_Found_Exception
  | Unspecified_Exception
  | Endless_Loop
  | Abort

type_synonym 'a result = "fc_error + 'a"

section \<open>Fixed size values\<close>

primrec le_bytes :: "nat \<Rightarrow> 'a::len word \<Rightarrow> u8 list" where
  "le_bytes 0 w = []"
| "le_bytes (Suc n) w = ucast w # le_bytes n (drop_bit 8 w)"

primrec from_le :: "u8 list \<Rightarrow> 'a::len word" where
  "from_le [] = 0"
| "from_le (b # bs) = ucast b OR push_bit 8 (from_le bs)"

lemma length_le_bytes [simp, bytes_simps]: "length (le_bytes n w) = n"
  by (induction n arbitrary: w) simp_all

lemma from_le_le_bytes [bytes_simps]: "from_le (le_bytes n w) = take_bit (8 * n) (w :: 'a::len word)"
proof (induction n arbitrary: w)
  case 0
  then show ?case by simp
next
  case (Suc n)
  show ?case
  proof (rule bit_word_eqI)
    fix i assume "i < LENGTH('a)"
    then show "bit (from_le (le_bytes (Suc n) w) :: 'a word) i = bit (take_bit (8 * Suc n) w) i"
      by (auto simp: Suc.IH bit_simps)
  qed
qed

lemma le_bytes_inj:
  assumes "le_bytes n (v :: 'a::len word) = le_bytes n w" and "LENGTH('a) \<le> 8 * n"
  shows "v = w"
proof -
  have "take_bit (8 * n) v = take_bit (8 * n) w"
    using assms(1) from_le_le_bytes[of n v] from_le_le_bytes[of n w] by simp
  with assms(2) show ?thesis by (simp add: take_bit_word_eq_self)
qed

lemma le_bytes_add: "le_bytes (m + n) w = le_bytes m w @ le_bytes n (drop_bit (8 * m) w)"
  by (induction m arbitrary: w) (simp_all add: add.commute)

lemma le_bytes_4: "le_bytes 4 w = [ucast w, ucast (drop_bit 8 w), ucast (drop_bit 16 w), ucast (drop_bit 24 w)]"
  by (simp add: eval_nat_numeral)

definition pack_u32 :: "u32 \<Rightarrow> u8 list" where
  "pack_u32 v = le_bytes 4 v"

definition pack_u64 :: "u64 \<Rightarrow> u8 list" where
  "pack_u64 v = le_bytes 8 v"

lemma pack_fixed_length [simp, bytes_simps]:
  "length (pack_u32 v) = 4" "length (pack_u64 w) = 8"
  by (simp_all add: pack_u32_def pack_u64_def)

lemma pack_fixed_inj [simp]:
  "pack_u32 v = pack_u32 v' \<longleftrightarrow> v = v'" "pack_u64 w = pack_u64 w' \<longleftrightarrow> w = w'"
  by (auto simp: pack_u32_def pack_u64_def dest!: le_bytes_inj)

section \<open>Variable length integers\<close>

text \<open>
  \<open>pack(Stream&, const unsigned_int&)\<close>: seven bits per byte, least significant first, the top
  bit set on every byte but the last. The loop runs on a 64-bit copy of the 32-bit value.
\<close>

function pack_varint_loop :: "u64 \<Rightarrow> u8 list" where
  "pack_varint_loop val =
     (let b = ucast val AND 0x7f;
          val' = drop_bit 7 val;
          b' = b OR push_bit 7 (if val' > 0 then 1 else 0)
      in b' # (if val' \<noteq> 0 then pack_varint_loop val' else []))"
  by pat_completeness auto
termination
proof (relation "measure unat")
  fix x xa :: u64 and xb :: u64 and b' :: u8
  show "wf (measure unat)" by simp
next
  fix val :: u64 and b val' b'
  assume v: "val' = drop_bit 7 val" and nz: "val' \<noteq> 0"
  have "unat val' = unat val div 2 ^ 7"
    by (simp only: v unat_drop_bit_eq) (simp add: drop_bit_eq_div)
  moreover from nz have "unat val' \<noteq> 0" by (simp add: unat_eq_zero)
  ultimately have "unat val' < unat val" by simp
  then show "(val', val) \<in> measure unat" by simp
qed

declare pack_varint_loop.simps [simp del]

definition pack_unsigned_int :: "u32 \<Rightarrow> u8 list" where
  "pack_unsigned_int v = pack_varint_loop (ucast v)"

text \<open>
  \<open>unpack(Stream&, unsigned_int&)\<close>: the loop stops after a byte with a clear top bit, or when
  \<open>by\<close> (here \<open>shift\<close>) reaches 32, that is after five bytes; \<open>s.get\<close> throws at the end of the stream. The
  seven payload bits are shifted in 32-bit arithmetic.
\<close>

fun unpack_varint_loop :: "u8 list \<Rightarrow> u64 \<Rightarrow> nat \<Rightarrow> (u64 \<times> u8 list) result" where
  "unpack_varint_loop [] v shift = Inl Eof_Exception"
| "unpack_varint_loop (b # s) v shift =
     (let v' = v OR ucast (push_bit shift (ucast (b AND 0x7f) :: u32));
          shift' = shift + 7
      in if b AND 0x80 \<noteq> 0 \<and> shift' < 32 then unpack_varint_loop s v' shift' else Inr (v', s))"

definition unpack_unsigned_int :: "u8 list \<Rightarrow> (u32 \<times> u8 list) result" where
  "unpack_unsigned_int s =
     (case unpack_varint_loop s 0 0 of
        Inl e \<Rightarrow> Inl e
      | Inr (v, s') \<Rightarrow> Inr (ucast v, s'))"

lemma bit_bounded:
  assumes "take_bit m (w :: 'a::len word) = w" and "bit w i"
  shows "i < m"
  using assms by (metis bit_take_bit_iff)

lemma unpack_varint_step_bits:
  fixes val v :: u64
  assumes "take_bit (32 - shift) val = val"
  shows "(v OR ucast (push_bit shift (ucast ((ucast val :: u8) AND 0x7f) :: u32)))
           OR push_bit (shift + 7) (drop_bit 7 val) = v OR push_bit shift val"
proof -
  have m: "(0x7f :: u8) = mask 7" by (simp add: mask_eq_exp_minus_1)
  have low: "bit (ucast (push_bit shift (ucast ((ucast val :: u8) AND mask 7) :: u32)) :: u64) i
      \<longleftrightarrow> i < 32 \<and> shift \<le> i \<and> i - shift < 7 \<and> bit val (i - shift)" for i
    by (auto simp: bit_simps)
  have high: "bit (push_bit (shift + 7) (drop_bit 7 val)) i
      \<longleftrightarrow> i < 64 \<and> shift + 7 \<le> i \<and> bit val (i - shift)" for i
    by (auto simp: bit_simps)
  have bnd: "bit val j \<Longrightarrow> j < 32 - shift" for j by (rule bit_bounded[OF assms])
  show ?thesis
  proof (rule bit_word_eqI)
    fix i assume "i < LENGTH(64)"
    then show "bit ((v OR ucast (push_bit shift (ucast ((ucast val :: u8) AND 0x7f) :: u32)))
        OR push_bit (shift + 7) (drop_bit 7 val)) i = bit (v OR push_bit shift val) i"
      using bnd[of "i - shift"] unfolding m bit_or_iff low high
      by (auto simp: bit_push_bit_iff)
  qed
qed

lemma pack_byte_masks [bytes_simps]:
  fixes y :: u8
  shows "(y AND 0x7f OR 0x80) AND 0x7f = y AND 0x7f" "(y AND 0x7f OR 0x80) AND 0x80 = 0x80"
    "(y AND 0x7f) AND 0x7f = y AND 0x7f" "(y AND 0x7f) AND 0x80 = 0"
  by (simp_all add: bit.conj_disj_distrib2 and.assoc)

lemma unpack_varint_loop_pack:
  "take_bit (32 - shift) val = val \<Longrightarrow> shift < 32 \<Longrightarrow>
   unpack_varint_loop (pack_varint_loop val @ rest) v shift = Inr (v OR push_bit shift val, rest)"
proof (induction val arbitrary: v shift rule: pack_varint_loop.induct)
  case (1 val)
  let ?v' = "v OR ucast (push_bit shift (ucast ((ucast val :: u8) AND 0x7f) :: u32))"
  have step: "?v' OR push_bit (shift + 7) (drop_bit 7 val) = v OR push_bit shift val"
    using "1.prems"(1) by (rule unpack_varint_step_bits)
  show ?case
  proof (cases "drop_bit 7 val = 0")
    case True
    with step show ?thesis
      by (subst pack_varint_loop.simps)
         (simp add: Let_def bytes_simps)
  next
    case False
    have tb: "take_bit (32 - (shift + 7)) (drop_bit 7 val) = drop_bit 7 val"
    proof (rule bit_word_eqI)
      fix i
      show "bit (take_bit (32 - (shift + 7)) (drop_bit 7 val)) i = bit (drop_bit 7 val) i"
        using bit_bounded[OF "1.prems"(1), of "i + 7"] by (auto simp: bit_simps add.commute)
    qed
    have lt: "shift + 7 < 32"
    proof (rule ccontr)
      assume "\<not> shift + 7 < 32"
      with tb False show False by simp
    qed
    have IH: "unpack_varint_loop (pack_varint_loop (drop_bit 7 val) @ rest) ?v' (shift + 7)
        = Inr (?v' OR push_bit (shift + 7) (drop_bit 7 val), rest)"
      by (rule "1.IH"[OF refl refl refl]) (use False tb lt in auto)
    show ?thesis
      using False IH step lt
      by (subst pack_varint_loop.simps)
         (simp add: Let_def bytes_simps word_gt_0)
  qed
qed

lemma unpack_pack_unsigned_int:
  "unpack_unsigned_int (pack_unsigned_int v @ rest) = Inr (v, rest)"
proof -
  have "take_bit 32 (ucast v :: u64) = ucast v"
    by (rule bit_word_eqI) (auto simp: bit_simps dest: bit_imp_le_length)
  then have "unpack_varint_loop (pack_unsigned_int v @ rest) 0 0 = Inr (ucast v, rest)"
    using unpack_varint_loop_pack[of 0 "ucast v" rest 0] by (simp add: pack_unsigned_int_def)
  moreover have "(ucast (ucast v :: u64) :: u32) = v"
    by (rule bit_word_eqI) (auto simp: bit_simps dest: bit_imp_le_length)
  ultimately show ?thesis by (simp add: unpack_unsigned_int_def)
qed

section \<open>Byte vectors\<close>

definition max_size_of_byte_arrays :: nat where
  "max_size_of_byte_arrays = 20 * 1024 * 1024"

definition pack_bytes :: "u8 list \<Rightarrow> u8 list result" where
  "pack_bytes value =
     (if length value \<le> max_size_of_byte_arrays
      then Inr (pack_unsigned_int (word_of_nat (length value)) @ value)
      else Inl Assert_Exception)"

definition unpack_bytes :: "u8 list \<Rightarrow> (u8 list \<times> u8 list) result" where
  "unpack_bytes s =
     (case unpack_unsigned_int s of
        Inl e \<Rightarrow> Inl e
      | Inr (sz, s') \<Rightarrow>
          if unat sz \<le> max_size_of_byte_arrays
          then (if unat sz \<le> length s' then Inr (take (unat sz) s', drop (unat sz) s')
                else Inl Eof_Exception)
          else Inl Assert_Exception)"

lemma unpack_pack_bytes:
  assumes "pack_bytes value = Inr bs"
  shows "unpack_bytes (bs @ rest) = Inr (value, rest)"
proof -
  from assms have le: "length value \<le> max_size_of_byte_arrays"
    and bs: "bs = pack_unsigned_int (word_of_nat (length value)) @ value"
    by (auto simp: pack_bytes_def split: if_splits)
  from le have "unat (word_of_nat (length value) :: u32) = length value"
    by (simp add: max_size_of_byte_arrays_def unat_of_nat take_bit_nat_eq_self)
  with le bs show ?thesis
    by (simp add: unpack_bytes_def unpack_pack_unsigned_int)
qed

text \<open>A packed byte vector is self-delimiting: equal streams hold equal vectors and equal rests.\<close>

lemma pack_bytes_append_inj:
  assumes "pack_bytes v = Inr bs" "pack_bytes v' = Inr bs'" "bs @ rest = bs' @ rest'"
  shows "v = v' \<and> rest = rest'"
  using unpack_pack_bytes[OF assms(1), of rest] unpack_pack_bytes[OF assms(2), of rest'] assms(3)
  by simp

end
