(* ===== verification/Chain.thy ===== *)
theory Chain
  imports Wire
begin

text \<open>
  libraries/chain: \<open>Transaction\<close> (transaction.cpp), \<open>Block\<close> (block.cpp) and \<open>Buffer\<close>
  (buffer.cpp), and the chain walk of \<open>read_only::check_chain\<close> (chain_plugin.cpp).

  Exceptions are values (\<^typ>\<open>'a result\<close>). The hash (OpenSSL's SHA-256 behind
  \<open>fc::sha256::encoder\<close>), the recovery of a public key from a signature and the signing with
  the producer's hard coded private key are the fields of \<open>crypto\<close>, an argument of every
  operation that uses them; nothing is assumed of them here. The clock and the indeterminate
  value of a fresh \<open>Block::blk_num\<close> are arguments too.
\<close>

section \<open>Data\<close>

text \<open>
  \<open>fc::sha256\<close> holds four 64-bit words. Keys and signatures are a \<open>static_variant\<close> of the
  K1 and R1 shims over fixed arrays of 33 and 65 bytes; such an array is a word of its size
  whose byte \<open>i\<close> is the array's element \<open>i\<close>.
\<close>

datatype sha256 = Sha256 u64 u64 u64 u64

datatype public_key = PK_K1 "264 word" | PK_R1 "264 word"

datatype signature = SIG_K1 "520 word" | SIG_R1 "520 word"

definition blank_sha256 :: sha256 where
  "blank_sha256 = Sha256 0 0 0 0"

definition blank_signature :: signature where
  "blank_signature = SIG_K1 0"

record crypto =
  sha256_of :: "u8 list \<Rightarrow> sha256"
  recover_key :: "signature \<Rightarrow> sha256 \<Rightarrow> public_key result"
  producer_sign :: "sha256 \<Rightarrow> signature"
  producer_key :: public_key

record transaction =
  trx_time_point :: u32
  trx_data :: "u8 list"
  trx_attach :: "u8 list"
  trx_signature :: signature
  trx_pub_key :: public_key

record block =
  blk_num :: u64
  prior_hash :: sha256
  blk_time_point :: u32
  merkle_root :: sha256
  sig :: signature
  trxs :: "transaction list"

section \<open>Serialisation\<close>

primrec pack_sha256 :: "sha256 \<Rightarrow> u8 list" where
  "pack_sha256 (Sha256 h0 h1 h2 h3) = pack_u64 h0 @ pack_u64 h1 @ pack_u64 h2 @ pack_u64 h3"

primrec pack_public_key :: "public_key \<Rightarrow> u8 list" where
  "pack_public_key (PK_K1 d) = pack_unsigned_int 0 @ le_bytes 33 d"
| "pack_public_key (PK_R1 d) = pack_unsigned_int 1 @ le_bytes 33 d"

primrec pack_signature :: "signature \<Rightarrow> u8 list" where
  "pack_signature (SIG_K1 d) = pack_unsigned_int 0 @ le_bytes 65 d"
| "pack_signature (SIG_R1 d) = pack_unsigned_int 1 @ le_bytes 65 d"

text \<open>\<open>FC_REFLECT(Transaction, (time_point)(data)(attach)(signature)(pub_key))\<close>\<close>

definition pack_transaction :: "transaction \<Rightarrow> u8 list result" where
  "pack_transaction t =
     (case pack_bytes (trx_data t) of Inl e \<Rightarrow> Inl e | Inr d \<Rightarrow>
      (case pack_bytes (trx_attach t) of Inl e \<Rightarrow> Inl e | Inr a \<Rightarrow>
        Inr (pack_u32 (trx_time_point t) @ d @ a @ pack_signature (trx_signature t)
             @ pack_public_key (trx_pub_key t))))"

primrec pack_transactions_loop :: "transaction list \<Rightarrow> u8 list result" where
  "pack_transactions_loop [] = Inr []"
| "pack_transactions_loop (t # ts) =
     (case pack_transaction t of Inl e \<Rightarrow> Inl e | Inr bs \<Rightarrow>
      (case pack_transactions_loop ts of Inl e \<Rightarrow> Inl e | Inr cs \<Rightarrow> Inr (bs @ cs)))"

definition max_num_array_elements :: nat where
  "max_num_array_elements = 1024 * 1024"

definition pack_transactions :: "transaction list \<Rightarrow> u8 list result" where
  "pack_transactions ts =
     (if length ts \<le> max_num_array_elements
      then (case pack_transactions_loop ts of Inl e \<Rightarrow> Inl e
            | Inr bs \<Rightarrow> Inr (pack_unsigned_int (word_of_nat (length ts)) @ bs))
      else Inl Assert_Exception)"

section \<open>Transaction\<close>

definition transaction_preimage :: "transaction \<Rightarrow> u8 list result" where
  "transaction_preimage t =
     (case pack_bytes (trx_attach t) of Inl e \<Rightarrow> Inl e | Inr a \<Rightarrow>
      (case pack_bytes (trx_data t) of Inl e \<Rightarrow> Inl e | Inr d \<Rightarrow>
        Inr (pack_u32 (trx_time_point t) @ a @ d @ pack_public_key (trx_pub_key t))))"

definition transaction_digest :: "crypto \<Rightarrow> transaction \<Rightarrow> sha256 result" where
  "transaction_digest c t =
     (case transaction_preimage t of Inl e \<Rightarrow> Inl e | Inr bs \<Rightarrow> Inr (sha256_of c bs))"

definition transaction_validate :: "crypto \<Rightarrow> transaction \<Rightarrow> bool result" where
  "transaction_validate c t =
     (if 0 = length (trx_data t) then Inr False
      else if blank_signature = trx_signature t then Inr False
      else (case transaction_digest c t of Inl e \<Rightarrow> Inl e | Inr d \<Rightarrow>
        (case recover_key c (trx_signature t) d of Inl e \<Rightarrow> Inl e
         | Inr k \<Rightarrow> Inr (k = trx_pub_key t))))"

section \<open>Block\<close>

definition new_block :: "u32 \<Rightarrow> u64 \<Rightarrow> block" where
  "new_block now indet =
     \<lparr>blk_num = indet, prior_hash = blank_sha256, blk_time_point = now,
      merkle_root = blank_sha256, sig = blank_signature, trxs = []\<rparr>"

definition block_preimage :: "block \<Rightarrow> u8 list" where
  "block_preimage b =
     pack_u64 (blk_num b) @ pack_sha256 (prior_hash b) @ pack_u32 (blk_time_point b)
     @ pack_sha256 (merkle_root b)"

definition block_digest :: "crypto \<Rightarrow> block \<Rightarrow> sha256" where
  "block_digest c b = sha256_of c (block_preimage b)"

definition block_valid :: "crypto \<Rightarrow> block \<Rightarrow> bool result" where
  "block_valid c b =
     (if blank_signature = sig b then Inr False
      else (case recover_key c (sig b) (block_digest c b) of Inl e \<Rightarrow> Inl e
            | Inr k \<Rightarrow> Inr (k = producer_key c)))"

definition push_trxs :: "crypto \<Rightarrow> transaction list \<Rightarrow> block \<Rightarrow> block result" where
  "push_trxs c ts b =
     (case pack_transactions ts of Inl e \<Rightarrow> Inl e
      | Inr bs \<Rightarrow> Inr (b\<lparr>trxs := ts, merkle_root := sha256_of c bs\<rparr>))"

text \<open>\<open>piror_blk.valid() && this->valid()\<close> evaluates its right side only after a true left side.\<close>

definition check_block :: "crypto \<Rightarrow> block \<Rightarrow> block \<Rightarrow> bool result" where
  "check_block c this piror_blk =
     (case block_valid c piror_blk of Inl e \<Rightarrow> Inl e
      | Inr False \<Rightarrow> Inr False
      | Inr True \<Rightarrow>
         (case block_valid c this of Inl e \<Rightarrow> Inl e
          | Inr False \<Rightarrow> Inr False
          | Inr True \<Rightarrow> Inr (block_digest c piror_blk = prior_hash this)))"

section \<open>The chain walk\<close>

datatype check_result = Chain_Ok | Chain_Bad block

fun check_chain_loop :: "crypto \<Rightarrow> block \<Rightarrow> block list \<Rightarrow> check_result result" where
  "check_chain_loop c checkBlk [] = Inr Chain_Ok"
| "check_chain_loop c checkBlk (idx # blocks) =
     (if blk_num idx = 0 then check_chain_loop c idx blocks
      else (case check_block c idx checkBlk of
              Inl e \<Rightarrow> Inl e
            | Inr False \<Rightarrow> Inr (Chain_Bad checkBlk)
            | Inr True \<Rightarrow> check_chain_loop c idx blocks))"

definition check_chain :: "crypto \<Rightarrow> u32 \<Rightarrow> u64 \<Rightarrow> block list \<Rightarrow> check_result result" where
  "check_chain c now indet blocks = check_chain_loop c (new_block now indet) blocks"

section \<open>Buffer\<close>

record buffer =
  trx_pool :: "transaction list"
  last_block :: block

definition new_buffer :: "u32 \<Rightarrow> u64 \<Rightarrow> buffer" where
  "new_buffer now indet = \<lparr>trx_pool = [], last_block = new_block now indet\<rparr>"

definition cache_last_blk :: "block \<Rightarrow> buffer \<Rightarrow> buffer" where
  "cache_last_blk blk buf = buf\<lparr>last_block := blk\<rparr>"

definition get_catch_trxs_count :: "buffer \<Rightarrow> nat" where
  "get_catch_trxs_count buf = length (trx_pool buf)"

definition cache_trx :: "transaction \<Rightarrow> buffer \<Rightarrow> buffer" where
  "cache_trx trx buf = buf\<lparr>trx_pool := trx_pool buf @ [trx]\<rparr>"

text \<open>
  \<open>build_block\<close> returns the block and the new buffer; an exception leaves the buffer as it was,
  since the pool is cleared last.
\<close>

definition build_block :: "crypto \<Rightarrow> u32 \<Rightarrow> u64 \<Rightarrow> buffer \<Rightarrow> (block \<times> buffer) result" where
  "build_block c now indet buf =
     (case block_valid c (last_block buf) of Inl e \<Rightarrow> Inl e
      | Inr v \<Rightarrow>
        (let blk = new_block now indet;
             blk = (if v then blk\<lparr>prior_hash := block_digest c (last_block buf),
                                  blk_num := blk_num (last_block buf) + 1\<rparr>
                    else blk\<lparr>prior_hash := blank_sha256, blk_num := 0\<rparr>)
         in (case push_trxs c (trx_pool buf) blk of Inl e \<Rightarrow> Inl e
             | Inr blk \<Rightarrow>
               Inr (blk\<lparr>sig := producer_sign c (block_digest c blk)\<rparr>, buf\<lparr>trx_pool := []\<rparr>))))"

section \<open>The digest preimages determine what they cover\<close>

lemma length_pack_sha256 [simp, bytes_simps]: "length (pack_sha256 h) = 32"
  by (cases h) simp

lemma pack_sha256_inj [simp]: "pack_sha256 h = pack_sha256 h' \<longleftrightarrow> h = h'"
  by (cases h; cases h') simp

lemma block_preimage_inj:
  "block_preimage b = block_preimage b' \<longleftrightarrow>
     blk_num b = blk_num b' \<and> prior_hash b = prior_hash b' \<and>
     blk_time_point b = blk_time_point b' \<and> merkle_root b = merkle_root b'"
  by (simp add: block_preimage_def)

lemma pack_public_key_inj:
  assumes "pack_public_key k = pack_public_key k'"
  shows "k = k'"
proof -
  have inj: "d = d'" if "le_bytes 33 d = le_bytes 33 d'" for d d' :: "264 word"
    using that by (rule le_bytes_inj) simp
  have tags: "pack_unsigned_int 0 = [0]" "pack_unsigned_int 1 = [1]"
    by (simp_all add: pack_unsigned_int_def pack_varint_loop.simps)
  from assms show ?thesis by (cases k; cases k') (auto simp: tags dest: inj)
qed

text \<open>
  The bytes hashed by \<open>Transaction::digest\<close> determine the time point, the attachment,
  the data and the public key: no two transactions that differ in one of them share a preimage,
  so a signature over the digest commits to all four (and to nothing else: the signature itself
  is not hashed).
\<close>
theorem transaction_preimage_commits:
  assumes "transaction_preimage t = Inr bs" and "transaction_preimage t' = Inr bs"
  shows "trx_time_point t = trx_time_point t' \<and> trx_attach t = trx_attach t' \<and>
    trx_data t = trx_data t' \<and> trx_pub_key t = trx_pub_key t'"
proof -
  from assms obtain a d a' d' where
      p: "pack_bytes (trx_attach t) = Inr a" "pack_bytes (trx_data t) = Inr d"
        "pack_bytes (trx_attach t') = Inr a'" "pack_bytes (trx_data t') = Inr d'"
    and bs: "bs = pack_u32 (trx_time_point t) @ a @ d @ pack_public_key (trx_pub_key t)"
      "bs = pack_u32 (trx_time_point t') @ a' @ d' @ pack_public_key (trx_pub_key t')"
    by (auto simp: transaction_preimage_def split: sum.splits)
  from bs have tm: "trx_time_point t = trx_time_point t'"
    and eq: "a @ d @ pack_public_key (trx_pub_key t) = a' @ d' @ pack_public_key (trx_pub_key t')"
    by simp_all
  from pack_bytes_append_inj[OF p(1,3) eq] have at: "trx_attach t = trx_attach t'"
    and eq': "d @ pack_public_key (trx_pub_key t) = d' @ pack_public_key (trx_pub_key t')" by simp_all
  from pack_bytes_append_inj[OF p(2,4) eq'] tm at show ?thesis
    by (auto dest: pack_public_key_inj)
qed

theorem transaction_preimage_commits_witness:
  "\<exists>t t' bs. transaction_preimage t = Inr bs \<and> transaction_preimage t' = Inr bs \<and>
     t \<noteq> t' \<and> trx_data t = trx_data t'"
proof -
  let ?t = "\<lparr>trx_time_point = 1, trx_data = [1], trx_attach = [], trx_signature = SIG_K1 1,
    trx_pub_key = PK_K1 7\<rparr>"
  let ?t' = "?t\<lparr>trx_signature := SIG_K1 2\<rparr>"
  let ?bs = "pack_u32 1 @ pack_unsigned_int 0 @ (pack_unsigned_int 1 @ [1]) @ pack_public_key (PK_K1 7)"
  have "transaction_preimage ?t = Inr ?bs" "transaction_preimage ?t' = Inr ?bs"
    by (simp_all add: transaction_preimage_def pack_bytes_def max_size_of_byte_arrays_def)
  with transaction_preimage_commits[OF this] show ?thesis by (intro exI[of _ ?t] exI[of _ ?t']) auto
qed

section \<open>What a successful walk guarantees\<close>

lemma check_chain_loop_ok_iff:
  "check_chain_loop c prev blocks = Inr Chain_Ok \<longleftrightarrow>
     (\<forall>i < length blocks. blk_num (blocks ! i) \<noteq> 0 \<longrightarrow>
        check_block c (blocks ! i) ((prev # blocks) ! i) = Inr True)"
proof (induction c prev blocks rule: check_chain_loop.induct)
  case (1 c checkBlk)
  show ?case by simp
next
  case (2 c checkBlk idx blocks)
  have split: "(\<forall>i < Suc n. P i) \<longleftrightarrow> P 0 \<and> (\<forall>i < n. P (Suc i))" for P n
    using less_Suc_eq_0_disj by auto
  show ?case
    by (simp only: list.size split add_0_right add_Suc_right nth_Cons_0 nth_Cons_Suc check_chain_loop.simps)
       (auto simp: "2.IH" split: sum.splits bool.splits)
qed

lemma check_block_True_iff:
  "check_block c this prior = Inr True \<longleftrightarrow>
     block_valid c prior = Inr True \<and> block_valid c this = Inr True \<and>
     prior_hash this = block_digest c prior"
  by (auto simp: check_block_def split: sum.splits bool.splits)

lemma block_valid_new_block [simp]: "block_valid c (new_block now indet) = Inr False"
  by (simp add: block_valid_def new_block_def)

lemma check_chain_links:
  assumes "check_chain c now indet blocks = Inr Chain_Ok"
    and "i < length blocks" and "blk_num (blocks ! i) \<noteq> 0"
  shows "0 < i \<and> block_valid c (blocks ! (i - 1)) = Inr True \<and> block_valid c (blocks ! i) = Inr True \<and>
    prior_hash (blocks ! i) = block_digest c (blocks ! (i - 1))"
proof -
  from assms have "check_block c (blocks ! i) ((new_block now indet # blocks) ! i) = Inr True"
    by (auto simp: check_chain_def check_chain_loop_ok_iff)
  then show ?thesis by (cases i) (simp_all add: check_block_True_iff)
qed

text \<open>
  C5. A walk that reports success (result 0) means: every block with a non-zero number has a
  predecessor in the list, both carry a signature of the producer key, and the block's
  \<open>prior_hash\<close> is the digest of that predecessor. The converse holds too, so the right side
  is exactly what \<open>check_chain\<close> checks.
\<close>
theorem check_chain_ok_links:
  "check_chain c now indet blocks = Inr Chain_Ok \<longleftrightarrow>
     (\<forall>i < length blocks. blk_num (blocks ! i) \<noteq> 0 \<longrightarrow>
        0 < i \<and> block_valid c (blocks ! (i - 1)) = Inr True \<and> block_valid c (blocks ! i) = Inr True \<and>
        prior_hash (blocks ! i) = block_digest c (blocks ! (i - 1)))"
  (is "?ok \<longleftrightarrow> ?links")
proof
  assume ?ok
  then show ?links using check_chain_links by blast
next
  assume links: ?links
  have "check_block c (blocks ! i) ((new_block now indet # blocks) ! i) = Inr True"
    if "i < length blocks" "blk_num (blocks ! i) \<noteq> 0" for i
    using links that by (cases i) (auto simp: check_block_True_iff)
  then show ?ok by (simp add: check_chain_def check_chain_loop_ok_iff)
qed

definition demo_crypto :: crypto where
  "demo_crypto = \<lparr>sha256_of = (\<lambda>bs. Sha256 (from_le (take 8 bs)) 0 0 0),
     recover_key = (\<lambda>s d. Inr (PK_K1 7)), producer_sign = (\<lambda>d. SIG_K1 1), producer_key = PK_K1 7\<rparr>"

definition demo_block :: "u64 \<Rightarrow> block" where
  "demo_block n = \<lparr>blk_num = n, prior_hash = Sha256 (n - 1) 0 0 0, blk_time_point = 0,
     merkle_root = blank_sha256, sig = SIG_K1 1, trxs = []\<rparr>"

lemma demo_chain_ok: "check_chain demo_crypto 0 0 [demo_block 0, demo_block 1] = Inr Chain_Ok"
  by code_simp

theorem check_chain_ok_links_witness:
  "prior_hash ([demo_block 0, demo_block 1] ! 1) = block_digest demo_crypto ([demo_block 0, demo_block 1] ! 0)"
proof -
  have "blk_num ([demo_block 0, demo_block 1] ! 1) \<noteq> 0" by code_simp
  with iffD1[OF check_chain_ok_links demo_chain_ok, rule_format, of 1] show ?thesis by simp
qed

text \<open>
  C9. Tamper evidence for headers: in a list that the walk accepts, replace the header of a
  block that has a numbered successor (its number, prior hash, time point or Merkle root
  differs). Unless the two headers are a SHA-256 collision, the walk no longer reports success.
\<close>
theorem check_chain_detects_header_tampering:
  assumes ok: "check_chain c now indet blocks = Inr Chain_Ok"
    and succ: "Suc i < length blocks" "blk_num (blocks ! Suc i) \<noteq> 0"
    and tampered: "(blk_num b, prior_hash b, blk_time_point b, merkle_root b) \<noteq>
      (blk_num (blocks ! i), prior_hash (blocks ! i), blk_time_point (blocks ! i), merkle_root (blocks ! i))"
    and no_collision: "sha256_of c (block_preimage b) = sha256_of c (block_preimage (blocks ! i)) \<Longrightarrow>
      block_preimage b = block_preimage (blocks ! i)"
  shows "check_chain c now' indet' (blocks[i := b]) \<noteq> Inr Chain_Ok"
proof
  assume ok': "check_chain c now' indet' (blocks[i := b]) = Inr Chain_Ok"
  from succ have i: "Suc i < length (blocks[i := b])" "blk_num (blocks[i := b] ! Suc i) \<noteq> 0" by simp_all
  from check_chain_links[OF ok' i] succ
  have "prior_hash (blocks ! Suc i) = block_digest c b" by simp
  moreover from check_chain_links[OF ok succ]
  have "prior_hash (blocks ! Suc i) = block_digest c (blocks ! i)" by simp
  ultimately have "block_preimage b = block_preimage (blocks ! i)"
    by (intro no_collision) (simp add: block_digest_def)
  with tampered show False by (auto simp: block_preimage_inj)
qed

theorem check_chain_detects_header_tampering_witness:
  "check_chain demo_crypto 0 0 [demo_block 5, demo_block 1] \<noteq> Inr Chain_Ok"
proof -
  have "check_chain demo_crypto 0 0 ([demo_block 0, demo_block 1][0 := demo_block 5]) \<noteq> Inr Chain_Ok"
  proof (rule check_chain_detects_header_tampering[OF demo_chain_ok])
    show "blk_num ([demo_block 0, demo_block 1] ! Suc 0) \<noteq> 0" by code_simp
    show "block_preimage (demo_block 5) = block_preimage ([demo_block 0, demo_block 1] ! 0)"
      if "sha256_of demo_crypto (block_preimage (demo_block 5))
        = sha256_of demo_crypto (block_preimage ([demo_block 0, demo_block 1] ! 0))"
    proof -
      have "sha256_of demo_crypto (block_preimage (demo_block 5))
        \<noteq> sha256_of demo_crypto (block_preimage ([demo_block 0, demo_block 1] ! 0))" by code_simp
      with that show ?thesis by contradiction
    qed
  qed (simp_all add: demo_block_def)
  then show ?thesis by simp
qed

text \<open>
  C35. The transactions of a stored block are outside the check: whatever replaces the
  \<open>trxs\<close> of any blocks, the walk's verdict on the list is the same, because \<open>check_chain\<close>
  never recomputes \<open>merkle_root\<close> from them.
\<close>
theorem check_chain_ignores_trxs:
  "check_chain c now indet (map (\<lambda>b. b\<lparr>trxs := f b\<rparr>) blocks) = Inr Chain_Ok \<longleftrightarrow>
   check_chain c now indet blocks = Inr Chain_Ok"
proof -
  have pre: "block_preimage (b\<lparr>trxs := ts\<rparr>) = block_preimage b" for b ts
    by (simp add: block_preimage_def)
  have dig: "block_digest c (b\<lparr>trxs := ts\<rparr>) = block_digest c b" for b ts
    by (simp add: block_digest_def pre)
  have val: "block_valid c (b\<lparr>trxs := ts\<rparr>) = block_valid c b" for b ts
    by (simp add: block_valid_def dig)
  have chk: "check_block c (b\<lparr>trxs := ts\<rparr>) p = check_block c b p"
    "check_block c b (p\<lparr>trxs := ts\<rparr>) = check_block c b p" for b p ts
    by (simp_all add: check_block_def dig val split: sum.splits bool.splits)
  have "check_block c (map (\<lambda>b. b\<lparr>trxs := f b\<rparr>) blocks ! i)
          ((new_block now indet # map (\<lambda>b. b\<lparr>trxs := f b\<rparr>) blocks) ! i)
      = check_block c (blocks ! i) ((new_block now indet # blocks) ! i)" if "i < length blocks" for i
    using that by (cases i) (simp_all add: chk)
  then show ?thesis by (auto simp: check_chain_def check_chain_loop_ok_iff)
qed

section \<open>Building blocks\<close>

text \<open>
  The contract of the signature scheme that the node relies on: recovery on a fresh signature
  of the producer's private key gives the producer's public key, and such a signature is never
  the blank one.
\<close>

definition crypto_ok :: "crypto \<Rightarrow> bool" where
  "crypto_ok c \<longleftrightarrow> (\<forall>d. recover_key c (producer_sign c d) d = Inr (producer_key c)
     \<and> producer_sign c d \<noteq> blank_signature)"

lemma build_block_cases:
  assumes "build_block c now indet buf = Inr (blk, buf')"
  shows "\<exists>v bs. block_valid c (last_block buf) = Inr v \<and> pack_transactions (trx_pool buf) = Inr bs \<and>
     buf' = buf\<lparr>trx_pool := []\<rparr> \<and> trxs blk = trx_pool buf \<and> merkle_root blk = sha256_of c bs \<and>
     blk_time_point blk = now \<and> sig blk = producer_sign c (block_digest c blk) \<and>
     prior_hash blk = (if v then block_digest c (last_block buf) else blank_sha256) \<and>
     blk_num blk = (if v then blk_num (last_block buf) + 1 else 0)"
proof -
  from assms obtain v bs where v: "block_valid c (last_block buf) = Inr v"
    and bs: "pack_transactions (trx_pool buf) = Inr bs"
    by (auto simp: build_block_def push_trxs_def Let_def split: sum.splits)
  let ?hdr = "if v then (new_block now indet)\<lparr>prior_hash := block_digest c (last_block buf),
                      blk_num := blk_num (last_block buf) + 1\<rparr>
     else (new_block now indet)\<lparr>prior_hash := blank_sha256, blk_num := 0\<rparr>"
  let ?b = "?hdr\<lparr>trxs := trx_pool buf, merkle_root := sha256_of c bs\<rparr>"
  have sig_free: "block_digest c (b\<lparr>sig := s\<rparr>) = block_digest c b" for b s
    by (simp add: block_digest_def block_preimage_def)
  from assms have "blk = ?b\<lparr>sig := producer_sign c (block_digest c ?b)\<rparr>" "buf' = buf\<lparr>trx_pool := []\<rparr>"
    by (simp_all add: build_block_def push_trxs_def v bs Let_def)
  then show ?thesis
    by (intro exI[of _ v] exI[of _ bs]) (simp add: v bs sig_free, simp add: new_block_def)
qed

lemma build_block_valid:
  assumes "crypto_ok c" and "build_block c now indet buf = Inr (blk, buf')"
  shows "block_valid c blk = Inr True"
proof -
  have "sig blk = producer_sign c (block_digest c blk)" using build_block_cases[OF assms(2)] by blast
  moreover have "recover_key c (producer_sign c d) d = Inr (producer_key c)"
    "blank_signature \<noteq> producer_sign c d" for d
    using assms(1) unfolding crypto_ok_def by (blast, metis)
  ultimately show ?thesis by (simp add: block_valid_def)
qed

text \<open>
  C13. A block that \<open>build_block\<close> produces on top of a valid last block links to it: the
  successor's number is one more (in 64-bit arithmetic), its \<open>check_block\<close> against the last
  block succeeds, it carries exactly the pool's transactions in order, and the pool is empty
  afterwards with the last block unchanged.
\<close>
theorem build_block_extends:
  assumes "crypto_ok c" and "block_valid c (last_block buf) = Inr True"
    and "build_block c now indet buf = Inr (blk, buf')"
  shows "check_block c blk (last_block buf) = Inr True \<and> blk_num blk = blk_num (last_block buf) + 1 \<and>
    trxs blk = trx_pool buf \<and> trx_pool buf' = [] \<and> last_block buf' = last_block buf"
  using build_block_cases[OF assms(3)] build_block_valid[OF assms(1,3)] assms(2)
  by (auto simp: check_block_True_iff)

definition demo_buffer :: buffer where
  "demo_buffer = \<lparr>trx_pool = [], last_block = demo_block 0\<rparr>"

lemma demo_crypto_ok: "crypto_ok demo_crypto"
  by (simp add: crypto_ok_def demo_crypto_def blank_signature_def)

lemma build_block_demo: "\<exists>blk buf'. build_block demo_crypto now 0 demo_buffer = Inr (blk, buf')"
proof -
  have "block_valid demo_crypto (demo_block 0) = Inr True" by code_simp
  then show ?thesis
    by (simp add: build_block_def push_trxs_def pack_transactions_def max_num_array_elements_def
        demo_buffer_def Let_def)
qed

theorem build_block_extends_witness:
  "\<exists>blk buf'. build_block demo_crypto 9 0 demo_buffer = Inr (blk, buf') \<and>
     check_block demo_crypto blk (demo_block 0) = Inr True \<and> blk_num blk = 1"
proof -
  obtain blk buf' where b: "build_block demo_crypto 9 0 demo_buffer = Inr (blk, buf')"
    using build_block_demo by blast
  have "block_valid demo_crypto (last_block demo_buffer) = Inr True" by code_simp
  from build_block_extends[OF demo_crypto_ok this b] b show ?thesis
    by (auto simp: demo_buffer_def demo_block_def)
qed

end
