(* ===== verification/Store.thy ===== *)
theory Store
  imports Chain
begin

text \<open>
  plugins/sqlite_plugin: the SQL texts it sends, its row callbacks, its static result buffers
  \<open>tmp_blks\<close> and \<open>blk_nums\<close>, and its four operations.

  SQLite is not under src/ (only its interface header is): \<open>sqlite3_exec\<close> on the C string of a text is the parameter
  \<open>sq_exec\<close>, which takes the SQL text and the database and gives the return code (whether it is
  SQLITE_OK), the rows handed to the callback and the database after the call. The JSON code of
  a block (\<open>fc::json\<close>, \<open>fc::variant\<close>) is an argument \<open>js\<close>, which Block_Codec instantiates with its
  model. What is relied on of both is the locale \<open>sqlite_db\<close>; Reference_Db shows that it can be met, with that
  model of the JSON code and a reference implementation of the four statements.
\<close>

section \<open>Decimal numbers and hexadecimal digits\<close>

definition dec_digit :: "nat \<Rightarrow> char" where
  "dec_digit d = char_of (48 + d)"

text \<open>\<open>std::to_string\<close> of an unsigned integer.\<close>

fun dec_string :: "nat \<Rightarrow> string" where
  "dec_string n = (if n < 10 then [dec_digit n] else dec_string (n div 10) @ [dec_digit (n mod 10)])"

declare dec_string.simps [simp del]

definition is_digit :: "char \<Rightarrow> bool" where
  "is_digit c \<longleftrightarrow> 48 \<le> (of_char c :: nat) \<and> (of_char c :: nat) \<le> 57"

definition dec_value :: "string \<Rightarrow> nat" where
  "dec_value cs = foldl (\<lambda>n c. 10 * n + (of_char c - 48)) 0 cs"

text \<open>
  \<open>operator>>\<close> of a stream into a \<open>uint64_t\<close>, on a text without leading blanks or sign (the
  texts SQLite prints for a count): the longest run of digits, saturated at the largest value;
  no digits give 0.
\<close>

definition stream_to_u64 :: "string \<Rightarrow> u64" where
  "stream_to_u64 cs = word_of_nat (min (dec_value (takeWhile is_digit cs)) (2 ^ 64 - 1))"

lemma is_digit_dec_digit [simp]: "d < 10 \<Longrightarrow> is_digit (dec_digit d)"
  by (simp add: is_digit_def dec_digit_def)

lemma dec_string_digits: "\<forall>c \<in> set (dec_string n). is_digit c"
  by (induction n rule: dec_string.induct) (subst dec_string.simps, auto)

lemma dec_value_dec_string [simp]: "dec_value (dec_string n) = n"
proof (induction n rule: dec_string.induct)
  case (1 n)
  have "dec_value (cs @ [dec_digit d]) = 10 * dec_value cs + d" if "d < 10" for cs d
    using that by (simp add: dec_value_def dec_digit_def)
  with 1 show ?case
    by (subst dec_string.simps) (auto simp: dec_value_def dec_digit_def)
qed

lemma stream_to_u64_dec_string:
  assumes "n < 2 ^ 64"
  shows "stream_to_u64 (dec_string n) = word_of_nat n"
proof -
  have "takeWhile is_digit (dec_string n) = dec_string n"
    by (rule takeWhile_eq_all_conv[THEN iffD2, OF dec_string_digits])
  moreover have "min n (2 ^ 64 - 1) = n" using assms by simp
  ultimately show ?thesis by (simp only: stream_to_u64_def dec_value_dec_string)
qed

text \<open>
  \<open>fc::to_hex\<close> and \<open>fc::sha256::str\<close>. \<open>to_hex\<close> has its length as a \<open>uint32_t\<close>; a list here is shorter than 4 GiB.
\<close>

definition hex_digit :: "u8 \<Rightarrow> char" where
  "hex_digit v = ''0123456789abcdef'' ! unat v"

definition to_hex :: "u8 list \<Rightarrow> string" where
  "to_hex d = concat (map (\<lambda>c. [hex_digit (drop_bit 4 c), hex_digit (c AND 0x0f)]) d)"

definition sha256_str :: "sha256 \<Rightarrow> string" where
  "sha256_str h = to_hex (pack_sha256 h)"

section \<open>SQLite and JSON as parameters\<close>

type_synonym row = "(string \<times> string option) list"

type_synonym 'db sq_exec = "string \<Rightarrow> 'db \<Rightarrow> bool \<times> row list \<times> 'db"

record json_codec =
  json_to_string :: "block \<Rightarrow> string"
  json_from_string :: "string \<Rightarrow> block result"

section \<open>The plugin\<close>

record 'db store =
  db :: 'db
  tmp_blks :: "block list"
  blk_nums :: u64

fun get_block_callback :: "json_codec \<Rightarrow> row \<Rightarrow> block list \<Rightarrow> unit result \<times> block list" where
  "get_block_callback js [] tmp = (Inr (), tmp)"
| "get_block_callback js ((col, v) # cols) tmp =
     (if col = ''JSON'' then
        (case v of
           None \<Rightarrow> (Inl Assert_Exception, tmp)
         | Some json \<Rightarrow>
             (case json_from_string js json of
                Inl e \<Rightarrow> (Inl e, tmp)
              | Inr blk \<Rightarrow> get_block_callback js cols (tmp @ [blk])))
      else get_block_callback js cols tmp)"

fun get_num_callback :: "row \<Rightarrow> u64 \<Rightarrow> unit result \<times> u64" where
  "get_num_callback [] nums = (Inr (), nums)"
| "get_num_callback ((col, v) # cols) nums =
     (if col = ''num'' then
        (case v of
           None \<Rightarrow> (Inl Assert_Exception, nums)
         | Some txt \<Rightarrow> get_num_callback cols (stream_to_u64 txt))
      else get_num_callback cols nums)"

text \<open>The rows of a statement reach the callback one by one; an exception ends the statement.\<close>

fun each_row :: "(row \<Rightarrow> 'a \<Rightarrow> unit result \<times> 'a) \<Rightarrow> row list \<Rightarrow> 'a \<Rightarrow> unit result \<times> 'a" where
  "each_row cb [] x = (Inr (), x)"
| "each_row cb (r # rs) x =
     (case cb r x of (Inl e, x') \<Rightarrow> (Inl e, x') | (Inr _, x') \<Rightarrow> each_row cb rs x')"

definition insert_sql :: "u64 \<Rightarrow> string \<Rightarrow> string \<Rightarrow> string" where
  "insert_sql n hash json =
     ''INSERT INTO BLOCK (ID,HASH,JSON) VALUES('' @ dec_string (unat n) @ '','' @ [CHR 0x27] @ hash @
     [CHR 0x27] @ '','' @ [CHR 0x27] @ json @ [CHR 0x27] @ '');''"

definition select_sql :: "u64 \<Rightarrow> string" where
  "select_sql num = ''SELECT JSON FROM BLOCK WHERE ID='' @ dec_string (unat num) @ '';''"

definition count_sql :: string where
  "count_sql = ''select count (*) as num from block;''"

definition select_all_sql :: string where
  "select_all_sql = ''SELECT JSON FROM BLOCK ORDER BY ID;''"

text \<open>
  \<open>append_block\<close> passes \<open>get_block_callback\<close> (an INSERT yields no rows) and only logs a failing
  return code.
\<close>

definition append_block ::
  "'db sq_exec \<Rightarrow> json_codec \<Rightarrow> crypto \<Rightarrow> block \<Rightarrow> 'db store \<Rightarrow> unit result \<times> 'db store" where
  "append_block sq js c blk st =
     (let json = json_to_string js blk;
          (rc, rows, db') = sq (insert_sql (blk_num blk) (sha256_str (block_digest c blk)) json) (db st);
          (r, tmp) = each_row (get_block_callback js) rows (tmp_blks st)
      in (r, st\<lparr>db := db', tmp_blks := tmp\<rparr>))"

definition get_block ::
  "'db sq_exec \<Rightarrow> json_codec \<Rightarrow> u64 \<Rightarrow> 'db store \<Rightarrow> block option result \<times> 'db store" where
  "get_block sq js num st =
     (let (rc, rows, db') = sq (select_sql num) (db st);
          (r, tmp) = each_row (get_block_callback js) rows [];
          st' = st\<lparr>db := db', tmp_blks := tmp\<rparr>
      in (case r of
            Inl e \<Rightarrow> (Inl e, st')
          | Inr _ \<Rightarrow> (Inr (if \<not> rc then None else if length tmp = 0 then None else Some (tmp ! 0)), st')))"

definition get_block_count :: "'db sq_exec \<Rightarrow> 'db store \<Rightarrow> u64 result \<times> 'db store" where
  "get_block_count sq st =
     (let (rc, rows, db') = sq count_sql (db st);
          (r, nums) = each_row get_num_callback rows 0;
          st' = st\<lparr>db := db', blk_nums := nums\<rparr>
      in (case r of Inl e \<Rightarrow> (Inl e, st') | Inr _ \<Rightarrow> (Inr nums, st')))"

definition get_all_blocks ::
  "'db sq_exec \<Rightarrow> json_codec \<Rightarrow> 'db store \<Rightarrow> block list result \<times> 'db store" where
  "get_all_blocks sq js st =
     (let (rc, rows, db') = sq select_all_sql (db st);
          (r, tmp) = each_row (get_block_callback js) rows [];
          st' = st\<lparr>db := db', tmp_blks := tmp\<rparr>
      in (case r of Inl e \<Rightarrow> (Inl e, st') | Inr _ \<Rightarrow> (Inr (if \<not> rc then [] else tmp), st')))"

text \<open>What the other plugins get from \<open>app().find_plugin<sqlite_plugin>()\<close>.\<close>

record 's db_plugin =
  p_append :: "block \<Rightarrow> 's \<Rightarrow> unit result \<times> 's"
  p_get :: "u64 \<Rightarrow> 's \<Rightarrow> block option result \<times> 's"
  p_count :: "'s \<Rightarrow> u64 result \<times> 's"
  p_all :: "'s \<Rightarrow> block list result \<times> 's"

definition sqlite_plugin :: "'db sq_exec \<Rightarrow> json_codec \<Rightarrow> crypto \<Rightarrow> 'db store db_plugin" where
  "sqlite_plugin sq js c = \<lparr>p_append = append_block sq js c, p_get = get_block sq js,
     p_count = get_block_count sq, p_all = get_all_blocks sq js\<rparr>"

section \<open>What a database of blocks promises\<close>

text \<open>
  \<open>block_store\<close> is the contract the chain plugin relies on: the state holds a list of blocks
  whose numbers are their positions; appending the block with the next number appends it to the
  list, and the three queries read that list. \<open>good\<close> is the provider's invariant.
\<close>

locale block_store =
  fixes plugin :: "'s db_plugin" and good :: "'s \<Rightarrow> bool" and stored :: "'s \<Rightarrow> block list"
  assumes append_next:
    "good s \<Longrightarrow> length (stored s) < 2 ^ 63 \<Longrightarrow> blk_num b = word_of_nat (length (stored s)) \<Longrightarrow>
       \<exists>s'. p_append plugin b s = (Inr (), s') \<and> good s' \<and> stored s' = stored s @ [b]"
    and get_stored:
    "good s \<Longrightarrow> unat n < 2 ^ 63 \<Longrightarrow>
       \<exists>s'. p_get plugin n s =
         (Inr (if unat n < length (stored s) then Some (stored s ! unat n) else None), s') \<and>
         good s' \<and> stored s' = stored s"
    and count_stored:
    "good s \<Longrightarrow> \<exists>s'. p_count plugin s = (Inr (word_of_nat (length (stored s))), s') \<and>
       good s' \<and> stored s' = stored s"
    and all_stored:
    "good s \<Longrightarrow> \<exists>s'. p_all plugin s = (Inr (stored s), s') \<and> good s' \<and> stored s' = stored s"
    and stored_bound: "good s \<Longrightarrow> length (stored s) \<le> 2 ^ 63"
    and get_frame: "good s \<Longrightarrow> p_get plugin n s = (r, s') \<Longrightarrow> good s' \<and> stored s' = stored s"

text \<open>
  \<open>sqlite_db\<close> is what is relied on of SQLite and of the JSON codec. \<open>table_of\<close> reads a database
  as the rows (ID, HASH, JSON) of its table \<open>block\<close> in the order of the key. SQLite's integers are
  signed 64-bit values, hence the bound on the keys; whatever the key, a SELECT changes no row. The JSON text of a block must hold no quote,
  since it is pasted into the statement, and no NUL, since the statement is passed as a C string. The law of the INSERT
  leaves out SQLite's limit on the length of a statement (\<open>SQLITE_LIMIT_SQL_LENGTH\<close>): a block whose statement is longer is
  refused, and \<open>publish_blk_loses_on_sql_error\<close> (Node) says what the node does then.
\<close>

locale sqlite_db =
  fixes sq :: "'db sq_exec" and table_of :: "'db \<Rightarrow> (nat \<times> string \<times> string) list" and js :: json_codec
  assumes json_roundtrip: "json_from_string js (json_to_string js b) = Inr b"
    and json_quote_free: "CHR 0x27 \<notin> set (json_to_string js b)"
    and json_nul_free: "CHR 0x00 \<notin> set (json_to_string js b)"
    and insert_fresh:
    "unat n < 2 ^ 63 \<Longrightarrow> CHR 0x27 \<notin> set h \<Longrightarrow> CHR 0x27 \<notin> set j \<Longrightarrow> CHR 0x00 \<notin> set h \<Longrightarrow> CHR 0x00 \<notin> set j \<Longrightarrow>
     \<forall>r \<in> set (table_of d). fst r < unat n \<Longrightarrow>
     \<exists>d'. sq (insert_sql n h j) d = (True, [], d') \<and> table_of d' = table_of d @ [(unat n, h, j)]"
    and select_one:
    "unat n < 2 ^ 63 \<Longrightarrow>
     \<exists>d'. sq (select_sql n) d =
       (True, (case map_of (table_of d) (unat n) of None \<Rightarrow> [] | Some (h, j) \<Rightarrow> [[(''JSON'', Some j)]]), d')
       \<and> table_of d' = table_of d"
    and select_frame: "sq (select_sql n) d = (rc, rows, d') \<Longrightarrow> table_of d' = table_of d"
    and select_count:
    "\<exists>d'. sq count_sql d = (True, [[(''num'', Some (dec_string (length (table_of d))))]], d')
       \<and> table_of d' = table_of d"
    and select_all:
    "\<exists>d'. sq select_all_sql d = (True, map (\<lambda>(n, h, j). [(''JSON'', Some j)]) (table_of d), d')
       \<and> table_of d' = table_of d"

definition block_rows :: "json_codec \<Rightarrow> crypto \<Rightarrow> block list \<Rightarrow> (nat \<times> string \<times> string) list" where
  "block_rows js c bs =
     map (\<lambda>i. (i, sha256_str (block_digest c (bs ! i)), json_to_string js (bs ! i))) [0..<length bs]"

definition decoded :: "json_codec \<Rightarrow> (nat \<times> string \<times> string) list \<Rightarrow> block list" where
  "decoded js rs = concat (map (\<lambda>(n, h, j). case json_from_string js j of Inr b \<Rightarrow> [b] | Inl _ \<Rightarrow> []) rs)"

lemma block_rows_length [simp]: "length (block_rows js c bs) = length bs"
  by (simp add: block_rows_def)

lemma block_rows_snoc:
  "block_rows js c (bs @ [b]) =
     block_rows js c bs @ [(length bs, sha256_str (block_digest c b), json_to_string js b)]"
  by (simp add: block_rows_def nth_append)

lemma map_of_block_rows:
  "map_of (block_rows js c bs) n =
     (if n < length bs then Some (sha256_str (block_digest c (bs ! n)), json_to_string js (bs ! n)) else None)"
  by (induction bs rule: rev_induct)
     (auto simp: block_rows_snoc map_of_append map_add_def nth_append split: option.splits, simp add: block_rows_def)

lemma hex_digit_clean:
  assumes "unat v < 16"
  shows "hex_digit v \<noteq> CHR 0x27" "hex_digit v \<noteq> CHR 0x00"
proof -
  have "hex_digit v \<in> set ''0123456789abcdef''"
    using assms unfolding hex_digit_def by (intro nth_mem) simp
  then show "hex_digit v \<noteq> CHR 0x27" "hex_digit v \<noteq> CHR 0x00" by auto
qed

lemma sha256_str_clean: "CHR 0x27 \<notin> set (sha256_str h)" "CHR 0x00 \<notin> set (sha256_str h)"
proof -
  have "unat (drop_bit 4 c) < 16" for c :: u8
  proof -
    have "unat (drop_bit 4 c) = unat c div 2 ^ 4" by (simp only: unat_drop_bit_eq) (simp add: drop_bit_eq_div)
    moreover have "unat c < 256" using unsigned_less[of c, where 'a=nat] by simp
    ultimately show ?thesis by (simp add: less_mult_imp_div_less)
  qed
  moreover have "unat (c AND 0x0f) < 16" for c :: u8
  proof -
    have "(0x0f :: u8) = mask 4" by (simp add: mask_eq_exp_minus_1)
    then show ?thesis using and_mask_less'[of 4 c] by (simp add: word_less_nat_alt)
  qed
  ultimately show "CHR 0x27 \<notin> set (sha256_str h)" "CHR 0x00 \<notin> set (sha256_str h)"
    by (auto simp: sha256_str_def to_hex_def hex_digit_clean[THEN not_sym])
qed

definition good_store ::
  "json_codec \<Rightarrow> crypto \<Rightarrow> ('db \<Rightarrow> (nat \<times> string \<times> string) list) \<Rightarrow> 'db store \<Rightarrow> bool" where
  "good_store js c table_of st \<longleftrightarrow>
     (let rs = table_of (db st) in rs = block_rows js c (decoded js rs) \<and> length rs \<le> 2 ^ 63)"

definition stored_blocks :: "json_codec \<Rightarrow> ('db \<Rightarrow> (nat \<times> string \<times> string) list) \<Rightarrow> 'db store \<Rightarrow> block list" where
  "stored_blocks js table_of st = decoded js (table_of (db st))"

context sqlite_db
begin

lemma decoded_block_rows: "decoded js (block_rows js c bs) = bs"
  by (induction bs rule: rev_induct)
     (simp_all add: block_rows_snoc, simp_all add: decoded_def block_rows_def json_roundtrip)

lemma callback_rows:
  "each_row (get_block_callback js) (map (\<lambda>(n, h, j). [(''JSON'', Some j)]) (block_rows js c bs)) tmp
     = (Inr (), tmp @ bs)"
proof (induction bs arbitrary: tmp rule: rev_induct)
  case Nil
  show ?case by (simp add: block_rows_def)
next
  case (snoc b bs)
  have app: "each_row cb (rs @ rs') x =
      (case each_row cb rs x of (Inl e, x') \<Rightarrow> (Inl e, x') | (Inr _, x') \<Rightarrow> each_row cb rs' x')"
    for cb :: "row \<Rightarrow> block list \<Rightarrow> unit result \<times> block list" and rs rs' x
    by (induction rs arbitrary: x) (auto split: prod.splits sum.splits)
  show ?case by (simp add: block_rows_snoc app snoc.IH json_roundtrip)
qed

lemma good_storeE:
  assumes "good_store js c table_of st"
  shows "table_of (db st) = block_rows js c (stored_blocks js table_of st)"
    "length (stored_blocks js table_of st) \<le> 2 ^ 63"
  using assms by (auto simp: good_store_def stored_blocks_def Let_def dest: arg_cong[where f = length])

lemma good_storeI:
  assumes "table_of (db st) = block_rows js c bs" "length bs \<le> 2 ^ 63"
  shows "good_store js c table_of st" "stored_blocks js table_of st = bs"
  using assms by (simp_all add: good_store_def stored_blocks_def Let_def decoded_block_rows)

lemma sqlite_append_next:
  assumes "good_store js c table_of st" and "length (stored_blocks js table_of st) < 2 ^ 63"
    and num: "blk_num b = word_of_nat (length (stored_blocks js table_of st))"
  shows "\<exists>st'. append_block sq js c b st = (Inr (), st') \<and> good_store js c table_of st' \<and>
     stored_blocks js table_of st' = stored_blocks js table_of st @ [b]"
proof -
  let ?bs = "stored_blocks js table_of st"
  have n: "unat (blk_num b) = length ?bs"
    using assms(2) by (simp add: num unat_of_nat take_bit_nat_eq_self)
  have rows: "table_of (db st) = block_rows js c ?bs" by (rule good_storeE(1)[OF assms(1)])
  have "\<forall>r \<in> set (table_of (db st)). fst r < unat (blk_num b)"
    unfolding rows n by (auto simp: block_rows_def)
  from insert_fresh[OF _ sha256_str_clean(1) json_quote_free sha256_str_clean(2) json_nul_free this, of "block_digest c b" b] assms(2) n
  obtain d' where d': "sq (insert_sql (blk_num b) (sha256_str (block_digest c b)) (json_to_string js b)) (db st)
      = (True, [], d')" "table_of d' = block_rows js c (?bs @ [b])"
    by (auto simp: rows block_rows_snoc)
  have "append_block sq js c b st = (Inr (), st\<lparr>db := d'\<rparr>)"
    by (simp add: append_block_def d')
  with good_storeI[of "st\<lparr>db := d'\<rparr>" c "?bs @ [b]"] d'(2) assms(2) show ?thesis by auto
qed

lemma sqlite_get_stored:
  assumes "good_store js c table_of st" and "unat n < 2 ^ 63"
  shows "\<exists>st'. get_block sq js n st =
     (Inr (if unat n < length (stored_blocks js table_of st)
           then Some (stored_blocks js table_of st ! unat n) else None), st') \<and>
     good_store js c table_of st' \<and> stored_blocks js table_of st' = stored_blocks js table_of st"
proof -
  let ?bs = "stored_blocks js table_of st"
  have rows: "table_of (db st) = block_rows js c ?bs" by (rule good_storeE(1)[OF assms(1)])
  obtain d' where d': "sq (select_sql n) (db st) = (True, (case map_of (table_of (db st)) (unat n) of
        None \<Rightarrow> [] | Some (h, j) \<Rightarrow> [[(''JSON'', Some j)]]), d')" "table_of d' = block_rows js c ?bs"
    using select_one[OF assms(2), of "db st"] rows by auto
  have "\<exists>tmp. get_block sq js n st =
     (Inr (if unat n < length ?bs then Some (?bs ! unat n) else None), st\<lparr>db := d', tmp_blks := tmp\<rparr>)"
    by (auto simp: get_block_def d' rows map_of_block_rows json_roundtrip Let_def)
  then obtain tmp where "get_block sq js n st =
     (Inr (if unat n < length ?bs then Some (?bs ! unat n) else None), st\<lparr>db := d', tmp_blks := tmp\<rparr>)" ..
  with good_storeI[of "st\<lparr>db := d', tmp_blks := tmp\<rparr>" c ?bs] d'(2) good_storeE(2)[OF assms(1)]
  show ?thesis by auto
qed

lemma sqlite_count_stored:
  assumes "good_store js c table_of st"
  shows "\<exists>st'. get_block_count sq st = (Inr (word_of_nat (length (stored_blocks js table_of st))), st') \<and>
     good_store js c table_of st' \<and> stored_blocks js table_of st' = stored_blocks js table_of st"
proof -
  let ?bs = "stored_blocks js table_of st"
  have rows: "table_of (db st) = block_rows js c ?bs" by (rule good_storeE(1)[OF assms(1)])
  obtain d' where d': "sq count_sql (db st) = (True, [[(''num'', Some (dec_string (length ?bs)))]], d')"
      "table_of d' = block_rows js c ?bs"
    using select_count[of "db st"] rows by auto
  have "stream_to_u64 (dec_string (length ?bs)) = word_of_nat (length ?bs)"
    using good_storeE(2)[OF assms(1)] by (intro stream_to_u64_dec_string) simp
  then have "get_block_count sq st =
      (Inr (word_of_nat (length ?bs)), st\<lparr>db := d', blk_nums := word_of_nat (length ?bs)\<rparr>)"
    by (simp add: get_block_count_def d' Let_def)
  with good_storeI[of "st\<lparr>db := d', blk_nums := word_of_nat (length ?bs)\<rparr>" c ?bs] d'(2) good_storeE(2)[OF assms(1)]
  show ?thesis by auto
qed

lemma sqlite_all_stored:
  assumes "good_store js c table_of st"
  shows "\<exists>st'. get_all_blocks sq js st = (Inr (stored_blocks js table_of st), st') \<and>
     good_store js c table_of st' \<and> stored_blocks js table_of st' = stored_blocks js table_of st"
proof -
  let ?bs = "stored_blocks js table_of st"
  have rows: "table_of (db st) = block_rows js c ?bs" by (rule good_storeE(1)[OF assms(1)])
  obtain d' where d': "sq select_all_sql (db st)
        = (True, map (\<lambda>(n, h, j). [(''JSON'', Some j)]) (block_rows js c ?bs), d')"
      "table_of d' = block_rows js c ?bs"
    using select_all[of "db st"] rows by auto
  have "get_all_blocks sq js st = (Inr ?bs, st\<lparr>db := d', tmp_blks := ?bs\<rparr>)"
    by (simp add: get_all_blocks_def d' callback_rows)
  with good_storeI[of "st\<lparr>db := d', tmp_blks := ?bs\<rparr>" c ?bs] d'(2) good_storeE(2)[OF assms(1)]
  show ?thesis by auto
qed

lemma sqlite_get_frame:
  assumes "good_store js c table_of st" and "get_block sq js n st = (r, st')"
  shows "good_store js c table_of st' \<and> stored_blocks js table_of st' = stored_blocks js table_of st"
proof -
  obtain rc rows d' where q: "sq (select_sql n) (db st) = (rc, rows, d')" by (cases "sq (select_sql n) (db st)")
  then have "db st' = d'" using assms(2)
    by (auto simp: get_block_def Let_def split: prod.splits sum.splits)
  then show ?thesis using select_frame[OF q] assms(1) by (simp add: good_store_def stored_blocks_def)
qed

lemma is_block_store:
  "block_store (sqlite_plugin sq js c) (good_store js c table_of) (stored_blocks js table_of)"
  by unfold_locales
     (simp_all add: sqlite_plugin_def sqlite_append_next sqlite_get_stored sqlite_count_stored
       sqlite_all_stored sqlite_get_frame good_storeE(2)[simplified])

end

sublocale sqlite_db \<subseteq> plugin_store: block_store "sqlite_plugin sq js c" "good_store js c table_of"
  "stored_blocks js table_of" for c
  by (rule is_block_store)

end
