(* ===== verification/Base64.thy ===== *)
theory Base64
  imports Store
begin

text \<open>
  Base64 in libraries/fc/src/crypto/base64.cpp. A text is a list of characters, whose bytes are the
  C characters; the buffers \<open>char_array_3\<close> and \<open>char_array_4\<close> with their fill count \<open>i\<close> are the
  list of the elements filled so far.
\<close>

definition base64_chars :: string where
  "base64_chars = ''ABCDEFGHIJKLMNOPQRSTUVWXYZ'' @ ''abcdefghijklmnopqrstuvwxyz'' @ ''0123456789+/''"

text \<open>\<open>isalnum\<close> in the C locale.\<close>

definition is_alnum :: "char \<Rightarrow> bool" where
  "is_alnum c \<longleftrightarrow> (let n = of_char c :: nat in 48 \<le> n \<and> n \<le> 57 \<or> 65 \<le> n \<and> n \<le> 90 \<or> 97 \<le> n \<and> n \<le> 122)"

definition is_base64 :: "char \<Rightarrow> bool" where
  "is_base64 c \<longleftrightarrow> is_alnum c \<or> c = CHR ''+'' \<or> c = CHR ''/''"

section \<open>Encoding\<close>

definition encode_quad :: "u8 list \<Rightarrow> u8 list" where
  "encode_quad a = [drop_bit 2 (a ! 0 AND 0xfc),
     push_bit 4 (a ! 0 AND 0x03) + drop_bit 4 (a ! 1 AND 0xf0),
     push_bit 2 (a ! 1 AND 0x0f) + drop_bit 6 (a ! 2 AND 0xc0),
     a ! 2 AND 0x3f]"

definition base64_char :: "u8 \<Rightarrow> char" where
  "base64_char v = base64_chars ! unat v"

fun encode_loop :: "u8 list \<Rightarrow> u8 list \<Rightarrow> string \<times> u8 list" where
  "encode_loop a [] = ('''', a)"
| "encode_loop a (b # bs) =
     (let a = a @ [b]
      in if length a = 3
         then (let (ret, r) = encode_loop [] bs in (map base64_char (encode_quad a) @ ret, r))
         else encode_loop a bs)"

definition base64_encode :: "u8 list \<Rightarrow> string" where
  "base64_encode bytes_to_encode =
     (let (ret, a) = encode_loop [] bytes_to_encode; i = length a
      in if i \<noteq> 0
         then ret @ map base64_char (take (i + 1) (encode_quad (a @ replicate (3 - i) 0))) @ replicate (3 - i) (CHR ''='')
         else ret)"

section \<open>Decoding\<close>

text \<open>\<open>find\<close> gives \<open>npos\<close> for a character that is not there, 255 in an \<open>unsigned char\<close>.\<close>

definition base64_find :: "char \<Rightarrow> u8" where
  "base64_find c = (let n = length (takeWhile (\<lambda>x. x \<noteq> c) base64_chars) in if n < length base64_chars then word_of_nat n else 255)"

definition decode_triple :: "u8 list \<Rightarrow> u8 list" where
  "decode_triple a = [push_bit 2 (a ! 0) + drop_bit 4 (a ! 1 AND 0x30),
     push_bit 4 (a ! 1 AND 0x0f) + drop_bit 2 (a ! 2 AND 0x3c),
     push_bit 6 (a ! 2 AND 0x03) + a ! 3]"

fun decode_loop :: "char list \<Rightarrow> string \<Rightarrow> u8 list \<times> char list" where
  "decode_loop a [] = ([], a)"
| "decode_loop a (c # cs) =
     (if c \<noteq> CHR ''='' \<and> is_base64 c
      then (let a = a @ [c]
            in if length a = 4
               then (let (ret, r) = decode_loop [] cs in (decode_triple (map base64_find a) @ ret, r))
               else decode_loop a cs)
      else ([], a))"

definition base64_decode :: "string \<Rightarrow> u8 list" where
  "base64_decode encoded_string =
     (let (ret, a) = decode_loop [] encoded_string; i = length a
      in if i \<noteq> 0
         then ret @ take (i - 1) (decode_triple (map base64_find (a @ replicate (4 - i) (CHR 0x00))))
         else ret)"

section \<open>The round trip\<close>

lemma base64_alphabet:
  "\<forall>n \<in> set [0..<64]. let c = base64_chars ! n in base64_find c = word_of_nat n \<and> is_base64 c \<and> c \<noteq> CHR ''='' \<and>
     c \<noteq> CHR 0x27 \<and> c \<noteq> CHR 0x22 \<and> c \<noteq> CHR 0x5C \<and> 32 \<le> (of_char c :: nat)"
  by code_simp

lemma base64_char:
  assumes "v < 64"
  shows "base64_find (base64_char v) = v" "is_base64 (base64_char v)" "base64_char v \<noteq> CHR ''=''"
proof -
  have "unat v < 64" using assms by (simp add: word_less_nat_alt)
  then show "base64_find (base64_char v) = v" "is_base64 (base64_char v)" "base64_char v \<noteq> CHR ''=''"
    using base64_alphabet by (auto simp: base64_char_def Let_def)
qed

lemma masks:
  "(0xfc :: u8) = push_bit 2 (mask 6)" "(0x03 :: u8) = mask 2" "(0xf0 :: u8) = push_bit 4 (mask 4)" "(0x0f :: u8) = mask 4"
  "(0xc0 :: u8) = push_bit 6 (mask 2)" "(0x3f :: u8) = mask 6" "(0x30 :: u8) = push_bit 4 (mask 2)" "(0x3c :: u8) = push_bit 2 (mask 4)"
  by (simp_all add: mask_eq_exp_minus_1)

lemma no_bit: "8 \<le> n \<Longrightarrow> \<not> bit (x :: u8) n"
  using bit_imp_le_length by fastforce

lemma byte_eqI:
  assumes "bit a 0 = bit b 0" "bit a 1 = bit b 1" "bit a 2 = bit b 2" "bit a 3 = bit b 3"
    "bit a 4 = bit b 4" "bit a 5 = bit b 5" "bit a 6 = bit b 6" "bit a 7 = bit b 7"
  shows "a = (b :: u8)"
proof (rule bit_word_eqI)
  fix n assume "n < LENGTH(8)"
  then have "n \<in> {0, 1, 2, 3, 4, 5, 6, 7}" by auto
  then show "bit a n = bit b n" using assms by auto
qed

lemma encode_quad_or:
  "encode_quad [x, y, z] = [drop_bit 2 x, push_bit 4 (x AND mask 2) OR drop_bit 4 y, push_bit 2 (y AND mask 4) OR drop_bit 6 z, z AND mask 6]"
proof -
  have "push_bit 4 (x AND mask 2) + drop_bit 4 (y AND push_bit 4 (mask 4)) = push_bit 4 (x AND mask 2) OR drop_bit 4 (y AND push_bit 4 (mask 4))"
    "push_bit 2 (y AND mask 4) + drop_bit 6 (z AND push_bit 6 (mask 2)) = push_bit 2 (y AND mask 4) OR drop_bit 6 (z AND push_bit 6 (mask 2))"
    by (rule disjunctive_add, auto simp: bit_simps)+
  moreover have "drop_bit 2 (x AND push_bit 2 (mask 6)) = drop_bit 2 x" "drop_bit 4 (y AND push_bit 4 (mask 4)) = drop_bit 4 y"
    "drop_bit 6 (z AND push_bit 6 (mask 2)) = drop_bit 6 z"
    by (rule byte_eqI; simp add: bit_simps no_bit)+
  ultimately show ?thesis by (simp add: encode_quad_def masks)
qed

lemma small_word:
  assumes "\<not> bit v 6" "\<not> bit v 7"
  shows "(v :: u8) < 64"
proof -
  have "v = take_bit 6 v" using assms by (intro byte_eqI) (simp_all add: bit_take_bit_iff)
  then have "uint v = take_bit 6 (uint v)" by (metis unsigned_take_bit_eq)
  then have "uint v < 2 ^ 6" by (metis take_bit_int_less_exp)
  then show ?thesis by (simp add: word_less_def)
qed

lemma encode_quad_small: "\<forall>v \<in> set (encode_quad [x, y, z]). v < 64"
  unfolding encode_quad_or by (auto intro!: small_word simp: bit_simps no_bit)

lemma decode_encode_triple: "decode_triple (encode_quad [x, y, z]) = [x, y, z]"
proof -
  have d: "decode_triple [p, q, r, t] = [push_bit 2 p + drop_bit 4 (q AND push_bit 4 (mask 2)),
     push_bit 4 (q AND mask 4) + drop_bit 2 (r AND push_bit 2 (mask 4)), push_bit 6 (r AND mask 2) + t]" for p q r t :: u8
    by (simp add: decode_triple_def masks)
  let ?p = "drop_bit 2 x" and ?q = "push_bit 4 (x AND mask 2) OR drop_bit 4 y" and ?r = "push_bit 2 (y AND mask 4) OR drop_bit 6 z"
    and ?t = "z AND mask 6"
  have "push_bit 2 ?p + drop_bit 4 (?q AND push_bit 4 (mask 2)) = push_bit 2 ?p OR drop_bit 4 (?q AND push_bit 4 (mask 2))"
    "push_bit 4 (?q AND mask 4) + drop_bit 2 (?r AND push_bit 2 (mask 4)) = push_bit 4 (?q AND mask 4) OR drop_bit 2 (?r AND push_bit 2 (mask 4))"
    "push_bit 6 (?r AND mask 2) + ?t = push_bit 6 (?r AND mask 2) OR ?t"
    by (rule disjunctive_add, auto simp: bit_simps)+
  moreover have "push_bit 2 ?p OR drop_bit 4 (?q AND push_bit 4 (mask 2)) = x"
    "push_bit 4 (?q AND mask 4) OR drop_bit 2 (?r AND push_bit 2 (mask 4)) = y"
    "push_bit 6 (?r AND mask 2) OR ?t = z"
    by (rule byte_eqI; simp add: bit_simps no_bit)+
  ultimately show ?thesis unfolding encode_quad_or d by simp
qed

lemma encode_loop_step: "encode_loop [] (x # y # z # bs) =
    (let (ret, r) = encode_loop [] bs in (map base64_char (encode_quad [x, y, z]) @ ret, r))"
  by simp

lemma decode_loop_step:
  assumes "\<forall>c \<in> {a, b, c, d}. c \<noteq> CHR ''='' \<and> is_base64 c"
  shows "decode_loop [] (a # b # c # d # cs) = (let (ret, r) = decode_loop [] cs in (decode_triple (map base64_find [a, b, c, d]) @ ret, r))"
  using assms by simp

lemma encode_quad_length: "length (encode_quad a) = 4"
  by (simp add: encode_quad_def)

lemma four: "length xs = 4 \<Longrightarrow> \<exists>a b c d. xs = [a, b, c, d]"
  by (simp add: eval_nat_numeral length_Suc_conv) blast

lemma map_find_char: "\<forall>v \<in> set vs. v < 64 \<Longrightarrow> map base64_find (map base64_char vs) = vs"
  by (induction vs) (simp_all add: base64_char)

lemma decode_quad:
  "decode_loop [] (map base64_char (encode_quad [x, y, z]) @ cs) = (let (ret, r) = decode_loop [] cs in ([x, y, z] @ ret, r))"
proof -
  obtain a b c d where q: "encode_quad [x, y, z] = [a, b, c, d]" using four[OF encode_quad_length] by blast
  have s: "\<forall>v \<in> {a, b, c, d}. v < 64" using encode_quad_small[of x y z] q by simp
  have "decode_triple (map base64_find (map base64_char (encode_quad [x, y, z]))) = [x, y, z]"
    by (simp only: map_find_char[OF encode_quad_small] decode_encode_triple)
  then show ?thesis using s unfolding q by (simp only: list.map append_Cons append_Nil) (subst decode_loop_step, auto simp: base64_char)
qed

text \<open>The last, incomplete group: one or two bytes.\<close>

lemma decode_loop_short:
  "\<forall>v \<in> set vs. v < 64 \<Longrightarrow> length a + length vs < 4 \<Longrightarrow>
    decode_loop a (map base64_char vs @ CHR ''='' # cs) = ([], a @ map base64_char vs)"
  by (induction vs arbitrary: a) (simp_all add: base64_char)

lemma decode_triple_take:
  "take 1 (decode_triple [a, b, c, d]) = take 1 (decode_triple [a, b, c', d'])"
  "take 2 (decode_triple [a, b, c, d]) = take 2 (decode_triple [a, b, c, d'])"
  by (simp_all add: decode_triple_def numeral_2_eq_2)

lemma decode_tail:
  assumes "r = [x] \<or> r = [x, y]"
  shows "base64_decode (map base64_char (take (length r + 1) (encode_quad (r @ replicate (3 - length r) 0))) @ CHR ''='' # cs) = r"
proof -
  define z where "z = (if r = [x] then 0 else y)"
  have r3: "r @ replicate (3 - length r) 0 = [x, z, 0]" using assms by (auto simp: z_def numeral_2_eq_2)
  obtain a b c d where q: "encode_quad [x, z, 0] = [a, b, c, d]" using four[OF encode_quad_length] by blast
  have s: "\<forall>v \<in> {a, b, c, d}. v < 64" using encode_quad_small[of x z 0] q by simp
  have t: "decode_triple [a, b, c, d] = [x, z, 0]" using decode_encode_triple[of x z 0] q by simp
  define vs where "vs = take (length r + 1) [a, b, c, d]"
  have vs: "vs = (if r = [x] then [a, b] else [a, b, c])" using assms by (auto simp: vs_def numeral_2_eq_2)
  have "decode_loop [] (map base64_char vs @ CHR ''='' # cs) = ([], map base64_char vs)"
    using decode_loop_short[of vs "[]" cs] s by (simp add: vs)
  moreover have "map base64_find (map base64_char vs) = vs" using s by (intro map_find_char) (simp add: vs)
  ultimately have "base64_decode (map base64_char vs @ CHR ''='' # cs) =
      take (length vs - 1) (decode_triple (vs @ replicate (4 - length vs) (base64_find (CHR 0x00))))"
    using s by (simp add: base64_decode_def Let_def vs)
  also have "\<dots> = r"
  proof (cases "r = [x]")
    case True
    then show ?thesis using decode_triple_take(1)[of a b _ _ c d] t by (simp add: vs numeral_2_eq_2)
  next
    case False
    then show ?thesis using decode_triple_take(2)[of a b c _ d] t assms by (auto simp: vs numeral_2_eq_2 z_def)
  qed
  finally show ?thesis unfolding r3 q vs_def .
qed

lemma base64_decode_quad:
  "base64_decode (map base64_char (encode_quad [x, y, z]) @ cs) = [x, y, z] @ base64_decode cs"
  by (auto simp: base64_decode_def decode_quad Let_def split: prod.splits)

lemma base64_encode_quad: "base64_encode (x # y # z # bs) = map base64_char (encode_quad [x, y, z]) @ base64_encode bs"
  unfolding base64_encode_def encode_loop_step by (simp add: Let_def split: prod.splits)

lemma base64_decode_encode: "base64_decode (base64_encode bs @ ts) = bs" if "ts = [] \<or> hd ts = CHR ''=''"
proof (induction "length bs" arbitrary: bs rule: less_induct)
  case less
  consider "bs = []" | x where "bs = [x]" | x y where "bs = [x, y]" | x y z cs where "bs = x # y # z # cs"
    by (metis list.exhaust)
  then show ?case
  proof cases
    case 1
    then show ?thesis using that by (cases ts) (simp_all add: base64_encode_def base64_decode_def)
  next
    case 2
    then show ?thesis using decode_tail[of "[x]" x undefined "CHR ''='' # ts"] by (simp add: base64_encode_def numeral_2_eq_2)
  next
    case 3
    then show ?thesis using decode_tail[of "[x, y]" x y ts] by (simp add: base64_encode_def)
  next
    case 4
    then show ?thesis using less[of cs] by (simp add: base64_encode_quad base64_decode_quad)
  qed
qed

end
