(* ===== verification/Variant.thy ===== *)
theory Variant
  imports Base64
begin

text \<open>
  Dynamic values of libraries/fc: \<open>fc::variant\<close> (variant.cpp), \<open>fc::variant_object\<close>
  (variant_object.cpp) and the conversions of the types that a block is made of.

  A string is a list of characters, which stand for the bytes of \<open>std::string\<close>. A \<open>double\<close> is its 64 bits.
  The conversions between numbers and texts are calls of boost::lexical_cast and of the floating point
  hardware: they are the fields of \<open>lexical\<close>, an argument of the operations that use them.
\<close>

record lexical =
  lex_int64 :: "string \<Rightarrow> u64 option"
  lex_uint64 :: "string \<Rightarrow> u64 option"
  lex_double :: "string \<Rightarrow> u64 option"
  str_int64 :: "u64 \<Rightarrow> string"
  str_uint64 :: "u64 \<Rightarrow> string"
  str_double :: "u64 \<Rightarrow> string"
  double_to_int64 :: "u64 \<Rightarrow> u64"
  double_to_uint64 :: "u64 \<Rightarrow> u64"
  double_of_int64 :: "u64 \<Rightarrow> u64"
  double_of_uint64 :: "u64 \<Rightarrow> u64"
  double_eq :: "u64 \<Rightarrow> u64 \<Rightarrow> bool"
  double_less :: "u64 \<Rightarrow> u64 \<Rightarrow> bool"

section \<open>Values\<close>

text \<open>The payload of an \<open>int64_type\<close> is the 64-bit word whose signed reading is the number.\<close>

datatype variant =
    V_null
  | V_int64 u64
  | V_uint64 u64
  | V_double u64
  | V_bool bool
  | V_string string
  | V_array "variant list"
  | V_object "(string \<times> variant) list"
  | V_blob "u8 list"

type_synonym variant_object = "(string \<times> variant) list"

definition is_string :: "variant \<Rightarrow> bool" where
  "is_string v = (case v of V_string _ \<Rightarrow> True | _ \<Rightarrow> False)"

definition is_double :: "variant \<Rightarrow> bool" where
  "is_double v = (case v of V_double _ \<Rightarrow> True | _ \<Rightarrow> False)"

definition is_uint64 :: "variant \<Rightarrow> bool" where
  "is_uint64 v = (case v of V_uint64 _ \<Rightarrow> True | _ \<Rightarrow> False)"

definition is_int64 :: "variant \<Rightarrow> bool" where
  "is_int64 v = (case v of V_int64 _ \<Rightarrow> True | _ \<Rightarrow> False)"

definition is_integer :: "variant \<Rightarrow> bool" where
  "is_integer v = (case v of V_int64 _ \<Rightarrow> True | V_uint64 _ \<Rightarrow> True | V_bool _ \<Rightarrow> True | _ \<Rightarrow> False)"

definition is_numeric :: "variant \<Rightarrow> bool" where
  "is_numeric v = (case v of V_int64 _ \<Rightarrow> True | V_uint64 _ \<Rightarrow> True | V_double _ \<Rightarrow> True | V_bool _ \<Rightarrow> True | _ \<Rightarrow> False)"

definition is_array :: "variant \<Rightarrow> bool" where
  "is_array v = (case v of V_array _ \<Rightarrow> True | _ \<Rightarrow> False)"

section \<open>Conversions\<close>

text \<open>string.cpp: a bad cast becomes a parse error.\<close>

definition to_int64 :: "lexical \<Rightarrow> string \<Rightarrow> u64 result" where
  "to_int64 lx i = (case lex_int64 lx i of None \<Rightarrow> Inl Parse_Error_Exception | Some n \<Rightarrow> Inr n)"

definition to_uint64 :: "lexical \<Rightarrow> string \<Rightarrow> u64 result" where
  "to_uint64 lx i = (case lex_uint64 lx i of None \<Rightarrow> Inl Parse_Error_Exception | Some n \<Rightarrow> Inr n)"

definition to_double :: "lexical \<Rightarrow> string \<Rightarrow> u64 result" where
  "to_double lx i = (case lex_double lx i of None \<Rightarrow> Inl Parse_Error_Exception | Some n \<Rightarrow> Inr n)"

definition as_int64 :: "lexical \<Rightarrow> variant \<Rightarrow> u64 result" where
  "as_int64 lx v =
     (case v of
        V_string t \<Rightarrow> to_int64 lx t
      | V_double d \<Rightarrow> Inr (double_to_int64 lx d)
      | V_int64 i \<Rightarrow> Inr i
      | V_uint64 u \<Rightarrow> Inr u
      | V_bool b \<Rightarrow> Inr (if b then 1 else 0)
      | V_null \<Rightarrow> Inr 0
      | _ \<Rightarrow> Inl Bad_Cast_Exception)"

definition as_uint64 :: "lexical \<Rightarrow> variant \<Rightarrow> u64 result" where
  "as_uint64 lx v =
     (case v of
        V_string t \<Rightarrow> to_uint64 lx t
      | V_double d \<Rightarrow> Inr (double_to_uint64 lx d)
      | V_int64 i \<Rightarrow> Inr i
      | V_uint64 u \<Rightarrow> Inr u
      | V_bool b \<Rightarrow> Inr (if b then 1 else 0)
      | V_null \<Rightarrow> Inr 0
      | _ \<Rightarrow> Inl Bad_Cast_Exception)"

definition as_double :: "lexical \<Rightarrow> variant \<Rightarrow> u64 result" where
  "as_double lx v =
     (case v of
        V_string t \<Rightarrow> to_double lx t
      | V_double d \<Rightarrow> Inr d
      | V_int64 i \<Rightarrow> Inr (double_of_int64 lx i)
      | V_uint64 u \<Rightarrow> Inr (double_of_uint64 lx u)
      | V_bool b \<Rightarrow> Inr (double_of_uint64 lx (if b then 1 else 0))
      | V_null \<Rightarrow> Inr (double_of_uint64 lx 0)
      | _ \<Rightarrow> Inl Bad_Cast_Exception)"

definition as_bool :: "lexical \<Rightarrow> variant \<Rightarrow> bool result" where
  "as_bool lx v =
     (case v of
        V_string t \<Rightarrow> if t = ''true'' then Inr True else if t = ''false'' then Inr False else Inl Bad_Cast_Exception
      | V_double d \<Rightarrow> Inr (\<not> double_eq lx d (double_of_uint64 lx 0))
      | V_int64 i \<Rightarrow> Inr (i \<noteq> 0)
      | V_uint64 u \<Rightarrow> Inr (u \<noteq> 0)
      | V_bool b \<Rightarrow> Inr b
      | V_null \<Rightarrow> Inr False
      | _ \<Rightarrow> Inl Bad_Cast_Exception)"

definition as_string :: "lexical \<Rightarrow> variant \<Rightarrow> string result" where
  "as_string lx v =
     (case v of
        V_string t \<Rightarrow> Inr t
      | V_double d \<Rightarrow> Inr (str_double lx d)
      | V_int64 i \<Rightarrow> Inr (str_int64 lx i)
      | V_uint64 u \<Rightarrow> Inr (str_uint64 lx u)
      | V_bool b \<Rightarrow> Inr (if b then ''true'' else ''false'')
      | V_blob d \<Rightarrow> Inr (if length d \<noteq> 0 then base64_encode d @ ''='' else '''')
      | V_null \<Rightarrow> Inr ''''
      | _ \<Rightarrow> Inl Bad_Cast_Exception)"

definition get_array :: "variant \<Rightarrow> variant list result" where
  "get_array v = (case v of V_array a \<Rightarrow> Inr a | _ \<Rightarrow> Inl Bad_Cast_Exception)"

definition get_object :: "variant \<Rightarrow> variant_object result" where
  "get_object v = (case v of V_object obj \<Rightarrow> Inr obj | _ \<Rightarrow> Inl Bad_Cast_Exception)"

definition get_string :: "variant \<Rightarrow> string result" where
  "get_string v = (case v of V_string t \<Rightarrow> Inr t | _ \<Rightarrow> Inl Bad_Cast_Exception)"

text \<open>
  The bytes of a number are the 8 bytes of its payload and of the bytes behind it that \<open>sizeof(_data)\<close>
  covers; they are the argument \<open>memory\<close>.
\<close>

definition as_blob :: "(variant \<Rightarrow> u8 list) \<Rightarrow> variant \<Rightarrow> u8 list result" where
  "as_blob memory v =
     (case v of
        V_null \<Rightarrow> Inr []
      | V_blob d \<Rightarrow> Inr d
      | V_string str \<Rightarrow>
          Inr (if length str = 0 then []
               else if last str = CHR ''='' then base64_decode str
               else map of_char str)
      | V_object _ \<Rightarrow> Inl Bad_Cast_Exception
      | V_array _ \<Rightarrow> Inl Bad_Cast_Exception
      | _ \<Rightarrow> Inr (memory v))"

section \<open>Comparisons\<close>

text \<open>
  The two sides of a comparison are converted from left to right (C++ leaves the order open; it only
  matters for which of two exceptions is thrown).
\<close>

definition both :: "('v \<Rightarrow> 'a result) \<Rightarrow> ('a \<Rightarrow> 'a \<Rightarrow> 'b result) \<Rightarrow> 'v \<Rightarrow> 'v \<Rightarrow> 'b result" where
  "both conv cmp a b =
     (case conv a of Inl e \<Rightarrow> Inl e | Inr x \<Rightarrow> (case conv b of Inl e \<Rightarrow> Inl e | Inr y \<Rightarrow> cmp x y))"

fun string_less :: "string \<Rightarrow> string \<Rightarrow> bool" where
  "string_less _ [] = False"
| "string_less [] (_ # _) = True"
| "string_less (a # as) (b # bs) = ((of_char a :: nat) < of_char b \<or> a = b \<and> string_less as bs)"

text \<open>
  \<open>operator ==\<close> and the comparison of vectors that it uses: the sizes first, then the elements until two
  differ.
\<close>

fun variant_eq :: "lexical \<Rightarrow> variant \<Rightarrow> variant \<Rightarrow> bool result"
  and variants_eq :: "lexical \<Rightarrow> variant list \<Rightarrow> variant list \<Rightarrow> bool result" where
  "variant_eq lx a b =
     (if is_string a \<or> is_string b then both (as_string lx) (\<lambda>x y. Inr (x = y)) a b
      else if is_double a \<or> is_double b then both (as_double lx) (\<lambda>x y. Inr (double_eq lx x y)) a b
      else if is_int64 a \<or> is_int64 b then both (as_int64 lx) (\<lambda>x y. Inr (x = y)) a b
      else if is_uint64 a \<or> is_uint64 b then both (as_uint64 lx) (\<lambda>x y. Inr (x = y)) a b
      else
        (case a of
           V_array as \<Rightarrow>
             (case b of
                V_array bs \<Rightarrow> if length as = length bs then variants_eq lx as bs else Inr False
              | _ \<Rightarrow> Inl Bad_Cast_Exception)
         | _ \<Rightarrow> if is_array b then Inl Bad_Cast_Exception else Inr False))"
| "variants_eq lx (a # as) (b # bs) =
     (case variant_eq lx a b of Inl e \<Rightarrow> Inl e | Inr t \<Rightarrow> if t then variants_eq lx as bs else Inr False)"
| "variants_eq lx [] bs = Inr True"
| "variants_eq lx (a # as) [] = Inr True"

definition variant_neq :: "lexical \<Rightarrow> variant \<Rightarrow> variant \<Rightarrow> bool result" where
  "variant_neq lx a b = map_sum id Not (variant_eq lx a b)"

definition variant_not :: "lexical \<Rightarrow> variant \<Rightarrow> bool result" where
  "variant_not lx a = map_sum id Not (as_bool lx a)"

definition variant_less :: "lexical \<Rightarrow> variant \<Rightarrow> variant \<Rightarrow> bool result" where
  "variant_less lx a b =
     (if is_string a \<or> is_string b then both (as_string lx) (\<lambda>x y. Inr (string_less x y)) a b
      else if is_double a \<or> is_double b then both (as_double lx) (\<lambda>x y. Inr (double_less lx x y)) a b
      else if is_int64 a \<or> is_int64 b then both (as_int64 lx) (\<lambda>x y. Inr (sint x < sint y)) a b
      else if is_uint64 a \<or> is_uint64 b then both (as_uint64 lx) (\<lambda>x y. Inr (x < y)) a b
      else Inl Assert_Exception)"

definition variant_greater :: "lexical \<Rightarrow> variant \<Rightarrow> variant \<Rightarrow> bool result" where
  "variant_greater lx a b =
     (if is_string a \<or> is_string b then both (as_string lx) (\<lambda>x y. Inr (string_less y x)) a b
      else if is_double a \<or> is_double b then both (as_double lx) (\<lambda>x y. Inr (double_less lx y x)) a b
      else if is_int64 a \<or> is_int64 b then both (as_int64 lx) (\<lambda>x y. Inr (sint y < sint x)) a b
      else if is_uint64 a \<or> is_uint64 b then both (as_uint64 lx) (\<lambda>x y. Inr (y < x)) a b
      else Inl Assert_Exception)"

section \<open>Objects\<close>

text \<open>The C string of a text: what is before its first NUL.\<close>

definition c_str :: "string \<Rightarrow> string" where
  "c_str t = takeWhile (\<lambda>c. c \<noteq> CHR 0x00) t"

lemma c_str_id [simp]: "CHR 0x00 \<notin> set t \<Longrightarrow> c_str t = t"
  by (auto simp: c_str_def takeWhile_eq_all_conv)

text \<open>
  An object is the vector of its entries; \<open>find\<close> gives an iterator, here the index of the entry, which
  is the length for \<open>end()\<close>. It has its key as a C string, also where the caller has a \<open>string\<close>: the entries are
  compared with the part before the first NUL.
\<close>

fun find_entry :: "variant_object \<Rightarrow> string \<Rightarrow> nat" where
  "find_entry [] key = 0"
| "find_entry ((k, v) # es) key = (if k = key then 0 else Suc (find_entry es key))"

definition find_key :: "variant_object \<Rightarrow> string \<Rightarrow> nat" where
  "find_key es key = find_entry es (c_str key)"

definition object_at :: "variant_object \<Rightarrow> string \<Rightarrow> variant result" where
  "object_at es key =
     (let itr = find_key es key in if itr \<noteq> length es then Inr (snd (es ! itr)) else Inl Key_Not_Found_Exception)"

text \<open>
  \<open>operator[]\<close> of a mutable object inserts a null value under the C string: the object afterwards and the position.
\<close>

definition mutable_at :: "variant_object \<Rightarrow> string \<Rightarrow> variant_object \<times> nat" where
  "mutable_at es key =
     (let itr = find_key es key in if itr \<noteq> length es then (es, itr) else (es @ [(c_str key, V_null)], length es))"

fun erase_key :: "variant_object \<Rightarrow> string \<Rightarrow> variant_object" where
  "erase_key [] key = []"
| "erase_key ((k, v) # es) key = (if k = key then es else (k, v) # erase_key es key)"

definition set_key :: "variant_object \<Rightarrow> string \<Rightarrow> variant \<Rightarrow> variant_object" where
  "set_key es key var =
     (let itr = find_key es key
      in if itr \<noteq> length es then es[itr := (fst (es ! itr), var)] else es @ [(key, var)])"

definition append_key :: "variant_object \<Rightarrow> string \<Rightarrow> variant \<Rightarrow> variant_object" where
  "append_key es key var = es @ [(key, var)]"

definition set_keys :: "variant_object \<Rightarrow> variant_object \<Rightarrow> variant_object" where
  "set_keys es vo = foldl (\<lambda>es (k, v). set_key es k v) es vo"

section \<open>Conversions of types\<close>

definition to_variant_u64 :: "u64 \<Rightarrow> variant" where
  "to_variant_u64 n = V_uint64 n"

definition from_variant_u64 :: "lexical \<Rightarrow> variant \<Rightarrow> u64 result" where
  "from_variant_u64 lx v = as_uint64 lx v"

definition from_hex_char :: "char \<Rightarrow> u8 result" where
  "from_hex_char c =
     (let n = of_char c :: nat
      in if 48 \<le> n \<and> n \<le> 57 then Inr (word_of_nat (n - 48))
         else if 97 \<le> n \<and> n \<le> 102 then Inr (word_of_nat (n - 97 + 10))
         else if 65 \<le> n \<and> n \<le> 70 then Inr (word_of_nat (n - 65 + 10))
         else Inl Unspecified_Exception)"

text \<open>The bytes written, at most \<open>out_data_len\<close>; what the function returns is their number.\<close>

fun from_hex :: "string \<Rightarrow> nat \<Rightarrow> u8 list result" where
  "from_hex [] n = Inr []"
| "from_hex (c # cs) 0 = Inr []"
| "from_hex [c] (Suc n) = (case from_hex_char c of Inl e \<Rightarrow> Inl e | Inr x \<Rightarrow> Inr [push_bit 4 x])"
| "from_hex (c # d # cs) (Suc n) =
     (case from_hex_char c of Inl e \<Rightarrow> Inl e
      | Inr x \<Rightarrow> (case from_hex_char d of Inl e \<Rightarrow> Inl e
      | Inr y \<Rightarrow> (case from_hex cs n of Inl e \<Rightarrow> Inl e
      | Inr bs \<Rightarrow> Inr ((push_bit 4 x OR y) # bs))))"

definition to_variant_bytes :: "u8 list \<Rightarrow> variant" where
  "to_variant_bytes var = (if length var \<noteq> 0 then V_string (to_hex var) else V_string [])"

definition from_variant_bytes :: "lexical \<Rightarrow> variant \<Rightarrow> u8 list result" where
  "from_variant_bytes lx var =
     (case as_string lx var of Inl e \<Rightarrow> Inl e
      | Inr str \<Rightarrow>
          (let n = length str div 2
           in if n \<noteq> 0
              then (case from_hex str n of Inl e \<Rightarrow> Inl e | Inr bs \<Rightarrow> if length bs = n then Inr bs else Inl Assert_Exception)
              else Inr []))"

section \<open>Lemmas\<close>

lemma hex_digits:
  "\<forall>n \<in> set [0..<16]. let c = ''0123456789abcdef'' ! n in from_hex_char c = Inr (word_of_nat n) \<and> is_alnum c"
  by code_simp

lemma hex_digit_read:
  assumes "v < 16"
  shows "from_hex_char (hex_digit v) = Inr v" "is_alnum (hex_digit v)"
proof -
  have "unat v < 16" using assms by (simp add: word_less_nat_alt)
  then show "from_hex_char (hex_digit v) = Inr v" "is_alnum (hex_digit v)"
    using hex_digits by (auto simp: hex_digit_def Let_def)
qed

lemma nibbles: "drop_bit 4 c < 16" "c AND 0x0f < 16" "push_bit 4 (drop_bit 4 c) OR (c AND 0x0f) = (c :: u8)"
proof -
  show "drop_bit 4 c < 16" by (simp add: word_less_def uint_drop_bit_div) (use uint_lt2p[of c] in \<open>simp\<close>)
  have "uint (c AND mask 4) < 16" by (simp add: uint_and_mask_mod)
  then show "c AND 0x0f < 16" by (simp add: word_less_def mask_eq_exp_minus_1)
  show "push_bit 4 (drop_bit 4 c) OR (c AND 0x0f) = c" unfolding masks by (rule byte_eqI; simp add: bit_simps no_bit)
qed

lemma from_hex_to_hex: "from_hex (to_hex bs) (length bs) = Inr bs"
proof (induction bs)
  case (Cons b bs)
  then show ?case using nibbles[of b] by (simp add: to_hex_def hex_digit_read)
qed (simp add: to_hex_def)

lemma length_to_hex: "length (to_hex bs) = 2 * length bs"
  by (induction bs) (simp_all add: to_hex_def)

lemma to_hex_chars: "\<forall>c \<in> set (to_hex bs). is_alnum c"
  using nibbles by (induction bs) (auto simp: to_hex_def hex_digit_read)

lemma bytes_variant_roundtrip: "from_variant_bytes lx (to_variant_bytes bs) = Inr bs"
  using from_hex_to_hex[of bs]
  by (cases bs) (simp_all add: from_variant_bytes_def to_variant_bytes_def as_string_def length_to_hex)

lemma blob_text_roundtrip:
  assumes "as_string lx (V_blob d) = Inr t"
  shows "as_blob memory (V_string t) = Inr d"
proof (cases "d = []")
  case False
  then have "t = base64_encode d @ [CHR ''='']" using assms by (simp add: as_string_def)
  then show ?thesis using base64_decode_encode[of "[CHR ''='']" d] by (simp add: as_blob_def)
qed (use assms in \<open>simp add: as_string_def as_blob_def\<close>)

lemma find_entry_map_of:
  "find_entry es key \<noteq> length es \<longleftrightarrow> map_of es key \<noteq> None"
  "map_of es key = Some v \<Longrightarrow> find_entry es key < length es \<and> fst (es ! find_entry es key) = key \<and> snd (es ! find_entry es key) = v"
  by (induction es key rule: find_entry.induct) (auto split: if_splits)

lemma object_at_map_of:
  "object_at es key = (case map_of es (c_str key) of None \<Rightarrow> Inl Key_Not_Found_Exception | Some v \<Rightarrow> Inr v)"
  using find_entry_map_of[of es "c_str key"] by (auto simp: object_at_def find_key_def Let_def split: option.splits)

lemma map_of_set_entry:
  "map_of (let itr = find_entry es key in if itr \<noteq> length es then es[itr := (fst (es ! itr), v)] else es @ [(key, v)])
    = (map_of es)(key \<mapsto> v)"
  by (induction es key rule: find_entry.induct) (auto simp: Let_def)

lemma map_of_set_key: "CHR 0x00 \<notin> set key \<Longrightarrow> map_of (set_key es key v) = (map_of es)(key \<mapsto> v)"
  using map_of_set_entry[of es key v] by (simp add: set_key_def find_key_def)

end
