(* ===== verification/Json.thy ===== *)
theory Json
  imports Variant
begin

text \<open>
  The JSON text of variants: libraries/fc/src/io/json.cpp, the printer \<open>to_stream\<close> and the legacy
  parser (\<open>legacy_parser\<close>, the default, and \<open>legacy_parser_with_string_doubles\<close>) over a
  \<open>std::stringstream\<close>.

  The stream is the list of the characters that are left. At its end \<open>peek\<close> and \<open>get\<close> give EOF, which is
  -1, and a \<open>char\<close> made of it has the bits 0xFF. A parser returns the exception, or the value and the rest
  of the stream. Values, objects and arrays are parsed by mutual recursion with fuel; None stands for
  fuel that has run out, and Json_Spec shows how much is enough.
\<close>

datatype legacy_type = legacy_parser | legacy_parser_with_string_doubles

datatype output_formatting = stringify_large_ints_and_doubles | legacy_generator

type_synonym 'a parsed = "('a \<times> string) result"

section \<open>Printing\<close>

definition backslash :: char where
  "backslash = CHR 0x5C"

definition quote :: char where
  "quote = CHR 0x22"

definition escape_char :: "char \<Rightarrow> string" where
  "escape_char c =
     (if c = CHR 0x08 then [backslash, CHR ''b'']
      else if c = CHR 0x0C then [backslash, CHR ''f'']
      else if c = CHR 0x0A then [backslash, CHR ''n'']
      else if c = CHR 0x0D then [backslash, CHR ''r'']
      else if c = CHR 0x09 then [backslash, CHR ''t'']
      else if c = backslash then [backslash, backslash]
      else if c = quote then [backslash, quote]
      else if (of_char c :: nat) \<le> 0x1f
      then [backslash, CHR ''u'', CHR ''0'', CHR ''0'', hex_digit (drop_bit 4 (of_char c)), hex_digit (of_char c AND 0x0f)]
      else [c])"

definition escape_string :: "string \<Rightarrow> string" where
  "escape_string str = quote # concat (map escape_char str) @ [quote]"

definition dec_int :: "u64 \<Rightarrow> string" where
  "dec_int i = (if sint i < 0 then CHR ''-'' # dec_string (nat (- sint i)) else dec_string (nat (sint i)))"

fun to_stream :: "lexical \<Rightarrow> output_formatting \<Rightarrow> variant \<Rightarrow> string"
  and to_stream_items :: "lexical \<Rightarrow> output_formatting \<Rightarrow> variant list \<Rightarrow> string"
  and to_stream_entries :: "lexical \<Rightarrow> output_formatting \<Rightarrow> variant_object \<Rightarrow> string" where
  "to_stream lx format V_null = ''null''"
| "to_stream lx format (V_int64 i) =
     (if format = stringify_large_ints_and_doubles \<and> sint i > 0xffffffff
      then [quote] @ str_int64 lx i @ [quote] else dec_int i)"
| "to_stream lx format (V_uint64 i) =
     (if format = stringify_large_ints_and_doubles \<and> i > 0xffffffff
      then [quote] @ str_uint64 lx i @ [quote] else dec_string (unat i))"
| "to_stream lx format (V_double d) =
     (if format = stringify_large_ints_and_doubles then [quote] @ str_double lx d @ [quote] else str_double lx d)"
| "to_stream lx format (V_bool b) = (if b then ''true'' else ''false'')"
| "to_stream lx format (V_string t) = escape_string t"
| "to_stream lx format (V_blob d) = escape_string (if length d \<noteq> 0 then base64_encode d @ ''='' else [])"
| "to_stream lx format (V_array a) = ''['' @ to_stream_items lx format a @ '']''"
| "to_stream lx format (V_object obj) = ''{'' @ to_stream_entries lx format obj @ ''}''"
| "to_stream_items lx format [] = []"
| "to_stream_items lx format [v] = to_stream lx format v"
| "to_stream_items lx format (v # w # a) = to_stream lx format v @ '','' @ to_stream_items lx format (w # a)"
| "to_stream_entries lx format [] = []"
| "to_stream_entries lx format [(k, v)] = escape_string k @ '':'' @ to_stream lx format v"
| "to_stream_entries lx format ((k, v) # e # obj) =
     escape_string k @ '':'' @ to_stream lx format v @ '','' @ to_stream_entries lx format (e # obj)"

definition json_text :: "lexical \<Rightarrow> output_formatting \<Rightarrow> variant \<Rightarrow> string" where
  "json_text lx format v = to_stream lx format v"

section \<open>Characters\<close>

definition peek :: "string \<Rightarrow> char" where
  "peek ins = (case ins of [] \<Rightarrow> CHR 0xFF | c # _ \<Rightarrow> c)"

definition at_end :: "string \<Rightarrow> bool" where
  "at_end ins \<longleftrightarrow> ins = []"

definition get_char :: "string \<Rightarrow> char \<times> string" where
  "get_char ins = (peek ins, tl ins)"

definition is_space :: "char \<Rightarrow> bool" where
  "is_space c \<longleftrightarrow> c = CHR '' '' \<or> c = CHR 0x09 \<or> c = CHR 0x0A \<or> c = CHR 0x0D"

fun skip_white_space :: "string \<Rightarrow> bool parsed" where
  "skip_white_space [] = Inr (False, [])"
| "skip_white_space (c # ins) =
     (if is_space c
      then (case skip_white_space ins of Inl e \<Rightarrow> Inl e | Inr (_, r) \<Rightarrow> Inr (True, r))
      else if c = CHR 0x00 then Inl Eof_Exception
      else Inr (False, c # ins))"

text \<open>The character behind a backslash, and the rest behind it. The stream is at a backslash.\<close>

definition parse_escape :: "string \<Rightarrow> char \<times> string" where
  "parse_escape ins =
     (let ins = tl ins; c = peek ins
      in if c = CHR ''t'' then (CHR 0x09, tl ins)
         else if c = CHR ''n'' then (CHR 0x0A, tl ins)
         else if c = CHR ''r'' then (CHR 0x0D, tl ins)
         else if c = backslash then (backslash, tl ins)
         else get_char ins)"

lemma parse_escape_shorter: "ins \<noteq> [] \<Longrightarrow> length (snd (parse_escape ins)) < length ins"
  by (cases ins) (auto simp: parse_escape_def get_char_def Let_def)

lemma parse_escape_shorter': "(e, r) = parse_escape ins \<Longrightarrow> ins \<noteq> [] \<Longrightarrow> length r < length ins"
  using parse_escape_shorter[of ins] by (metis snd_conv)

section \<open>Strings and tokens\<close>

function string_loop :: "string \<Rightarrow> string \<Rightarrow> string parsed" where
  "string_loop token ins =
     (if at_end ins then Inl Parse_Error_Exception
      else
        (let c = peek ins
         in if c = backslash then (let (e, r) = parse_escape ins in string_loop (token @ [e]) r)
            else if c = CHR 0x04 then Inl Parse_Error_Exception
            else if c = quote then Inr (token, tl ins)
            else string_loop (token @ [c]) (tl ins)))"
  by pat_completeness auto
termination
  by (relation "measure (\<lambda>(token, ins). length ins)")
    (auto simp: at_end_def dest: parse_escape_shorter')

declare string_loop.simps [simp del]

definition string_from_stream :: "string \<Rightarrow> string parsed" where
  "string_from_stream ins = (if peek ins \<noteq> quote then Inl Parse_Error_Exception else string_loop [] (tl ins))"

definition is_token_char :: "char \<Rightarrow> bool" where
  "is_token_char c \<longleftrightarrow> is_alnum c \<or> c = CHR ''_'' \<or> c = CHR ''-'' \<or> c = CHR ''.'' \<or> c = CHR '':'' \<or> c = CHR ''/''"

text \<open>The exception for a NUL character is caught inside.\<close>

function token_loop :: "string \<Rightarrow> string \<Rightarrow> string \<times> string" where
  "token_loop token ins =
     (if at_end ins then (token, ins)
      else
        (let c = peek ins
         in if c = backslash then (let (e, r) = parse_escape ins in token_loop (token @ [e]) r)
            else if c = CHR 0x09 \<or> c = CHR '' '' \<or> c = CHR 0x0A then (token, tl ins)
            else if c = CHR 0x00 then (token, ins)
            else if is_token_char c then token_loop (token @ [c]) (tl ins)
            else (token, ins)))"
  by pat_completeness auto
termination
  by (relation "measure (\<lambda>(token, ins). length ins)")
    (auto simp: at_end_def dest: parse_escape_shorter')

declare token_loop.simps [simp del]

definition string_from_token :: "string \<Rightarrow> string \<times> string" where
  "string_from_token ins = token_loop [] ins"

text \<open>
  The characters of null, true and false. The exceptions that would set \<open>received_eof\<close> are not thrown by a
  \<open>std::stringstream\<close>, so that it stays false.
\<close>

definition is_word_char :: "char \<Rightarrow> bool" where
  "is_word_char c \<longleftrightarrow> c \<in> set ''nultrefas''"

definition token_from_stream :: "string \<Rightarrow> variant parsed" where
  "token_from_stream ins =
     (let str = takeWhile is_word_char ins; ins = dropWhile is_word_char ins
      in if str = ''null'' then Inr (V_null, ins)
         else if str = ''true'' then Inr (V_bool True, ins)
         else if str = ''false'' then Inr (V_bool False, ins)
         else (let (t, r) = string_from_token ins in Inr (V_string (str @ t), r)))"

section \<open>Numbers\<close>

text \<open>
  The loop over the digits: an exception; or the text, whether it has a decimal point, and the rest of
  the stream; or the token that a letter makes of it.
\<close>

datatype number_end = Number bool string string | Word string string

fun number_loop :: "bool \<Rightarrow> string \<Rightarrow> string \<Rightarrow> number_end result" where
  "number_loop dot ss [] = Inr (Number dot ss [])"
| "number_loop dot ss (c # ins) =
     (if c = CHR ''.'' then if dot then Inl Parse_Error_Exception else number_loop True (ss @ [c]) ins
      else if is_digit c then number_loop dot (ss @ [c]) ins
      else if c = CHR 0x00 then Inr (Number dot ss (c # ins))
      else if is_alnum c then (let (t, r) = string_from_token (c # ins) in Inr (Word (ss @ t) r))
      else Inr (Number dot ss (c # ins)))"

definition number_from_stream :: "lexical \<Rightarrow> legacy_type \<Rightarrow> string \<Rightarrow> variant parsed" where
  "number_from_stream lx parser ins =
     (let neg = (peek ins = CHR ''-'');
          (ss, ins) = (if neg then (''-'', tl ins) else ([], ins))
      in case number_loop False ss ins of
           Inl e \<Rightarrow> Inl e
         | Inr (Word t r) \<Rightarrow> Inr (V_string t, r)
         | Inr (Number dot str r) \<Rightarrow>
             (if str = ''-.'' \<or> str = ''.'' \<or> str = ''-'' then Inl Parse_Error_Exception
              else if dot then
                (if parser = legacy_parser_with_string_doubles then Inr (V_string str, r)
                 else (case to_double lx str of Inl e \<Rightarrow> Inl e | Inr d \<Rightarrow> Inr (V_double d, r)))
              else if neg then (case to_int64 lx str of Inl e \<Rightarrow> Inl e | Inr i \<Rightarrow> Inr (V_int64 i, r))
              else (case to_uint64 lx str of Inl e \<Rightarrow> Inl e | Inr u \<Rightarrow> Inr (V_uint64 u, r))))"

section \<open>Values\<close>

text \<open>
  The bodies of the five mutually recursive functions (the loops of objects and arrays are functions of
  their own), with the functions that they call as arguments.
\<close>

definition is_number_start :: "char \<Rightarrow> bool" where
  "is_number_start c \<longleftrightarrow> c = CHR ''-'' \<or> c = CHR ''.'' \<or> is_digit c"

definition variant_body ::
  "lexical \<Rightarrow> legacy_type \<Rightarrow> (string \<Rightarrow> u32 \<Rightarrow> variant_object parsed option) \<Rightarrow> (string \<Rightarrow> u32 \<Rightarrow> variant list parsed option)
   \<Rightarrow> string \<Rightarrow> u32 \<Rightarrow> variant parsed option" where
  "variant_body lx parser object_from_stream array_from_stream ins max_depth =
     (if max_depth = 0 then Some (Inl Parse_Error_Exception)
      else (case skip_white_space ins of Inl e \<Rightarrow> Some (Inl e)
      | Inr (_, ins) \<Rightarrow>
        (let ins = dropWhile is_space ins; c = peek ins
         in if c = quote then
              Some (case string_from_stream ins of Inl e \<Rightarrow> Inl e | Inr (t, r) \<Rightarrow> Inr (V_string t, r))
            else if c = CHR ''{'' then
              map_option (map_sum id (map_prod V_object id)) (object_from_stream ins (max_depth - 1))
            else if c = CHR ''['' then
              map_option (map_sum id (map_prod V_array id)) (array_from_stream ins (max_depth - 1))
            else if is_number_start c then Some (number_from_stream lx parser ins)
            else if c = CHR ''n'' \<or> c = CHR ''t'' \<or> c = CHR ''f'' then Some (token_from_stream ins)
            else if c = CHR 0x04 \<or> c = CHR 0xFF \<or> c = CHR 0x00 then Some (Inl Eof_Exception)
            else Some (Inl Parse_Error_Exception))))"

definition eof_to_parse_error :: "fc_error \<Rightarrow> fc_error" where
  "eof_to_parse_error e = (if e = Eof_Exception then Parse_Error_Exception else e)"

definition object_body ::
  "(variant_object \<Rightarrow> string \<Rightarrow> u32 \<Rightarrow> variant_object parsed option) \<Rightarrow> string \<Rightarrow> u32 \<Rightarrow> variant_object parsed option" where
  "object_body object_loop ins max_depth =
     (if peek ins \<noteq> CHR ''{'' then Some (Inl Parse_Error_Exception)
      else map_option (map_sum eof_to_parse_error id) (object_loop [] (tl ins) max_depth))"

definition object_loop_body ::
  "(string \<Rightarrow> u32 \<Rightarrow> variant parsed option) \<Rightarrow> (variant_object \<Rightarrow> string \<Rightarrow> u32 \<Rightarrow> variant_object parsed option)
   \<Rightarrow> variant_object \<Rightarrow> string \<Rightarrow> u32 \<Rightarrow> variant_object parsed option" where
  "object_loop_body variant_from_stream object_loop obj ins max_depth =
     (if peek ins = CHR ''}'' then Some (Inr (obj, tl ins))
      else if peek ins = CHR '','' then object_loop obj (tl ins) max_depth
      else (case skip_white_space ins of Inl e \<Rightarrow> Some (Inl e)
      | Inr (skipped, ins) \<Rightarrow>
        (if skipped then object_loop obj ins max_depth
         else (case string_from_stream ins of Inl e \<Rightarrow> Some (Inl e)
         | Inr (key, ins) \<Rightarrow>
           (case skip_white_space ins of Inl e \<Rightarrow> Some (Inl e)
            | Inr (_, ins) \<Rightarrow>
              (if peek ins \<noteq> CHR '':'' then Some (Inl Parse_Error_Exception)
               else (case variant_from_stream (tl ins) (max_depth - 1) of None \<Rightarrow> None
               | Some (Inl e) \<Rightarrow> Some (Inl e)
               | Some (Inr (val, ins)) \<Rightarrow> object_loop (append_key obj key val) ins max_depth)))))))"

definition array_body ::
  "(variant list \<Rightarrow> string \<Rightarrow> u32 \<Rightarrow> variant list parsed option) \<Rightarrow> string \<Rightarrow> u32 \<Rightarrow> variant list parsed option" where
  "array_body array_loop ins max_depth =
     (if peek ins \<noteq> CHR ''['' then Some (Inl Parse_Error_Exception)
      else (case skip_white_space (tl ins) of Inl e \<Rightarrow> Some (Inl e)
      | Inr (_, ins) \<Rightarrow> array_loop [] ins max_depth))"

definition array_loop_body ::
  "(string \<Rightarrow> u32 \<Rightarrow> variant parsed option) \<Rightarrow> (variant list \<Rightarrow> string \<Rightarrow> u32 \<Rightarrow> variant list parsed option)
   \<Rightarrow> variant list \<Rightarrow> string \<Rightarrow> u32 \<Rightarrow> variant list parsed option" where
  "array_loop_body variant_from_stream array_loop ar ins max_depth =
     (if peek ins = CHR '']'' then Some (Inr (ar, tl ins))
      else if peek ins = CHR '','' then array_loop ar (tl ins) max_depth
      else (case skip_white_space ins of Inl e \<Rightarrow> Some (Inl e)
      | Inr (skipped, ins) \<Rightarrow>
        (if skipped then array_loop ar ins max_depth
         else (case variant_from_stream ins (max_depth - 1) of None \<Rightarrow> None
         | Some (Inl e) \<Rightarrow> Some (Inl e)
         | Some (Inr (v, ins)) \<Rightarrow>
             (case skip_white_space ins of Inl e \<Rightarrow> Some (Inl e)
              | Inr (_, ins) \<Rightarrow> array_loop (ar @ [v]) ins max_depth)))))"

fun variant_from_stream :: "lexical \<Rightarrow> legacy_type \<Rightarrow> nat \<Rightarrow> string \<Rightarrow> u32 \<Rightarrow> variant parsed option"
  and object_from_stream :: "lexical \<Rightarrow> legacy_type \<Rightarrow> nat \<Rightarrow> string \<Rightarrow> u32 \<Rightarrow> variant_object parsed option"
  and object_loop :: "lexical \<Rightarrow> legacy_type \<Rightarrow> nat \<Rightarrow> variant_object \<Rightarrow> string \<Rightarrow> u32 \<Rightarrow> variant_object parsed option"
  and array_from_stream :: "lexical \<Rightarrow> legacy_type \<Rightarrow> nat \<Rightarrow> string \<Rightarrow> u32 \<Rightarrow> variant list parsed option"
  and array_loop :: "lexical \<Rightarrow> legacy_type \<Rightarrow> nat \<Rightarrow> variant list \<Rightarrow> string \<Rightarrow> u32 \<Rightarrow> variant list parsed option" where
  "variant_from_stream lx parser 0 = (\<lambda>_ _. None)"
| "variant_from_stream lx parser (Suc fuel) =
     variant_body lx parser (object_from_stream lx parser fuel) (array_from_stream lx parser fuel)"
| "object_from_stream lx parser 0 = (\<lambda>_ _. None)"
| "object_from_stream lx parser (Suc fuel) = object_body (object_loop lx parser fuel)"
| "object_loop lx parser 0 = (\<lambda>_ _ _. None)"
| "object_loop lx parser (Suc fuel) =
     object_loop_body (variant_from_stream lx parser fuel) (object_loop lx parser fuel)"
| "array_from_stream lx parser 0 = (\<lambda>_ _. None)"
| "array_from_stream lx parser (Suc fuel) = array_body (array_loop lx parser fuel)"
| "array_loop lx parser 0 = (\<lambda>_ _ _. None)"
| "array_loop lx parser (Suc fuel) =
     array_loop_body (variant_from_stream lx parser fuel) (array_loop lx parser fuel)"

text \<open>The same equations with all arguments, for evaluation.\<close>

lemma parser_code [code]:
  "variant_from_stream lx parser 0 ins max_depth = None"
  "variant_from_stream lx parser (Suc fuel) ins max_depth =
     variant_body lx parser (object_from_stream lx parser fuel) (array_from_stream lx parser fuel) ins max_depth"
  "object_from_stream lx parser 0 ins max_depth = None"
  "object_from_stream lx parser (Suc fuel) ins max_depth = object_body (object_loop lx parser fuel) ins max_depth"
  "object_loop lx parser 0 obj ins max_depth = None"
  "object_loop lx parser (Suc fuel) obj ins max_depth =
     object_loop_body (variant_from_stream lx parser fuel) (object_loop lx parser fuel) obj ins max_depth"
  "array_from_stream lx parser 0 ins max_depth = None"
  "array_from_stream lx parser (Suc fuel) ins max_depth = array_body (array_loop lx parser fuel) ins max_depth"
  "array_loop lx parser 0 ar ins max_depth = None"
  "array_loop lx parser (Suc fuel) ar ins max_depth =
     array_loop_body (variant_from_stream lx parser fuel) (array_loop lx parser fuel) ar ins max_depth"
  by simp_all

definition enough_fuel :: "string \<Rightarrow> nat" where
  "enough_fuel ins = 3 * length ins + 3"

text \<open>\<open>DEFAULT_MAX_RECURSION_DEPTH\<close>\<close>

definition default_max_recursion_depth :: u32 where
  "default_max_recursion_depth = 200"

definition from_string :: "lexical \<Rightarrow> string \<Rightarrow> legacy_type \<Rightarrow> u32 \<Rightarrow> variant result option" where
  "from_string lx utf8_str ptype max_depth =
     map_option (map_sum id fst) (variant_from_stream lx ptype (enough_fuel utf8_str) utf8_str max_depth)"

text \<open>
  \<open>is_valid\<close> parses a value for its exceptions only; a \<open>std::stringstream\<close> does not throw at its end, so that
  every text that parses is reported as not valid.
\<close>

definition json_is_valid :: "lexical \<Rightarrow> string \<Rightarrow> legacy_type \<Rightarrow> u32 \<Rightarrow> bool result option" where
  "json_is_valid lx utf8_str ptype max_depth =
     (if length utf8_str = 0 then Some (Inr False)
      else map_option (map_sum id (\<lambda>_. False)) (variant_from_stream lx ptype (enough_fuel utf8_str) utf8_str max_depth))"

end
