(* ===== verification/Json_Spec.thy ===== *)
theory Json_Spec
  imports Json
begin

text \<open>
  What the JSON printer and parser do: the parser returns on every input with the fuel chosen, reads back what
  the printer wrote, and its limit on the nesting works for even limits only.
\<close>

section \<open>Characters\<close>

definition unescape :: "char \<Rightarrow> char" where
  "unescape c = (if c = CHR ''t'' then CHR 0x09 else if c = CHR ''n'' then CHR 0x0A else if c = CHR ''r'' then CHR 0x0D else c)"

lemma parse_escape_simps [simp]:
  "parse_escape [b] = (CHR 0xFF, [])" "parse_escape (b # c # ins) = (unescape c, ins)"
  by (auto simp: parse_escape_def get_char_def peek_def unescape_def Let_def)

lemma string_loop_simps [simp]:
  "string_loop token [] = Inl Parse_Error_Exception"
  "string_loop token (c # ins) =
     (if c = backslash then (let (e, r) = parse_escape (c # ins) in string_loop (token @ [e]) r)
      else if c = CHR 0x04 then Inl Parse_Error_Exception
      else if c = quote then Inr (token, ins) else string_loop (token @ [c]) ins)"
  by (subst string_loop.simps, simp add: at_end_def peek_def)+

lemma token_loop_simps [simp]:
  "token_loop token [] = (token, [])"
  "token_loop token (c # ins) =
     (if c = backslash then (let (e, r) = parse_escape (c # ins) in token_loop (token @ [e]) r)
      else if c = CHR 0x09 \<or> c = CHR '' '' \<or> c = CHR 0x0A then (token, ins)
      else if c = CHR 0x00 then (token, c # ins)
      else if is_token_char c then token_loop (token @ [c]) ins else (token, c # ins))"
  by (subst token_loop.simps, simp add: at_end_def peek_def)+

lemma peek_simps [simp]: "peek [] = CHR 0xFF" "peek (c # ins) = c"
  by (simp_all add: peek_def)

section \<open>The parser consumes its input\<close>

lemma skip_white_space_rest:
  "skip_white_space ins = Inr (b, r) \<Longrightarrow>
     length r \<le> length ins \<and> (b \<longrightarrow> length r < length ins) \<and> (\<not> b \<longrightarrow> r = ins) \<and> dropWhile is_space r = r"
proof (induction ins arbitrary: b)
  case (Cons c ins)
  show ?case
  proof (cases "is_space c")
    case True
    then obtain b' where "skip_white_space ins = Inr (b', r)" "b" using Cons.prems by (simp split: sum.splits prod.splits)
    then show ?thesis using Cons.IH[of b'] by simp
  next
    case False
    then show ?thesis using Cons.prems by (auto split: if_splits)
  qed
qed simp

lemma string_loop_rest: "string_loop token ins = Inr (t, r) \<Longrightarrow> length r < length ins"
proof (induction "length ins" arbitrary: token ins rule: less_induct)
  case less
  show ?case
  proof (cases ins)
    case (Cons c cs)
    show ?thesis
    proof (cases "c = backslash")
      case True
      show ?thesis
      proof (cases cs)
        case (Cons d ds)
        then have "length r < length ds" using less.hyps[of ds] less.prems \<open>ins = c # cs\<close> True by simp
        then show ?thesis using Cons \<open>ins = c # cs\<close> by simp
      qed (use less.prems Cons True in simp)
    next
      case False
      then consider "r = cs" | "string_loop (token @ [c]) cs = Inr (t, r)" using less.prems Cons by (simp split: if_splits)
      then show ?thesis using less.hyps[of cs] Cons by cases (simp, force)
    qed
  qed (use less.prems in simp)
qed

lemma string_from_stream_rest: "string_from_stream ins = Inr (t, r) \<Longrightarrow> length r + 2 \<le> length ins"
  using string_loop_rest[of "[]" "tl ins" t r] by (cases ins) (auto simp: string_from_stream_def quote_def split: if_splits)

lemma token_loop_rest: "token_loop token ins = (t, r) \<Longrightarrow> length r \<le> length ins"
proof (induction "length ins" arbitrary: token ins rule: less_induct)
  case less
  show ?case
  proof (cases ins)
    case (Cons c cs)
    show ?thesis
    proof (cases "c = backslash")
      case True
      show ?thesis
      proof (cases cs)
        case (Cons d ds)
        then have "length r \<le> length ds" using less.hyps[of ds] less.prems \<open>ins = c # cs\<close> True by simp
        then show ?thesis using Cons \<open>ins = c # cs\<close> by simp
      qed (use less.prems Cons True in simp)
    next
      case False
      then consider "r = cs" | "r = c # cs" | "token_loop (token @ [c]) cs = (t, r)" using less.prems Cons by (simp split: if_splits)
      then show ?thesis using less.hyps[of cs] Cons by cases (simp, simp, force)
    qed
  qed (use less.prems in simp)
qed

lemma token_from_stream_rest:
  assumes "token_from_stream ins = Inr (v, r)" "is_word_char (peek ins)"
  shows "length r < length ins"
proof -
  obtain c cs where ins: "ins = c # cs" using assms(2) by (cases ins) (auto simp: is_word_char_def)
  have l: "length (dropWhile is_word_char ins) < length ins" using assms(2) length_dropWhile_le[of is_word_char cs] by (simp add: ins)
  obtain t q where t: "string_from_token (dropWhile is_word_char ins) = (t, q)" by fastforce
  then have "length q \<le> length (dropWhile is_word_char ins)" using token_loop_rest by (simp add: string_from_token_def)
  moreover have "r = dropWhile is_word_char ins \<or> r = q" using assms(1) t by (simp add: token_from_stream_def Let_def split: if_splits)
  ultimately show ?thesis using l by auto
qed

definition rest_of :: "number_end \<Rightarrow> string" where
  "rest_of e = (case e of Number _ _ r \<Rightarrow> r | Word _ r \<Rightarrow> r)"

lemma number_loop_rest:
  "number_loop dot ss ins = Inr e \<Longrightarrow> length (rest_of e) \<le> length ins \<and>
     (is_digit (peek ins) \<or> peek ins = CHR ''.'' \<longrightarrow> length (rest_of e) < length ins)"
proof (induction ins arbitrary: dot ss)
  case Nil
  then show ?case by (auto simp: rest_of_def is_digit_def)
next
  case (Cons c ins)
  obtain t r where t: "string_from_token (c # ins) = (t, r)" by fastforce
  then have r: "length r \<le> length (c # ins)" using token_loop_rest by (simp only: string_from_token_def)
  show ?case
  proof (cases "c = CHR ''.'' \<or> is_digit c")
    case True
    then obtain dot' ss' where "number_loop dot' ss' ins = Inr e" using Cons.prems by (auto split: if_splits)
    then show ?thesis using Cons.IH by fastforce
  next
    case False
    then show ?thesis using Cons.prems t r by (auto simp: rest_of_def split: if_splits)
  qed
qed

lemma number_from_stream_rest:
  assumes "number_from_stream lx parser ins = Inr (v, r)" "is_number_start (peek ins)"
  shows "length r < length ins"
proof -
  define ins' where "ins' = (if peek ins = CHR ''-'' then tl ins else ins)"
  obtain ss e where e: "number_loop False ss ins' = Inr e" "r = rest_of e"
    using assms(1) by (auto simp: number_from_stream_def rest_of_def ins'_def Let_def split: sum.splits number_end.splits if_splits)
  have "ins \<noteq> []" using assms(2) by (auto simp: is_number_start_def is_digit_def)
  then show ?thesis using number_loop_rest[OF e(1)] assms(2) e(2)
    by (cases "peek ins = CHR ''-''") (auto simp: ins'_def is_number_start_def neq_Nil_conv)
qed

section \<open>The parser returns\<close>

text \<open>
  Three predicates on the mutually recursive functions: what is left after a value is shorter; the result of a
  function with less fuel is the result of one with more; every input up to a length has a result.
\<close>

definition shrinks :: "(string \<Rightarrow> u32 \<Rightarrow> 'a parsed option) \<Rightarrow> bool" where
  "shrinks g \<longleftrightarrow> (\<forall>ins d v r. g ins d = Some (Inr (v, r)) \<longrightarrow> length r < length ins)"

definition extends :: "(string \<Rightarrow> u32 \<Rightarrow> 'a parsed option) \<Rightarrow> (string \<Rightarrow> u32 \<Rightarrow> 'a parsed option) \<Rightarrow> bool" where
  "extends g h \<longleftrightarrow> (\<forall>ins d x. g ins d = Some x \<longrightarrow> h ins d = Some x)"

definition total_upto :: "nat \<Rightarrow> (string \<Rightarrow> u32 \<Rightarrow> 'a parsed option) \<Rightarrow> bool" where
  "total_upto n g \<longleftrightarrow> (\<forall>ins d. length ins \<le> n \<longrightarrow> g ins d \<noteq> None)"

lemma shrinksD: "shrinks g \<Longrightarrow> g ins d = Some (Inr (v, r)) \<Longrightarrow> length r < length ins"
  unfolding shrinks_def by blast

lemma extendsD: "extends g h \<Longrightarrow> g ins d = Some x \<Longrightarrow> h ins d = Some x"
  unfolding extends_def by blast

lemma total_uptoD: "total_upto n g \<Longrightarrow> length ins \<le> n \<Longrightarrow> \<exists>x. g ins d = Some x"
  unfolding total_upto_def by blast

lemma map_sum_Inr [simp]: "map_sum f g z = Inr x \<longleftrightarrow> (\<exists>y. z = Inr y \<and> x = g y)"
  by (cases z) auto

lemma is_word_start: "c = CHR ''n'' \<or> c = CHR ''t'' \<or> c = CHR ''f'' \<Longrightarrow> is_word_char c"
  by (auto simp: is_word_char_def)

lemma variant_body_shrinks:
  assumes "shrinks objs" "shrinks arrs"
  shows "shrinks (variant_body lx parser objs arrs)"
  unfolding shrinks_def
proof (intro allI impI)
  fix ins d v r assume g: "variant_body lx parser objs arrs ins d = Some (Inr (v, r))"
  then obtain b q where q: "skip_white_space ins = Inr (b, q)" by (auto simp: variant_body_def split: if_splits sum.splits)
  note w = skip_white_space_rest[OF q]
  have "length r < length q"
    using g q w shrinksD[OF assms(1), of q "d - 1"] shrinksD[OF assms(2), of q "d - 1"]
      string_from_stream_rest[of q] number_from_stream_rest[of lx parser q v r] token_from_stream_rest[of q v r] is_word_start[of "peek q"]
    by (auto simp: variant_body_def Let_def split: if_splits sum.splits)
  then show "length r < length ins" using w by linarith
qed

lemma object_body_shrinks: "(\<And>obj. shrinks (loop obj)) \<Longrightarrow> shrinks (object_body loop)"
  by (force simp: shrinks_def object_body_def split: if_splits)

lemma object_loop_body_shrinks:
  assumes "shrinks val" "\<And>obj. shrinks (loop obj)"
  shows "shrinks (object_loop_body val loop obj)"
  unfolding shrinks_def
proof (intro allI impI)
  fix ins d v r assume g: "object_loop_body val loop obj ins d = Some (Inr (v, r))"
  show "length r < length ins"
  proof (cases "peek ins = CHR ''}'' \<or> peek ins = CHR '',''")
    case True
    then have "ins \<noteq> []" by auto
    then show ?thesis using g True shrinksD[OF assms(2), of obj "tl ins" d v r]
      by (cases ins) (auto simp: object_loop_body_def split: if_splits)
  next
    case False
    obtain b q where q: "skip_white_space ins = Inr (b, q)"
      using g False by (auto simp: object_loop_body_def split: sum.splits)
    note w = skip_white_space_rest[OF q]
    show ?thesis
    proof (cases b)
      case True
      then show ?thesis using g False q w shrinksD[OF assms(2), of obj q d v r] by (simp add: object_loop_body_def)
    next
      case nb: False
      then obtain key q1 b2 q2 u q3 where s: "string_from_stream q = Inr (key, q1)" "skip_white_space q1 = Inr (b2, q2)"
        "val (tl q2) (d - 1) = Some (Inr (u, q3))" "loop (append_key obj key u) q3 d = Some (Inr (v, r))"
        using g False q by (auto simp: object_loop_body_def split: sum.splits option.splits if_splits)
      have "length q3 \<le> length q2" using shrinksD[OF assms(1) s(3)] by simp
      then show ?thesis
        using string_from_stream_rest[OF s(1)] skip_white_space_rest[OF s(2)] shrinksD[OF assms(2) s(4)] w by linarith
    qed
  qed
qed

lemma array_body_shrinks:
  assumes "\<And>ar. shrinks (loop ar)"
  shows "shrinks (array_body loop)"
  unfolding shrinks_def
proof (intro allI impI)
  fix ins d v r assume g: "array_body loop ins d = Some (Inr (v, r))"
  then obtain b q where q: "skip_white_space (tl ins) = Inr (b, q)" "loop [] q d = Some (Inr (v, r))"
    by (auto simp: array_body_def split: if_splits sum.splits)
  then show "length r < length ins" using skip_white_space_rest[OF q(1)] shrinksD[OF assms q(2)] by (simp only: length_tl) linarith
qed

lemma array_loop_body_shrinks:
  assumes "shrinks val" "\<And>ar. shrinks (loop ar)"
  shows "shrinks (array_loop_body val loop ar)"
  unfolding shrinks_def
proof (intro allI impI)
  fix ins d v r assume g: "array_loop_body val loop ar ins d = Some (Inr (v, r))"
  show "length r < length ins"
  proof (cases "peek ins = CHR '']'' \<or> peek ins = CHR '',''")
    case True
    then have "ins \<noteq> []" by auto
    then show ?thesis using g True shrinksD[OF assms(2), of ar "tl ins" d v r]
      by (cases ins) (auto simp: array_loop_body_def split: if_splits)
  next
    case False
    obtain b q where q: "skip_white_space ins = Inr (b, q)"
      using g False by (auto simp: array_loop_body_def split: sum.splits)
    note w = skip_white_space_rest[OF q]
    show ?thesis
    proof (cases b)
      case True
      then show ?thesis using g False q w shrinksD[OF assms(2), of ar q d v r] by (simp add: array_loop_body_def)
    next
      case nb: False
      then obtain u q1 b2 q2 where s: "val q (d - 1) = Some (Inr (u, q1))" "skip_white_space q1 = Inr (b2, q2)"
        "loop (ar @ [u]) q2 d = Some (Inr (v, r))"
        using g False q by (auto simp: array_loop_body_def split: sum.splits option.splits if_splits)
      then show ?thesis
        using shrinksD[OF assms(1) s(1)] skip_white_space_rest[OF s(2)] shrinksD[OF assms(2) s(3)] w by linarith
    qed
  qed
qed

lemma parser_shrinks:
  "shrinks (variant_from_stream lx parser f)" "shrinks (object_from_stream lx parser f)" "\<And>obj. shrinks (object_loop lx parser f obj)"
  "shrinks (array_from_stream lx parser f)" "\<And>ar. shrinks (array_loop lx parser f ar)"
proof (induction f)
  case 0
  { case 1 show ?case by (simp add: shrinks_def) next case 2 show ?case by (simp add: shrinks_def)
  next case 3 show ?case by (simp add: shrinks_def) next case 4 show ?case by (simp add: shrinks_def)
  next case 5 show ?case by (simp add: shrinks_def) }
next
  case (Suc f)
  { case 1 show ?case using Suc by (simp add: variant_body_shrinks)
  next case 2 show ?case using Suc by (simp add: object_body_shrinks)
  next case 3 show ?case using Suc by (simp add: object_loop_body_shrinks)
  next case 4 show ?case using Suc by (simp add: array_body_shrinks)
  next case 5 show ?case using Suc by (simp add: array_loop_body_shrinks) }
qed

lemma variant_body_total: "total_upto n objs \<Longrightarrow> total_upto n arrs \<Longrightarrow> total_upto n (variant_body lx parser objs arrs)"
  unfolding total_upto_def
proof (intro allI impI)
  fix ins :: string and d assume t: "\<forall>ins d. length ins \<le> n \<longrightarrow> objs ins d \<noteq> None" "\<forall>ins d. length ins \<le> n \<longrightarrow> arrs ins d \<noteq> None"
    and l: "length ins \<le> n"
  have "length q \<le> n \<and> dropWhile is_space q = q" if "skip_white_space ins = Inr (b, q)" for b q
    using skip_white_space_rest[OF that] l by linarith
  then show "variant_body lx parser objs arrs ins d \<noteq> None"
    using t by (auto simp: variant_body_def Let_def split: sum.splits)
qed

lemma object_body_total:
  assumes "\<And>obj. total_upto n (loop obj)"
  shows "total_upto (Suc n) (object_body loop)"
  using assms unfolding total_upto_def object_body_def by auto

lemma array_body_total:
  assumes "\<And>ar. total_upto n (loop ar)"
  shows "total_upto (Suc n) (array_body loop)"
  unfolding total_upto_def
proof (intro allI impI)
  fix ins :: string and d assume l: "length ins \<le> Suc n"
  have "length q \<le> n" if "skip_white_space (tl ins) = Inr (b, q)" for b q
    using skip_white_space_rest[OF that] l by (simp only: length_tl) linarith
  then show "array_body loop ins d \<noteq> None"
    using assms unfolding total_upto_def by (auto simp: array_body_def split: sum.splits)
qed

lemma object_loop_body_total:
  assumes "shrinks val" "total_upto n val" "\<And>obj. total_upto n (loop obj)"
  shows "total_upto (Suc n) (object_loop_body val loop obj)"
  unfolding total_upto_def
proof (intro allI impI notI)
  fix ins d assume l: "length ins \<le> Suc n" and none: "object_loop_body val loop obj ins d = None"
  have tot: "loop obj' q d \<noteq> None" if "length q < length ins" for obj' q
    using assms(3) that l unfolding total_upto_def by auto
  have c1: "peek ins \<noteq> CHR ''}''" using none by (auto simp: object_loop_body_def)
  have c: "peek ins \<noteq> CHR ''}''" "peek ins \<noteq> CHR '',''"
  proof (rule c1, rule notI)
    assume "peek ins = CHR '',''"
    moreover from this have "length (tl ins) < length ins" by (cases ins) simp_all
    ultimately show False using none c1 tot[of "tl ins"] by (simp add: object_loop_body_def)
  qed
  then obtain b q where q: "skip_white_space ins = Inr (b, q)"
    using none by (auto simp: object_loop_body_def split: sum.splits)
  note w = skip_white_space_rest[OF q]
  have nb: "\<not> b"
  proof
    assume "b"
    then show False using none c q w tot[of q obj] by (simp add: object_loop_body_def)
  qed
  then obtain key q1 b2 q2 where s: "string_from_stream q = Inr (key, q1)" "skip_white_space q1 = Inr (b2, q2)"
    using none c q by (auto simp: object_loop_body_def split: sum.splits)
  have l2: "length q2 + 2 \<le> length ins" using string_from_stream_rest[OF s(1)] skip_white_space_rest[OF s(2)] w by linarith
  then have "length (tl q2) \<le> n" using l by (cases q2) simp_all
  then obtain x where x: "val (tl q2) (d - 1) = Some x" using total_uptoD[OF assms(2)] by blast
  then obtain u q3 where x': "x = Inr (u, q3)" using none c q nb s by (cases x) (auto simp: object_loop_body_def split: if_splits)
  have "length q3 < length ins" using shrinksD[OF assms(1), of "tl q2" "d - 1" u q3] x x' l2 by (cases q2) simp_all
  then show False using none c q nb s x x' tot[of q3 "append_key obj key u"] by (simp add: object_loop_body_def split: if_splits)
qed

lemma array_loop_body_total:
  assumes "shrinks val" "total_upto (Suc n) val" "\<And>ar. total_upto n (loop ar)"
  shows "total_upto (Suc n) (array_loop_body val loop ar)"
  unfolding total_upto_def
proof (intro allI impI notI)
  fix ins d assume l: "length ins \<le> Suc n" and none: "array_loop_body val loop ar ins d = None"
  have tot: "loop ar' q d \<noteq> None" if "length q < length ins" for ar' q
    using assms(3) that l unfolding total_upto_def by auto
  have c1: "peek ins \<noteq> CHR '']''" using none by (auto simp: array_loop_body_def)
  have c: "peek ins \<noteq> CHR '']''" "peek ins \<noteq> CHR '',''"
  proof (rule c1, rule notI)
    assume "peek ins = CHR '',''"
    moreover from this have "length (tl ins) < length ins" by (cases ins) simp_all
    ultimately show False using none c1 tot[of "tl ins"] by (simp add: array_loop_body_def)
  qed
  then obtain b q where q: "skip_white_space ins = Inr (b, q)"
    using none by (auto simp: array_loop_body_def split: sum.splits)
  note w = skip_white_space_rest[OF q]
  have nb: "\<not> b"
  proof
    assume "b"
    then show False using none c q w tot[of q ar] by (simp add: array_loop_body_def)
  qed
  obtain x where x: "val q (d - 1) = Some x" using total_uptoD[OF assms(2), of q "d - 1"] l w by auto
  then obtain u q1 b2 q2 where s: "x = Inr (u, q1)" "skip_white_space q1 = Inr (b2, q2)"
    using none c q nb by (auto simp: array_loop_body_def split: sum.splits)
  have "length q2 < length ins" using shrinksD[OF assms(1), of q "d - 1" u q1] x s w skip_white_space_rest[OF s(2)] by simp
  then show False using none c q nb s x tot by (simp add: array_loop_body_def)
qed

lemma total_upto_mono: "total_upto n g \<Longrightarrow> m \<le> n \<Longrightarrow> total_upto m g"
  unfolding total_upto_def by auto

lemma total_upto_0:
  "total_upto 0 (object_body loop)"
  "total_upto 0 (array_body aloop)"
  "total_upto 0 (object_loop_body val loop obj)"
  by (auto simp: total_upto_def object_body_def array_body_def object_loop_body_def string_from_stream_def quote_def)

lemma parser_total:
  "f \<ge> 3 * n + 3 \<Longrightarrow> total_upto n (variant_from_stream lx parser f)"
  "f \<ge> 3 * n + 2 \<Longrightarrow> total_upto n (object_from_stream lx parser f)"
  "f \<ge> 3 * n + 1 \<Longrightarrow> total_upto n (object_loop lx parser f obj)"
  "f \<ge> 3 * n + 2 \<Longrightarrow> total_upto n (array_from_stream lx parser f)"
  "f \<ge> 3 * n + 4 \<Longrightarrow> total_upto n (array_loop lx parser f ar)"
proof (induction f arbitrary: n obj ar)
  case (Suc f)
  note sh = parser_shrinks[of lx parser f]
  { case 1 then show ?case using Suc.IH(2,4)[of n] by (simp add: variant_body_total)
  next
    case 2
    then show ?case
      using Suc.IH(3) by (cases n) (simp_all add: total_upto_0 object_body_total)
  next
    case 3
    then show ?case using Suc.IH(1)[of "n - 1"] Suc.IH(3)[of "n - 1"] sh(1)
      by (cases n) (simp_all add: total_upto_0 object_loop_body_total)
  next
    case 4
    then show ?case using Suc.IH(5) by (cases n) (simp_all add: total_upto_0 array_body_total)
  next
    case 5
    have z: "total_upto 0 (array_loop_body (variant_from_stream lx parser f) (array_loop lx parser f) ar)" if "f \<ge> 3"
      using Suc.IH(1)[of 0] that sh(1) by (force simp: total_upto_def shrinks_def array_loop_body_def split: sum.splits option.splits)
    show ?case using 5 Suc.IH(1)[of n] Suc.IH(5)[of "n - 1"] sh(1) z
      by (cases n) (simp_all add: array_loop_body_total) }
qed simp_all

lemma variant_from_stream_returns: "\<exists>x. variant_from_stream lx parser (enough_fuel ins) ins d = Some x"
  using parser_total(1)[of "length ins" "enough_fuel ins" lx parser] by (auto simp: enough_fuel_def total_upto_def)

text \<open>More fuel does not change a result.\<close>

lemma variant_body_extends:
  assumes "extends objs objs'" "extends arrs arrs'"
  shows "extends (variant_body lx parser objs arrs) (variant_body lx parser objs' arrs')"
  unfolding extends_def
proof (intro allI impI)
  fix ins d x assume g: "variant_body lx parser objs arrs ins d = Some x"
  show "variant_body lx parser objs' arrs' ins d = Some x"
  proof (cases "d = 0 \<or> (\<exists>e. skip_white_space ins = Inl e)")
    case True
    then show ?thesis using g by (auto simp: variant_body_def)
  next
    case False
    then obtain b q where q: "skip_white_space ins = Inr (b, q)" "d \<noteq> 0" by (cases "skip_white_space ins") auto
    define p where "p = dropWhile is_space q"
    show ?thesis
    proof (cases "peek p = quote")
      case True
      then show ?thesis using g q by (simp add: variant_body_def Let_def flip: p_def)
    next
      case nq: False
      consider "peek p = CHR ''{''" | "peek p = CHR ''[''" | "peek p \<noteq> CHR ''{''" "peek p \<noteq> CHR ''[''" by blast
      then show ?thesis
      proof cases
        case 1
        then obtain y where "objs p (d - 1) = Some y" "x = map_sum id (map_prod V_object id) y"
          using g q nq by (auto simp: variant_body_def Let_def simp flip: p_def)
        then show ?thesis using extendsD[OF assms(1)] 1 q nq by (simp add: variant_body_def Let_def flip: p_def)
      next
        case 2
        then obtain y where "arrs p (d - 1) = Some y" "x = map_sum id (map_prod V_array id) y"
          using g q nq by (auto simp: variant_body_def Let_def simp flip: p_def)
        then show ?thesis using extendsD[OF assms(2)] 2 q nq by (simp add: variant_body_def Let_def flip: p_def)
      next
        case 3
        then show ?thesis using g q nq by (simp add: variant_body_def Let_def flip: p_def)
      qed
    qed
  qed
qed

lemma object_body_extends: "(\<And>obj. extends (loop obj) (loop' obj)) \<Longrightarrow> extends (object_body loop) (object_body loop')"
  unfolding extends_def object_body_def by auto

lemma array_body_extends: "(\<And>ar. extends (loop ar) (loop' ar)) \<Longrightarrow> extends (array_body loop) (array_body loop')"
  unfolding extends_def array_body_def by (auto split: sum.splits)

lemma object_loop_body_extends:
  assumes "extends val val'" "\<And>obj. extends (loop obj) (loop' obj)"
  shows "extends (object_loop_body val loop obj) (object_loop_body val' loop' obj)"
  using assms(2)[THEN extendsD] assms(1)[THEN extendsD]
  unfolding extends_def object_loop_body_def by (auto split: sum.splits option.splits if_splits)

lemma array_loop_body_extends:
  assumes "extends val val'" "\<And>ar. extends (loop ar) (loop' ar)"
  shows "extends (array_loop_body val loop ar) (array_loop_body val' loop' ar)"
  using assms(2)[THEN extendsD] assms(1)[THEN extendsD]
  unfolding extends_def array_loop_body_def by (auto split: sum.splits option.splits if_splits)

lemma parser_extends_Suc:
  "extends (variant_from_stream lx parser f) (variant_from_stream lx parser (Suc f))"
  "extends (object_from_stream lx parser f) (object_from_stream lx parser (Suc f))"
  "\<And>obj. extends (object_loop lx parser f obj) (object_loop lx parser (Suc f) obj)"
  "extends (array_from_stream lx parser f) (array_from_stream lx parser (Suc f))"
  "\<And>ar. extends (array_loop lx parser f ar) (array_loop lx parser (Suc f) ar)"
proof (induction f)
  case 0
  { case 1 show ?case by (simp add: extends_def) next case 2 show ?case by (simp add: extends_def)
  next case 3 show ?case by (simp add: extends_def) next case 4 show ?case by (simp add: extends_def)
  next case 5 show ?case by (simp add: extends_def) }
next
  case (Suc f)
  { case 1 show ?case using Suc(2,4) unfolding variant_from_stream.simps(2) by (rule variant_body_extends)
  next case 2 show ?case using Suc(3) unfolding object_from_stream.simps(2) by (rule object_body_extends)
  next case 3 show ?case using Suc(1,3) unfolding object_loop.simps(2) by (rule object_loop_body_extends)
  next case 4 show ?case using Suc(5) unfolding array_from_stream.simps(2) by (rule array_body_extends)
  next case 5 show ?case using Suc(1,5) unfolding array_loop.simps(2) by (rule array_loop_body_extends) }
qed

lemma parser_more_fuel:
  assumes "f \<le> f'"
  shows "variant_from_stream lx parser f ins d = Some x \<Longrightarrow> variant_from_stream lx parser f' ins d = Some x"
    "object_loop lx parser f obj ins d = Some y \<Longrightarrow> object_loop lx parser f' obj ins d = Some y"
    "array_loop lx parser f ar ins d = Some z \<Longrightarrow> array_loop lx parser f' ar ins d = Some z"
  using assms
  by (induction f' rule: dec_induct) (auto dest: extendsD[OF parser_extends_Suc(1)] extendsD[OF parser_extends_Suc(3)] extendsD[OF parser_extends_Suc(5)])

section \<open>Reading back what is printed\<close>

text \<open>The characters that the parser makes of a printed character: it does not know the escapes b, f and u.\<close>

definition reread_char :: "char \<Rightarrow> string" where
  "reread_char c =
     (if c \<in> {CHR 0x09, CHR 0x0A, CHR 0x0D} \<or> 32 \<le> (of_char c :: nat) then [c] else tl (escape_char c))"

definition reread_string :: "string \<Rightarrow> string" where
  "reread_string t = concat (map reread_char t)"

lemma alnum_plain: "is_alnum c \<Longrightarrow> c \<noteq> backslash \<and> c \<noteq> quote \<and> c \<noteq> CHR 0x04"
  by (auto simp: is_alnum_def backslash_def quote_def)

lemma string_loop_escaped:
  "string_loop token (escape_char c @ ins) = string_loop (token @ reread_char c) ins"
proof -
  consider "c \<in> {CHR 0x08, CHR 0x0C, CHR 0x0A, CHR 0x0D, CHR 0x09, backslash, quote}"
    | "c \<notin> {CHR 0x08, CHR 0x0C, CHR 0x0A, CHR 0x0D, CHR 0x09, backslash, quote}" "(of_char c :: nat) \<le> 0x1f"
    | "c \<notin> {CHR 0x08, CHR 0x0C, CHR 0x0A, CHR 0x0D, CHR 0x09, backslash, quote}" "\<not> (of_char c :: nat) \<le> 0x1f" by blast
  then show ?thesis
  proof cases
    case 1
    then show ?thesis by (auto simp: escape_char_def reread_char_def unescape_def backslash_def quote_def)
  next
    case 2
    define h where "h = hex_digit (drop_bit 4 (of_char c))"
    define l where "l = hex_digit (of_char c AND 0x0f)"
    have "is_alnum h" "is_alnum l" unfolding h_def l_def using nibbles(1,2) hex_digit_read(2) by blast+
    then have "h \<noteq> backslash" "h \<noteq> quote" "h \<noteq> CHR 0x04" "l \<noteq> backslash" "l \<noteq> quote" "l \<noteq> CHR 0x04" using alnum_plain by blast+
    moreover have e: "escape_char c = [backslash, CHR ''u'', CHR ''0'', CHR ''0'', h, l]" using 2 by (simp add: escape_char_def h_def l_def)
    moreover have "reread_char c = [CHR ''u'', CHR ''0'', CHR ''0'', h, l]" using 2 unfolding reread_char_def e by auto
    ultimately show ?thesis by (simp add: unescape_def) (simp add: backslash_def quote_def)
  next
    case 3
    then have "c \<noteq> CHR 0x04" by auto
    then show ?thesis using 3 by (simp add: escape_char_def reread_char_def)
  qed
qed

lemma string_reread: "string_from_stream (escape_string t @ ins) = Inr (reread_string t, ins)"
proof -
  have "string_loop token (concat (map escape_char t) @ quote # ins) = Inr (token @ reread_string t, ins)" for token
  proof (induction t arbitrary: token)
    case Nil
    then show ?case by (simp add: reread_string_def) (simp add: quote_def backslash_def)
  next
    case (Cons c t)
    then show ?case by (simp add: string_loop_escaped reread_string_def del: string_loop_simps)
  qed
  then show ?thesis by (simp add: string_from_stream_def escape_string_def)
qed

text \<open>A text without quotes, backslashes and EOT is read as it is.\<close>

definition plain_text :: "string \<Rightarrow> bool" where
  "plain_text t \<longleftrightarrow> (\<forall>c \<in> set t. c \<noteq> quote \<and> c \<noteq> backslash \<and> c \<noteq> CHR 0x04)"

lemma plain_string: "plain_text t \<Longrightarrow> string_from_stream (quote # t @ quote # ins) = Inr (t, ins)"
proof -
  have "plain_text t \<Longrightarrow> string_loop token (t @ quote # ins) = Inr (token @ t, ins)" for token
  proof (induction t arbitrary: token)
    case Nil
    show ?case by simp (simp add: quote_def backslash_def)
  qed (simp add: plain_text_def)
  then show "plain_text t \<Longrightarrow> ?thesis" by (simp add: string_from_stream_def)
qed

lemma reread_string_id: "\<forall>c \<in> set t. c \<in> {CHR 0x09, CHR 0x0A, CHR 0x0D} \<or> 32 \<le> (of_char c :: nat) \<Longrightarrow> reread_string t = t"
  by (induction t) (auto simp: reread_string_def reread_char_def)

text \<open>What is relied on of boost::lexical_cast: it reads the decimal texts of the integers, and writes plain texts.\<close>

locale lexical_laws =
  fixes lx :: lexical
  assumes read_uint64: "lex_uint64 lx (dec_string (unat u)) = Some u"
    and read_int64: "sint i < 0 \<Longrightarrow> lex_int64 lx (dec_int i) = Some i"
    and reread_uint64: "lex_uint64 lx (str_uint64 lx u) = Some u"
    and plain_texts: "plain_text (str_int64 lx i)" "plain_text (str_uint64 lx u)" "plain_text (str_double lx f)"

text \<open>
  The value that a printed value is read as: integers that are not negative become unsigned, big ones and
  floating point numbers become strings, blobs become strings, and strings change where \<open>reread_string\<close> changes
  them. The legacy format prints floating point numbers as numbers, which is left out (\<open>readable\<close>).
\<close>

fun reread :: "lexical \<Rightarrow> output_formatting \<Rightarrow> variant \<Rightarrow> variant"
  and reread_items :: "lexical \<Rightarrow> output_formatting \<Rightarrow> variant list \<Rightarrow> variant list"
  and reread_entries :: "lexical \<Rightarrow> output_formatting \<Rightarrow> variant_object \<Rightarrow> variant_object" where
  "reread lx format V_null = V_null"
| "reread lx format (V_int64 i) =
     (if format = stringify_large_ints_and_doubles \<and> sint i > 0xffffffff then V_string (str_int64 lx i)
      else if sint i < 0 then V_int64 i else V_uint64 i)"
| "reread lx format (V_uint64 u) =
     (if format = stringify_large_ints_and_doubles \<and> u > 0xffffffff then V_string (str_uint64 lx u) else V_uint64 u)"
| "reread lx format (V_double f) = V_string (str_double lx f)"
| "reread lx format (V_bool b) = V_bool b"
| "reread lx format (V_string t) = V_string (reread_string t)"
| "reread lx format (V_blob d) = V_string (reread_string (if length d \<noteq> 0 then base64_encode d @ ''='' else []))"
| "reread lx format (V_array a) = V_array (reread_items lx format a)"
| "reread lx format (V_object es) = V_object (reread_entries lx format es)"
| "reread_items lx format [] = []"
| "reread_items lx format (v # vs) = reread lx format v # reread_items lx format vs"
| "reread_entries lx format [] = []"
| "reread_entries lx format ((k, v) # es) = (reread_string k, reread lx format v) # reread_entries lx format es"

text \<open>How deep arrays and objects are nested.\<close>

fun nesting :: "variant \<Rightarrow> nat"
  and nesting_items :: "variant list \<Rightarrow> nat"
  and nesting_entries :: "variant_object \<Rightarrow> nat" where
  "nesting (V_array a) = Suc (nesting_items a)"
| "nesting (V_object es) = Suc (nesting_entries es)"
| "nesting _ = 0"
| "nesting_items [] = 0"
| "nesting_items (v # vs) = max (nesting v) (nesting_items vs)"
| "nesting_entries [] = 0"
| "nesting_entries ((k, v) # es) = max (nesting v) (nesting_entries es)"

fun readable :: "output_formatting \<Rightarrow> variant \<Rightarrow> bool"
  and readable_items :: "output_formatting \<Rightarrow> variant list \<Rightarrow> bool"
  and readable_entries :: "output_formatting \<Rightarrow> variant_object \<Rightarrow> bool" where
  "readable format (V_double f) = (format = stringify_large_ints_and_doubles)"
| "readable format (V_array a) = readable_items format a"
| "readable format (V_object es) = readable_entries format es"
| "readable format _ = True"
| "readable_items format [] = True"
| "readable_items format (v # vs) = (readable format v \<and> readable_items format vs)"
| "readable_entries format [] = True"
| "readable_entries format ((k, v) # es) = (readable format v \<and> readable_entries format es)"

definition delimited :: "string \<Rightarrow> bool" where
  "delimited rest \<longleftrightarrow> rest = [] \<or> hd rest \<in> {CHR '','', CHR '']'', CHR ''}''}"

lemma delimited_cases:
  assumes "delimited rest"
  obtains "rest = []" | c cs where "rest = c # cs" "c \<in> {CHR '','', CHR '']'', CHR ''}''}"
  using assms by (cases rest) (auto simp: delimited_def)

lemma delimited_simps [simp]: "delimited []" "delimited (CHR '','' # ins)" "delimited (CHR '']'' # ins)" "delimited (CHR ''}'' # ins)"
  by (simp_all add: delimited_def)

lemma number_loop_digits:
  "\<forall>c \<in> set ds. is_digit c \<Longrightarrow> delimited rest \<Longrightarrow> number_loop False ss (ds @ rest) = Inr (Number False (ss @ ds) rest)"
proof (induction ds arbitrary: ss)
  case Nil
  from Nil.prems(2) show ?case by (cases rule: delimited_cases) (auto simp: is_digit_def is_alnum_def)
next
  case (Cons c ds)
  then have "c \<noteq> CHR ''.''" by (auto simp: is_digit_def)
  then show ?case using Cons by simp
qed

lemma dec_string_first: "\<exists>c cs. dec_string n = c # cs \<and> is_digit c"
proof -
  have "dec_string n \<noteq> []" by (subst dec_string.simps) simp
  then show ?thesis using dec_string_digits[of n] by (cases "dec_string n") auto
qed

lemma word_read:
  assumes "delimited rest" "w \<in> {''null'', ''true'', ''false''}"
  shows "token_from_stream (w @ rest) = Inr (if w = ''null'' then V_null else V_bool (w = ''true''), rest)"
proof -
  have "\<not> is_word_char (peek rest)" using assms(1) by (cases rule: delimited_cases) (auto simp: is_word_char_def)
  then have t: "takeWhile is_word_char rest = []" "dropWhile is_word_char rest = rest" by (cases rest; simp)+
  have "takeWhile is_word_char (w @ rest) = w" "dropWhile is_word_char (w @ rest) = rest"
    using assms(2) t by (auto simp: is_word_char_def)
  then show ?thesis using assms(2) by (auto simp: token_from_stream_def)
qed

lemma variant_start:
  assumes "\<not> is_space c" "c \<noteq> CHR 0x00"
  shows "skip_white_space (c # ins) = Inr (False, c # ins)" "dropWhile is_space (c # ins) = c # ins"
  using assms by simp_all

lemma variant_body_at:
  assumes "\<not> is_space c" "c \<noteq> CHR 0x00" "d \<noteq> 0"
  shows "variant_body lx parser objs arrs (c # ins) d =
     (if c = quote then Some (case string_from_stream (c # ins) of Inl e \<Rightarrow> Inl e | Inr (t, r) \<Rightarrow> Inr (V_string t, r))
      else if c = CHR ''{'' then map_option (map_sum id (map_prod V_object id)) (objs (c # ins) (d - 1))
      else if c = CHR ''['' then map_option (map_sum id (map_prod V_array id)) (arrs (c # ins) (d - 1))
      else if is_number_start c then Some (number_from_stream lx parser (c # ins))
      else if c = CHR ''n'' \<or> c = CHR ''t'' \<or> c = CHR ''f'' then Some (token_from_stream (c # ins))
      else if c = CHR 0x04 \<or> c = CHR 0xFF \<or> c = CHR 0x00 then Some (Inl Eof_Exception)
      else Some (Inl Parse_Error_Exception))"
  by (simp only: variant_body_def Let_def variant_start[OF assms(1,2)] assms(3) if_False sum.case prod.case peek_simps)

lemma read_string:
  assumes "string_from_stream (quote # ins) = Inr (t, r)" "d \<noteq> 0"
  shows "variant_from_stream lx parser (Suc f) (quote # ins) d = Some (Inr (V_string t, r))"
proof -
  have "\<not> is_space quote" "quote \<noteq> CHR 0x00" by (simp_all add: quote_def is_space_def)
  then show ?thesis using assms by (simp add: variant_body_at)
qed

lemma read_number:
  assumes "is_digit c \<or> c = CHR ''-''" "d \<noteq> 0"
  shows "variant_from_stream lx parser (Suc f) (c # ins) d = Some (number_from_stream lx parser (c # ins))"
proof -
  have "\<not> is_space c" "c \<noteq> CHR 0x00" "c \<noteq> quote" "c \<noteq> CHR ''{''" "c \<noteq> CHR ''[''" "is_number_start c"
    using assms(1) by (auto simp: is_digit_def is_space_def quote_def is_number_start_def)
  then show ?thesis using assms(2) by (simp add: variant_body_at)
qed

lemma read_word:
  assumes "delimited rest" "w \<in> {''null'', ''true'', ''false''}" "d \<noteq> 0"
  shows "variant_from_stream lx parser (Suc f) (w @ rest) d = Some (Inr (if w = ''null'' then V_null else V_bool (w = ''true''), rest))"
  using assms(2,3) word_read[OF assms(1,2)]
  by (auto simp: variant_body_at is_space_def quote_def is_number_start_def is_digit_def)

context lexical_laws
begin

lemma read_unsigned:
  assumes "delimited rest" "d \<noteq> 0"
  shows "variant_from_stream lx parser (Suc f) (dec_string (unat u) @ rest) d = Some (Inr (V_uint64 u, rest))"
proof -
  obtain c cs where c: "dec_string (unat u) = c # cs" "is_digit c" using dec_string_first by blast
  have m: "c \<noteq> CHR ''-''" using c(2) by (auto simp: is_digit_def)
  have "number_loop False [] ((c # cs) @ rest) = Inr (Number False ([] @ c # cs) rest)"
    unfolding c(1)[symmetric] by (rule number_loop_digits[OF dec_string_digits assms(1)])
  then have "number_from_stream lx parser (c # cs @ rest) = Inr (V_uint64 u, rest)"
    using m c(2) read_uint64[of u] unfolding c(1)
    by (auto simp: number_from_stream_def to_uint64_def is_digit_def simp del: number_loop.simps)
  then show ?thesis using read_number[of c d] c assms(2) by (simp del: variant_from_stream.simps)
qed

lemma read_negative:
  assumes "delimited rest" "d \<noteq> 0" "sint i < 0"
  shows "variant_from_stream lx parser (Suc f) (dec_int i @ rest) d = Some (Inr (V_int64 i, rest))"
proof -
  define ds where "ds = dec_string (nat (- sint i))"
  have t: "dec_int i = CHR ''-'' # ds" using assms(3) by (simp add: dec_int_def ds_def)
  obtain c cs where c: "ds = c # cs" "is_digit c" unfolding ds_def using dec_string_first by blast
  have "number_loop False ''-'' (ds @ rest) = Inr (Number False (''-'' @ ds) rest)"
    unfolding ds_def by (rule number_loop_digits[OF dec_string_digits assms(1)])
  then have "number_from_stream lx parser (CHR ''-'' # ds @ rest) = Inr (V_int64 i, rest)"
    using read_int64[OF assms(3)] c unfolding t
    by (auto simp: number_from_stream_def to_int64_def is_digit_def)
  then show ?thesis using read_number[of "CHR ''-''" d] assms(2) t by simp
qed

lemma read_leaf:
  assumes "\<nexists>a. v = V_array a" "\<nexists>es. v = V_object es" "readable format v" "delimited rest" "d \<noteq> 0"
  shows "variant_from_stream lx parser (Suc f) (to_stream lx format v @ rest) d = Some (Inr (reread lx format v, rest))"
proof (cases v)
  case V_null
  then show ?thesis using read_word[OF assms(4), of "''null''" d] assms(5) by simp
next
  case (V_int64 i)
  show ?thesis
  proof (cases "format = stringify_large_ints_and_doubles \<and> sint i > 0xffffffff")
    case True
    then show ?thesis using V_int64 read_string[OF plain_string[OF plain_texts(1)] assms(5)] by simp
  next
    case False
    show ?thesis
    proof (cases "sint i < 0")
      case True
      then show ?thesis using False V_int64 read_negative[OF assms(4,5)] by simp
    next
      case pos: False
      have "uint i = sint i mod 2 ^ 64" using uint_word_of_int[of "sint i", where 'a = 64] by simp
      then have "uint i = sint i" using pos sint_less[of i] by simp
      then have "nat (sint i) = unat i" by (metis nat_uint_eq)
      then show ?thesis using pos False V_int64 read_unsigned[OF assms(4,5), where u = i] by (auto simp: dec_int_def)
    qed
  qed
next
  case (V_uint64 u)
  show ?thesis
  proof (cases "format = stringify_large_ints_and_doubles \<and> u > 0xffffffff")
    case True
    then show ?thesis using V_uint64 read_string[OF plain_string[OF plain_texts(2)] assms(5)] by simp
  next
    case False
    then show ?thesis using V_uint64 read_unsigned[OF assms(4,5)] by auto
  qed
next
  case (V_double x)
  then show ?thesis using assms(3) read_string[OF plain_string[OF plain_texts(3)] assms(5)] by simp
next
  case (V_bool b)
  then show ?thesis using read_word[OF assms(4), of "if b then ''true'' else ''false''" d] assms(5) by simp
next
  case (V_string t)
  then show ?thesis using read_string[OF string_reread[of t rest, unfolded escape_string_def append_Cons] assms(5)]
    by (simp add: escape_string_def)
next
  case (V_blob b)
  then show ?thesis
    using read_string[OF string_reread[of "if length b \<noteq> 0 then base64_encode b @ ''='' else []" rest, unfolded escape_string_def append_Cons] assms(5)]
    by (simp add: escape_string_def)
qed (use assms(1,2) in blast)+

text \<open>The loops: the value under the cursor, then what follows it.\<close>

lemma first_char:
  "readable format v \<Longrightarrow> \<exists>c cs. to_stream lx format v = c # cs \<and> \<not> is_space c \<and> c \<noteq> CHR 0x00 \<and> c \<notin> {CHR '','', CHR '']'', CHR ''}''}"
proof -
  have d: "\<exists>c cs. dec_string n = c # cs \<and> \<not> is_space c \<and> c \<noteq> CHR 0x00 \<and> c \<notin> {CHR '','', CHR '']'', CHR ''}''}" for n
  proof -
    obtain c cs where "dec_string n = c # cs" "is_digit c" using dec_string_first by blast
    then show ?thesis by (auto simp: is_digit_def is_space_def)
  qed
  have q: "\<not> is_space quote \<and> quote \<noteq> CHR 0x00 \<and> quote \<notin> {CHR '','', CHR '']'', CHR ''}''}"
    by (simp add: quote_def is_space_def)
  assume r: "readable format v"
  show ?thesis
  proof (cases v)
    case (V_int64 i)
    have "\<exists>c cs. dec_int i = c # cs \<and> \<not> is_space c \<and> c \<noteq> CHR 0x00 \<and> c \<notin> {CHR '','', CHR '']'', CHR ''}''}"
      using d[of "nat (sint i)"] by (simp add: dec_int_def is_space_def)
    then show ?thesis using q V_int64 by auto
  next
    case (V_uint64 u)
    then show ?thesis using q d[of "unat u"] by simp
  next
    case (V_double x)
    then show ?thesis using q r by simp
  qed (use q in \<open>auto simp: escape_string_def is_space_def\<close>)
qed

lemma unat_less_one: "2 * k + 1 < unat d \<Longrightarrow> 2 * k < unat (d - 1) \<and> d - 1 \<noteq> (0 :: u32)"
proof -
  assume d: "2 * k + 1 < unat d"
  then have "unat (d - 1) = unat d - 1" by (intro unat_minus_one) auto
  then show ?thesis using d by auto
qed

lemma unat_less_two: "2 * Suc k < unat d \<Longrightarrow> 2 * k + 1 < unat (d - 1) \<and> d \<noteq> (0 :: u32)"
proof -
  assume d: "2 * Suc k < unat d"
  then have "d \<noteq> 0" by auto
  then have "unat (d - 1) = unat d - 1" by (intro unat_minus_one)
  then show ?thesis using d by auto
qed

lemma array_item:
  assumes "readable format v" "variant_from_stream lx parser f (to_stream lx format v @ rest) (d - 1) = Some (Inr (reread lx format v, rest))"
    "rest = c # cs" "c \<in> {CHR '','', CHR '']''}" "array_loop lx parser g (ar @ [reread lx format v]) rest d = Some x"
  shows "\<exists>f. array_loop lx parser f ar (to_stream lx format v @ rest) d = Some x"
proof -
  obtain b bs where b: "to_stream lx format v = b # bs" "\<not> is_space b" "b \<noteq> CHR 0x00" "b \<notin> {CHR '','', CHR '']'', CHR ''}''}"
    using first_char[OF assms(1)] by blast
  let ?h = "max f g"
  have v: "variant_from_stream lx parser ?h (to_stream lx format v @ rest) (d - 1) = Some (Inr (reread lx format v, rest))"
    using parser_more_fuel(1)[OF _ assms(2), of ?h] by simp
  have l: "array_loop lx parser ?h (ar @ [reread lx format v]) rest d = Some x"
    using parser_more_fuel(3)[OF _ assms(5), of ?h] by simp
  have w: "skip_white_space rest = Inr (False, rest)" using assms(3,4) by (auto simp: is_space_def)
  have "array_loop lx parser (Suc ?h) ar (to_stream lx format v @ rest) d = Some x"
    using v l w b by (simp add: array_loop_body_def)
  then show ?thesis by blast
qed

lemma object_item:
  assumes "variant_from_stream lx parser f (to_stream lx format v @ rest) (d - 1) = Some (Inr (reread lx format v, rest))"
    "object_loop lx parser g (es @ [(reread_string k, reread lx format v)]) rest d = Some x"
  shows "\<exists>f. object_loop lx parser f es (escape_string k @ CHR '':'' # to_stream lx format v @ rest) d = Some x"
proof -
  let ?h = "max f g"
  have v: "variant_from_stream lx parser ?h (to_stream lx format v @ rest) (d - 1) = Some (Inr (reread lx format v, rest))"
    using parser_more_fuel(1)[OF _ assms(1), of ?h] by simp
  have l: "object_loop lx parser ?h (es @ [(reread_string k, reread lx format v)]) rest d = Some x"
    using parser_more_fuel(2)[OF _ assms(2), of ?h] by simp
  define ins where "ins = escape_string k @ CHR '':'' # to_stream lx format v @ rest"
  have q: "\<not> is_space quote" "quote \<noteq> CHR 0x00" "quote \<noteq> CHR ''}''" "quote \<noteq> CHR '',''" by (simp_all add: quote_def is_space_def)
  obtain cs where cs: "ins = quote # cs" by (simp add: ins_def escape_string_def)
  have "string_from_stream ins = Inr (reread_string k, CHR '':'' # to_stream lx format v @ rest)"
    unfolding ins_def by (rule string_reread)
  moreover have "skip_white_space ins = Inr (False, ins)" "peek ins = quote" using q by (simp_all add: cs)
  moreover have "skip_white_space (CHR '':'' # to_stream lx format v @ rest) = Inr (False, CHR '':'' # to_stream lx format v @ rest)"
    by (simp add: is_space_def)
  ultimately have "object_loop lx parser (Suc ?h) es ins d = Some x"
    using v l q by (simp add: object_loop_body_def append_key_def)
  then show ?thesis unfolding ins_def by blast
qed

lemma leaf_reads_back:
  assumes "\<nexists>a. v = V_array a" "\<nexists>es. v = V_object es" "readable format v" "delimited rest" "2 * nesting v < unat d"
  shows "\<exists>f. variant_from_stream lx parser f (to_stream lx format v @ rest) d = Some (Inr (reread lx format v, rest))"
proof -
  have "d \<noteq> 0" using assms(5) by auto
  from read_leaf[OF assms(1-4) this] show ?thesis by blast
qed

lemma reads_back:
  "readable format v \<Longrightarrow> delimited rest \<Longrightarrow> 2 * nesting v < unat d \<Longrightarrow>
     \<exists>f. variant_from_stream lx parser f (to_stream lx format v @ rest) d = Some (Inr (reread lx format v, rest))"
  "readable_items format vs \<Longrightarrow> vs = [] \<or> 2 * nesting_items vs + 1 < unat d \<Longrightarrow>
     \<exists>f. array_loop lx parser f ar (to_stream_items lx format vs @ CHR '']'' # rest) d = Some (Inr (ar @ reread_items lx format vs, rest))"
  "readable_entries format es \<Longrightarrow> es = [] \<or> 2 * nesting_entries es + 1 < unat d \<Longrightarrow>
     \<exists>f. object_loop lx parser f obj (to_stream_entries lx format es @ CHR ''}'' # rest) d = Some (Inr (obj @ reread_entries lx format es, rest))"
proof (induction v and vs and es arbitrary: rest d and ar rest d and obj rest d rule: nesting_nesting_items_nesting_entries.induct)
  case (1 a)
  then have d: "2 * nesting_items a + 1 < unat (d - 1)" "d \<noteq> 0" using unat_less_two[of "nesting_items a" d] by auto
  then obtain f where f: "array_loop lx parser f [] (to_stream_items lx format a @ CHR '']'' # rest) (d - 1) = Some (Inr (reread_items lx format a, rest))"
    using 1(1)[of "d - 1" "[]" rest] 1(2) by auto
  obtain c cs where "to_stream_items lx format a @ CHR '']'' # rest = c # cs" "\<not> is_space c" "c \<noteq> CHR 0x00"
    using 1(2) first_char[of format "hd a"] by (cases a rule: list.exhaust; cases "tl a") (auto simp: is_space_def)
  then have w: "skip_white_space (to_stream_items lx format a @ CHR '']'' # rest) = Inr (False, to_stream_items lx format a @ CHR '']'' # rest)"
    by simp
  have "variant_from_stream lx parser (Suc (Suc f)) (to_stream lx format (V_array a) @ rest) d = Some (Inr (reread lx format (V_array a), rest))"
    using d f w by (simp add: variant_body_at is_space_def quote_def array_body_def)
  then show ?case by blast
next
  case (2 es)
  then have d: "2 * nesting_entries es + 1 < unat (d - 1)" "d \<noteq> 0" using unat_less_two[of "nesting_entries es" d] by auto
  then obtain f where f: "object_loop lx parser f [] (to_stream_entries lx format es @ CHR ''}'' # rest) (d - 1) = Some (Inr (reread_entries lx format es, rest))"
    using 2(1)[of "d - 1" "[]" rest] 2(2) by auto
  have "variant_from_stream lx parser (Suc (Suc f)) (to_stream lx format (V_object es) @ rest) d = Some (Inr (reread lx format (V_object es), rest))"
    using d f by (simp add: variant_body_at is_space_def quote_def object_body_def)
  then show ?case by blast
next
  case 4
  show ?case by (rule exI[of _ "Suc 0"]) (simp add: array_loop_body_def)
next
  case (5 v vs)
  then have d: "2 * nesting v < unat (d - 1)" using unat_less_one[of "nesting v" d] by auto
  show ?case
  proof (cases vs)
    case Nil
    obtain f where "variant_from_stream lx parser f (to_stream lx format v @ CHR '']'' # rest) (d - 1) = Some (Inr (reread lx format v, CHR '']'' # rest))"
      using 5(1)[of "CHR '']'' # rest" "d - 1"] 5(3) d by auto
    moreover have "array_loop lx parser (Suc 0) (ar @ [reread lx format v]) (CHR '']'' # rest) d = Some (Inr (ar @ [reread lx format v], rest))"
      by (simp add: array_loop_body_def)
    ultimately show ?thesis using array_item[of format v parser f "CHR '']'' # rest" d "CHR '']''" rest "Suc 0" ar] 5(3) Nil by auto
  next
    case (Cons w ws)
    let ?r = "CHR '','' # to_stream_items lx format vs @ CHR '']'' # rest"
    obtain f where f: "variant_from_stream lx parser f (to_stream lx format v @ ?r) (d - 1) = Some (Inr (reread lx format v, ?r))"
      using 5(1)[of ?r "d - 1"] 5(3) d by auto
    obtain g where "array_loop lx parser g (ar @ [reread lx format v]) (to_stream_items lx format vs @ CHR '']'' # rest) d
        = Some (Inr ((ar @ [reread lx format v]) @ reread_items lx format vs, rest))"
      using 5(2)[of d "ar @ [reread lx format v]" rest] 5(3,4) by (auto simp: max_def split: if_splits)
    then have "array_loop lx parser (Suc g) (ar @ [reread lx format v]) ?r d = Some (Inr (ar @ reread_items lx format (v # vs), rest))"
      by (simp add: array_loop_body_def)
    from array_item[OF _ f _ _ this] show ?thesis using 5(3) Cons by auto
  qed
next
  case 6
  show ?case by (rule exI[of _ "Suc 0"]) (simp add: object_loop_body_def)
next
  case (7 k v es)
  then have d: "2 * nesting v < unat (d - 1)" using unat_less_one[of "nesting v" d] by auto
  let ?e = "(reread_string k, reread lx format v)"
  show ?case
  proof (cases es)
    case Nil
    obtain f where "variant_from_stream lx parser f (to_stream lx format v @ CHR ''}'' # rest) (d - 1) = Some (Inr (reread lx format v, CHR ''}'' # rest))"
      using 7(1)[of "CHR ''}'' # rest" "d - 1"] 7(3) d by auto
    moreover have "object_loop lx parser (Suc 0) (obj @ [?e]) (CHR ''}'' # rest) d = Some (Inr (obj @ [?e], rest))"
      by (simp add: object_loop_body_def)
    ultimately show ?thesis using object_item Nil by fastforce
  next
    case (Cons e' es')
    let ?r = "CHR '','' # to_stream_entries lx format es @ CHR ''}'' # rest"
    obtain f where f: "variant_from_stream lx parser f (to_stream lx format v @ ?r) (d - 1) = Some (Inr (reread lx format v, ?r))"
      using 7(1)[of ?r "d - 1"] 7(3) d by auto
    obtain g where "object_loop lx parser g (obj @ [?e]) (to_stream_entries lx format es @ CHR ''}'' # rest) d
        = Some (Inr ((obj @ [?e]) @ reread_entries lx format es, rest))"
      using 7(2)[of d "obj @ [?e]" rest] 7(3,4) by (auto simp: max_def split: if_splits)
    then have "object_loop lx parser (Suc g) (obj @ [?e]) ?r d = Some (Inr (obj @ reread_entries lx format ((k, v) # es), rest))"
      by (simp add: object_loop_body_def)
    from object_item[OF f this] show ?thesis using Cons by auto
  qed
qed (rule leaf_reads_back, simp, simp, assumption, assumption, assumption)+

lemma json_reads_back:
  assumes "readable format v" "2 * nesting v < unat d"
  shows "from_string lx (json_text lx format v) parser d = Some (Inr (reread lx format v))"
proof -
  let ?t = "json_text lx format v"
  obtain f where f: "variant_from_stream lx parser f (?t @ []) d = Some (Inr (reread lx format v, []))"
    using reads_back(1)[OF assms(1) delimited_simps(1) assms(2)] unfolding json_text_def by blast
  obtain x where x: "variant_from_stream lx parser (enough_fuel ?t) ?t d = Some x" using variant_from_stream_returns by blast
  let ?h = "max f (enough_fuel ?t)"
  have "Some x = Some (Inr (reread lx format v, []))"
    using parser_more_fuel(1)[OF _ f, of ?h] parser_more_fuel(1)[OF _ x, of ?h] by simp
  then show ?thesis using x by (simp add: from_string_def)
qed

end

section \<open>The limit on the nesting\<close>

lemma nesting_append_entries: "nesting_entries (xs @ ys) = max (nesting_entries xs) (nesting_entries ys)"
  by (induction xs) auto

lemma nesting_append_items: "nesting_items (xs @ ys) = max (nesting_items xs) (nesting_items ys)"
  by (induction xs) auto

lemma even_depth:
  assumes "even (unat d)" "d \<noteq> (0 :: u32)"
  shows "unat (d - 1) = unat d - 1" "odd (unat (d - 1))" "2 \<le> unat d"
proof -
  show u: "unat (d - 1) = unat d - 1" using assms(2) by (rule unat_minus_one)
  have "unat d \<noteq> 0" using assms(2) by (simp add: unat_eq_0)
  then show "2 \<le> unat d" using assms(1) by (cases "unat d = 1") auto
  then show "odd (unat (d - 1))" using assms(1) u by simp
qed

lemma odd_depth:
  assumes "odd (unat d)"
  shows "unat (d - 1) = unat d - 1" "even (unat (d - 1))"
proof -
  have "d \<noteq> 0" using assms by auto
  then show u: "unat (d - 1) = unat d - 1" by (rule unat_minus_one)
  show "even (unat (d - 1))" using assms unfolding u by simp
qed

text \<open>
  A value is parsed with an even limit, the loop of an array or object with the odd limit below it, so the limit of
  the elements is even again and does not wrap around below 0.
\<close>

lemma nested_values:
  "\<And>ins d v r. even (unat d) \<Longrightarrow> variant_from_stream lx parser f ins d = Some (Inr (v, r)) \<Longrightarrow> 2 * nesting v \<le> unat d"
  "\<And>ins d es r. odd (unat d) \<Longrightarrow> object_from_stream lx parser f ins d = Some (Inr (es, r)) \<Longrightarrow> 2 * nesting_entries es < unat d"
  "\<And>obj ins d es r. odd (unat d) \<Longrightarrow> 2 * nesting_entries obj < unat d \<Longrightarrow> object_loop lx parser f obj ins d = Some (Inr (es, r)) \<Longrightarrow> 2 * nesting_entries es < unat d"
  "\<And>ins d vs r. odd (unat d) \<Longrightarrow> array_from_stream lx parser f ins d = Some (Inr (vs, r)) \<Longrightarrow> 2 * nesting_items vs < unat d"
  "\<And>ar ins d vs r. odd (unat d) \<Longrightarrow> 2 * nesting_items ar < unat d \<Longrightarrow> array_loop lx parser f ar ins d = Some (Inr (vs, r)) \<Longrightarrow> 2 * nesting_items vs < unat d"
proof (induction f)
  case (Suc f)
  { case (1 ins d v r)
    have d: "d \<noteq> 0" using 1(2) by (auto simp: variant_body_def)
    note e = even_depth[OF 1(1) d]
    have "(\<exists>ins es. v = V_object es \<and> object_from_stream lx parser f ins (d - 1) = Some (Inr (es, r))) \<or>
      (\<exists>ins vs. v = V_array vs \<and> array_from_stream lx parser f ins (d - 1) = Some (Inr (vs, r))) \<or> nesting v = 0"
      using 1(2) by (auto simp: variant_body_def Let_def number_from_stream_def token_from_stream_def split: if_splits sum.splits prod.splits number_end.splits)
    then show ?case using Suc.IH(2)[OF e(2)] Suc.IH(4)[OF e(2)] e(1,3) by fastforce
  next
    case (2 ins d es r)
    have "0 < unat d" using 2(1) by (rule odd_pos)
    then show ?case using 2 Suc.IH(3)[OF 2(1), of "[]"] by (auto simp: object_body_def split: if_splits)
  next
    case (3 obj ins d es r)
    note o = odd_depth[OF 3(1)]
    have val: "2 * nesting_entries (append_key obj k v) < unat d" if "variant_from_stream lx parser f q (d - 1) = Some (Inr (v, q'))" for k v q q'
      using Suc.IH(1)[OF o(2) that] 3(2) o(1) odd_pos[OF 3(1)] by (simp add: append_key_def nesting_append_entries)
    show ?case using 3 Suc.IH(3)[OF 3(1)] val
      by (simp add: object_loop_body_def split: if_splits sum.splits option.splits prod.splits) blast
  next
    case (4 ins d vs r)
    have "0 < unat d" using 4(1) by (rule odd_pos)
    then show ?case using 4 Suc.IH(5)[OF 4(1), of "[]"] by (auto simp: array_body_def split: if_splits sum.splits)
  next
    case (5 ar ins d vs r)
    note o = odd_depth[OF 5(1)]
    have val: "2 * nesting_items (ar @ [v]) < unat d" if "variant_from_stream lx parser f q (d - 1) = Some (Inr (v, q'))" for v q q'
      using Suc.IH(1)[OF o(2) that] 5(2) o(1) odd_pos[OF 5(1)] by (simp add: nesting_append_items)
    show ?case using 5 Suc.IH(5)[OF 5(1)] val
      by (simp add: array_loop_body_def split: if_splits sum.splits option.splits prod.splits) blast }
qed simp_all

section \<open>An instance of lexical_cast\<close>

text \<open>Decimal integers; the floating point operations stand for themselves and are not used.\<close>

definition ref_lex_uint64 :: "string \<Rightarrow> u64 option" where
  "ref_lex_uint64 t = (if list_all is_digit t \<and> t \<noteq> [] \<and> dec_value t < 2 ^ 64 then Some (word_of_nat (dec_value t)) else None)"

definition ref_lex_int64 :: "string \<Rightarrow> u64 option" where
  "ref_lex_int64 t =
     (if list_all is_digit (tl t) \<and> t \<noteq> [] \<and> hd t = CHR ''-'' \<and> dec_value (tl t) \<le> 2 ^ 63 then Some (- word_of_nat (dec_value (tl t)))
      else if list_all is_digit t \<and> t \<noteq> [] \<and> dec_value t < 2 ^ 63 then Some (word_of_nat (dec_value t)) else None)"

definition ref_lexical :: lexical where
  "ref_lexical = \<lparr> lex_int64 = ref_lex_int64, lex_uint64 = ref_lex_uint64, lex_double = ref_lex_uint64,
     str_int64 = dec_int, str_uint64 = dec_string \<circ> unat, str_double = dec_string \<circ> unat,
     double_to_int64 = id, double_to_uint64 = id, double_of_int64 = id, double_of_uint64 = id,
     double_eq = (=), double_less = (<) \<rparr>"

lemma plain_digits: "plain_text (dec_string n)"
  using dec_string_digits[of n] by (auto simp: plain_text_def is_digit_def quote_def backslash_def)

lemma ref_reads_uint64: "ref_lex_uint64 (dec_string (unat u)) = Some u"
  using dec_string_digits[of "unat u"] dec_string_first[of "unat u"] unsigned_less[of u]
  by (auto simp: ref_lex_uint64_def list_all_iff)

lemma ref_reads_int64:
  assumes "sint i < 0"
  shows "ref_lex_int64 (dec_int i) = Some i"
proof -
  have b: "- (2 ^ 63) \<le> sint i" using sint_greater_eq[of i] by simp
  then have "nat (- sint i) \<le> 2 ^ 63" by (simp add: nat_le_iff)
  moreover have "- word_of_nat (nat (- sint i)) = i" using assms by simp
  ultimately show ?thesis
    using assms dec_string_digits[of "nat (- sint i)"] by (simp add: ref_lex_int64_def dec_int_def list_all_iff)
qed

interpretation ref_lex: lexical_laws ref_lexical
proof
  show "plain_text (str_int64 ref_lexical i)" for i
    using plain_digits by (auto simp: ref_lexical_def dec_int_def plain_text_def quote_def backslash_def)
qed (simp_all add: ref_lexical_def ref_reads_uint64 ref_reads_int64 plain_digits)

section \<open>The properties\<close>

text \<open>
  C24. The parser returns on every text, and its result does not depend on the fuel: three calls for every character of
  the text are enough.
\<close>
theorem json_parser_returns:
  "from_string lx utf8_str ptype max_depth \<noteq> None \<and>
   variant_from_stream lx ptype (enough_fuel utf8_str + k) utf8_str max_depth = variant_from_stream lx ptype (enough_fuel utf8_str) utf8_str max_depth"
proof -
  obtain x where x: "variant_from_stream lx ptype (enough_fuel utf8_str) utf8_str max_depth = Some x"
    using variant_from_stream_returns by blast
  then show ?thesis using parser_more_fuel(1)[OF _ x, of "enough_fuel utf8_str + k"] by (simp add: from_string_def)
qed

text \<open>
  C16. The parser reads back what the printer has written, up to the changes of \<open>reread\<close>: the value has the same
  structure, integers keep their value unless they are printed as strings, and a string is the same string if it
  has no control characters but tab, line feed and carriage return. The nesting must stay below half of the limit.
\<close>
theorem json_roundtrip:
  assumes "lexical_laws lx" "readable format v" "2 * nesting v < unat max_depth"
  shows "from_string lx (json_text lx format v) ptype max_depth = Some (Inr (reread lx format v)) \<and>
    (\<forall>t. (\<forall>c \<in> set t. c \<in> {CHR 0x09, CHR 0x0A, CHR 0x0D} \<or> 32 \<le> (of_char c :: nat)) \<longrightarrow> reread lx format (V_string t) = V_string t)"
  using lexical_laws.json_reads_back[OF assms] reread_string_id by simp

definition demo_value :: variant where
  "demo_value = V_object [(''num'', V_uint64 7), (''trxs'', V_array [V_string ''a b'', V_int64 (- 3), V_null, V_bool True, V_array []])]"

theorem json_roundtrip_witness:
  "from_string ref_lexical (json_text ref_lexical stringify_large_ints_and_doubles demo_value) legacy_parser 200 = Some (Inr demo_value)"
proof -
  have "readable stringify_large_ints_and_doubles demo_value" "2 * nesting demo_value < unat (200 :: u32)"
    by (simp_all add: demo_value_def)
  moreover have "reread ref_lexical stringify_large_ints_and_doubles demo_value = demo_value"
    by (simp add: demo_value_def reread_string_def reread_char_def)
  ultimately show ?thesis using json_roundtrip[OF ref_lex.lexical_laws_axioms] by metis
qed

lemma fuel_15: "enough_fuel ''[[]]'' = Suc (Suc (Suc (Suc (Suc (Suc (Suc (Suc 7)))))))"
  by (simp add: enough_fuel_def)

text \<open>
  C36. The limit on the nesting: with an even limit no value nested deeper than half of it is accepted. With an odd
  limit the check misses 0 and the limit wraps around: with limit 1 the parser accepts what it refuses with limit 2.
\<close>
theorem json_depth_limit:
  "(even (unat max_depth) \<and> from_string lx utf8_str ptype max_depth = Some (Inr v) \<longrightarrow> 2 * nesting v \<le> unat max_depth) \<and>
   from_string lx ''[[]]'' ptype 2 = Some (Inl Parse_Error_Exception) \<and>
   from_string lx ''[[]]'' ptype 1 = Some (Inr (V_array [V_array []]))"
proof (intro conjI impI)
  assume "even (unat max_depth) \<and> from_string lx utf8_str ptype max_depth = Some (Inr v)"
  then show "2 * nesting v \<le> unat max_depth" using nested_values(1) by (auto simp: from_string_def)
qed (simp_all add: from_string_def fuel_15 variant_body_def array_body_def array_loop_body_def is_space_def
  quote_def is_number_start_def is_digit_def del: Suc_numeral)

theorem json_depth_limit_witness:
  "2 * nesting (V_array [V_array []]) \<le> unat (4 :: u32) \<and>
   from_string ref_lexical ''[[]]'' legacy_parser 4 = Some (Inr (V_array [V_array []]))"
proof -
  have p: "from_string ref_lexical ''[[]]'' legacy_parser 4 = Some (Inr (V_array [V_array []]))"
    by (simp add: from_string_def fuel_15 variant_body_def array_body_def array_loop_body_def is_space_def
      quote_def is_number_start_def is_digit_def del: Suc_numeral)
  then show ?thesis using json_depth_limit[of 4 ref_lexical "''[[]]''" legacy_parser "V_array [V_array []]"] by simp
qed

text \<open>Every other control character comes back as something else.\<close>

lemma control_characters_change:
  assumes "lexical_laws lx" "(of_char c :: nat) < 32" "c \<notin> {CHR 0x09, CHR 0x0A, CHR 0x0D}"
  shows "\<exists>t. from_string lx (json_text lx format (V_string [c])) ptype 200 = Some (Inr (V_string t)) \<and> t \<noteq> [c]"
proof -
  have "reread_string [c] \<noteq> [c]" using assms(2,3) by (auto simp: reread_string_def reread_char_def escape_char_def backslash_def quote_def)
  then show ?thesis using lexical_laws.json_reads_back[OF assms(1), of format "V_string [c]" 200 ptype] by simp
qed

text \<open>\<open>operator ==\<close> has no case for two truth values.\<close>

lemma booleans_never_equal: "variant_eq lx (V_bool a) (V_bool b) = Inr False"
  by (simp add: is_string_def is_double_def is_int64_def is_uint64_def is_array_def)

end
