(* ===== verification/Block_Codec.thy ===== *)
theory Block_Codec
  imports Json_Spec
begin

text \<open>
  The JSON text of a block, as sqlite_plugin.cpp writes and reads it: \<open>fc::json::to_string(block)\<close>, and
  \<open>fc::json::from_string\<close> followed by \<open>fc::from_variant\<close>. The conversions of blocks and transactions are those of
  include/fc/reflect/variant.hpp for the members that block.hpp and transaction.hpp list in FC_REFLECT.

  The texts of times (boost::posix_time) and of keys and signatures (base58 with a checksum by OpenSSL's
  RIPEMD-160) are the fields of \<open>block_leaves\<close>.
\<close>

record block_leaves =
  time_str :: "u32 \<Rightarrow> string"
  time_of :: "string \<Rightarrow> u32 result"
  signature_str :: "signature \<Rightarrow> string"
  signature_of :: "string \<Rightarrow> signature result"
  key_str :: "public_key \<Rightarrow> string"
  key_of :: "string \<Rightarrow> public_key result"

section \<open>Members\<close>

text \<open>A value whose conversion goes through \<open>as_string\<close>.\<close>

definition from_variant_text :: "lexical \<Rightarrow> (string \<Rightarrow> 'a result) \<Rightarrow> variant \<Rightarrow> 'a result" where
  "from_variant_text lx of_text v = (case as_string lx v of Inl e \<Rightarrow> Inl e | Inr t \<Rightarrow> of_text t)"

definition to_variant_sha256 :: "sha256 \<Rightarrow> variant" where
  "to_variant_sha256 bi = to_variant_bytes (pack_sha256 bi)"

definition sha256_of_bytes :: "u8 list \<Rightarrow> sha256" where
  "sha256_of_bytes bs = Sha256 (from_le (take 8 bs)) (from_le (take 8 (drop 8 bs))) (from_le (take 8 (drop 16 bs))) (from_le (take 8 (drop 24 bs)))"

text \<open>Fewer than 32 bytes overwrite the first bytes of the old value only; no bytes clear it.\<close>

definition from_variant_sha256 :: "lexical \<Rightarrow> variant \<Rightarrow> sha256 \<Rightarrow> sha256 result" where
  "from_variant_sha256 lx v bi =
     (case from_variant_bytes lx v of Inl e \<Rightarrow> Inl e
      | Inr ve \<Rightarrow>
          (if length ve \<noteq> 0
           then (let n = min (length ve) 32 in Inr (sha256_of_bytes (take n ve @ drop n (pack_sha256 bi))))
           else Inr blank_sha256))"

text \<open>\<open>from_variant_visitor\<close>: a member is read if the object has its key, and keeps its value otherwise.\<close>

definition read_member :: "variant_object \<Rightarrow> string \<Rightarrow> (variant \<Rightarrow> 'a result) \<Rightarrow> 'a \<Rightarrow> 'a result" where
  "read_member vo name conv old =
     (let itr = find_key vo name in if itr \<noteq> length vo then conv (snd (vo ! itr)) else Inr old)"

section \<open>Transactions\<close>

definition to_variant_transaction :: "block_leaves \<Rightarrow> transaction \<Rightarrow> variant" where
  "to_variant_transaction lv t =
     V_object [(''time_point'', V_string (time_str lv (trx_time_point t))),
       (''data'', to_variant_bytes (trx_data t)),
       (''attach'', to_variant_bytes (trx_attach t)),
       (''signature'', V_string (signature_str lv (trx_signature t))),
       (''pub_key'', V_string (key_str lv (trx_pub_key t)))]"

definition new_transaction :: transaction where
  "new_transaction = \<lparr>trx_time_point = 0, trx_data = [], trx_attach = [], trx_signature = blank_signature, trx_pub_key = PK_K1 0\<rparr>"

definition from_variant_transaction :: "lexical \<Rightarrow> block_leaves \<Rightarrow> variant \<Rightarrow> transaction \<Rightarrow> transaction result" where
  "from_variant_transaction lx lv v t =
     (case get_object v of Inl e \<Rightarrow> Inl e | Inr vo \<Rightarrow>
      (case read_member vo ''time_point'' (from_variant_text lx (time_of lv)) (trx_time_point t) of Inl e \<Rightarrow> Inl e | Inr tp \<Rightarrow>
      (case read_member vo ''data'' (from_variant_bytes lx) (trx_data t) of Inl e \<Rightarrow> Inl e | Inr d \<Rightarrow>
      (case read_member vo ''attach'' (from_variant_bytes lx) (trx_attach t) of Inl e \<Rightarrow> Inl e | Inr a \<Rightarrow>
      (case read_member vo ''signature'' (from_variant_text lx (signature_of lv)) (trx_signature t) of Inl e \<Rightarrow> Inl e | Inr sg \<Rightarrow>
      (case read_member vo ''pub_key'' (from_variant_text lx (key_of lv)) (trx_pub_key t) of Inl e \<Rightarrow> Inl e | Inr k \<Rightarrow>
        Inr \<lparr>trx_time_point = tp, trx_data = d, trx_attach = a, trx_signature = sg, trx_pub_key = k\<rparr>))))))"

text \<open>\<open>from_variant\<close> of a vector: every element is converted into a new transaction.\<close>

fun from_variant_transactions_loop :: "lexical \<Rightarrow> block_leaves \<Rightarrow> variant list \<Rightarrow> transaction list result" where
  "from_variant_transactions_loop lx lv [] = Inr []"
| "from_variant_transactions_loop lx lv (v # vs) =
     (case from_variant_transaction lx lv v new_transaction of Inl e \<Rightarrow> Inl e | Inr t \<Rightarrow>
      (case from_variant_transactions_loop lx lv vs of Inl e \<Rightarrow> Inl e | Inr ts \<Rightarrow> Inr (t # ts)))"

definition from_variant_transactions :: "lexical \<Rightarrow> block_leaves \<Rightarrow> variant \<Rightarrow> transaction list result" where
  "from_variant_transactions lx lv v =
     (case get_array v of Inl e \<Rightarrow> Inl e | Inr vs \<Rightarrow> from_variant_transactions_loop lx lv vs)"

section \<open>Blocks\<close>

definition to_variant_block :: "block_leaves \<Rightarrow> block \<Rightarrow> variant" where
  "to_variant_block lv b =
     V_object [(''time_point'', V_string (time_str lv (blk_time_point b))),
       (''prior_hash'', to_variant_sha256 (prior_hash b)),
       (''blk_num'', to_variant_u64 (blk_num b)),
       (''trxs'', V_array (map (to_variant_transaction lv) (trxs b))),
       (''merkle_root'', to_variant_sha256 (merkle_root b)),
       (''sig'', V_string (signature_str lv (sig b)))]"

definition from_variant_block :: "lexical \<Rightarrow> block_leaves \<Rightarrow> variant \<Rightarrow> block \<Rightarrow> block result" where
  "from_variant_block lx lv v b =
     (case get_object v of Inl e \<Rightarrow> Inl e | Inr vo \<Rightarrow>
      (case read_member vo ''time_point'' (from_variant_text lx (time_of lv)) (blk_time_point b) of Inl e \<Rightarrow> Inl e | Inr tp \<Rightarrow>
      (case read_member vo ''prior_hash'' (\<lambda>v. from_variant_sha256 lx v (prior_hash b)) (prior_hash b) of Inl e \<Rightarrow> Inl e | Inr ph \<Rightarrow>
      (case read_member vo ''blk_num'' (from_variant_u64 lx) (blk_num b) of Inl e \<Rightarrow> Inl e | Inr n \<Rightarrow>
      (case read_member vo ''trxs'' (from_variant_transactions lx lv) (trxs b) of Inl e \<Rightarrow> Inl e | Inr ts \<Rightarrow>
      (case read_member vo ''merkle_root'' (\<lambda>v. from_variant_sha256 lx v (merkle_root b)) (merkle_root b) of Inl e \<Rightarrow> Inl e | Inr mr \<Rightarrow>
      (case read_member vo ''sig'' (from_variant_text lx (signature_of lv)) (sig b) of Inl e \<Rightarrow> Inl e | Inr sg \<Rightarrow>
        Inr \<lparr>blk_num = n, prior_hash = ph, blk_time_point = tp, merkle_root = mr, sig = sg, trxs = ts\<rparr>)))))))"

text \<open>
  What the plugin does with a block: \<open>Block blk\<close> has the time of the clock and an indeterminate number until they
  are read. The parser returns with the fuel of \<open>from_string\<close>, so that \<open>Abort\<close> is not reached.
\<close>

definition block_to_json :: "lexical \<Rightarrow> block_leaves \<Rightarrow> block \<Rightarrow> string" where
  "block_to_json lx lv b = json_text lx stringify_large_ints_and_doubles (to_variant_block lv b)"

definition block_from_json :: "lexical \<Rightarrow> block_leaves \<Rightarrow> u32 \<Rightarrow> u64 \<Rightarrow> string \<Rightarrow> block result" where
  "block_from_json lx lv now indet json =
     (case from_string lx json legacy_parser default_max_recursion_depth of
        None \<Rightarrow> Inl Abort
      | Some (Inl e) \<Rightarrow> Inl e
      | Some (Inr v) \<Rightarrow> from_variant_block lx lv v (new_block now indet))"

definition block_codec :: "lexical \<Rightarrow> block_leaves \<Rightarrow> u32 \<Rightarrow> u64 \<Rightarrow> json_codec" where
  "block_codec lx lv now indet = \<lparr>json_to_string = block_to_json lx lv, json_from_string = block_from_json lx lv now indet\<rparr>"

section \<open>The round trip\<close>

text \<open>A text that JSON and the SQL statement leave alone: no control characters and no apostrophe.\<close>

definition clean_text :: "string \<Rightarrow> bool" where
  "clean_text t \<longleftrightarrow> (\<forall>c \<in> set t. 32 \<le> (of_char c :: nat) \<and> c \<noteq> CHR 0x27)"

lemma reread_clean: "clean_text t \<Longrightarrow> reread_string t = t"
  by (rule reread_string_id) (simp add: clean_text_def)

lemma clean_alnum: "\<forall>c \<in> set t. is_alnum c \<Longrightarrow> clean_text t"
  by (auto simp: clean_text_def is_alnum_def Let_def)

lemma clean_hex: "clean_text (to_hex bs)"
  using clean_alnum to_hex_chars by blast

locale block_leaf_laws = lexical_laws +
  fixes lv :: block_leaves
  assumes time_read: "time_of lv (time_str lv t) = Inr t"
    and signature_read: "signature_of lv (signature_str lv sg) = Inr sg"
    and key_read: "key_of lv (key_str lv k) = Inr k"
    and clean_leaves: "clean_text (time_str lv t)" "clean_text (signature_str lv sg)" "clean_text (key_str lv k)"
    and clean_number: "clean_text (str_uint64 lx n)"

lemma read_member_hit: "map_of vo name = Some v \<Longrightarrow> CHR 0x00 \<notin> set name \<Longrightarrow> read_member vo name conv old = conv v"
  using find_entry_map_of(2)[of vo name v] by (simp add: read_member_def find_key_def)

lemma sha256_bytes_roundtrip: "sha256_of_bytes (pack_sha256 h) = h"
  by (cases h) (simp add: sha256_of_bytes_def pack_u64_def from_le_le_bytes take_bit_word_eq_self)

lemma sha256_variant_roundtrip: "from_variant_sha256 lx (to_variant_sha256 h) old = Inr h"
  by (simp add: from_variant_sha256_def to_variant_sha256_def bytes_variant_roundtrip length_pack_sha256 sha256_bytes_roundtrip)

lemma reread_bytes: "reread lx format (to_variant_bytes bs) = to_variant_bytes bs"
  using reread_clean[OF clean_hex[of bs]] by (simp add: to_variant_bytes_def reread_string_def)

context block_leaf_laws
begin

lemma read_text:
  "time_of lv (reread_string (time_str lv t)) = Inr t"
  "signature_of lv (reread_string (signature_str lv sg)) = Inr sg"
  "key_of lv (reread_string (key_str lv k)) = Inr k"
  by (simp_all add: clean_leaves[THEN reread_clean] time_read signature_read key_read)

lemma transaction_roundtrip:
  "from_variant_transaction lx lv (reread lx format (to_variant_transaction lv t)) old = Inr t"
  by (simp add: from_variant_transaction_def to_variant_transaction_def get_object_def reread_bytes reread_string_id
      read_member_hit from_variant_text_def as_string_def read_text bytes_variant_roundtrip)

lemma transactions_roundtrip:
  "from_variant_transactions_loop lx lv (reread_items lx format (map (to_variant_transaction lv) ts)) = Inr ts"
  by (induction ts) (simp_all add: transaction_roundtrip)

lemma number_roundtrip: "from_variant_u64 lx (reread lx format (to_variant_u64 n)) = Inr n"
  by (simp add: from_variant_u64_def to_variant_u64_def as_uint64_def to_uint64_def reread_uint64)

lemma block_roundtrip:
  "from_variant_block lx lv (reread lx format (to_variant_block lv b)) old = Inr b"
  by (simp add: from_variant_block_def to_variant_block_def get_object_def reread_bytes to_variant_sha256_def reread_string_id
      read_member_hit from_variant_text_def as_string_def read_text number_roundtrip from_variant_transactions_def get_array_def
      transactions_roundtrip sha256_variant_roundtrip[unfolded to_variant_sha256_def])

lemma block_readable: "readable format (to_variant_block lv b)" "nesting (to_variant_block lv b) \<le> 3"
proof -
  have t: "readable format (to_variant_transaction lv t)" "nesting (to_variant_transaction lv t) = 1" for t
    by (simp_all add: to_variant_transaction_def to_variant_bytes_def)
  have "readable_items format (map (to_variant_transaction lv) ts)" "nesting_items (map (to_variant_transaction lv) ts) \<le> 1" for ts
    by (induction ts) (simp_all add: t)
  then show "readable format (to_variant_block lv b)" "nesting (to_variant_block lv b) \<le> 3"
    by (simp_all add: to_variant_block_def to_variant_sha256_def to_variant_bytes_def to_variant_u64_def)
qed

lemma block_json_roundtrip: "block_from_json lx lv now indet (block_to_json lx lv b) = Inr b"
proof -
  have "2 * nesting (to_variant_block lv b) < unat default_max_recursion_depth"
    using block_readable(2)[of b] by (simp add: default_max_recursion_depth_def)
  from json_reads_back[OF block_readable(1) this] show ?thesis
    by (simp add: block_from_json_def block_to_json_def block_roundtrip)
qed

lemma clean_append [simp]: "clean_text (x @ y) \<longleftrightarrow> clean_text x \<and> clean_text y" "clean_text []"
  "clean_text (c # x) \<longleftrightarrow> 32 \<le> (of_char c :: nat) \<and> c \<noteq> CHR 0x27 \<and> clean_text x"
  by (auto simp: clean_text_def)

lemma clean_escaped: "clean_text t \<Longrightarrow> clean_text (escape_string t)"
proof -
  have "clean_text [c] \<Longrightarrow> clean_text (escape_char c)" for c
    by (auto simp: clean_text_def escape_char_def backslash_def quote_def)
  then have "clean_text t \<Longrightarrow> clean_text (concat (map escape_char t))"
    by (induction t) simp_all
  then show "clean_text t \<Longrightarrow> clean_text (escape_string t)"
    by (simp add: escape_string_def) (simp add: quote_def)
qed

lemma clean_dec: "clean_text (dec_string n)"
  using dec_string_digits[of n] by (auto simp: clean_text_def is_digit_def)

lemma clean_bytes: "clean_text (to_stream lx format (to_variant_bytes bs))"
  using clean_escaped[OF clean_hex[of bs]] clean_escaped[of "[]"] by (simp add: to_variant_bytes_def)

lemma clean_transaction: "clean_text (to_stream lx format (to_variant_transaction lv t))"
  using clean_escaped[OF clean_leaves(1)] clean_escaped[OF clean_leaves(2)] clean_escaped[OF clean_leaves(3)]
    clean_escaped[of "''time_point''"] clean_escaped[of "''data''"] clean_escaped[of "''attach''"]
    clean_escaped[of "''signature''"] clean_escaped[of "''pub_key''"] clean_bytes
  by (simp add: to_variant_transaction_def)

lemma clean_transactions: "clean_text (to_stream_items lx format (map (to_variant_transaction lv) ts))"
proof (induction ts)
  case (Cons t ts)
  then show ?case using clean_transaction by (cases ts) simp_all
qed simp

lemma clean_block: "clean_text (block_to_json lx lv b)"
  using clean_escaped[OF clean_leaves(1)] clean_escaped[OF clean_leaves(2)]
    clean_escaped[of "''time_point''"] clean_escaped[of "''prior_hash''"] clean_escaped[of "''blk_num''"]
    clean_escaped[of "''trxs''"] clean_escaped[of "''merkle_root''"] clean_escaped[of "''sig''"]
    clean_bytes clean_transactions clean_dec clean_number
  by (simp add: block_to_json_def json_text_def to_variant_block_def to_variant_sha256_def to_variant_u64_def quote_def)

end

section \<open>An instance of the leaves\<close>

text \<open>Decimal numbers, with a letter for the kind of a key or signature.\<close>

definition number_of_text :: "string \<Rightarrow> nat result" where
  "number_of_text t = (if list_all is_digit t \<and> t \<noteq> [] then Inr (dec_value t) else Inl Parse_Error_Exception)"

definition tagged_of_text :: "('w \<Rightarrow> 'a) \<Rightarrow> ('w \<Rightarrow> 'a) \<Rightarrow> (nat \<Rightarrow> 'w) \<Rightarrow> string \<Rightarrow> 'a result" where
  "tagged_of_text k1 r1 w t =
     (case t of [] \<Rightarrow> Inl Parse_Error_Exception
      | c # ds \<Rightarrow> map_sum id (\<lambda>n. if c = CHR ''K'' then k1 (w n) else r1 (w n)) (number_of_text ds))"

definition ref_leaves :: block_leaves where
  "ref_leaves = \<lparr>
     time_str = (\<lambda>t. dec_string (unat t)),
     time_of = (\<lambda>t. map_sum id word_of_nat (number_of_text t)),
     signature_str = case_signature (\<lambda>d. CHR ''K'' # dec_string (unat d)) (\<lambda>d. CHR ''R'' # dec_string (unat d)),
     signature_of = tagged_of_text SIG_K1 SIG_R1 word_of_nat,
     key_str = case_public_key (\<lambda>d. CHR ''K'' # dec_string (unat d)) (\<lambda>d. CHR ''R'' # dec_string (unat d)),
     key_of = tagged_of_text PK_K1 PK_R1 word_of_nat \<rparr>"

lemma number_of_dec [simp]: "number_of_text (dec_string n) = Inr n"
  using dec_string_digits[of n] dec_string_first[of n] by (auto simp: number_of_text_def list_all_iff)

lemma clean_number_text [simp]: "clean_text (dec_string n)" "clean_text (CHR ''K'' # dec_string n)" "clean_text (CHR ''R'' # dec_string n)"
  using dec_string_digits[of n] by (auto simp: clean_text_def is_digit_def)

interpretation ref_blocks: block_leaf_laws ref_lexical ref_leaves
proof unfold_locales
  fix t sg k n
  show "time_of ref_leaves (time_str ref_leaves t) = Inr t" "clean_text (time_str ref_leaves t)" by (simp_all add: ref_leaves_def)
  show "signature_of ref_leaves (signature_str ref_leaves sg) = Inr sg" "clean_text (signature_str ref_leaves sg)"
    by (cases sg; simp add: ref_leaves_def tagged_of_text_def)+
  show "key_of ref_leaves (key_str ref_leaves k) = Inr k" "clean_text (key_str ref_leaves k)"
    by (cases k; simp add: ref_leaves_def tagged_of_text_def)+
  show "clean_text (str_uint64 ref_lexical n)" by (simp add: ref_lexical_def)
qed

section \<open>The property\<close>

text \<open>
  C10. A block is read back from its JSON text as it was, whatever the clock and the indeterminate number of the new
  object are, and the text has no apostrophe, which would end the literal of the SQL statement that it is
  pasted into.
\<close>
theorem block_read_back:
  assumes "block_leaf_laws lx lv"
  shows "block_from_json lx lv now indet (block_to_json lx lv b) = Inr b \<and> CHR 0x27 \<notin> set (block_to_json lx lv b)"
  using block_leaf_laws.block_json_roundtrip[OF assms] block_leaf_laws.clean_block[OF assms, of b] by (auto simp: clean_text_def)

theorem block_read_back_witness:
  "block_from_json ref_lexical ref_leaves 7 8 (block_to_json ref_lexical ref_leaves (new_block 5 0xffffffffff)) = Inr (new_block 5 0xffffffffff)"
  using block_read_back[OF ref_blocks.block_leaf_laws_axioms] by blast

end
