(* ===== verification/Reference_Db.thy ===== *)
theory Reference_Db
  imports Block_Codec
begin

text \<open>
  An executable database that meets the contract \<open>sqlite_db\<close> together with the JSON code of fc: a table of
  rows that understands the four statements of the plugin. It instantiates the parameter of the storage
  model; it is not a model of SQLite's implementation.
\<close>

section \<open>A database for the four statements\<close>

fun strip_prefix :: "string \<Rightarrow> string \<Rightarrow> string option" where
  "strip_prefix [] cs = Some cs"
| "strip_prefix (p # ps) [] = None"
| "strip_prefix (p # ps) (c # cs) = (if p = c then strip_prefix ps cs else None)"

lemma strip_prefix_append [simp]: "strip_prefix p (p @ s) = Some s"
  by (induction p) simp_all

definition ref_insert :: "string \<Rightarrow> (nat \<times> string \<times> string) list \<Rightarrow> bool \<times> row list \<times> (nat \<times> string \<times> string) list" where
  "ref_insert arg rs =
     (let n = dec_value (takeWhile is_digit arg);
          s = drop 2 (dropWhile is_digit arg);
          h = takeWhile (\<lambda>c. c \<noteq> CHR 0x27) s;
          t = drop 3 (dropWhile (\<lambda>c. c \<noteq> CHR 0x27) s);
          j = takeWhile (\<lambda>c. c \<noteq> CHR 0x27) t
      in if n \<in> fst ` set rs then (False, [], rs)
         else (True, [], insort_key fst (n, h, j) rs))"

definition ref_select :: "string \<Rightarrow> (nat \<times> string \<times> string) list \<Rightarrow> bool \<times> row list \<times> (nat \<times> string \<times> string) list" where
  "ref_select arg rs =
     (True, (case map_of rs (dec_value (takeWhile is_digit arg)) of
               None \<Rightarrow> [] | Some (h, j) \<Rightarrow> [[(''JSON'', Some j)]]), rs)"

definition ref_exec :: "(nat \<times> string \<times> string) list sq_exec" where
  "ref_exec sql rs =
     (if sql = count_sql then (True, [[(''num'', Some (dec_string (length rs)))]], rs)
      else if sql = select_all_sql then (True, map (\<lambda>(n, h, j). [(''JSON'', Some j)]) rs, rs)
      else (case strip_prefix ''SELECT JSON FROM BLOCK WHERE ID='' sql of
              Some arg \<Rightarrow> ref_select arg rs
            | None \<Rightarrow>
              (case strip_prefix ''INSERT INTO BLOCK (ID,HASH,JSON) VALUES('' sql of
                 Some arg \<Rightarrow> ref_insert arg rs
               | None \<Rightarrow> (False, [], rs))))"

lemma takeWhile_digits_dec [simp]:
  "\<not> is_digit c \<Longrightarrow> takeWhile is_digit (dec_string n @ c # s) = dec_string n"
  "\<not> is_digit c \<Longrightarrow> dropWhile is_digit (dec_string n @ c # s) = c # s"
  using dec_string_digits[of n] by (simp_all add: takeWhile_append dropWhile_append)

lemma not_digit_punct [simp]: "\<not> is_digit CHR 0x2C" "\<not> is_digit CHR 0x3B"
  by (simp_all add: is_digit_def)

lemma until_quote:
  "CHR 0x27 \<notin> set s \<Longrightarrow> takeWhile (\<lambda>c. c \<noteq> CHR 0x27) (s @ CHR 0x27 # t) = s"
  "CHR 0x27 \<notin> set s \<Longrightarrow> dropWhile (\<lambda>c. c \<noteq> CHR 0x27) (s @ CHR 0x27 # t) = CHR 0x27 # t"
  by (subst takeWhile_append2 dropWhile_append2; force)+

lemma insort_key_last:
  "\<forall>r \<in> set rs. f r < f x \<Longrightarrow> insort_key f x rs = rs @ [x]"
  by (induction rs) auto

lemma ref_exec_insert:
  assumes "CHR 0x27 \<notin> set h" "CHR 0x27 \<notin> set j" "\<forall>r \<in> set rs. fst r < unat n"
  shows "ref_exec (insert_sql n h j) rs = (True, [], rs @ [(unat n, h, j)])"
proof -
  have "unat n \<notin> fst ` set rs" using assms(3) by auto
  then have "ref_insert (dec_string (unat n) @ '','' @ [CHR 0x27] @ h @ [CHR 0x27] @ '','' @ [CHR 0x27] @ j
      @ [CHR 0x27] @ '');'') rs = (True, [], rs @ [(unat n, h, j)])"
    using assms by (simp add: ref_insert_def until_quote insort_key_last Let_def)
  then show ?thesis
    by (simp add: ref_exec_def insert_sql_def count_sql_def select_all_sql_def)
qed

lemma ref_exec_select:
  "ref_exec (select_sql n) rs =
     (True, (case map_of rs (unat n) of None \<Rightarrow> [] | Some (h, j) \<Rightarrow> [[(''JSON'', Some j)]]), rs)"
  by (simp add: ref_exec_def select_sql_def count_sql_def select_all_sql_def ref_select_def)

section \<open>The codec for blocks\<close>

text \<open>The JSON code of Block_Codec, on the instances of lexical_cast and of the leaves.\<close>

definition ref_codec :: json_codec where
  "ref_codec = block_codec ref_lexical ref_leaves 0 0"

interpretation ref_db: sqlite_db ref_exec "\<lambda>rs. rs" ref_codec
proof unfold_locales
  fix b n h j d rc rows d'
  show "json_from_string ref_codec (json_to_string ref_codec b) = Inr b"
    by (simp add: ref_codec_def block_codec_def ref_blocks.block_json_roundtrip)
  show "CHR 0x27 \<notin> set (json_to_string ref_codec b)"
    using ref_blocks.clean_block[of b] by (auto simp: ref_codec_def block_codec_def clean_text_def)
  show "CHR 0x00 \<notin> set (json_to_string ref_codec b)"
    using ref_blocks.clean_block[of b] by (force simp: ref_codec_def block_codec_def clean_text_def)
  show "\<exists>d'. ref_exec (select_sql n) d = (True, (case map_of d (unat n) of None \<Rightarrow> []
      | Some (h, j) \<Rightarrow> [[(''JSON'', Some j)]]), d') \<and> d' = d"
    by (simp add: ref_exec_select)
  show "d' = d" if "ref_exec (select_sql n) d = (rc, rows, d')"
    using that by (simp add: ref_exec_select)
  show "\<exists>d'. ref_exec count_sql d = (True, [[(''num'', Some (dec_string (length d)))]], d') \<and> d' = d"
    by (simp add: ref_exec_def)
  show "\<exists>d'. ref_exec select_all_sql d = (True, map (\<lambda>(n, h, j). [(''JSON'', Some j)]) d, d') \<and> d' = d"
    by (simp add: ref_exec_def count_sql_def select_all_sql_def)
qed (simp add: ref_exec_insert)

end
