(* ===== verification/Node.thy ===== *)
theory Node
  imports Reference_Db "HOL-Library.Sublist"
begin

text \<open>
  plugins/chain_plugin: the start of the plugin and the handlers of its API, over the buffer of
  libraries/chain and the block store. A handler takes the shared state (the buffer and the
  state of the sqlite plugin) and returns what it passes to \<open>next\<close>, or the exception, with the new
  state. The clock and the indeterminate \<open>blk_num\<close> of each \<open>Block\<close> it constructs are arguments.

  The node as a whole is the relation \<open>node_step\<close>: any interleaving of the handlers and of
  restarts (which lose the buffer and keep the database).
\<close>

section \<open>Handlers\<close>

type_synonym 's node = "buffer \<times> 's"

definition plugin_initialize :: "u32 \<Rightarrow> u64 \<Rightarrow> buffer option" where
  "plugin_initialize now indet = Some (new_buffer now indet)"

definition plugin_startup :: "'s db_plugin \<Rightarrow> buffer option \<Rightarrow> 's \<Rightarrow> buffer result \<times> 's" where
  "plugin_startup pl chain s =
     (case chain of
        None \<Rightarrow> (Inl Assert_Exception, s)
      | Some buf \<Rightarrow>
          (case p_count pl s of
             (Inl e, s) \<Rightarrow> (Inl e, s)
           | (Inr blk_count, s) \<Rightarrow>
               if blk_count > 0 then
                 (case p_get pl (blk_count - 1) s of
                    (Inl e, s) \<Rightarrow> (Inl e, s)
                  | (Inr None, s) \<Rightarrow> (Inl Abort, s)
                  | (Inr (Some blk), s) \<Rightarrow> (Inr (cache_last_blk blk buf), s))
               else (Inr buf, s)))"

record push_transaction_params =
  p_type :: u32
  p_pub_key :: public_key
  p_signature :: signature
  p_time_point :: u32
  p_data :: "u8 list"
  p_attach :: "u8 list"

definition params_trx :: "push_transaction_params \<Rightarrow> transaction" where
  "params_trx p = \<lparr>trx_time_point = p_time_point p, trx_data = p_data p, trx_attach = p_attach p,
     trx_signature = p_signature p, trx_pub_key = p_pub_key p\<rparr>"

definition push_transaction ::
  "crypto \<Rightarrow> push_transaction_params \<Rightarrow> 's node \<Rightarrow> transaction result \<times> 's node" where
  "push_transaction c p nd =
     (let trx = params_trx p; (buf, s) = nd
      in (case transaction_validate c trx of
            Inl e \<Rightarrow> (Inl e, nd)
          | Inr False \<Rightarrow> (Inl Trx_Invalid_Arg_Exception, nd)
          | Inr True \<Rightarrow> (Inr trx, (cache_trx trx buf, s))))"

definition publish_blk ::
  "crypto \<Rightarrow> 's db_plugin \<Rightarrow> u32 \<Rightarrow> u64 \<Rightarrow> 's node \<Rightarrow> unit result \<times> 's node" where
  "publish_blk c pl now indet nd =
     (let (buf, s) = nd
      in (case build_block c now indet buf of
            Inl e \<Rightarrow> (Inl e, nd)
          | Inr (last_blk, buf) \<Rightarrow>
              (case p_append pl last_blk s of
                 (Inl e, s) \<Rightarrow> (Inl e, (buf, s))
               | (Inr _, s) \<Rightarrow> (Inr (), (cache_last_blk last_blk buf, s)))))"

definition get_info :: "'s db_plugin \<Rightarrow> 's node \<Rightarrow> (u64 \<times> nat) result \<times> 's node" where
  "get_info pl nd =
     (let (buf, s) = nd
      in (case p_count pl s of
            (Inl e, s) \<Rightarrow> (Inl e, (buf, s))
          | (Inr n, s) \<Rightarrow> (Inr (n, get_catch_trxs_count buf), (buf, s))))"

definition api_get_block :: "'s db_plugin \<Rightarrow> u64 \<Rightarrow> 's node \<Rightarrow> block option result \<times> 's node" where
  "api_get_block pl n nd = (let (buf, s) = nd; (r, s) = p_get pl n s in (r, (buf, s)))"

fun get_blocks_loop :: "'s db_plugin \<Rightarrow> u64 list \<Rightarrow> block list \<Rightarrow> 's \<Rightarrow> block list result \<times> 's" where
  "get_blocks_loop pl [] res s = (Inr res, s)"
| "get_blocks_loop pl (idx # nums) res s =
     (case p_get pl idx s of
        (Inl e, s) \<Rightarrow> (Inl e, s)
      | (Inr None, s) \<Rightarrow> get_blocks_loop pl nums res s
      | (Inr (Some b), s) \<Rightarrow> get_blocks_loop pl nums (res @ [b]) s)"

definition api_get_blocks :: "'s db_plugin \<Rightarrow> u64 list \<Rightarrow> 's node \<Rightarrow> block list result \<times> 's node" where
  "api_get_blocks pl nums nd =
     (let (buf, s) = nd;
          (r, s) = (if length nums = 0 then p_all pl s else get_blocks_loop pl nums [] s)
      in (r, (buf, s)))"

definition api_check_chain ::
  "crypto \<Rightarrow> 's db_plugin \<Rightarrow> u32 \<Rightarrow> u64 \<Rightarrow> 's node \<Rightarrow> check_result result \<times> 's node" where
  "api_check_chain c pl now indet nd =
     (let (buf, s) = nd
      in (case p_all pl s of
            (Inl e, s) \<Rightarrow> (Inl e, (buf, s))
          | (Inr blocks, s) \<Rightarrow> (check_chain c now indet blocks, (buf, s))))"

section \<open>The node as a transition system\<close>

datatype event = Push push_transaction_params | Publish | Info | Get u64 | Gets "u64 list" | Check | Restart

inductive node_step :: "crypto \<Rightarrow> 's db_plugin \<Rightarrow> 's node \<Rightarrow> event \<Rightarrow> 's node \<Rightarrow> bool"
  for c :: crypto and pl :: "'s db_plugin" where
  step_push: "push_transaction c p nd = (r, nd') \<Longrightarrow> node_step c pl nd (Push p) nd'"
| step_publish: "publish_blk c pl now indet nd = (r, nd') \<Longrightarrow> node_step c pl nd Publish nd'"
| step_info: "get_info pl nd = (r, nd') \<Longrightarrow> node_step c pl nd Info nd'"
| step_get: "api_get_block pl n nd = (r, nd') \<Longrightarrow> node_step c pl nd (Get n) nd'"
| step_gets: "api_get_blocks pl ns nd = (r, nd') \<Longrightarrow> node_step c pl nd (Gets ns) nd'"
| step_check: "api_check_chain c pl now indet nd = (r, nd') \<Longrightarrow> node_step c pl nd Check nd'"
| step_restart: "plugin_startup pl (plugin_initialize now indet) (snd nd) = (Inr buf, s) \<Longrightarrow>
    node_step c pl nd Restart (buf, s)"

inductive node_run :: "crypto \<Rightarrow> 's db_plugin \<Rightarrow> 's node \<Rightarrow> event list \<Rightarrow> 's node \<Rightarrow> bool"
  for c :: crypto and pl :: "'s db_plugin" where
  run_nil: "node_run c pl nd [] nd"
| run_snoc: "node_run c pl nd es nd' \<Longrightarrow> node_step c pl nd' e nd'' \<Longrightarrow> node_run c pl nd (es @ [e]) nd''"

text \<open>The transactions a run has accepted, in order.\<close>

fun accepted_trxs :: "crypto \<Rightarrow> event list \<Rightarrow> transaction list" where
  "accepted_trxs c [] = []"
| "accepted_trxs c (Push p # es) =
     (if transaction_validate c (params_trx p) = Inr True then [params_trx p] else []) @ accepted_trxs c es"
| "accepted_trxs c (_ # es) = accepted_trxs c es"

lemma accepted_trxs_append [simp]: "accepted_trxs c (es @ fs) = accepted_trxs c es @ accepted_trxs c fs"
  by (induction c es rule: accepted_trxs.induct) simp_all

lemma node_run_append: "node_run c pl nd' fs nd'' \<Longrightarrow> node_run c pl nd es nd' \<Longrightarrow> node_run c pl nd (es @ fs) nd''"
  by (induction rule: node_run.induct) (simp, metis append_assoc node_run.run_snoc)

lemma node_run_Nil [simp]: "node_run c pl nd [] nd' \<longleftrightarrow> nd' = nd"
  by (auto elim: node_run.cases intro: run_nil)

lemma node_run_single: "node_run c pl nd [e] nd' \<longleftrightarrow> node_step c pl nd e nd'"
  using run_snoc[OF run_nil, of c pl nd e nd'] by (auto elim: node_run.cases)

inductive_simps node_step_Push: "node_step c pl nd (Push p) nd'"

inductive_simps node_step_Publish: "node_step c pl nd Publish nd'"

section \<open>Invariants\<close>

text \<open>A well linked chain: numbered by position, signed, each linked to its predecessor.\<close>

definition linked :: "crypto \<Rightarrow> block list \<Rightarrow> bool" where
  "linked c bs \<longleftrightarrow> (\<forall>i < length bs. blk_num (bs ! i) = word_of_nat i \<and> block_valid c (bs ! i) = Inr True \<and>
     (0 < i \<longrightarrow> prior_hash (bs ! i) = block_digest c (bs ! (i - 1))))"

lemma linked_snoc:
  "linked c (bs @ [b]) \<longleftrightarrow> linked c bs \<and> blk_num b = word_of_nat (length bs) \<and> block_valid c b = Inr True \<and>
     (bs \<noteq> [] \<longrightarrow> prior_hash b = block_digest c (last bs))"
proof -
  have "(\<forall>i < Suc n. P i) \<longleftrightarrow> (\<forall>i < n. P i) \<and> P n" for P n using less_Suc_eq by auto
  note split = this
  show ?thesis
    by (simp only: linked_def length_append_singleton split) (auto simp: nth_append last_conv_nth)
qed

lemma linked_check_chain:
  assumes "linked c bs"
  shows "check_chain c now indet bs = Inr Chain_Ok"
proof -
  have "check_block c (bs ! i) ((new_block now indet # bs) ! i) = Inr True"
    if "i < length bs" "blk_num (bs ! i) \<noteq> 0" for i
  proof (cases i)
    case 0
    with that assms show ?thesis by (simp add: linked_def)
  next
    case (Suc j)
    with that assms show ?thesis
      by (auto simp: linked_def check_block_True_iff dest: spec[of _ j])
  qed
  then show ?thesis by (simp add: check_chain_def check_chain_loop_ok_iff)
qed

context block_store
begin

definition node_ok :: "crypto \<Rightarrow> 's node \<Rightarrow> bool" where
  "node_ok c nd \<longleftrightarrow> good (snd nd) \<and> linked c (stored (snd nd)) \<and>
     (stored (snd nd) = [] \<longrightarrow> block_valid c (last_block (fst nd)) = Inr False) \<and>
     (stored (snd nd) \<noteq> [] \<longrightarrow> last_block (fst nd) = last (stored (snd nd)))"

lemma node_ok_store_eq:
  "node_ok c (buf, s) \<Longrightarrow> good s' \<Longrightarrow> stored s' = stored s \<Longrightarrow> node_ok c (buf, s')"
  by (simp add: node_ok_def)

lemma push_keeps:
  assumes "node_ok c nd" "push_transaction c p nd = (r, nd')"
  shows "node_ok c nd' \<and> stored (snd nd') = stored (snd nd) \<and>
    trx_pool (fst nd') = trx_pool (fst nd) @ accepted_trxs c [Push p]"
  using assms
  by (cases nd; auto simp: push_transaction_def node_ok_def cache_trx_def Let_def split: sum.splits bool.splits)

lemma publish_keeps:
  assumes ok: "crypto_ok c" "node_ok c nd" and room: "length (stored (snd nd)) < 2 ^ 63"
    and pub: "publish_blk c pl now indet nd = (r, nd')" and pl: "pl = plugin"
  shows "node_ok c nd' \<and>
    ((\<exists>e. build_block c now indet (fst nd) = Inl e \<and> r = Inl e) \<and> nd' = nd \<or>
     r = Inr () \<and> trx_pool (fst nd') = [] \<and>
     (\<exists>b. stored (snd nd') = stored (snd nd) @ [b] \<and> trxs b = trx_pool (fst nd)))"
proof (cases nd)
  case nd: (Pair buf s)
  show ?thesis
  proof (cases "build_block c now indet buf")
    case (Inl e)
    with pub nd ok(2) Inl show ?thesis by (auto simp: publish_blk_def)
  next
    case (Inr q)
    then obtain b buf' where b: "build_block c now indet buf = Inr (b, buf')" by (cases q) simp
    from build_block_cases[OF b] obtain v where v: "block_valid c (last_block buf) = Inr v"
      and buf': "buf' = buf\<lparr>trx_pool := []\<rparr>" and tr: "trxs b = trx_pool buf"
      and prior: "prior_hash b = (if v then block_digest c (last_block buf) else blank_sha256)"
      and num: "blk_num b = (if v then blk_num (last_block buf) + 1 else 0)" by blast
    have bv: "block_valid c b = Inr True" by (rule build_block_valid[OF ok(1) b])
    have n: "blk_num b = word_of_nat (length (stored s)) \<and>
        (stored s \<noteq> [] \<longrightarrow> prior_hash b = block_digest c (last (stored s)))"
    proof (cases "stored s = []")
      case True
      with ok(2) nd v num show ?thesis by (simp add: node_ok_def)
    next
      case False
      let ?n = "length (stored s)"
      from False ok(2) nd have l: "last_block buf = last (stored s)" "linked c (stored s)"
        by (simp_all add: node_ok_def)
      from False have "last (stored s) = stored s ! (?n - 1)" "?n - 1 < ?n" by (simp_all add: last_conv_nth)
      with l have lb: "block_valid c (last_block buf) = Inr True" "blk_num (last_block buf) = word_of_nat (?n - 1)"
        unfolding linked_def by (metis, metis)
      have "word_of_nat (?n - 1) + 1 = (word_of_nat ?n :: u64)"
        using False by (metis Suc_pred' length_greater_0_conv of_nat_Suc add.commute)
      with lb v num prior l show ?thesis by simp
    qed
    from ok(2) nd have g: "good s" by (simp add: node_ok_def)
    from append_next[OF g _ conjunct1[OF n]] room nd obtain s' where
      s': "p_append plugin b s = (Inr (), s')" "good s'" "stored s' = stored s @ [b]" by auto
    with pub nd b pl have nd': "r = Inr ()" "nd' = (cache_last_blk b buf', s')"
      by (simp_all add: publish_blk_def)
    from s' n bv ok(2) nd have "linked c (stored s')" by (simp add: linked_snoc node_ok_def)
    with s' nd' nd tr buf' show ?thesis by (auto simp: node_ok_def cache_last_blk_def)
  qed
qed

lemma startup_keeps:
  assumes ok: "good s" "linked c (stored s)"
    and up: "plugin_startup plugin (plugin_initialize now indet) s = (r, s')"
  shows "good s' \<and> stored s' = stored s \<and> (\<exists>buf. r = Inr buf \<and> node_ok c (buf, s') \<and> trx_pool buf = [])"
proof -
  let ?n = "length (stored s)"
  from count_stored[OF ok(1)] obtain s1 where
    s1: "p_count plugin s = (Inr (word_of_nat ?n), s1)" "good s1" "stored s1 = stored s" by blast
  have bound: "?n \<le> 2 ^ 63" by (rule stored_bound[OF ok(1)])
  then have un: "unat (word_of_nat ?n :: u64) = ?n"
    by (simp add: unat_of_nat take_bit_nat_eq_self)
  show ?thesis
  proof (cases "stored s = []")
    case True
    with s1 up ok show ?thesis
      by (auto simp: plugin_startup_def plugin_initialize_def new_buffer_def node_ok_def)
  next
    case False
    then have pos: "0 < ?n" by simp
    have "(word_of_nat ?n :: u64) \<noteq> 0" using un pos by (metis unsigned_0 less_irrefl)
    then have gt: "(0::u64) < word_of_nat ?n" by (simp add: word_gt_0)
    have un1: "unat (word_of_nat ?n - 1 :: u64) = ?n - 1"
      using gt un by (metis unat_minus_one word_gt_0)
    from un1 bound pos have "unat (word_of_nat ?n - 1 :: u64) < 2 ^ 63" by linarith
    from get_stored[OF s1(2) this] un1 pos s1(3) obtain s2 where
      s2: "p_get plugin (word_of_nat ?n - 1) s1 = (Inr (Some (stored s ! (?n - 1))), s2)" "good s2"
        "stored s2 = stored s" using False by (auto simp: le_less)
    have last: "stored s ! (?n - 1) = last (stored s)" using False by (simp add: last_conv_nth)
    show ?thesis
      using s1 s2 up gt ok False last
      by (auto simp: plugin_startup_def plugin_initialize_def new_buffer_def cache_last_blk_def node_ok_def)
  qed
qed

lemma info_keeps:
  assumes "good (snd nd)" "get_info plugin nd = (r, nd')"
  shows "r = Inr (word_of_nat (length (stored (snd nd))), length (trx_pool (fst nd))) \<and>
    fst nd' = fst nd \<and> good (snd nd') \<and> stored (snd nd') = stored (snd nd)"
  using assms count_stored[OF assms(1)]
  by (cases nd) (auto simp: get_info_def get_catch_trxs_count_def)

lemma get_keeps:
  assumes "good (snd nd)" "unat n < 2 ^ 63" "api_get_block plugin n nd = (r, nd')"
  shows "r = Inr (if unat n < length (stored (snd nd)) then Some (stored (snd nd) ! unat n) else None) \<and>
    fst nd' = fst nd \<and> good (snd nd') \<and> stored (snd nd') = stored (snd nd)"
  using assms get_stored[OF assms(1,2)] by (cases nd) (auto simp: api_get_block_def)

lemma get_blocks_loop_keeps:
  assumes "good s" "\<forall>n \<in> set ns. unat n < 2 ^ 63"
  shows "\<exists>s'. get_blocks_loop plugin ns res s =
      (Inr (res @ map (\<lambda>n. stored s ! unat n) (filter (\<lambda>n. unat n < length (stored s)) ns)), s') \<and>
    good s' \<and> stored s' = stored s"
  using assms
proof (induction ns arbitrary: res s)
  case Nil
  then show ?case by simp
next
  case (Cons n ns)
  then obtain s1 where s1: "p_get plugin n s =
      (Inr (if unat n < length (stored s) then Some (stored s ! unat n) else None), s1)"
      "good s1" "stored s1 = stored s"
    using get_stored[of s n] by auto
  show ?case
    using Cons.IH[OF s1(2), of res] Cons.IH[OF s1(2), of "res @ [stored s ! unat n]"] Cons.prems(2) s1
    by auto
qed

lemma gets_keeps:
  assumes "good (snd nd)" "\<forall>n \<in> set ns. unat n < 2 ^ 63" "api_get_blocks plugin ns nd = (r, nd')"
  shows "r = Inr (if ns = [] then stored (snd nd)
      else map (\<lambda>n. stored (snd nd) ! unat n) (filter (\<lambda>n. unat n < length (stored (snd nd))) ns)) \<and>
    fst nd' = fst nd \<and> good (snd nd') \<and> stored (snd nd') = stored (snd nd)"
  using assms all_stored[OF assms(1)] get_blocks_loop_keeps[OF assms(1,2), of "[]"]
  by (cases nd) (auto simp: api_get_blocks_def split: if_splits)

lemma check_keeps:
  assumes "good (snd nd)" "api_check_chain c plugin now indet nd = (r, nd')"
  shows "r = check_chain c now indet (stored (snd nd)) \<and>
    fst nd' = fst nd \<and> good (snd nd') \<and> stored (snd nd') = stored (snd nd)"
  using assms all_stored[OF assms(1)] by (cases nd) (auto simp: api_check_chain_def)

text \<open>Whatever the numbers are, a query changes nothing.\<close>

lemma get_frames:
  assumes "good (snd nd)" "api_get_block plugin n nd = (r, nd')"
  shows "fst nd' = fst nd \<and> good (snd nd') \<and> stored (snd nd') = stored (snd nd)"
  using assms get_frame[OF assms(1), of n] by (cases nd) (auto simp: api_get_block_def split: prod.splits)

lemma get_blocks_loop_frames:
  "good s \<Longrightarrow> get_blocks_loop plugin ns res s = (r, s') \<Longrightarrow> good s' \<and> stored s' = stored s"
proof (induction ns arbitrary: res s)
  case (Cons n ns)
  obtain q s1 where q: "p_get plugin n s = (q, s1)" by (cases "p_get plugin n s")
  note f = get_frame[OF Cons.prems(1) q]
  show ?case using Cons.IH[of s1] Cons.prems(2) f q by (auto split: sum.splits option.splits)
qed simp

lemma gets_frames:
  assumes "good (snd nd)" "api_get_blocks plugin ns nd = (r, nd')"
  shows "fst nd' = fst nd \<and> good (snd nd') \<and> stored (snd nd') = stored (snd nd)"
  using assms all_stored[OF assms(1)] get_blocks_loop_frames[OF assms(1)]
  by (cases nd) (auto simp: api_get_blocks_def split: if_splits prod.splits)

definition held_trxs :: "'s node \<Rightarrow> transaction list" where
  "held_trxs nd = concat (map trxs (stored (snd nd))) @ trx_pool (fst nd)"

lemma node_ok_same:
  "node_ok c nd \<Longrightarrow> fst nd' = fst nd \<Longrightarrow> good (snd nd') \<Longrightarrow> stored (snd nd') = stored (snd nd) \<Longrightarrow>
   node_ok c nd' \<and> held_trxs nd' = held_trxs nd"
  by (simp add: node_ok_def held_trxs_def)

lemma step_keeps:
  assumes step: "node_step c plugin nd e nd'"
    and ok: "crypto_ok c" "node_ok c nd" and room: "length (stored (snd nd)) < 2 ^ 63"
  shows "node_ok c nd' \<and> length (stored (snd nd')) \<le> Suc (length (stored (snd nd))) \<and>
    (e \<noteq> Restart \<longrightarrow> held_trxs nd' = held_trxs nd @ accepted_trxs c [e])"
proof -
  from ok(2) have g: "good (snd nd)" "linked c (stored (snd nd))" by (simp_all add: node_ok_def)
  from step show ?thesis
  proof (cases rule: node_step.cases)
    case (step_push p r)
    with push_keeps[OF ok(2)] show ?thesis by (auto simp: held_trxs_def)
  next
    case (step_publish now indet r)
    with publish_keeps[OF ok(1,2) room step_publish(2) refl] ok(2) show ?thesis
      by (auto simp: held_trxs_def)
  next
    case (step_info r)
    with info_keeps[OF g(1) step_info(2)] node_ok_same[OF ok(2)] show ?thesis by simp
  next
    case (step_get n r)
    with get_frames[OF g(1) step_get(2)] node_ok_same[OF ok(2)] show ?thesis by simp
  next
    case (step_gets ns r)
    with gets_frames[OF g(1) step_gets(2)] node_ok_same[OF ok(2)] show ?thesis by simp
  next
    case (step_check now indet r)
    with check_keeps[OF g(1) step_check(2)] node_ok_same[OF ok(2)] show ?thesis by simp
  next
    case (step_restart now indet buf s)
    with startup_keeps[OF g step_restart(3)] show ?thesis by auto
  qed
qed

lemma run_keeps:
  assumes "node_run c plugin nd es nd'"
    and "crypto_ok c" "node_ok c nd"
    and "length (stored (snd nd)) + length es \<le> 2 ^ 63"
  shows "node_ok c nd' \<and> length (stored (snd nd')) \<le> length (stored (snd nd)) + length es \<and>
    (Restart \<notin> set es \<longrightarrow> held_trxs nd' = held_trxs nd @ accepted_trxs c es)"
  using assms
proof (induction rule: node_run.induct)
  case (run_nil nd)
  then show ?case by simp
next
  case (run_snoc nd es nd' e nd'')
  then have IH: "node_ok c nd'" "length (stored (snd nd')) \<le> length (stored (snd nd)) + length es"
      "Restart \<notin> set es \<longrightarrow> held_trxs nd' = held_trxs nd @ accepted_trxs c es"
    by simp_all
  have "length (stored (snd nd')) < 2 ^ 63" using IH(2) run_snoc.prems(3) by simp
  from step_keeps[OF run_snoc.hyps(2) run_snoc.prems(1) IH(1) this] IH show ?case by auto
qed

text \<open>With restarts, blocks are only ever added, and nothing is held that was not accepted.\<close>

lemma step_grows:
  assumes step: "node_step c plugin nd e nd'"
    and ok: "crypto_ok c" "node_ok c nd" and room: "length (stored (snd nd)) < 2 ^ 63"
  shows "prefix (stored (snd nd)) (stored (snd nd')) \<and> subseq (held_trxs nd') (held_trxs nd @ accepted_trxs c [e])"
proof (cases "e = Restart")
  case True
  from ok(2) have g: "good (snd nd)" "linked c (stored (snd nd))" by (simp_all add: node_ok_def)
  from step True obtain now indet buf s where "plugin_startup plugin (plugin_initialize now indet) (snd nd) = (Inr buf, s)"
    "nd' = (buf, s)" by (auto elim: node_step.cases)
  with startup_keeps[OF g this(1)] True show ?thesis by (auto simp: held_trxs_def)
next
  case False
  from ok(2) have g: "good (snd nd)" by (simp add: node_ok_def)
  have "held_trxs nd' = held_trxs nd @ accepted_trxs c [e]" using step_keeps[OF assms] False by blast
  moreover from step False have "prefix (stored (snd nd)) (stored (snd nd'))"
  proof (cases rule: node_step.cases)
    case (step_push p r)
    then show ?thesis using push_keeps[OF ok(2) step_push(2)] by simp
  next
    case (step_publish now indet r)
    then show ?thesis using publish_keeps[OF ok(1,2) room step_publish(2) refl] by auto
  next
    case (step_info r)
    with info_keeps[OF g step_info(2)] show ?thesis by simp
  next
    case (step_get n r)
    with get_frames[OF g step_get(2)] show ?thesis by simp
  next
    case (step_gets ns r)
    with gets_frames[OF g step_gets(2)] show ?thesis by simp
  next
    case (step_check now indet r)
    with check_keeps[OF g step_check(2)] show ?thesis by simp
  qed simp_all
  ultimately show ?thesis by simp
qed

lemma run_grows:
  assumes "node_run c plugin nd es nd'"
    and "crypto_ok c" "node_ok c nd" "length (stored (snd nd)) + length es \<le> 2 ^ 63"
  shows "prefix (stored (snd nd)) (stored (snd nd')) \<and> subseq (held_trxs nd') (held_trxs nd @ accepted_trxs c es)"
  using assms
proof (induction rule: node_run.induct)
  case (run_snoc nd es nd' e nd'')
  have k: "node_ok c nd'" "length (stored (snd nd')) < 2 ^ 63"
    using run_keeps[OF run_snoc.hyps(1) run_snoc.prems(1,2)] run_snoc.prems(3) by simp_all
  have IH: "prefix (stored (snd nd)) (stored (snd nd'))" "subseq (held_trxs nd') (held_trxs nd @ accepted_trxs c es)"
    using run_snoc by simp_all
  note s = step_grows[OF run_snoc.hyps(2) run_snoc.prems(1) k]
  have "subseq (held_trxs nd' @ accepted_trxs c [e]) ((held_trxs nd @ accepted_trxs c es) @ accepted_trxs c [e])"
    using IH(2) by (rule list_emb_append_mono) simp
  with s have "subseq (held_trxs nd'') ((held_trxs nd @ accepted_trxs c es) @ accepted_trxs c [e])"
    by (meson subseq_order.trans)
  with s IH(1) show ?case by (auto intro: prefix_order.trans)
qed simp

end

section \<open>The node over SQLite\<close>

text \<open>A node that has just started on an empty database.\<close>

definition started_empty ::
  "'db sq_exec \<Rightarrow> json_codec \<Rightarrow> crypto \<Rightarrow> ('db \<Rightarrow> (nat \<times> string \<times> string) list) \<Rightarrow> 'db store node \<Rightarrow> bool" where
  "started_empty sq js c table_of nd \<longleftrightarrow> table_of (db (snd nd)) = [] \<and>
     (\<exists>now indet. fst nd = new_buffer now indet)"

lemma started_empty_ok:
  assumes db: "sqlite_db sq table_of js" and st: "started_empty sq js c table_of nd"
  shows "block_store.node_ok (good_store js c table_of) (stored_blocks js table_of) c nd"
    "stored_blocks js table_of (snd nd) = []"
    "trx_pool (fst nd) = []"
proof -
  from st have t: "table_of (db (snd nd)) = block_rows js c []"
    by (simp add: started_empty_def block_rows_def)
  note good = sqlite_db.good_storeI[OF db t, simplified]
  then show "block_store.node_ok (good_store js c table_of) (stored_blocks js table_of) c nd"
    using st by (auto simp: block_store.node_ok_def[OF sqlite_db.is_block_store[OF db]] linked_def started_empty_def
        new_buffer_def)
  show "stored_blocks js table_of (snd nd) = []" by (rule good(2))
  show "trx_pool (fst nd) = []" using st by (auto simp: started_empty_def new_buffer_def)
qed

text \<open>
  C1. From an empty database, after any sequence of API calls and restarts (up to the 2^63 keys an
  SQLite integer column can hold), the stored blocks are numbered by position, signed by the
  producer and linked by their digests, and the node's own \<open>check_chain\<close> reports success.
\<close>
theorem node_chain_always_checks:
  assumes "sqlite_db sq table_of js" and "crypto_ok c" and "started_empty sq js c table_of nd0"
    and "node_run c (sqlite_plugin sq js c) nd0 es nd"
    and "length es \<le> 2 ^ 63"
  shows "linked c (stored_blocks js table_of (snd nd)) \<and>
    fst (api_check_chain c (sqlite_plugin sq js c) now indet nd) = Inr Chain_Ok"
proof -
  note bs = sqlite_db.is_block_store[OF assms(1)]
  note start = started_empty_ok[OF assms(1,3)]
  from block_store.run_keeps[OF bs assms(4,2) start(1)] start(2) assms(5)
  have "block_store.node_ok (good_store js c table_of) (stored_blocks js table_of) c nd" by simp
  then have ok: "good_store js c table_of (snd nd)" "linked c (stored_blocks js table_of (snd nd))"
    by (simp_all add: block_store.node_ok_def[OF bs])
  obtain r nd' where q: "api_check_chain c (sqlite_plugin sq js c) now indet nd = (r, nd')"
    by (cases "api_check_chain c (sqlite_plugin sq js c) now indet nd") simp
  from block_store.check_keeps[OF bs ok(1) q] linked_check_chain[OF ok(2)] ok(2) q
  show ?thesis by simp
qed

definition demo_store :: "(nat \<times> string \<times> string) list store" where
  "demo_store = \<lparr>db = [], tmp_blks = [], blk_nums = 0\<rparr>"

definition demo_node :: "(nat \<times> string \<times> string) list store node" where
  "demo_node = (new_buffer 0 0, demo_store)"

lemma demo_started: "started_empty ref_exec ref_codec demo_crypto (\<lambda>rs. rs) demo_node"
  by (auto simp: started_empty_def demo_node_def demo_store_def)

definition demo_params :: push_transaction_params where
  "demo_params = \<lparr>p_type = 0, p_pub_key = PK_K1 7, p_signature = SIG_K1 1, p_time_point = 3,
     p_data = [1], p_attach = []\<rparr>"

lemma demo_accepts: "transaction_validate demo_crypto (params_trx demo_params) = Inr True"
  by (simp add: transaction_validate_def params_trx_def demo_params_def demo_crypto_def transaction_digest_def
      transaction_preimage_def pack_bytes_def max_size_of_byte_arrays_def blank_signature_def)

lemma demo_run: "\<exists>nd. node_run demo_crypto (sqlite_plugin ref_exec ref_codec demo_crypto) demo_node
  [Push demo_params, Publish] nd"
proof -
  obtain r1 nd1 where 1: "push_transaction demo_crypto demo_params demo_node = (r1, nd1)"
    by (cases "push_transaction demo_crypto demo_params demo_node") simp
  obtain r2 nd2 where 2: "publish_blk demo_crypto (sqlite_plugin ref_exec ref_codec demo_crypto) 5 0 nd1 = (r2, nd2)"
    by (cases "publish_blk demo_crypto (sqlite_plugin ref_exec ref_codec demo_crypto) 5 0 nd1") simp
  from run_snoc[OF run_snoc[OF run_nil step_push[OF 1]] step_publish[OF 2]] show ?thesis
    by (intro exI[of _ nd2]) simp
qed

theorem node_chain_always_checks_witness:
  "\<exists>nd. node_run demo_crypto (sqlite_plugin ref_exec ref_codec demo_crypto) demo_node
      [Push demo_params, Publish] nd \<and>
     fst (api_check_chain demo_crypto (sqlite_plugin ref_exec ref_codec demo_crypto) 0 0 nd) = Inr Chain_Ok"
  using demo_run node_chain_always_checks[OF ref_db.sqlite_db_axioms demo_crypto_ok demo_started]
  by fastforce

text \<open>
  C3. Conservation of transactions. The node holds the transactions of the stored blocks, in chain order, and the
  pool. Whatever calls and restarts come in a run \<open>es\<close> followed by a run \<open>fs\<close>: nothing is held that was not
  accepted, nothing twice for one acceptance, and nothing out of order; the blocks stored by the first run are the
  first blocks after the second; and if the second run has no restart, it adds to what was held exactly what it
  accepts. So without restarts exactly the accepted transactions are held; a restart loses the pool and nothing else.
\<close>
theorem node_conserves_transactions:
  assumes "sqlite_db sq table_of js" and "crypto_ok c" and "started_empty sq js c table_of nd0"
    and "node_run c (sqlite_plugin sq js c) nd0 es nd1" and "node_run c (sqlite_plugin sq js c) nd1 fs nd"
    and "length es + length fs \<le> 2 ^ 63"
  defines "held \<equiv> \<lambda>nd. concat (map trxs (stored_blocks js table_of (snd nd))) @ trx_pool (fst nd)"
  shows "subseq (held nd) (accepted_trxs c (es @ fs)) \<and>
    prefix (stored_blocks js table_of (snd nd1)) (stored_blocks js table_of (snd nd)) \<and>
    (Restart \<notin> set fs \<longrightarrow> held nd = held nd1 @ accepted_trxs c fs) \<and>
    (fs = [Restart] \<longrightarrow> held nd = concat (map trxs (stored_blocks js table_of (snd nd1)))) \<and>
    (Restart \<notin> set (es @ fs) \<longrightarrow> held nd = accepted_trxs c (es @ fs))"
proof -
  note bs = sqlite_db.is_block_store[OF assms(1), of c]
  note start = started_empty_ok[OF assms(1,3)]
  have h: "held = block_store.held_trxs (stored_blocks js table_of)"
    by (simp add: held_def block_store.held_trxs_def[OF bs] fun_eq_iff)
  have h0: "held nd0 = []" using start by (simp add: held_def)
  note k1 = block_store.run_keeps[OF bs assms(4,2) start(1)]
  have ok1: "block_store.node_ok (good_store js c table_of) (stored_blocks js table_of) c nd1"
    and room: "length (stored_blocks js table_of (snd nd1)) + length fs \<le> 2 ^ 63"
    using k1 start(2) assms(6) by simp_all
  note all = node_run_append[OF assms(5,4)]
  have sub: "subseq (held nd) (accepted_trxs c (es @ fs))"
    using block_store.run_grows[OF bs all assms(2) start(1)] start(2) assms(6) h0 by (simp add: h)
  have whole: "Restart \<notin> set (es @ fs) \<longrightarrow> held nd = accepted_trxs c (es @ fs)"
    using block_store.run_keeps[OF bs all assms(2) start(1)] start(2) assms(6) h0 by (simp add: h)
  have pre: "prefix (stored_blocks js table_of (snd nd1)) (stored_blocks js table_of (snd nd))"
    using block_store.run_grows[OF bs assms(5,2) ok1 room] by blast
  have part: "Restart \<notin> set fs \<longrightarrow> held nd = held nd1 @ accepted_trxs c fs"
    using block_store.run_keeps[OF bs assms(5,2) ok1 room] by (simp add: h)
  have "held nd = concat (map trxs (stored_blocks js table_of (snd nd1)))" if r: "fs = [Restart]"
  proof -
    obtain now indet buf s where
      up: "plugin_startup (sqlite_plugin sq js c) (plugin_initialize now indet) (snd nd1) = (Inr buf, s)" "nd = (buf, s)"
      using assms(5)[unfolded r node_run_single] by (cases rule: node_step.cases) auto
    have "good_store js c table_of (snd nd1)" "linked c (stored_blocks js table_of (snd nd1))"
      using ok1 by (simp_all add: block_store.node_ok_def[OF bs])
    from block_store.startup_keeps[OF bs this up(1)] up(2) show ?thesis by (auto simp: held_def)
  qed
  with sub whole pre part show ?thesis by blast
qed

theorem node_conserves_transactions_witness:
  "\<exists>nd1 nd. node_run demo_crypto (sqlite_plugin ref_exec ref_codec demo_crypto) demo_node [] nd1 \<and>
     node_run demo_crypto (sqlite_plugin ref_exec ref_codec demo_crypto) nd1 [Push demo_params, Publish] nd \<and>
     concat (map trxs (stored_blocks ref_codec (\<lambda>rs. rs) (snd nd))) @ trx_pool (fst nd) = [params_trx demo_params]"
proof -
  from demo_run obtain nd where run: "node_run demo_crypto (sqlite_plugin ref_exec ref_codec demo_crypto) demo_node
      [Push demo_params, Publish] nd" ..
  have "Restart \<notin> set ([] @ [Push demo_params, Publish])" "length ([] :: event list) + length [Push demo_params, Publish] \<le> 2 ^ 63"
    by simp_all
  then have "concat (map trxs (stored_blocks ref_codec (\<lambda>rs. rs) (snd nd))) @ trx_pool (fst nd)
      = accepted_trxs demo_crypto ([] @ [Push demo_params, Publish])"
    using node_conserves_transactions[OF ref_db.sqlite_db_axioms demo_crypto_ok demo_started run_nil run] by blast
  with run show ?thesis by (intro exI[of _ demo_node] exI[of _ nd]) (simp add: demo_accepts)
qed

text \<open>
  C39. When SQLite refuses the INSERT, \<open>publish_blk\<close> still reports success and empties the pool: the
  error is only logged, so the transactions of the block are in neither the database nor the pool,
  and the next block will link to a block that was never stored.
\<close>
theorem publish_blk_loses_on_sql_error:
  assumes "build_block c now indet buf = Inr (blk, buf')"
    and "sq (insert_sql (blk_num blk) (sha256_str (block_digest c blk)) (json_to_string js blk)) (db st)
      = (False, [], db st)"
  shows "publish_blk c (sqlite_plugin sq js c) now indet (buf, st)
    = (Inr (), (\<lparr>trx_pool = [], last_block = blk\<rparr>, st))"
proof -
  from build_block_cases[OF assms(1)] have "buf' = buf\<lparr>trx_pool := []\<rparr>" by blast
  with assms show ?thesis
    by (simp add: publish_blk_def sqlite_plugin_def append_block_def cache_last_blk_def)
qed

theorem publish_blk_loses_on_sql_error_witness:
  "\<exists>blk. publish_blk demo_crypto (sqlite_plugin (\<lambda>sql d. (False, [], d)) ref_codec demo_crypto) 5 0
      (\<lparr>trx_pool = [], last_block = demo_block 0\<rparr>, demo_store)
    = (Inr (), (\<lparr>trx_pool = [], last_block = blk\<rparr>, demo_store))"
proof -
  let ?buf = "\<lparr>trx_pool = [], last_block = demo_block 0\<rparr>"
  obtain blk buf' where "build_block demo_crypto 5 0 ?buf = Inr (blk, buf')"
    using build_block_demo[of 5] by (auto simp: demo_buffer_def)
  from publish_blk_loses_on_sql_error[OF this, of "\<lambda>sql d. (False, [], d)"] show ?thesis by blast
qed

text \<open>
  C40. Starting on a database that holds a chain caches its last block with an empty pool; on an
  empty database the buffer stays as constructed. The database is unchanged either way.
\<close>
theorem plugin_startup_recovers:
  assumes "sqlite_db sq table_of js" and "good_store js c table_of st"
    and "linked c (stored_blocks js table_of st)"
    and "plugin_startup (sqlite_plugin sq js c) (plugin_initialize now indet) st = (r, st')"
  shows "\<exists>buf. r = Inr buf \<and> trx_pool buf = [] \<and>
      stored_blocks js table_of st' = stored_blocks js table_of st \<and>
      (stored_blocks js table_of st \<noteq> [] \<longrightarrow> last_block buf = last (stored_blocks js table_of st))"
proof -
  note bs = sqlite_db.is_block_store[OF assms(1)]
  from block_store.startup_keeps[OF bs assms(2-4)] show ?thesis
    by (auto simp: block_store.node_ok_def[OF bs])
qed

theorem plugin_startup_recovers_witness:
  "\<exists>r st'. plugin_startup (sqlite_plugin ref_exec ref_codec demo_crypto) (plugin_initialize 0 0) demo_store = (r, st')
     \<and> (\<exists>buf. r = Inr buf \<and> trx_pool buf = [])"
proof -
  obtain r st' where q: "plugin_startup (sqlite_plugin ref_exec ref_codec demo_crypto) (plugin_initialize 0 0)
      demo_store = (r, st')"
    by (cases "plugin_startup (sqlite_plugin ref_exec ref_codec demo_crypto) (plugin_initialize 0 0) demo_store") simp
  have "(\<lambda>rs. rs) (db demo_store) = block_rows ref_codec demo_crypto []"
    by (simp add: demo_store_def block_rows_def)
  note good = ref_db.good_storeI[OF this, simplified]
  have "linked demo_crypto (stored_blocks ref_codec (\<lambda>rs. rs) demo_store)"
    by (simp add: good(2) linked_def)
  from plugin_startup_recovers[OF ref_db.sqlite_db_axioms good(1) this q] q show ?thesis by blast
qed

end
