(* ===== verification/Node_Progress.thy ===== *)
theory Node_Progress
  imports Node
begin

text \<open>
  Progress of the node: when \<open>publish_blk\<close> succeeds. Validation lets only transactions into the pool whose
  byte vectors can be packed, so the one thing that can stop a block is the limit of raw.hpp on the number of
  elements of a vector. A pool beyond that limit can never be published, since the exception
  leaves the pool as it is.
\<close>

section \<open>What can be packed\<close>

definition packable :: "transaction \<Rightarrow> bool" where
  "packable t \<longleftrightarrow> (\<exists>bs. pack_transaction t = Inr bs)"

lemma accepted_packable:
  assumes "transaction_validate c t = Inr True"
  shows "packable t"
proof -
  from assms obtain bs where "transaction_preimage t = Inr bs"
    by (auto simp: transaction_validate_def transaction_digest_def split: if_splits sum.splits)
  then show ?thesis
    by (auto simp: transaction_preimage_def packable_def pack_transaction_def split: sum.splits)
qed

lemma pack_transactions_iff:
  assumes "\<forall>t \<in> set ts. packable t"
  shows "pack_transactions ts = Inl Assert_Exception \<and> max_num_array_elements < length ts \<or>
    (\<exists>bs. pack_transactions ts = Inr bs) \<and> length ts \<le> max_num_array_elements"
proof -
  from assms have "\<exists>bs. pack_transactions_loop ts = Inr bs"
    by (induction ts) (auto simp: packable_def)
  then show ?thesis by (auto simp: pack_transactions_def)
qed

context block_store
begin

lemma last_block_verdict:
  assumes "node_ok c (buf, s)"
  shows "\<exists>v. block_valid c (last_block buf) = Inr v"
proof (cases "stored s = []")
  case True
  with assms show ?thesis by (intro exI[of _ False]) (simp add: node_ok_def)
next
  case False
  then have "last (stored s) = stored s ! (length (stored s) - 1)" "length (stored s) - 1 < length (stored s)"
    by (simp_all add: last_conv_nth)
  with assms False show ?thesis by (auto simp: node_ok_def linked_def)
qed

text \<open>The one condition for a block, in a state that satisfies the invariant.\<close>

lemma publish_result:
  assumes "node_ok c (buf, s)" and "\<forall>t \<in> set (trx_pool buf). packable t"
    and "length (stored s) < 2 ^ 63" and "crypto_ok c"
  shows "if length (trx_pool buf) \<le> max_num_array_elements
    then \<exists>nd'. publish_blk c plugin now indet (buf, s) = (Inr (), nd') \<and> trx_pool (fst nd') = [] \<and>
      (\<exists>b. stored (snd nd') = stored s @ [b] \<and> trxs b = trx_pool buf)
    else publish_blk c plugin now indet (buf, s) = (Inl Assert_Exception, (buf, s))"
proof -
  obtain v where v: "block_valid c (last_block buf) = Inr v" using last_block_verdict[OF assms(1)] by blast
  obtain r nd' where r: "publish_blk c plugin now indet (buf, s) = (r, nd')"
    by (cases "publish_blk c plugin now indet (buf, s)")
  note keeps = publish_keeps[OF assms(4,1) _ r refl]
  from pack_transactions_iff[OF assms(2)] show ?thesis
  proof (elim disjE conjE exE)
    assume "pack_transactions (trx_pool buf) = Inl Assert_Exception" "max_num_array_elements < length (trx_pool buf)"
    with v show ?thesis by (simp add: publish_blk_def build_block_def push_trxs_def Let_def)
  next
    fix bs
    assume bs: "pack_transactions (trx_pool buf) = Inr bs" and le: "length (trx_pool buf) \<le> max_num_array_elements"
    from bs v obtain b buf' where b: "build_block c now indet buf = Inr (b, buf')"
      by (simp add: build_block_def push_trxs_def Let_def)
    with keeps assms(3) r le show ?thesis by auto
  qed
qed


definition pool_ok :: "crypto \<Rightarrow> 's node \<Rightarrow> bool" where
  "pool_ok c nd \<longleftrightarrow> node_ok c nd \<and> (\<forall>t \<in> set (trx_pool (fst nd)). packable t)"

text \<open>A step that is no restart leaves an overfull pool overfull, and the chain as it is.\<close>

lemma step_pool:
  assumes step: "node_step c plugin nd e nd'"
    and ok: "crypto_ok c" "pool_ok c nd" and room: "length (stored (snd nd)) < 2 ^ 63"
  shows "pool_ok c nd' \<and> (e \<noteq> Restart \<and> max_num_array_elements < length (trx_pool (fst nd)) \<longrightarrow>
    max_num_array_elements < length (trx_pool (fst nd')) \<and> stored (snd nd') = stored (snd nd))"
proof -
  from ok(2) have nok: "node_ok c nd" and pk: "\<forall>t \<in> set (trx_pool (fst nd)). packable t"
    by (simp_all add: pool_ok_def)
  then have g: "good (snd nd)" "linked c (stored (snd nd))" by (simp_all add: node_ok_def)
  have nok': "node_ok c nd'" using step_keeps[OF step ok(1) nok room] by blast
  note frame = pool_ok_def nok' pk
  from step show ?thesis
  proof (cases rule: node_step.cases)
    case (step_push p r)
    with push_keeps[OF nok] show ?thesis by (auto simp: frame intro: accepted_packable)
  next
    case (step_publish now indet r)
    note keeps = publish_keeps[OF ok(1) nok room step_publish(2) refl]
    from publish_result[of c "fst nd" "snd nd" now indet] nok pk room ok(1) step_publish(2)
    have "max_num_array_elements < length (trx_pool (fst nd)) \<Longrightarrow> nd' = nd" by simp
    with keeps show ?thesis by (auto simp: frame)
  next
    case (step_info r)
    with info_keeps[OF g(1) step_info(2)] show ?thesis by (simp add: frame)
  next
    case (step_get n r)
    with get_frames[OF g(1) step_get(2)] show ?thesis by (simp add: frame)
  next
    case (step_gets ns r)
    with gets_frames[OF g(1) step_gets(2)] show ?thesis by (simp add: frame)
  next
    case (step_check now indet r)
    with check_keeps[OF g(1) step_check(2)] show ?thesis by (simp add: frame)
  next
    case (step_restart now indet buf s)
    with startup_keeps[OF g step_restart(3)] show ?thesis by (auto simp: frame)
  qed
qed

lemma run_pool:
  assumes "node_run c plugin nd es nd'"
    and "crypto_ok c" "pool_ok c nd"
    and "length (stored (snd nd)) + length es \<le> 2 ^ 63"
  shows "pool_ok c nd' \<and> (Restart \<notin> set es \<and> max_num_array_elements < length (trx_pool (fst nd)) \<longrightarrow>
    max_num_array_elements < length (trx_pool (fst nd')) \<and> stored (snd nd') = stored (snd nd))"
  using assms
proof (induction rule: node_run.induct)
  case (run_nil nd)
  then show ?case by simp
next
  case (run_snoc nd es nd' e nd'')
  from run_snoc.prems(2) have nok: "node_ok c nd" by (simp add: pool_ok_def)
  have "length (stored (snd nd')) \<le> length (stored (snd nd)) + length es"
    using run_keeps[OF run_snoc.hyps(1) run_snoc.prems(1) nok] run_snoc.prems(3) by simp
  then have "length (stored (snd nd')) < 2 ^ 63" using run_snoc.prems(3) by simp
  from step_pool[OF run_snoc.hyps(2) run_snoc.prems(1) _ this] run_snoc.IH run_snoc.prems
  show ?case by (auto simp del: One_nat_def)
qed

end

section \<open>Liveness\<close>

lemma reached_pool_ok:
  assumes db: "sqlite_db sq table_of js" and ok: "crypto_ok c" and st: "started_empty sq js c table_of nd0"
    and run: "node_run c (sqlite_plugin sq js c) nd0 es nd"
    and es: "length es \<le> 2 ^ 63"
  shows "block_store.pool_ok (good_store js c table_of) (stored_blocks js table_of) c nd"
    and "length (stored_blocks js table_of (snd nd)) \<le> length es"
proof -
  note bs = sqlite_db.is_block_store[OF db]
  note start = started_empty_ok[OF db st]
  have "block_store.pool_ok (good_store js c table_of) (stored_blocks js table_of) c nd0"
    using start by (simp add: block_store.pool_ok_def[OF bs])
  from block_store.run_pool[OF bs run ok this] es start(2)
  show "block_store.pool_ok (good_store js c table_of) (stored_blocks js table_of) c nd" by simp
  from block_store.run_keeps[OF bs run ok start(1)] es start(2)
  show "length (stored_blocks js table_of (snd nd)) \<le> length es" by simp
qed

text \<open>
  C6. Liveness: after any run \<open>es\<close> of calls and restarts, followed by calls \<open>fs\<close> without a restart, the next
  \<open>publish_blk\<close> answers, leaves nothing in the pool, and then the stored chain has, in order, every transaction that
  was held after \<open>es\<close> and every transaction that was accepted in \<open>fs\<close>: a transaction accepted since the last restart
  gets stored. All that is asked is that the pool has at most 2^20 transactions (and the table a free key).
\<close>
theorem accepted_transactions_get_stored:
  assumes "sqlite_db sq table_of js" and "crypto_ok c" and "started_empty sq js c table_of nd0"
    and "node_run c (sqlite_plugin sq js c) nd0 es nd1"
    and "node_run c (sqlite_plugin sq js c) nd1 fs nd" and "Restart \<notin> set fs"
    and "length es + length fs < 2 ^ 63"
    and "length (trx_pool (fst nd)) \<le> max_num_array_elements"
  shows "\<exists>nd'. publish_blk c (sqlite_plugin sq js c) now indet nd = (Inr (), nd') \<and> trx_pool (fst nd') = [] \<and>
    concat (map trxs (stored_blocks js table_of (snd nd'))) =
      concat (map trxs (stored_blocks js table_of (snd nd1))) @ trx_pool (fst nd1) @ accepted_trxs c fs"
proof -
  note bs = sqlite_db.is_block_store[OF assms(1), of c]
  have len: "length (es @ fs) \<le> 2 ^ 63" "length es \<le> 2 ^ 63" using assms(7) by simp_all
  note reach = reached_pool_ok[OF assms(1-3) node_run_append[OF assms(5,4)] len(1)]
  note reach1 = reached_pool_ok[OF assms(1-4) len(2)]
  from reach assms(7) have "block_store.node_ok (good_store js c table_of) (stored_blocks js table_of) c nd"
    "\<forall>t \<in> set (trx_pool (fst nd)). packable t" "length (stored_blocks js table_of (snd nd)) < 2 ^ 63"
    by (simp_all add: block_store.pool_ok_def[OF bs])
  with block_store.publish_result[where c = c and buf = "fst nd" and s = "snd nd" and now = now and indet = indet, OF bs] assms(2,8)
  obtain nd' b where nd': "publish_blk c (sqlite_plugin sq js c) now indet nd = (Inr (), nd')"
    "trx_pool (fst nd') = []" "stored_blocks js table_of (snd nd') = stored_blocks js table_of (snd nd) @ [b]"
    "trxs b = trx_pool (fst nd)" by auto
  have "block_store.node_ok (good_store js c table_of) (stored_blocks js table_of) c nd1"
    "length (stored_blocks js table_of (snd nd1)) + length fs \<le> 2 ^ 63"
    using reach1 assms(7) by (simp_all add: block_store.pool_ok_def[OF bs])
  with block_store.run_keeps[OF bs assms(5,2)] assms(6)
  have "concat (map trxs (stored_blocks js table_of (snd nd))) @ trx_pool (fst nd) =
      (concat (map trxs (stored_blocks js table_of (snd nd1))) @ trx_pool (fst nd1)) @ accepted_trxs c fs"
    by (simp add: block_store.held_trxs_def[OF bs])
  with nd' show ?thesis by auto
qed

text \<open>
  C21. A pool of more than 2^20 transactions stops the node for good: \<open>publish_blk\<close> throws, which leaves the pool as
  it is, so that after any further calls it throws again and the chain has not grown. Only a
  restart, which drops the pool, ends this.
\<close>
theorem overfull_pool_blocks_forever:
  assumes "sqlite_db sq table_of js" and "crypto_ok c" and "started_empty sq js c table_of nd0"
    and "node_run c (sqlite_plugin sq js c) nd0 es nd" and "max_num_array_elements < length (trx_pool (fst nd))"
    and "node_run c (sqlite_plugin sq js c) nd fs nd'" and "Restart \<notin> set fs"
    and "length es + length fs < 2 ^ 63"
  shows "stored_blocks js table_of (snd nd') = stored_blocks js table_of (snd nd) \<and>
    publish_blk c (sqlite_plugin sq js c) now indet nd' = (Inl Assert_Exception, nd')"
proof -
  note bs = sqlite_db.is_block_store[OF assms(1), of c]
  from assms(8) have "length es \<le> 2 ^ 63" by simp
  note reach = reached_pool_ok[OF assms(1-4) this]
  have "length (stored_blocks js table_of (snd nd)) + length fs \<le> 2 ^ 63" using reach(2) assms(8) by simp
  from block_store.run_pool[OF bs assms(6,2) reach(1) this] assms(5,7)
  have fin: "block_store.pool_ok (good_store js c table_of) (stored_blocks js table_of) c nd'"
    "max_num_array_elements < length (trx_pool (fst nd'))"
    "stored_blocks js table_of (snd nd') = stored_blocks js table_of (snd nd)" by simp_all
  with block_store.publish_result[where c = c and buf = "fst nd'" and s = "snd nd'" and now = now and indet = indet, OF bs] assms(2,8) reach(2)
  show ?thesis by (simp add: block_store.pool_ok_def[OF bs])
qed

theorem accepted_transactions_get_stored_witness:
  "\<exists>nd nd'. node_run demo_crypto (sqlite_plugin ref_exec ref_codec demo_crypto) demo_node [Push demo_params] nd \<and>
     publish_blk demo_crypto (sqlite_plugin ref_exec ref_codec demo_crypto) 5 0 nd = (Inr (), nd') \<and>
     concat (map trxs (stored_blocks ref_codec (\<lambda>rs. rs) (snd nd'))) = [params_trx demo_params]"
proof -
  obtain r nd where p: "push_transaction demo_crypto demo_params demo_node = (r, nd)"
    by (cases "push_transaction demo_crypto demo_params demo_node") simp
  then have run: "node_run demo_crypto (sqlite_plugin ref_exec ref_codec demo_crypto) demo_node [Push demo_params] nd"
    using run_snoc[OF run_nil step_push[OF p]] by simp
  have "length (trx_pool (fst nd)) \<le> max_num_array_elements"
    using p demo_accepts by (auto simp: push_transaction_def demo_node_def cache_trx_def new_buffer_def max_num_array_elements_def Let_def)
  moreover have "Restart \<notin> set [Push demo_params]" "length ([] :: event list) + length [Push demo_params] < 2 ^ 63" by simp_all
  ultimately obtain nd' where nd': "publish_blk demo_crypto (sqlite_plugin ref_exec ref_codec demo_crypto) 5 0 nd = (Inr (), nd')"
    "concat (map trxs (stored_blocks ref_codec (\<lambda>rs. rs) (snd nd'))) =
      concat (map trxs (stored_blocks ref_codec (\<lambda>rs. rs) (snd demo_node))) @ trx_pool (fst demo_node) @
      accepted_trxs demo_crypto [Push demo_params]"
    using accepted_transactions_get_stored[OF ref_db.sqlite_db_axioms demo_crypto_ok demo_started run_nil run] by blast
  have "stored_blocks ref_codec (\<lambda>rs. rs) (snd demo_node) = []" "trx_pool (fst demo_node) = []"
    using started_empty_ok(2,3)[OF ref_db.sqlite_db_axioms demo_started] by simp_all
  with nd' have "concat (map trxs (stored_blocks ref_codec (\<lambda>rs. rs) (snd nd'))) = [params_trx demo_params]"
    by (simp add: demo_accepts)
  with nd'(1) run show ?thesis by blast
qed

lemma many_pushes:
  "\<exists>nd. node_run demo_crypto (sqlite_plugin ref_exec ref_codec demo_crypto) demo_node (replicate n (Push demo_params)) nd \<and>
     length (trx_pool (fst nd)) = n"
proof (induction n)
  case 0
  show ?case using run_nil by (fastforce simp: demo_node_def new_buffer_def)
next
  case (Suc n)
  then obtain nd where nd: "node_run demo_crypto (sqlite_plugin ref_exec ref_codec demo_crypto) demo_node
      (replicate n (Push demo_params)) nd" "length (trx_pool (fst nd)) = n" by blast
  obtain r nd' where p: "push_transaction demo_crypto demo_params nd = (r, nd')"
    by (cases "push_transaction demo_crypto demo_params nd") simp
  then have "length (trx_pool (fst nd')) = Suc n"
    using nd(2) demo_accepts by (cases nd) (auto simp: push_transaction_def cache_trx_def Let_def)
  with run_snoc[OF nd(1) step_push[OF p]] show ?case
    by (intro exI[of _ nd']) (simp flip: replicate_append_same)
qed

theorem overfull_pool_blocks_forever_witness:
  "\<exists>nd. node_run demo_crypto (sqlite_plugin ref_exec ref_codec demo_crypto) demo_node
      (replicate 1048577 (Push demo_params)) nd \<and>
    publish_blk demo_crypto (sqlite_plugin ref_exec ref_codec demo_crypto) 5 0 nd = (Inl Assert_Exception, nd)"
proof -
  obtain nd where nd: "node_run demo_crypto (sqlite_plugin ref_exec ref_codec demo_crypto) demo_node
      (replicate 1048577 (Push demo_params)) nd" "length (trx_pool (fst nd)) = 1048577"
    using many_pushes by blast
  from overfull_pool_blocks_forever[OF ref_db.sqlite_db_axioms demo_crypto_ok demo_started nd(1) _ run_nil, of 5 0] nd(2)
  have "publish_blk demo_crypto (sqlite_plugin ref_exec ref_codec demo_crypto) 5 0 nd = (Inl Assert_Exception, nd)"
    by (simp add: max_num_array_elements_def)
  with nd(1) show ?thesis by blast
qed

end
