(* ===== verification/Chain_Api.thy ===== *)
theory Chain_Api
  imports Node_Progress
begin

text \<open>
  The calls of plugins/chain_plugin as they answer the API: their results as variants, and the four helpers that
  chain_plugin.cpp marks TO_REMOVED. \<open>lx\<close> and \<open>lv\<close> are the parameters of the JSON code (Variant and Block_Codec).

  Private keys (fc's wrapper of OpenSSL and secp256k1) are a type \<open>'k\<close> with the operations of \<open>key_ops\<close>; the key that
  \<open>get_keys\<close> generates is its argument.
\<close>

section \<open>Results as variants\<close>

definition info_object :: "u64 \<times> nat \<Rightarrow> variant" where
  "info_object = (\<lambda>(blk_count, trx_count).
     V_object (set_key (set_key [] ''block_num'' (V_uint64 blk_count)) ''pending_trx'' (V_uint64 (word_of_nat trx_count))))"

definition block_or_error :: "block_leaves \<Rightarrow> block option \<Rightarrow> variant" where
  "block_or_error lv blk =
     (case blk of
        Some b \<Rightarrow> to_variant_block lv b
      | None \<Rightarrow> V_object (set_key [] ''error'' (V_string ''block not found'')))"

definition check_object :: "block_leaves \<Rightarrow> check_result \<Rightarrow> variant" where
  "check_object lv r =
     (case r of
        Chain_Ok \<Rightarrow> V_object (set_key (set_key [] ''result'' (V_int64 0)) ''block'' (V_int64 0))
      | Chain_Bad b \<Rightarrow> V_object (set_key (set_key [] ''result'' (V_int64 (- 1))) ''block'' (to_variant_block lv b)))"

definition as_answer :: "('a \<Rightarrow> variant) \<Rightarrow> 'a result \<times> 's \<Rightarrow> variant result \<times> 's" where
  "as_answer f = map_prod (map_sum id f) id"

definition ro_get_info :: "'s db_plugin \<Rightarrow> 's node \<Rightarrow> variant result \<times> 's node" where
  "ro_get_info pl nd = as_answer info_object (get_info pl nd)"

definition ro_get_block :: "block_leaves \<Rightarrow> 's db_plugin \<Rightarrow> u64 \<Rightarrow> 's node \<Rightarrow> variant result \<times> 's node" where
  "ro_get_block lv pl num nd = as_answer (block_or_error lv) (api_get_block pl num nd)"

definition ro_get_blocks :: "block_leaves \<Rightarrow> 's db_plugin \<Rightarrow> u64 list \<Rightarrow> 's node \<Rightarrow> variant result \<times> 's node" where
  "ro_get_blocks lv pl nums nd = as_answer (\<lambda>bs. V_array (map (to_variant_block lv) bs)) (api_get_blocks pl nums nd)"

definition ro_check_chain ::
  "crypto \<Rightarrow> block_leaves \<Rightarrow> 's db_plugin \<Rightarrow> u32 \<Rightarrow> u64 \<Rightarrow> 's node \<Rightarrow> variant result \<times> 's node" where
  "ro_check_chain c lv pl now indet nd = as_answer (check_object lv) (api_check_chain c pl now indet nd)"

text \<open>\<open>push_transaction_results\<close> has one member, \<open>res\<close>.\<close>

definition rw_push_transaction ::
  "crypto \<Rightarrow> block_leaves \<Rightarrow> push_transaction_params \<Rightarrow> 's node \<Rightarrow> variant result \<times> 's node" where
  "rw_push_transaction c lv p nd =
     as_answer (\<lambda>trx. V_object [(''res'', to_variant_transaction lv trx)]) (push_transaction c p nd)"

definition rw_publish_blk ::
  "crypto \<Rightarrow> 's db_plugin \<Rightarrow> u32 \<Rightarrow> u64 \<Rightarrow> 's node \<Rightarrow> variant result \<times> 's node" where
  "rw_publish_blk c pl now indet nd =
     as_answer (\<lambda>_. V_object (set_key [] ''message'' (V_string ''operation complete''))) (publish_blk c pl now indet nd)"

section \<open>Keys\<close>

record 'k key_ops =
  key_of_text :: "string \<Rightarrow> 'k result"
  text_of_key :: "'k \<Rightarrow> string"
  get_public_key :: "'k \<Rightarrow> public_key result"
  sign_with :: "'k \<Rightarrow> sha256 \<Rightarrow> signature result"

definition get_keys :: "block_leaves \<Rightarrow> 'k key_ops \<Rightarrow> 'k \<Rightarrow> variant list result" where
  "get_keys lv ks key =
     (case get_public_key ks key of Inl e \<Rightarrow> Inl e
      | Inr pub \<Rightarrow> Inr [V_string (key_str lv pub), V_string (text_of_key ks key)])"

text \<open>An exception of fc is logged and becomes a null variant.\<close>

definition or_null :: "variant result \<Rightarrow> variant result" where
  "or_null r = (case r of Inl e \<Rightarrow> if e = Abort \<or> e = Endless_Loop then Inl e else Inr V_null | Inr v \<Rightarrow> Inr v)"

definition sign_trx ::
  "crypto \<Rightarrow> lexical \<Rightarrow> block_leaves \<Rightarrow> 'k key_ops \<Rightarrow> variant \<Rightarrow> string \<Rightarrow> variant result" where
  "sign_trx c lx lv ks trx key = or_null
     (case from_variant_transaction lx lv trx new_transaction of Inl e \<Rightarrow> Inl e
      | Inr tx \<Rightarrow> (case key_of_text ks key of Inl e \<Rightarrow> Inl e
      | Inr pri_key \<Rightarrow> (case get_public_key ks pri_key of Inl e \<Rightarrow> Inl e
      | Inr pub \<Rightarrow>
        (let tx = tx\<lparr>trx_pub_key := pub\<rparr>
         in (case transaction_digest c tx of Inl e \<Rightarrow> Inl e
         | Inr digest \<Rightarrow> (case sign_with ks pri_key digest of Inl e \<Rightarrow> Inl e
         | Inr sg \<Rightarrow> Inr (to_variant_transaction lv (tx\<lparr>trx_signature := sg\<rparr>))))))))"

section \<open>Hexadecimal texts\<close>

definition char_of_byte :: "u8 \<Rightarrow> char" where
  "char_of_byte b = char_of (unat b)"

text \<open>
  The bytes go to a buffer of 1024 bytes that was set to 0, and the result is the C string in it. When no byte of the
  buffer is 0, the construction of the string reads behind the buffer (\<open>Abort\<close>).
\<close>

definition hex2char :: "string \<Rightarrow> string result" where
  "hex2char hex =
     (case from_hex hex 1024 of Inl e \<Rightarrow> Inl e
      | Inr bs \<Rightarrow>
          (let out_data = bs @ replicate (1024 - length bs) 0
           in if 0 \<in> set out_data then Inr (map char_of_byte (takeWhile (\<lambda>b. b \<noteq> 0) out_data)) else Inl Abort))"

definition char2hex :: "string \<Rightarrow> string" where
  "char2hex str = to_hex (map of_char str)"

lemma from_hex_to_hex_take: "from_hex (to_hex bs) n = Inr (take n bs)"
proof (induction bs arbitrary: n)
  case (Cons b bs)
  have "from_hex (to_hex (b # bs)) (Suc m) = Inr (take (Suc m) (b # bs))" for m
    using Cons.IH[of m] nibbles[of b] by (simp add: to_hex_def hex_digit_read)
  moreover have "from_hex (to_hex (b # bs)) 0 = Inr []" by (simp add: to_hex_def)
  ultimately show ?case by (cases n) simp_all
qed (simp add: to_hex_def)

lemma byte_of_char: "unat (of_char c :: u8) = of_char c" "char_of_byte (of_char c) = c"
  "(of_char c :: u8) = 0 \<longleftrightarrow> c = CHR 0x00"
proof -
  have "(of_char c :: u8) = word_of_nat (of_char c)" by (simp add: of_nat_of_char)
  moreover have "(of_char c :: nat) < 256" by (rule nat_of_char_less_256)
  ultimately show u: "unat (of_char c :: u8) = of_char c" by (simp add: unat_of_nat take_bit_nat_eq_self)
  then show c: "char_of_byte (of_char c) = c" by (simp add: char_of_byte_def)
  have "char_of_byte 0 = CHR 0x00" by (simp add: char_of_byte_def char_of_def)
  moreover have "(of_char CHR 0x00 :: u8) = 0" by simp
  ultimately show "(of_char c :: u8) = 0 \<longleftrightarrow> c = CHR 0x00" using c by auto
qed

lemma buffer_text:
  fixes n :: nat
  shows "0 \<in> set (map of_char (take n str) @ replicate (n - length (take n str)) (0 :: u8)) \<longleftrightarrow>
      length str < n \<or> CHR 0x00 \<in> set (take n str)"
    and "map char_of_byte (takeWhile (\<lambda>b. b \<noteq> 0) (map of_char (take n str) @ replicate k 0)) =
      takeWhile (\<lambda>c. c \<noteq> CHR 0x00) (take n str)"
proof -
  have "(0 :: u8) \<in> of_char ` set t \<longleftrightarrow> CHR 0x00 \<in> set t" for t
    using byte_of_char(3) by (metis (no_types, lifting) imageE image_eqI)
  then show "0 \<in> set (map of_char (take n str) @ replicate (n - length (take n str)) (0 :: u8)) \<longleftrightarrow>
      length str < n \<or> CHR 0x00 \<in> set (take n str)" by auto
  have "takeWhile (\<lambda>b. b \<noteq> 0) (map of_char t @ replicate k (0 :: u8)) = map of_char (takeWhile (\<lambda>c. c \<noteq> CHR 0x00) t)" for t
    by (induction t) (auto simp: byte_of_char(3) takeWhile_eq_Nil_iff)
  then show "map char_of_byte (takeWhile (\<lambda>b. b \<noteq> 0) (map of_char (take n str) @ replicate k 0)) =
      takeWhile (\<lambda>c. c \<noteq> CHR 0x00) (take n str)"
    by (simp add: o_def byte_of_char(2))
qed

text \<open>
  C37. \<open>hex2char\<close> undoes \<open>char2hex\<close> up to the first NUL character for texts of less than 1024 characters. Of a longer one it
  gives at most 1023 characters, and it reads behind its buffer if there is no NUL among the first 1024.
\<close>
theorem hex2char_char2hex:
  "hex2char (char2hex str) =
     (if length str < 1024 \<or> CHR 0x00 \<in> set (take 1024 str)
      then Inr (takeWhile (\<lambda>c. c \<noteq> CHR 0x00) (take 1024 str)) else Inl Abort)"
proof -
  have "from_hex (char2hex str) 1024 = Inr (map of_char (take 1024 str))"
    by (simp only: char2hex_def from_hex_to_hex_take take_map)
  then show ?thesis
    by (simp only: hex2char_def sum.case Let_def length_map buffer_text)
qed

section \<open>Signing\<close>

text \<open>The contract between the private keys and the recovery of public keys from signatures.\<close>

definition signer_ok :: "crypto \<Rightarrow> 'k key_ops \<Rightarrow> bool" where
  "signer_ok c ks \<longleftrightarrow> (\<forall>k pub d. get_public_key ks k = Inr pub \<longrightarrow>
     (\<exists>sg. sign_with ks k d = Inr sg \<and> sg \<noteq> blank_signature \<and> recover_key c sg d = Inr pub))"

lemma packable_digest:
  assumes "packable t"
  shows "\<exists>d. transaction_digest c (t\<lparr>trx_pub_key := pub\<rparr>) = Inr d"
proof -
  from assms obtain d a where "pack_bytes (trx_data t) = Inr d" "pack_bytes (trx_attach t) = Inr a"
    by (auto simp: packable_def pack_transaction_def split: sum.splits)
  then show ?thesis by (simp add: transaction_digest_def transaction_preimage_def)
qed

lemma sign_trx_result:
  assumes ok: "signer_ok c ks" and tx: "from_variant_transaction lx lv trx new_transaction = Inr tx"
    and data: "trx_data tx \<noteq> []" "packable tx" and key: "key_of_text ks key = Inr k" "get_public_key ks k = Inr pub"
  shows "\<exists>sg. sign_trx c lx lv ks trx key = Inr (to_variant_transaction lv (tx\<lparr>trx_pub_key := pub, trx_signature := sg\<rparr>)) \<and>
    transaction_validate c (tx\<lparr>trx_pub_key := pub, trx_signature := sg\<rparr>) = Inr True"
proof -
  obtain d where d: "transaction_digest c (tx\<lparr>trx_pub_key := pub\<rparr>) = Inr d" using packable_digest[OF data(2)] by blast
  obtain sg where sg: "sign_with ks k d = Inr sg" "sg \<noteq> blank_signature" "recover_key c sg d = Inr pub"
    using ok key(2) unfolding signer_ok_def by blast
  have "transaction_digest c (tx\<lparr>trx_pub_key := pub, trx_signature := sg\<rparr>) = Inr d"
    using d by (simp add: transaction_digest_def transaction_preimage_def cong: sum.case_cong)
  with sg data(1) have "transaction_validate c (tx\<lparr>trx_pub_key := pub, trx_signature := sg\<rparr>) = Inr True"
    by (auto simp: transaction_validate_def)
  then show ?thesis using tx key d sg by (intro exI[of _ sg]) (simp add: sign_trx_def or_null_def)
qed


definition demo_keys :: "nat key_ops" where
  "demo_keys = \<lparr>key_of_text = number_of_text, text_of_key = dec_string, get_public_key = (\<lambda>k. Inr (PK_K1 7)),
     sign_with = (\<lambda>k d. Inr (SIG_K1 1))\<rparr>"

lemma demo_signer_ok: "signer_ok demo_crypto demo_keys"
  by (simp add: signer_ok_def demo_keys_def demo_crypto_def blank_signature_def)


end
