(* ===== verification/Http_Api.thy ===== *)
theory Http_Api
  imports Chain_Api
begin

text \<open>
  The API over HTTP: the dispatch of requests in plugins/http_plugin/http_plugin.cpp and the handlers that
  plugins/chain_api_plugin/chain_api_plugin.cpp registers for the calls of Chain_Api. A handler parses the body as
  JSON, converts it to the parameters of the call, and answers with the JSON text of the result or of the exception.

  The sockets and the framing of HTTP (boost asio and websocketpp) are outside: a request is a record of its parts,
  an answer is a status code with a body. \<open>No_Response\<close> is a connection that is kept open and never answered, \<open>Crash\<close> an
  undefined behaviour behind the call. The texts of exceptions are the argument \<open>sv_error_info\<close>.
\<close>

record ('s, 'k) server =
  sv_crypto :: crypto
  sv_lexical :: lexical
  sv_leaves :: block_leaves
  sv_keys :: "'k key_ops"
  sv_plugin :: "'s db_plugin"
  sv_error_info :: "fc_error \<Rightarrow> variant"
  sv_not_found_info :: variant

text \<open>What a call finds outside of the node: the clock, the value of an uninitialised number, a fresh key.\<close>

record 'k api_env =
  env_now :: u32
  env_indet :: u64
  env_key :: 'k

datatype http_answer = Respond nat string | No_Response | Crash

type_synonym ('s, 'k) handler = "string \<Rightarrow> 's node \<Rightarrow> http_answer \<times> 's node"

section \<open>Exceptions\<close>

definition to_text :: "('s, 'k) server \<Rightarrow> variant \<Rightarrow> string" where
  "to_text sv v = json_text (sv_lexical sv) stringify_large_ints_and_doubles v"

definition error_results :: "nat \<Rightarrow> string \<Rightarrow> variant \<Rightarrow> variant" where
  "error_results code message info =
     V_object [(''code'', V_uint64 (word_of_nat code)), (''message'', V_string message), (''error'', info)]"

definition handle_exception :: "('s, 'k) server \<Rightarrow> fc_error \<Rightarrow> http_answer" where
  "handle_exception sv e =
     (if e = Abort \<or> e = Endless_Loop then Crash
      else if e = Eof_Exception
      then Respond 422 (to_text sv (error_results 422 ''Unprocessable Entity'' (sv_error_info sv e)))
      else Respond 500 (to_text sv (error_results 500 ''Internal Service Error'' (sv_error_info sv e))))"

section \<open>Parameters\<close>

text \<open>A member that the object does not have keeps the value of the new record, which is not initialised for numbers.\<close>

definition empty_params :: "variant \<Rightarrow> unit result" where
  "empty_params v = (case get_object v of Inl e \<Rightarrow> Inl e | Inr vo \<Rightarrow> Inr ())"

definition get_block_params :: "lexical \<Rightarrow> u64 \<Rightarrow> variant \<Rightarrow> u64 result" where
  "get_block_params lx indet v =
     (case get_object v of Inl e \<Rightarrow> Inl e | Inr vo \<Rightarrow> read_member vo ''blk_num'' (from_variant_u64 lx) indet)"

fun from_variant_u64s_loop :: "lexical \<Rightarrow> variant list \<Rightarrow> u64 list result" where
  "from_variant_u64s_loop lx [] = Inr []"
| "from_variant_u64s_loop lx (v # vs) =
     (case from_variant_u64 lx v of Inl e \<Rightarrow> Inl e
      | Inr n \<Rightarrow> (case from_variant_u64s_loop lx vs of Inl e \<Rightarrow> Inl e | Inr ns \<Rightarrow> Inr (n # ns)))"

definition from_variant_u64s :: "lexical \<Rightarrow> variant \<Rightarrow> u64 list result" where
  "from_variant_u64s lx v = (case get_array v of Inl e \<Rightarrow> Inl e | Inr vs \<Rightarrow> from_variant_u64s_loop lx vs)"

definition get_blocks_params :: "lexical \<Rightarrow> variant \<Rightarrow> u64 list result" where
  "get_blocks_params lx v =
     (case get_object v of Inl e \<Rightarrow> Inl e | Inr vo \<Rightarrow> read_member vo ''blk_nums'' (from_variant_u64s lx) [])"

definition hex2char_params :: "lexical \<Rightarrow> variant \<Rightarrow> string result" where
  "hex2char_params lx v = (case get_object v of Inl e \<Rightarrow> Inl e | Inr vo \<Rightarrow> read_member vo ''hex'' (as_string lx) [])"

definition char2hex_params :: "lexical \<Rightarrow> variant \<Rightarrow> string result" where
  "char2hex_params lx v = (case get_object v of Inl e \<Rightarrow> Inl e | Inr vo \<Rightarrow> read_member vo ''str'' (as_string lx) [])"

definition sign_trx_params :: "lexical \<Rightarrow> variant \<Rightarrow> (variant \<times> string) result" where
  "sign_trx_params lx v =
     (case get_object v of Inl e \<Rightarrow> Inl e
      | Inr vo \<Rightarrow> (case read_member vo ''trx'' Inr V_null of Inl e \<Rightarrow> Inl e
      | Inr trx \<Rightarrow> (case read_member vo ''key'' (as_string lx) [] of Inl e \<Rightarrow> Inl e | Inr key \<Rightarrow> Inr (trx, key))))"

definition from_variant_u32 :: "lexical \<Rightarrow> variant \<Rightarrow> u32 result" where
  "from_variant_u32 lx v = map_sum id ucast (as_uint64 lx v)"

definition push_params :: "lexical \<Rightarrow> block_leaves \<Rightarrow> u64 \<Rightarrow> variant \<Rightarrow> push_transaction_params result" where
  "push_params lx lv indet v =
     (case get_object v of Inl e \<Rightarrow> Inl e
      | Inr vo \<Rightarrow> (case read_member vo ''type'' (from_variant_u32 lx) (ucast indet) of Inl e \<Rightarrow> Inl e
      | Inr ty \<Rightarrow> (case read_member vo ''data'' (from_variant_bytes lx) [] of Inl e \<Rightarrow> Inl e
      | Inr d \<Rightarrow> (case read_member vo ''attach'' (from_variant_bytes lx) [] of Inl e \<Rightarrow> Inl e
      | Inr a \<Rightarrow> (case read_member vo ''pub_key'' (from_variant_text lx (key_of lv)) (PK_K1 0) of Inl e \<Rightarrow> Inl e
      | Inr k \<Rightarrow> (case read_member vo ''signature'' (from_variant_text lx (signature_of lv)) blank_signature of Inl e \<Rightarrow> Inl e
      | Inr sg \<Rightarrow> (case read_member vo ''time_point'' (from_variant_text lx (time_of lv)) 0 of Inl e \<Rightarrow> Inl e
      | Inr tp \<Rightarrow> Inr \<lparr>p_type = ty, p_pub_key = k, p_signature = sg, p_time_point = tp, p_data = d, p_attach = a\<rparr>)))))))"

section \<open>Handlers\<close>

text \<open>The parameters of a call, from the text of the body.\<close>

definition parse_body :: "('s, 'k) server \<Rightarrow> (variant \<Rightarrow> 'p result) \<Rightarrow> string \<Rightarrow> 'p result" where
  "parse_body sv params body =
     (let body = (if body = [] then ''{}'' else body)
      in (case from_string (sv_lexical sv) body legacy_parser default_max_recursion_depth of
            None \<Rightarrow> Inl Abort
          | Some (Inl e) \<Rightarrow> Inl e
          | Some (Inr v) \<Rightarrow> params v))"

definition answer_call :: "('s, 'k) server \<Rightarrow> nat \<Rightarrow> variant result \<times> 's node \<Rightarrow> http_answer \<times> 's node" where
  "answer_call sv code q =
     (case q of (Inl e, nd) \<Rightarrow> (handle_exception sv e, nd) | (Inr v, nd) \<Rightarrow> (Respond code (to_text sv v), nd))"

definition call_sync ::
  "('s, 'k) server \<Rightarrow> nat \<Rightarrow> (variant \<Rightarrow> 'p result) \<Rightarrow> ('p \<Rightarrow> 's node \<Rightarrow> variant result \<times> 's node) \<Rightarrow> ('s, 'k) handler" where
  "call_sync sv code params run body nd =
     (case parse_body sv params body of
        Inl e \<Rightarrow> (handle_exception sv e, nd)
      | Inr p \<Rightarrow> answer_call sv code (run p nd))"

text \<open>
  \<open>CALL_ASYNC\<close> parses the body outside of the try block: the exception reaches \<open>handle_http_request\<close>, which sets a body but
  has deferred the response, so that nothing is sent.
\<close>

definition call_async ::
  "('s, 'k) server \<Rightarrow> nat \<Rightarrow> (variant \<Rightarrow> 'p result) \<Rightarrow> ('p \<Rightarrow> 's node \<Rightarrow> variant result \<times> 's node) \<Rightarrow> ('s, 'k) handler" where
  "call_async sv code params run body nd =
     (case parse_body sv params body of
        Inl e \<Rightarrow> (if e = Abort \<or> e = Endless_Loop then Crash else No_Response, nd)
      | Inr p \<Rightarrow> answer_call sv code (run p nd))"

definition pure_call :: "('p \<Rightarrow> variant result) \<Rightarrow> 'p \<Rightarrow> 's node \<Rightarrow> variant result \<times> 's node" where
  "pure_call f p nd = (f p, nd)"

definition chain_handlers :: "('s, 'k) server \<Rightarrow> 'k api_env \<Rightarrow> (string \<times> ('s, 'k) handler) list" where
  "chain_handlers sv env =
     (let c = sv_crypto sv; lx = sv_lexical sv; lv = sv_leaves sv; ks = sv_keys sv; pl = sv_plugin sv;
          now = env_now env; indet = env_indet env
      in [(''/v1/chain/get_info'', call_sync sv 200 empty_params (\<lambda>_. ro_get_info pl)),
          (''/v1/chain/get_block'', call_sync sv 200 (get_block_params lx indet) (ro_get_block lv pl)),
          (''/v1/chain/get_blocks'', call_sync sv 200 (get_blocks_params lx) (ro_get_blocks lv pl)),
          (''/v1/chain/get_keys'', call_sync sv 200 empty_params
             (pure_call (\<lambda>_. map_sum id V_array (get_keys lv ks (env_key env))))),
          (''/v1/chain/hex2char'', call_sync sv 200 (hex2char_params lx)
             (pure_call (\<lambda>hex. map_sum id V_string (hex2char hex)))),
          (''/v1/chain/char2hex'', call_sync sv 200 (char2hex_params lx)
             (pure_call (\<lambda>str. Inr (V_string (char2hex str))))),
          (''/v1/chain/sign_trx'', call_sync sv 200 (sign_trx_params lx)
             (pure_call (\<lambda>(trx, key). sign_trx c lx lv ks trx key))),
          (''/v1/chain/check_chain'', call_sync sv 200 empty_params (\<lambda>_. ro_check_chain c lv pl now indet)),
          (''/v1/chain/push_transaction'', call_async sv 202 (push_params lx lv indet) (rw_push_transaction c lv)),
          (''/v1/chain/publish_blk'', call_async sv 202 empty_params (\<lambda>_. rw_publish_blk c pl now indet))])"

section \<open>Requests\<close>

record http_config =
  validate_host :: bool
  valid_hosts :: "string list"

record http_request =
  req_method :: string
  req_host :: string
  req_resource :: string
  req_body :: string
  req_local_endpoint :: string
  req_secure :: bool

text \<open>The regular expression \<open>[^:]:[0-9]+$\<close>.\<close>

definition has_port :: "string \<Rightarrow> bool" where
  "has_port host =
     (takeWhile is_digit (rev host) \<noteq> [] \<and>
      (case dropWhile is_digit (rev host) of a # b # _ \<Rightarrow> a = CHR '':'' \<and> b \<noteq> CHR '':'' | _ \<Rightarrow> False))"

definition host_port_is_valid :: "http_config \<Rightarrow> string \<Rightarrow> string \<Rightarrow> bool" where
  "host_port_is_valid cfg header_host_port endpoint_local_host_port \<longleftrightarrow>
     \<not> validate_host cfg \<or> header_host_port = endpoint_local_host_port \<or> List.member (valid_hosts cfg) header_host_port"

definition host_is_valid :: "http_config \<Rightarrow> string \<Rightarrow> string \<Rightarrow> bool \<Rightarrow> bool" where
  "host_is_valid cfg host endpoint_local_host_port secure =
     (if \<not> validate_host cfg then True
      else if has_port host then host_port_is_valid cfg host endpoint_local_host_port
      else host_port_is_valid cfg (host @ '':'' @ (if secure then ''443'' else ''80'')) endpoint_local_host_port)"

definition allow_host :: "http_config \<Rightarrow> http_request \<Rightarrow> bool" where
  "allow_host cfg req \<longleftrightarrow> req_host req \<noteq> [] \<and>
     host_is_valid cfg (req_host req) (req_local_endpoint req) (req_secure req)"

definition handle_http_request ::
  "('s, 'k) server \<Rightarrow> http_config \<Rightarrow> 'k api_env \<Rightarrow> http_request \<Rightarrow> 's node \<Rightarrow> http_answer \<times> 's node" where
  "handle_http_request sv cfg env req nd =
     (if \<not> allow_host cfg req then (Respond 400 [], nd)
      else if req_method req = ''OPTIONS'' then (Respond 200 [], nd)
      else
        (case map_of (chain_handlers sv env) (req_resource req) of
           Some h \<Rightarrow> h (req_body req) nd
         | None \<Rightarrow> (Respond 404 (to_text sv (error_results 404 ''Not Found'' (sv_not_found_info sv))), nd)))"

section \<open>A request is a step of the node\<close>

text \<open>A handler refines the node when a call changes nothing or is one step of an event that is no restart.\<close>

definition refines_step :: "crypto \<Rightarrow> 's db_plugin \<Rightarrow> 's node \<Rightarrow> 's node \<Rightarrow> bool" where
  "refines_step c pl nd nd' \<longleftrightarrow> nd' = nd \<or> (\<exists>e. e \<noteq> Restart \<and> node_step c pl nd e nd')"

lemma answer_call_state: "snd (answer_call sv code q) = snd q"
  by (cases q) (simp add: answer_call_def split: sum.splits)

lemma call_refines:
  assumes "\<And>p. refines_step c pl nd (snd (run p nd))"
  shows "refines_step c pl nd (snd (call_sync sv code params run body nd))"
    and "refines_step c pl nd (snd (call_async sv code params run body nd))"
  using assms
  by (auto simp: call_sync_def call_async_def answer_call_state refines_step_def split: sum.splits)

lemma answers_refine:
  "refines_step c pl nd (snd (ro_get_info pl nd))"
  "refines_step c pl nd (snd (ro_get_block lv pl num nd))"
  "refines_step c pl nd (snd (ro_get_blocks lv pl nums nd))"
  "refines_step c pl nd (snd (ro_check_chain c lv pl now indet nd))"
  "refines_step c pl nd (snd (rw_push_transaction c lv p nd))"
  "refines_step c pl nd (snd (rw_publish_blk c pl now indet nd))"
  "refines_step c pl nd (snd (pure_call f q nd))"
proof -
  note defs = refines_step_def ro_get_info_def ro_get_block_def ro_get_blocks_def ro_check_chain_def
    rw_push_transaction_def rw_publish_blk_def as_answer_def
  show "refines_step c pl nd (snd (ro_get_info pl nd))"
    unfolding defs using step_info[of pl nd "fst (get_info pl nd)" "snd (get_info pl nd)" c] by auto
  show "refines_step c pl nd (snd (ro_get_block lv pl num nd))"
    unfolding defs using step_get[of pl num nd "fst (api_get_block pl num nd)" "snd (api_get_block pl num nd)" c] by auto
  show "refines_step c pl nd (snd (ro_get_blocks lv pl nums nd))"
    unfolding defs using step_gets[of pl nums nd "fst (api_get_blocks pl nums nd)" "snd (api_get_blocks pl nums nd)" c] by auto
  show "refines_step c pl nd (snd (ro_check_chain c lv pl now indet nd))"
    unfolding defs using step_check[of c pl now indet nd "fst (api_check_chain c pl now indet nd)"
      "snd (api_check_chain c pl now indet nd)"] by auto
  show "refines_step c pl nd (snd (rw_push_transaction c lv p nd))"
    unfolding defs using step_push[of c p nd "fst (push_transaction c p nd)" "snd (push_transaction c p nd)" pl] by auto
  show "refines_step c pl nd (snd (rw_publish_blk c pl now indet nd))"
    unfolding defs using step_publish[of c pl now indet nd "fst (publish_blk c pl now indet nd)"
      "snd (publish_blk c pl now indet nd)"] by auto
  show "refines_step c pl nd (snd (pure_call f q nd))"
    by (simp add: refines_step_def pure_call_def)
qed

lemma handlers_refine:
  "list_all (\<lambda>(url, h). \<forall>body nd. refines_step (sv_crypto sv) (sv_plugin sv) nd (snd (h body nd))) (chain_handlers sv env)"
  unfolding chain_handlers_def Let_def list.pred_inject prod.case
  by (intro conjI allI call_refines answers_refine) simp

lemma handler_of_request:
  assumes "handle_http_request sv cfg env req nd = (ans, nd')"
    and "list_all (\<lambda>(url, h). \<forall>body nd. P nd (h body nd)) (chain_handlers sv env)"
    and "P nd (Respond 400 [], nd)" "P nd (Respond 200 [], nd)"
    and "\<And>body. P nd (Respond 404 body, nd)"
  shows "P nd (ans, nd')"
proof (cases "map_of (chain_handlers sv env) (req_resource req)")
  case None
  then show ?thesis using assms(1,3-5) by (auto simp: handle_http_request_def split: if_splits)
next
  case (Some h)
  then have "P nd (h (req_body req) nd)" using map_of_SomeD[OF Some] assms(2) by (cases nd) (auto simp: list_all_iff)
  then show ?thesis using Some assms(1,3-5) by (auto simp: handle_http_request_def split: if_splits)
qed

section \<open>What a request means\<close>

text \<open>
  The specification of the API, without handlers: the event of the node that a call asks for (or the exception when its body
  cannot be read), the outcome of an event as a variant, and the outcome of the calls that do not touch the node.
\<close>

definition call_event :: "('s, 'k) server \<Rightarrow> 'k api_env \<Rightarrow> string \<Rightarrow> string \<Rightarrow> event result option" where
  "call_event sv env url body =
     (let lx = sv_lexical sv; lv = sv_leaves sv; indet = env_indet env
      in if url = ''/v1/chain/get_info'' then Some (map_sum id (\<lambda>_. Info) (parse_body sv empty_params body))
         else if url = ''/v1/chain/get_block'' then Some (map_sum id Get (parse_body sv (get_block_params lx indet) body))
         else if url = ''/v1/chain/get_blocks'' then Some (map_sum id Gets (parse_body sv (get_blocks_params lx) body))
         else if url = ''/v1/chain/check_chain'' then Some (map_sum id (\<lambda>_. Check) (parse_body sv empty_params body))
         else if url = ''/v1/chain/push_transaction'' then Some (map_sum id Push (parse_body sv (push_params lx lv indet) body))
         else if url = ''/v1/chain/publish_blk'' then Some (map_sum id (\<lambda>_. Publish) (parse_body sv empty_params body))
         else None)"

fun event_outcome :: "('s, 'k) server \<Rightarrow> 'k api_env \<Rightarrow> event \<Rightarrow> 's node \<Rightarrow> variant result \<times> 's node" where
  "event_outcome sv env (Push p) nd =
     map_prod (map_sum id (\<lambda>trx. V_object [(''res'', to_variant_transaction (sv_leaves sv) trx)])) id
       (push_transaction (sv_crypto sv) p nd)"
| "event_outcome sv env Publish nd =
     map_prod (map_sum id (\<lambda>_. V_object [(''message'', V_string ''operation complete'')])) id
       (publish_blk (sv_crypto sv) (sv_plugin sv) (env_now env) (env_indet env) nd)"
| "event_outcome sv env Info nd =
     map_prod (map_sum id (\<lambda>(blocks, pool). V_object [(''block_num'', V_uint64 blocks), (''pending_trx'', V_uint64 (word_of_nat pool))])) id
       (get_info (sv_plugin sv) nd)"
| "event_outcome sv env (Get n) nd =
     map_prod (map_sum id (case_option (V_object [(''error'', V_string ''block not found'')]) (to_variant_block (sv_leaves sv)))) id
       (api_get_block (sv_plugin sv) n nd)"
| "event_outcome sv env (Gets ns) nd =
     map_prod (map_sum id (\<lambda>bs. V_array (map (to_variant_block (sv_leaves sv)) bs))) id (api_get_blocks (sv_plugin sv) ns nd)"
| "event_outcome sv env Check nd =
     map_prod (map_sum id (case_check_result (V_object [(''result'', V_int64 0), (''block'', V_int64 0)])
       (\<lambda>b. V_object [(''result'', V_int64 (- 1)), (''block'', to_variant_block (sv_leaves sv) b)]))) id
       (api_check_chain (sv_crypto sv) (sv_plugin sv) (env_now env) (env_indet env) nd)"
| "event_outcome sv env Restart nd = (Inl Abort, nd)"

definition helper_outcome :: "('s, 'k) server \<Rightarrow> 'k api_env \<Rightarrow> string \<Rightarrow> string \<Rightarrow> variant result option" where
  "helper_outcome sv env url body =
     (let lx = sv_lexical sv; lv = sv_leaves sv; ks = sv_keys sv
      in if url = ''/v1/chain/get_keys''
         then Some (case_sum Inl (\<lambda>_. map_sum id V_array (get_keys lv ks (env_key env))) (parse_body sv empty_params body))
         else if url = ''/v1/chain/hex2char''
         then Some (case_sum Inl (\<lambda>hex. map_sum id V_string (hex2char hex)) (parse_body sv (hex2char_params lx) body))
         else if url = ''/v1/chain/char2hex''
         then Some (map_sum id (\<lambda>str. V_string (char2hex str)) (parse_body sv (char2hex_params lx) body))
         else if url = ''/v1/chain/sign_trx''
         then Some (case_sum Inl (\<lambda>(trx, key). sign_trx (sv_crypto sv) lx lv ks trx key) (parse_body sv (sign_trx_params lx) body))
         else None)"

text \<open>How an outcome is answered, and the two calls that answer 202 when they succeed.\<close>

definition answers :: "('s, 'k) server \<Rightarrow> nat \<Rightarrow> variant result \<Rightarrow> http_answer \<Rightarrow> bool" where
  "answers sv code r ans \<longleftrightarrow>
     (case r of
        Inr v \<Rightarrow> ans = Respond code (to_text sv v)
      | Inl e \<Rightarrow> if e \<in> {Abort, Endless_Loop} then ans = Crash
                 else (\<exists>body. ans = Respond (if e = Eof_Exception then 422 else 500) body))"

fun deferred :: "event \<Rightarrow> bool" where
  "deferred (Push p) = True"
| "deferred Publish = True"
| "deferred _ = False"

text \<open>
  An event that was read is a step of the node, answered with its outcome. A body that cannot be read changes nothing, and is
  not answered when the call is \<open>silent\<close>.
\<close>

definition event_answered ::
  "('s, 'k) server \<Rightarrow> 'k api_env \<Rightarrow> bool \<Rightarrow> event result \<Rightarrow> 's node \<Rightarrow> http_answer \<Rightarrow> 's node \<Rightarrow> bool" where
  "event_answered sv env silent q nd ans nd' \<longleftrightarrow>
     (case q of
        Inr e \<Rightarrow> e \<noteq> Restart \<and> node_step (sv_crypto sv) (sv_plugin sv) nd e nd' \<and>
          (\<exists>r. event_outcome sv env e nd = (r, nd') \<and> answers sv (if deferred e then 202 else 200) r ans)
      | Inl e \<Rightarrow> nd' = nd \<and> (if silent \<and> e \<notin> {Abort, Endless_Loop} then ans = No_Response else answers sv 200 (Inl e) ans))"

text \<open>What a request does and how it is answered.\<close>

definition request_outcome ::
  "('s, 'k) server \<Rightarrow> http_config \<Rightarrow> 'k api_env \<Rightarrow> http_request \<Rightarrow> 's node \<Rightarrow> http_answer \<Rightarrow> 's node \<Rightarrow> bool" where
  "request_outcome sv cfg env req nd ans nd' \<longleftrightarrow>
     (let url = req_resource req; body = req_body req
      in if \<not> allow_host cfg req then ans = Respond 400 [] \<and> nd' = nd
         else if req_method req = ''OPTIONS'' then ans = Respond 200 [] \<and> nd' = nd
         else (case call_event sv env url body of
             Some q \<Rightarrow> event_answered sv env (url \<in> {''/v1/chain/push_transaction'', ''/v1/chain/publish_blk''}) q nd ans nd'
           | None \<Rightarrow> nd' = nd \<and>
               (case helper_outcome sv env url body of
                  Some r \<Rightarrow> answers sv 200 r ans
                | None \<Rightarrow> (\<exists>text. ans = Respond 404 text))))"

lemma handle_exception_answers [simp]: "answers sv code (Inl e) (handle_exception sv e)"
  by (auto simp: answers_def handle_exception_def)

text \<open>The outcome of an event is a step, and the calls of Chain_Api have these outcomes.\<close>

lemma event_outcome_step:
  assumes "event_outcome sv env e nd = (r, nd')" "e \<noteq> Restart"
  shows "node_step (sv_crypto sv) (sv_plugin sv) nd e nd'"
  using assms by (cases e) (auto intro: node_step.intros simp: map_prod_def split: prod.splits)

lemma call_outcomes:
  "rw_push_transaction (sv_crypto sv) (sv_leaves sv) p nd = event_outcome sv env (Push p) nd"
  "rw_publish_blk (sv_crypto sv) (sv_plugin sv) (env_now env) (env_indet env) nd = event_outcome sv env Publish nd"
  "ro_get_info (sv_plugin sv) nd = event_outcome sv env Info nd"
  "ro_get_block (sv_leaves sv) (sv_plugin sv) n nd = event_outcome sv env (Get n) nd"
  "ro_get_blocks (sv_leaves sv) (sv_plugin sv) ns nd = event_outcome sv env (Gets ns) nd"
  "ro_check_chain (sv_crypto sv) (sv_leaves sv) (sv_plugin sv) (env_now env) (env_indet env) nd = event_outcome sv env Check nd"
proof -
  have keys: "set_key [] k v = [(k, v)]" "CHR 0x00 \<notin> set l \<Longrightarrow> k \<noteq> l \<Longrightarrow> set_key [(k, v)] l w = [(k, v), (l, w)]"
    for k l :: string and v w :: variant
    by (simp_all add: set_key_def find_key_def)
  show "rw_push_transaction (sv_crypto sv) (sv_leaves sv) p nd = event_outcome sv env (Push p) nd"
    by (simp add: rw_push_transaction_def as_answer_def)
  show "rw_publish_blk (sv_crypto sv) (sv_plugin sv) (env_now env) (env_indet env) nd = event_outcome sv env Publish nd"
    by (simp add: rw_publish_blk_def as_answer_def keys)
  show "ro_get_info (sv_plugin sv) nd = event_outcome sv env Info nd"
    by (simp add: ro_get_info_def as_answer_def info_object_def keys)
  have "block_or_error lv = case_option (V_object [(''error'', V_string ''block not found'')]) (to_variant_block lv)" for lv
    by (auto simp: block_or_error_def keys fun_eq_iff split: option.splits)
  then show "ro_get_block (sv_leaves sv) (sv_plugin sv) n nd = event_outcome sv env (Get n) nd"
    by (simp add: ro_get_block_def as_answer_def)
  show "ro_get_blocks (sv_leaves sv) (sv_plugin sv) ns nd = event_outcome sv env (Gets ns) nd"
    by (simp add: ro_get_blocks_def as_answer_def)
  have "check_object lv = case_check_result (V_object [(''result'', V_int64 0), (''block'', V_int64 0)])
      (\<lambda>b. V_object [(''result'', V_int64 (- 1)), (''block'', to_variant_block lv b)])" for lv
    by (auto simp: check_object_def keys fun_eq_iff split: check_result.splits)
  then show "ro_check_chain (sv_crypto sv) (sv_leaves sv) (sv_plugin sv) (env_now env) (env_indet env) nd = event_outcome sv env Check nd"
    by (simp add: ro_check_chain_def as_answer_def)
qed

text \<open>The handlers of \<open>CALL\<close> and \<open>CALL_ASYNC\<close>, over a call that has the outcome of an event, and over a helper.\<close>

lemma call_handled:
  assumes "\<And>p nd. run p nd = event_outcome sv env (ev p) nd" "\<And>p. ev p \<noteq> Restart"
  shows "(\<And>p. \<not> deferred (ev p)) \<Longrightarrow> call_sync sv 200 params run body nd = (ans, nd') \<Longrightarrow>
      event_answered sv env False (map_sum id ev (parse_body sv params body)) nd ans nd'"
    and "(\<And>p. deferred (ev p)) \<Longrightarrow> call_async sv 202 params run body nd = (ans, nd') \<Longrightarrow>
      event_answered sv env True (map_sum id ev (parse_body sv params body)) nd ans nd'"
proof -
  have answer: "answers sv code r ans" if "answer_call sv code (r, nd1) = (ans, nd')" for code r nd1
    using that handle_exception_answers[of sv code] by (cases r) (auto simp: answer_call_def, simp add: answers_def)
  have state: "nd' = nd1" if "answer_call sv code (r, nd1) = (ans, nd')" for code r nd1
    using that by (cases r) (simp_all add: answer_call_def)
  have event: "event_answered sv env silent (Inr (ev p)) nd ans nd'"
    if "answer_call sv (if deferred (ev p) then 202 else 200) (run p nd) = (ans, nd')" for p silent
  proof -
    obtain r nd1 where r: "event_outcome sv env (ev p) nd = (r, nd1)" by (cases "event_outcome sv env (ev p) nd")
    with that have a: "answer_call sv (if deferred (ev p) then 202 else 200) (r, nd1) = (ans, nd')" by (simp add: assms(1))
    have "nd' = nd1" by (rule state[OF a])
    then show ?thesis using r answer[OF a] event_outcome_step[OF r assms(2)] assms(2) by (simp add: event_answered_def)
  qed
  show "event_answered sv env False (map_sum id ev (parse_body sv params body)) nd ans nd'"
    if "\<And>p. \<not> deferred (ev p)" "call_sync sv 200 params run body nd = (ans, nd')"
  proof (cases "parse_body sv params body")
    case (Inl e)
    then show ?thesis using that(2) by (auto simp: call_sync_def event_answered_def)
  next
    case (Inr p)
    then show ?thesis using that event[of p] by (simp add: call_sync_def)
  qed
  show "event_answered sv env True (map_sum id ev (parse_body sv params body)) nd ans nd'"
    if "\<And>p. deferred (ev p)" "call_async sv 202 params run body nd = (ans, nd')"
  proof (cases "parse_body sv params body")
    case (Inl e)
    then show ?thesis using that(2) by (auto simp: call_async_def event_answered_def answers_def)
  next
    case (Inr p)
    then show ?thesis using that event[of p] by (simp add: call_async_def)
  qed
qed

lemma helper_handled:
  assumes "call_sync sv 200 params (pure_call f) body nd = (ans, nd')"
  shows "nd' = nd \<and> answers sv 200 (case_sum Inl f (parse_body sv params body)) ans"
  using assms handle_exception_answers[of sv 200]
  by (auto simp: call_sync_def pure_call_def answer_call_def split: sum.splits) (simp add: answers_def)

text \<open>The ten resources, in the order of the table.\<close>

lemma ten_cases:
  obtains "u = xa" | "u = xb" | "u = xc" | "u = xd" | "u = xe" | "u = xf" | "u = xg" | "u = xh" | "u = xi" | "u = xj"
  | "u \<notin> {xa, xb, xc, xd, xe, xf, xg, xh, xi, xj}"
  by blast

lemmas resource_cases = ten_cases[where xa = "''/v1/chain/get_info''"
  and xb = "''/v1/chain/get_block''"
  and xc = "''/v1/chain/get_blocks''"
  and xd = "''/v1/chain/get_keys''"
  and xe = "''/v1/chain/hex2char''"
  and xf = "''/v1/chain/char2hex''"
  and xg = "''/v1/chain/sign_trx''"
  and xh = "''/v1/chain/check_chain''"
  and xi = "''/v1/chain/push_transaction''"
  and xj = "''/v1/chain/publish_blk''"]

text \<open>
  C11. Every request, whatever its texts are, has the outcome that the specification gives it. A request from a host that
  is not allowed is answered 400, OPTIONS 200 and an unknown resource 404, and nothing changes. Each of the six calls on the node is
  the step of the event that its resource and body name, answered with the text of the outcome of that event (200, or 202
  for \<open>push_transaction\<close> and \<open>publish_blk\<close>); each of the other four calls is answered with its result and changes nothing.
  An exception is answered 422 when the text ended and 500 otherwise, except when the body of \<open>push_transaction\<close> or
  \<open>publish_blk\<close> cannot be read, which is never answered; only undefined behaviour and an endless loop behind a call are crashes.
\<close>
theorem http_request_refines_node:
  assumes "handle_http_request sv cfg env req nd = (ans, nd')"
  shows "request_outcome sv cfg env req nd ans nd'"
proof (cases "allow_host cfg req \<and> req_method req \<noteq> ''OPTIONS''")
  case False
  then show ?thesis using assms by (auto simp: handle_http_request_def request_outcome_def)
next
  case True
  define url where "url = req_resource req"
  define body where "body = req_body req"
  have run: "(case map_of (chain_handlers sv env) url of Some h \<Rightarrow> h body nd
      | None \<Rightarrow> (Respond 404 (to_text sv (error_results 404 ''Not Found'' (sv_not_found_info sv))), nd)) = (ans, nd')"
    using assms True unfolding url_def body_def by (simp add: handle_http_request_def)
  have goal: "?thesis \<longleftrightarrow>
      (case call_event sv env url body of
         Some q \<Rightarrow> event_answered sv env (url \<in> {''/v1/chain/push_transaction'', ''/v1/chain/publish_blk''}) q nd ans nd'
       | None \<Rightarrow> nd' = nd \<and> (case helper_outcome sv env url body of
           Some r \<Rightarrow> answers sv 200 r ans | None \<Rightarrow> (\<exists>text. ans = Respond 404 text)))"
    unfolding url_def body_def using True by (simp add: request_outcome_def Let_def)
  note sync = call_handled(1)[where sv = sv and env = env and body = body and nd = nd and ans = ans and nd' = nd']
    and async = call_handled(2)[where sv = sv and env = env and body = body and nd = nd and ans = ans and nd' = nd']
  show ?thesis
  proof (rule resource_cases[where u = url])
    assume u: "url = ''/v1/chain/get_info''"
    from run u show ?thesis unfolding goal by (simp add: chain_handlers_def call_event_def Let_def) (rule sync, rule call_outcomes, simp_all)
  next
    assume u: "url = ''/v1/chain/get_block''"
    from run u show ?thesis unfolding goal by (simp add: chain_handlers_def call_event_def Let_def) (rule sync, rule call_outcomes, simp_all)
  next
    assume u: "url = ''/v1/chain/get_blocks''"
    from run u show ?thesis unfolding goal by (simp add: chain_handlers_def call_event_def Let_def) (rule sync, rule call_outcomes, simp_all)
  next
    assume u: "url = ''/v1/chain/get_keys''"
    from run u show ?thesis unfolding goal by (simp add: chain_handlers_def call_event_def helper_outcome_def Let_def helper_handled)
  next
    assume u: "url = ''/v1/chain/hex2char''"
    from run u show ?thesis unfolding goal by (simp add: chain_handlers_def call_event_def helper_outcome_def Let_def helper_handled)
  next
    assume u: "url = ''/v1/chain/char2hex''"
    from run u have "call_sync sv 200 (char2hex_params (sv_lexical sv)) (pure_call (\<lambda>str. Inr (V_string (char2hex str)))) body nd = (ans, nd')"
      by (simp add: chain_handlers_def Let_def)
    from helper_handled[OF this] u show ?thesis unfolding goal
      by (cases "parse_body sv (char2hex_params (sv_lexical sv)) body") (simp_all add: call_event_def helper_outcome_def Let_def)
  next
    assume u: "url = ''/v1/chain/sign_trx''"
    from run u show ?thesis unfolding goal by (simp add: chain_handlers_def call_event_def helper_outcome_def Let_def helper_handled)
  next
    assume u: "url = ''/v1/chain/check_chain''"
    from run u show ?thesis unfolding goal by (simp add: chain_handlers_def call_event_def Let_def) (rule sync, rule call_outcomes, simp_all)
  next
    assume u: "url = ''/v1/chain/push_transaction''"
    from run u show ?thesis unfolding goal by (simp add: chain_handlers_def call_event_def Let_def) (rule async, rule call_outcomes, simp_all)
  next
    assume u: "url = ''/v1/chain/publish_blk''"
    from run u show ?thesis unfolding goal by (simp add: chain_handlers_def call_event_def Let_def) (rule async, rule call_outcomes, simp_all)
  next
    assume u: "url \<notin> {''/v1/chain/get_info'', ''/v1/chain/get_block'', ''/v1/chain/get_blocks'', ''/v1/chain/get_keys'', ''/v1/chain/hex2char'', ''/v1/chain/char2hex'', ''/v1/chain/sign_trx'', ''/v1/chain/check_chain'', ''/v1/chain/push_transaction'', ''/v1/chain/publish_blk''}"
    from run u show ?thesis unfolding goal by (auto simp: chain_handlers_def call_event_def helper_outcome_def Let_def)
  qed
qed

section \<open>The served chain\<close>

text \<open>What happens to a server: requests, in any order, and starts of the process on the same database.\<close>

inductive http_step :: "('s, 'k) server \<Rightarrow> http_config \<Rightarrow> 's node \<Rightarrow> 's node \<Rightarrow> bool"
  for sv :: "('s, 'k) server" and cfg :: http_config where
  http_request: "handle_http_request sv cfg env req nd = (ans, nd') \<Longrightarrow> http_step sv cfg nd nd'"
| http_restart: "plugin_startup (sv_plugin sv) (plugin_initialize now indet) (snd nd) = (Inr buf, s) \<Longrightarrow>
    http_step sv cfg nd (buf, s)"

inductive http_run :: "('s, 'k) server \<Rightarrow> http_config \<Rightarrow> 's node \<Rightarrow> nat \<Rightarrow> 's node \<Rightarrow> bool"
  for sv :: "('s, 'k) server" and cfg :: http_config where
  http_nil: "http_run sv cfg nd 0 nd"
| http_snoc: "http_run sv cfg nd n nd' \<Longrightarrow> http_step sv cfg nd' nd'' \<Longrightarrow> http_run sv cfg nd (Suc n) nd''"

lemma request_is_refined:
  assumes "handle_http_request sv cfg env req nd = (ans, nd')"
  shows "refines_step (sv_crypto sv) (sv_plugin sv) nd nd'"
  using handler_of_request[where P = "\<lambda>nd q. refines_step (sv_crypto sv) (sv_plugin sv) nd (snd q)", OF assms handlers_refine]
  by (simp add: refines_step_def)

lemma http_run_node:
  assumes "http_run sv cfg nd n nd'"
  shows "\<exists>es. node_run (sv_crypto sv) (sv_plugin sv) nd es nd' \<and> length es \<le> n"
  using assms
proof (induction rule: http_run.induct)
  case (http_nil nd)
  show ?case using run_nil by fastforce
next
  case (http_snoc nd n nd' nd'')
  then obtain es where es: "node_run (sv_crypto sv) (sv_plugin sv) nd es nd'" "length es \<le> n" by blast
  have "nd'' = nd' \<or> (\<exists>e. node_step (sv_crypto sv) (sv_plugin sv) nd' e nd'')"
    using http_snoc.hyps(2)
  proof (cases rule: http_step.cases)
    case (http_request env req ans)
    from request_is_refined[OF http_request] show ?thesis by (auto simp: refines_step_def)
  next
    case (http_restart now indet buf s)
    from step_restart[OF http_restart(2)] http_restart(1) show ?thesis by auto
  qed
  then show ?case
  proof
    assume "nd'' = nd'"
    with es show ?thesis by (intro exI[of _ es]) simp
  next
    assume "\<exists>e. node_step (sv_crypto sv) (sv_plugin sv) nd' e nd''"
    then obtain e where "node_step (sv_crypto sv) (sv_plugin sv) nd' e nd''" by blast
    with es show ?thesis using run_snoc[OF es(1)] by (intro exI[of _ "es @ [e]"]) simp
  qed
qed

lemma empty_object_text: "from_string lx ''{}'' legacy_parser default_max_recursion_depth = Some (Inr (V_object []))"
  by code_simp

lemma chain_ok_text:
  "json_text lx stringify_large_ints_and_doubles (check_object lv Chain_Ok) = ''{\"result\":0,\"block\":0}''"
  by code_simp

lemma check_chain_request:
  assumes "allow_host cfg req" "req_method req \<noteq> ''OPTIONS''" "req_resource req = ''/v1/chain/check_chain''"
    and "req_body req = [] \<or> req_body req = ''{}''"
    and "fst (api_check_chain (sv_crypto sv) (sv_plugin sv) (env_now env) (env_indet env) nd) = Inr Chain_Ok"
  shows "fst (handle_http_request sv cfg env req nd) = Respond 200 ''{\"result\":0,\"block\":0}''"
proof -
  have "map_of (chain_handlers sv env) ''/v1/chain/check_chain'' = Some (call_sync sv 200 empty_params
      (\<lambda>_. ro_check_chain (sv_crypto sv) (sv_leaves sv) (sv_plugin sv) (env_now env) (env_indet env)))"
    by (simp add: chain_handlers_def Let_def)
  moreover have "parse_body sv empty_params (req_body req) = Inr ()"
    using assms(4) by (auto simp: parse_body_def empty_object_text empty_params_def get_object_def)
  moreover obtain nd' where "ro_check_chain (sv_crypto sv) (sv_leaves sv) (sv_plugin sv) (env_now env) (env_indet env) nd
      = (Inr (check_object (sv_leaves sv) Chain_Ok), nd')"
    using assms(5) by (cases "api_check_chain (sv_crypto sv) (sv_plugin sv) (env_now env) (env_indet env) nd")
      (simp add: ro_check_chain_def as_answer_def)
  ultimately show ?thesis using assms(1-3)
    by (simp add: handle_http_request_def call_sync_def answer_call_def to_text_def chain_ok_text)
qed

text \<open>
  C2. Whatever requests a server that started on an empty database receives, with any texts in them and with restarts
  in between (up to the 2^63 keys an SQLite integer column can hold), the stored blocks form a linked chain, and a request for
  \<open>/v1/chain/check_chain\<close> is answered with code 200 and the text that reports no bad block.
\<close>
theorem http_chain_always_checks:
  assumes "sqlite_db sq table_of js" and "crypto_ok (sv_crypto sv)" and "sv_plugin sv = sqlite_plugin sq js (sv_crypto sv)"
    and "started_empty sq js (sv_crypto sv) table_of nd0" and "http_run sv cfg nd0 n nd" and "n \<le> 2 ^ 63"
    and "allow_host cfg req" and "req_method req \<noteq> ''OPTIONS''" and "req_resource req = ''/v1/chain/check_chain''"
    and "req_body req = [] \<or> req_body req = ''{}''"
  shows "linked (sv_crypto sv) (stored_blocks js table_of (snd nd)) \<and>
    fst (handle_http_request sv cfg env req nd) = Respond 200 ''{\"result\":0,\"block\":0}''"
proof -
  note bs = sqlite_db.is_block_store[OF assms(1)]
  note start = started_empty_ok[OF assms(1,4)]
  obtain es where es: "node_run (sv_crypto sv) (sqlite_plugin sq js (sv_crypto sv)) nd0 es nd" "length es \<le> n"
    using http_run_node[OF assms(5)] assms(3) by auto
  from block_store.run_keeps[OF bs es(1) assms(2) start(1)] start(2) es(2) assms(6)
  have "block_store.node_ok (good_store js (sv_crypto sv) table_of) (stored_blocks js table_of) (sv_crypto sv) nd" by simp
  then have ok: "good_store js (sv_crypto sv) table_of (snd nd)" "linked (sv_crypto sv) (stored_blocks js table_of (snd nd))"
    by (simp_all add: block_store.node_ok_def[OF bs])
  obtain r nd' where q: "api_check_chain (sv_crypto sv) (sv_plugin sv) (env_now env) (env_indet env) nd = (r, nd')"
    by (cases "api_check_chain (sv_crypto sv) (sv_plugin sv) (env_now env) (env_indet env) nd") simp
  from block_store.check_keeps[OF bs ok(1) q[unfolded assms(3)]] linked_check_chain[OF ok(2)]
  have "r = Inr Chain_Ok" by simp
  with ok(2) check_chain_request[OF assms(7-10), of sv env nd] q show ?thesis by simp
qed

definition demo_server :: "((nat \<times> string \<times> string) list store, nat) server" where
  "demo_server = \<lparr>sv_crypto = demo_crypto, sv_lexical = ref_lexical, sv_leaves = ref_leaves, sv_keys = demo_keys,
     sv_plugin = sqlite_plugin ref_exec ref_codec demo_crypto, sv_error_info = (\<lambda>_. V_null), sv_not_found_info = V_null\<rparr>"

definition demo_config :: http_config where
  "demo_config = \<lparr>validate_host = True, valid_hosts = [''localhost:80'']\<rparr>"

definition demo_request :: "string \<Rightarrow> string \<Rightarrow> http_request" where
  "demo_request call body = \<lparr>req_method = ''POST'', req_host = ''localhost'', req_resource = ''/v1/chain/'' @ call,
     req_body = body, req_local_endpoint = ''127.0.0.1:80'', req_secure = False\<rparr>"

definition demo_env :: "nat api_env" where
  "demo_env = \<lparr>env_now = 5, env_indet = 0, env_key = 1\<rparr>"

lemma demo_allowed: "allow_host demo_config (demo_request call body)"
  unfolding demo_config_def demo_request_def by code_simp

lemma demo_request_answer:
  "handle_http_request demo_server demo_config demo_env (demo_request ''char2hex'' ''{\"str\":\"hi\"}'') demo_node =
     (Respond 200 ''\"6869\"'', demo_node)"
proof -
  have "parse_body demo_server (char2hex_params ref_lexical) ''{\"str\":\"hi\"}'' = Inr ''hi''" by code_simp
  moreover have "to_text demo_server (V_string (char2hex ''hi'')) = ''\"6869\"''" by code_simp
  moreover have "map_of (chain_handlers demo_server demo_env) ''/v1/chain/char2hex'' =
      Some (call_sync demo_server 200 (char2hex_params ref_lexical) (pure_call (\<lambda>str. Inr (V_string (char2hex str)))))"
    by (simp add: chain_handlers_def Let_def demo_server_def)
  ultimately show ?thesis using demo_allowed
    by (simp add: handle_http_request_def demo_request_def call_sync_def answer_call_def pure_call_def)
qed

lemma two_requests:
  "http_run sv cfg nd 2 (snd (handle_http_request sv cfg env r2 (snd (handle_http_request sv cfg env r1 nd))))"
proof -
  have step: "http_step sv cfg nd (snd (handle_http_request sv cfg env r nd))" for nd r
    by (rule http_step.http_request[OF prod.collapse[symmetric]])
  have "http_run sv cfg nd (Suc (Suc 0)) (snd (handle_http_request sv cfg env r2 (snd (handle_http_request sv cfg env r1 nd))))"
    by (rule http_snoc[OF http_snoc[OF http_nil step] step])
  then show ?thesis by (simp add: numeral_2_eq_2)
qed

theorem http_chain_always_checks_witness:
  "fst (handle_http_request demo_server demo_config demo_env (demo_request ''check_chain'' [])
     (snd (handle_http_request demo_server demo_config demo_env (demo_request ''publish_blk'' [])
       (snd (handle_http_request demo_server demo_config demo_env (demo_request ''push_transaction'' ''{\"data\":\"01\"}'') demo_node)))))
   = Respond 200 ''{\"result\":0,\"block\":0}''"
proof -
  have "sv_plugin demo_server = sqlite_plugin ref_exec ref_codec (sv_crypto demo_server)" "crypto_ok (sv_crypto demo_server)"
    "started_empty ref_exec ref_codec (sv_crypto demo_server) (\<lambda>rs. rs) demo_node"
    using demo_started demo_crypto_ok by (simp_all add: demo_server_def)
  from http_chain_always_checks[OF ref_db.sqlite_db_axioms this(2,1,3) two_requests _ demo_allowed, of "''check_chain''" "[]"]
  show ?thesis by (simp add: demo_request_def)
qed

theorem http_request_refines_node_witness:
  "request_outcome demo_server demo_config demo_env (demo_request ''char2hex'' ''{\"str\":\"hi\"}'') demo_node
     (Respond 200 ''\"6869\"'') demo_node"
  using http_request_refines_node[OF demo_request_answer] .

section \<open>Malformed requests\<close>

text \<open>
  C26. A body that is not JSON changes nothing. The eight calls of \<open>CALL\<close> answer it with 422 (the text ended) or 500; for
  \<open>push_transaction\<close> and \<open>publish_blk\<close>, whose handlers parse outside their try block, no answer is ever sent.
\<close>
theorem malformed_body_outcome:
  assumes "allow_host cfg req" and "req_method req \<noteq> ''OPTIONS''"
    and "req_resource req \<in> fst ` set (chain_handlers sv env)"
    and "req_body req \<noteq> []" and "from_string (sv_lexical sv) (req_body req) legacy_parser default_max_recursion_depth = Some (Inl e)"
    and "e \<noteq> Abort" and "e \<noteq> Endless_Loop"
  shows "\<exists>body. handle_http_request sv cfg env req nd =
    (if req_resource req \<in> {''/v1/chain/push_transaction'', ''/v1/chain/publish_blk''} then No_Response
     else Respond (if e = Eof_Exception then 422 else 500) body, nd)"
proof -
  have parse: "parse_body sv params (req_body req) = Inl e" for params :: "variant \<Rightarrow> 'p result"
    using assms(4,5) by (simp add: parse_body_def)
  show ?thesis using assms(1-3,6,7)
    unfolding chain_handlers_def Let_def list.set image_insert image_empty fst_conv insert_iff empty_iff
    by (elim disjE) (simp_all add: handle_http_request_def chain_handlers_def Let_def call_sync_def call_async_def parse handle_exception_def)
qed

theorem malformed_body_outcome_witness:
  "handle_http_request demo_server demo_config demo_env (demo_request ''push_transaction'' ''{'') demo_node = (No_Response, demo_node)"
proof -
  have "from_string (sv_lexical demo_server) ''{'' legacy_parser default_max_recursion_depth = Some (Inl Parse_Error_Exception)" by code_simp
  moreover have "''/v1/chain/push_transaction'' \<in> fst ` set (chain_handlers demo_server demo_env)"
    by (simp add: chain_handlers_def Let_def)
  ultimately show ?thesis
    using malformed_body_outcome[OF demo_allowed, of "''push_transaction''" "''{''" demo_server demo_env Parse_Error_Exception demo_node]
    by (simp add: demo_request_def)
qed

end
