(* ===== verification/Base58.thy ===== *)
theory Base58
  imports Wire
begin

text \<open>
  libraries/fc/src/crypto/base58.cpp: \<open>EncodeBase58\<close> and \<open>DecodeBase58\<close>, and fc's functions around them. The numbers are
  OpenSSL's: \<open>bn_ops\<close> holds the operations that the code calls, and the locale \<open>bignum\<close> what OpenSSL documents of them, for
  numbers that are not negative. A failure of an allocation inside of OpenSSL is outside of the model. The lengths of texts
  and of byte vectors are natural numbers here; the source has an \<open>int\<close> for the count of leading zeros and
  for the length that it gives to \<open>BN_mpi2bn\<close>, so that the model is the source's for less than 2 GiB.
\<close>

record 'b bn_ops =
  bn_set_word :: "u64 \<Rightarrow> 'b"
  bn_get_word :: "'b \<Rightarrow> u64"
  bn_add :: "'b \<Rightarrow> 'b \<Rightarrow> 'b"
  bn_mul :: "'b \<Rightarrow> 'b \<Rightarrow> 'b"
  bn_div :: "'b \<Rightarrow> 'b \<Rightarrow> 'b \<times> 'b"
  bn_cmp :: "'b \<Rightarrow> 'b \<Rightarrow> int"
  bn_mpi2bn :: "u8 list \<Rightarrow> 'b"
  bn_bn2mpi :: "'b \<Rightarrow> u8 list"

section \<open>Numbers and bytes\<close>

text \<open>The size that the format of OpenSSL has in front of a number.\<close>

definition mpi_size :: "u32 \<Rightarrow> u8 list" where
  "mpi_size nSize = [ucast (drop_bit 24 nSize), ucast (drop_bit 16 nSize), ucast (drop_bit 8 nSize), ucast nSize]"

definition setvch :: "'b bn_ops \<Rightarrow> u8 list \<Rightarrow> 'b" where
  "setvch B vch = bn_mpi2bn B (mpi_size (word_of_nat (length vch)) @ rev vch)"

definition getvch :: "'b bn_ops \<Rightarrow> 'b \<Rightarrow> u8 list" where
  "getvch B bn = (let vch = bn_bn2mpi B bn in if length vch \<le> 4 then [] else rev (drop 4 vch))"

section \<open>Encoding\<close>

definition pszBase58 :: string where
  "pszBase58 = ''123456789ABCDEFGHJKLMNPQRSTUVWXYZabcdefghijkmnopqrstuvwxyz''"

partial_function (option) base58_digits :: "'b bn_ops \<Rightarrow> 'b \<Rightarrow> string \<Rightarrow> string option" where
  "base58_digits B bn str =
     (if 0 < bn_cmp B bn (bn_set_word B 0)
      then (case bn_div B bn (bn_set_word B 58) of (dv, rem) \<Rightarrow>
              base58_digits B dv (str @ [pszBase58 ! unat (bn_get_word B rem)]))
      else Some str)"

definition EncodeBase58 :: "'b bn_ops \<Rightarrow> u8 list \<Rightarrow> string option" where
  "EncodeBase58 B bytes =
     (let vchTmp = rev bytes @ [0]
      in (case base58_digits B (setvch B vchTmp) [] of None \<Rightarrow> None
          | Some str \<Rightarrow> Some (rev (str @ map (\<lambda>_. pszBase58 ! 0) (takeWhile (\<lambda>p. p = 0) bytes)))))"

section \<open>Decoding\<close>

text \<open>\<open>isspace\<close> in the C locale.\<close>

definition isspace :: "char \<Rightarrow> bool" where
  "isspace c \<longleftrightarrow> c = CHR '' '' \<or> c \<in> {CHR 0x09, CHR 0x0A, CHR 0x0B, CHR 0x0C, CHR 0x0D}"

text \<open>\<open>strchr\<close>, as an index, for a character that is not NUL.\<close>

fun strchr :: "string \<Rightarrow> char \<Rightarrow> nat option" where
  "strchr [] c = None"
| "strchr (d # ds) c = (if d = c then Some 0 else map_option Suc (strchr ds c))"

fun base58_value :: "'b bn_ops \<Rightarrow> 'b \<Rightarrow> string \<Rightarrow> 'b option" where
  "base58_value B bn [] = Some bn"
| "base58_value B bn (c # p) =
     (case strchr pszBase58 c of
        None \<Rightarrow> (if dropWhile isspace (c # p) \<noteq> [] then None else Some bn)
      | Some i \<Rightarrow> base58_value B (bn_add B (bn_mul B bn (bn_set_word B 58)) (bn_set_word B (word_of_nat i))) p)"

definition trim_sign :: "u8 list \<Rightarrow> u8 list" where
  "trim_sign vchTmp =
     (if 2 \<le> length vchTmp \<and> last vchTmp = 0 \<and> 0x80 \<le> vchTmp ! (length vchTmp - 2) then butlast vchTmp else vchTmp)"

definition DecodeBase58 :: "'b bn_ops \<Rightarrow> string \<Rightarrow> u8 list option" where
  "DecodeBase58 B str =
     (let psz = dropWhile isspace (takeWhile (\<lambda>c. c \<noteq> CHR 0x00) str)
      in (case base58_value B (bn_set_word B 0) psz of None \<Rightarrow> None
          | Some bn \<Rightarrow>
              (let vchTmp = trim_sign (getvch B bn);
                   nLeadingZeros = length (takeWhile (\<lambda>p. p = pszBase58 ! 0) psz)
               in Some (replicate nLeadingZeros 0 @ rev vchTmp))))"

section \<open>fc\<close>

definition to_base58 :: "'b bn_ops \<Rightarrow> u8 list \<Rightarrow> string option" where
  "to_base58 B d = (if length d \<noteq> 0 then EncodeBase58 B d else Some [])"

definition from_base58 :: "'b bn_ops \<Rightarrow> string \<Rightarrow> u8 list result" where
  "from_base58 B base58_str =
     (case DecodeBase58 B base58_str of None \<Rightarrow> Inl Parse_Error_Exception | Some out \<Rightarrow> Inr out)"

text \<open>The overload that fills a buffer and returns the number of bytes; the model returns the bytes.\<close>

definition from_base58_into :: "'b bn_ops \<Rightarrow> string \<Rightarrow> nat \<Rightarrow> u8 list result" where
  "from_base58_into B base58_str out_data_len =
     (case DecodeBase58 B base58_str of None \<Rightarrow> Inl Parse_Error_Exception
      | Some out \<Rightarrow> (if length out \<le> out_data_len then Inr out else Inl Assert_Exception))"

section \<open>What OpenSSL documents\<close>

text \<open>The number of a list of bytes, the least significant first.\<close>

primrec le_nat :: "u8 list \<Rightarrow> nat" where
  "le_nat [] = 0"
| "le_nat (b # bs) = unat b + 256 * le_nat bs"

locale bignum =
  fixes B :: "'b bn_ops" and val :: "'b \<Rightarrow> int"
  assumes set_word: "val (bn_set_word B n) = uint n"
    and get_word: "0 \<le> val x \<Longrightarrow> val x < 2 ^ 64 \<Longrightarrow> uint (bn_get_word B x) = val x"
    and add: "val (bn_add B x y) = val x + val y"
    and mul: "val (bn_mul B x y) = val x * val y"
    and div: "0 \<le> val x \<Longrightarrow> 0 < val y \<Longrightarrow>
      val (fst (bn_div B x y)) = val x div val y \<and> val (snd (bn_div B x y)) = val x mod val y"
    and cmp: "0 < bn_cmp B x y \<longleftrightarrow> val y < val x"
    and mpi2bn: "length m < 2 ^ 32 \<Longrightarrow> m = [] \<or> hd m < 0x80 \<Longrightarrow>
      val (bn_mpi2bn B (mpi_size (word_of_nat (length m)) @ m)) = int (le_nat (rev m))"
    and bn2mpi: "0 \<le> val x \<Longrightarrow> \<exists>m. bn_bn2mpi B x = mpi_size (word_of_nat (length m)) @ m \<and> int (le_nat (rev m)) = val x \<and>
      (m \<noteq> [] \<longrightarrow> hd m < 0x80) \<and> (m \<noteq> [] \<and> hd m = 0 \<longrightarrow> 2 \<le> length m \<and> 0x80 \<le> m ! 1)"

section \<open>Digits\<close>

text \<open>The number of a text of base 58, the most significant digit first.\<close>

definition digit58 :: "char \<Rightarrow> nat" where
  "digit58 c = the (strchr pszBase58 c)"

definition number58 :: "string \<Rightarrow> nat" where
  "number58 t = foldl (\<lambda>a c. 58 * a + digit58 c) 0 t"

lemma alphabet: "length pszBase58 = 58" "distinct pszBase58" "\<forall>c \<in> set pszBase58. \<not> isspace c \<and> c \<noteq> CHR 0x00 \<and> c \<noteq> CHR ''_''"
  by code_simp+

lemma strchr_nth: "distinct t \<Longrightarrow> i < length t \<Longrightarrow> strchr t (t ! i) = Some i"
proof (induction t arbitrary: i)
  case (Cons d t)
  then show ?case by (cases i) (auto simp: nth_mem)
qed simp

lemma digit_nth: "i < 58 \<Longrightarrow> strchr pszBase58 (pszBase58 ! i) = Some i" "i < 58 \<Longrightarrow> digit58 (pszBase58 ! i) = i"
  using strchr_nth[OF alphabet(2), of i] alphabet(1) by (simp_all add: digit58_def)

lemma foldl58: "foldl (\<lambda>a c. 58 * a + digit58 c) x t = x * 58 ^ length t + number58 t"
proof (induction t arbitrary: x)
  case (Cons c t)
  from Cons[of "58 * x + digit58 c"] Cons[of "digit58 c"] show ?case by (simp add: number58_def algebra_simps)
qed (simp add: number58_def)

lemma number58_simps: "number58 [] = 0" "number58 (c # t) = digit58 c * 58 ^ length t + number58 t"
  using foldl58[of "digit58 c" t] by (simp_all add: number58_def)

text \<open>Bytes without a leading zero are determined by their number.\<close>

lemma le_nat_append: "le_nat (a @ b) = le_nat a + 256 ^ length a * le_nat b"
  by (induction a) (simp_all add: algebra_simps)

lemma le_nat_replicate [simp]: "le_nat (replicate k 0) = 0"
  by (induction k) simp_all

lemma byte_below: "unat (b :: u8) < 256"
  using unsigned_less[of b] by simp

lemma le_nat_last: "a \<noteq> [] \<Longrightarrow> last a \<noteq> 0 \<Longrightarrow> 0 < le_nat a"
proof (induction a)
  case (Cons b a)
  then show ?case by (cases "a = []") (auto simp: unat_gt_0)
qed simp

lemma le_nat_inj:
  assumes "le_nat a = le_nat b" "a \<noteq> [] \<longrightarrow> last a \<noteq> 0" "b \<noteq> [] \<longrightarrow> last b \<noteq> 0"
  shows "a = b"
  using assms
proof (induction a arbitrary: b)
  case Nil
  then show ?case using le_nat_last[of b] by (cases "b = []") auto
next
  case (Cons x a)
  then have "0 < le_nat b" using le_nat_last[of "x # a"] by auto
  then obtain y b' where b: "b = y # b'" by (cases b) auto
  have "le_nat (x # a) mod 256 = unat x" "le_nat (y # b') mod 256 = unat y" "le_nat (x # a) div 256 = le_nat a"
    "le_nat (y # b') div 256 = le_nat b'"
    using byte_below[of x] byte_below[of y] by simp_all
  with Cons.prems(1) b have "x = y" "le_nat a = le_nat b'" by (metis word_unat_eq_iff)+
  with Cons.IH[of b'] Cons.prems b show ?case by (auto split: if_splits)
qed

lemma number58_snoc: "number58 (t @ [c]) = 58 * number58 t + digit58 c"
  by (simp add: number58_def)

lemma number58_ones: "number58 (replicate n (pszBase58 ! 0) @ t) = number58 t"
  by (induction n) (simp_all add: number58_simps digit_nth)

context bignum
begin

lemma digits_loop:
  assumes "0 \<le> val bn"
  shows "\<exists>str. base58_digits B bn acc = Some (acc @ str) \<and> number58 (rev str) = nat (val bn) \<and>
    set str \<subseteq> set pszBase58 \<and> (str \<noteq> [] \<longrightarrow> last str \<noteq> pszBase58 ! 0)"
  using assms
proof (induction "nat (val bn)" arbitrary: bn acc rule: less_induct)
  case less
  show ?case
  proof (cases "val bn = 0")
    case True
    then have "base58_digits B bn acc = Some acc"
      by (subst base58_digits.simps) (simp add: cmp set_word)
    then show ?thesis using True by (intro exI[of _ "[]"]) (simp add: number58_simps)
  next
    case False
    define dv r where "dv = fst (bn_div B bn (bn_set_word B 58))" and "r = snd (bn_div B bn (bn_set_word B 58))"
    have v: "val dv = val bn div 58" "val r = val bn mod 58"
      using div[of bn "bn_set_word B 58"] less.prems by (simp_all add: dv_def r_def set_word)
    have "val r < 2 ^ 64" "0 \<le> val r" using v(2) pos_mod_bound[of 58 "val bn"] by simp_all
    then have w: "unat (bn_get_word B r) = nat (val bn mod 58)"
      using get_word[of r] v(2) by (simp flip: nat_uint_eq)
    let ?c = "pszBase58 ! nat (val bn mod 58)"
    have c: "?c \<in> set pszBase58" "digit58 ?c = nat (val bn mod 58)"
      using alphabet(1) digit_nth(2)[of "nat (val bn mod 58)"] by (simp_all add: nat_less_iff)
    have "nat (val dv) < nat (val bn)" "0 \<le> val dv" using v(1) less.prems False by (simp_all add: int_div_less_self)
    from less.hyps[OF this, of "acc @ [?c]"] obtain str where
      str: "base58_digits B dv (acc @ [?c]) = Some (acc @ [?c] @ str)" "number58 (rev str) = nat (val dv)"
      "set str \<subseteq> set pszBase58" "str \<noteq> [] \<longrightarrow> last str \<noteq> pszBase58 ! 0" by auto
    have "base58_digits B bn acc = Some (acc @ ?c # str)"
      using False less.prems str(1)
      by (subst base58_digits.simps) (simp add: cmp set_word w case_prod_beta flip: dv_def r_def)
    moreover have "number58 (rev (?c # str)) = nat (val bn)"
    proof -
      have "58 * nat (val bn div 58) + nat (val bn mod 58) = nat (val bn)"
        using less.prems by (simp add: nat_div_distrib nat_mod_distrib)
      then show ?thesis using str(2) c(2) v(1) by (simp add: number58_snoc)
    qed
    moreover have "last (?c # str) \<noteq> pszBase58 ! 0"
    proof (cases "str = []")
      case True
      then have "val bn div 58 = 0" using str(2) v(1) less.prems by (simp add: number58_simps nat_eq_iff split: if_splits)
      then have "nat (val bn mod 58) \<noteq> 0" using less.prems False by (metis add_0_left div_mod_decomp_int mult_zero_left nat_0_iff
            order_antisym)
      then show ?thesis using True c(2) digit_nth(2)[of 0] by auto
    qed (use str(4) in simp)
    ultimately show ?thesis using c(1) str(3) by (intro exI[of _ "?c # str"]) simp
  qed
qed

lemma value_loop:
  assumes "set t \<subseteq> set pszBase58"
  shows "\<exists>bn'. base58_value B bn t = Some bn' \<and> val bn' = val bn * 58 ^ length t + int (number58 t)"
  using assms
proof (induction t arbitrary: bn)
  case (Cons c t)
  then obtain i where i: "i < 58" "c = pszBase58 ! i" using alphabet(1) by (auto simp: in_set_conv_nth)
  let ?bn = "bn_add B (bn_mul B bn (bn_set_word B 58)) (bn_set_word B (word_of_nat i))"
  have "uint (word_of_nat i :: u64) = int i" using i(1) by (intro uint_of_nat_nowrap) simp
  then have "val ?bn = val bn * 58 + int i" by (simp add: add mul set_word)
  moreover obtain bn' where "base58_value B ?bn t = Some bn'" "val bn' = val ?bn * 58 ^ length t + int (number58 t)"
    using Cons by auto
  ultimately show ?case using digit_nth[OF i(1)] i(2)
    by (intro exI[of _ bn']) (simp add: number58_simps algebra_simps)
qed (simp add: number58_simps)

lemma trimmed:
  assumes "0 \<le> val x"
  shows "int (le_nat (trim_sign (getvch B x))) = val x \<and> (trim_sign (getvch B x) \<noteq> [] \<longrightarrow> last (trim_sign (getvch B x)) \<noteq> 0)"
proof -
  obtain m where m: "bn_bn2mpi B x = mpi_size (word_of_nat (length m)) @ m" "int (le_nat (rev m)) = val x"
    "m \<noteq> [] \<and> hd m = 0 \<longrightarrow> 2 \<le> length m \<and> 0x80 \<le> m ! 1" using bn2mpi[OF assms] by blast
  have g: "getvch B x = rev m" using m(1) by (simp add: getvch_def mpi_size_def)
  show ?thesis
  proof (cases "m \<noteq> [] \<and> hd m = 0")
    case True
    then obtain y m' where my: "m = 0 # y # m'" "0x80 \<le> y" using m(3) by (cases m; cases "tl m") auto
    then have "trim_sign (getvch B x) = rev m' @ [y]"
      by (simp add: g trim_sign_def nth_append butlast_append)
    moreover have "le_nat (rev m) = le_nat (rev m' @ [y])" using my(1) by (simp add: le_nat_append)
    moreover have "y \<noteq> 0" using my(2) by auto
    ultimately show ?thesis using m(2) by simp
  next
    case False
    then have "trim_sign (getvch B x) = rev m" by (cases m) (auto simp: g trim_sign_def)
    then show ?thesis using m(2) False by (cases m) auto
  qed
qed

lemma decode_text:
  assumes "set u \<subseteq> set pszBase58" "u \<noteq> [] \<longrightarrow> hd u \<noteq> pszBase58 ! 0" "number58 u = le_nat (rev rest)"
    and "rest \<noteq> [] \<longrightarrow> hd rest \<noteq> 0"
  shows "DecodeBase58 B (replicate n (pszBase58 ! 0) @ u) = Some (replicate n 0 @ rest)"
proof -
  let ?t = "replicate n (pszBase58 ! 0) @ u"
  have one: "pszBase58 ! 0 \<in> set pszBase58" using alphabet(1) by simp
  then have t: "set ?t \<subseteq> set pszBase58" using assms(1) by auto
  then have "takeWhile (\<lambda>c. c \<noteq> CHR 0x00) ?t = ?t" using alphabet(3) by (subst takeWhile_eq_all_conv) blast
  moreover have "dropWhile isspace ?t = ?t" using alphabet(3) t by (cases ?t) auto
  moreover have "takeWhile (\<lambda>p. p = pszBase58 ! 0) ?t = replicate n (pszBase58 ! 0)"
    using assms(2) by (induction n) (cases u; simp)+
  moreover obtain bn where bn: "base58_value B (bn_set_word B 0) ?t = Some bn" "val bn = int (le_nat (rev rest))"
    using value_loop[OF t, of "bn_set_word B 0"] assms(3) by (auto simp: set_word number58_ones)
  moreover have "trim_sign (getvch B bn) = rev rest"
    using trimmed[of bn] bn(2) assms(4) by (intro le_nat_inj) (auto simp: last_rev)
  ultimately show ?thesis by (simp only: DecodeBase58_def Let_def option.case length_replicate rev_rev_ident)
qed

lemma encode_text:
  assumes "length d + 1 < 2 ^ 32"
  shows "\<exists>u. EncodeBase58 B d = Some (replicate (length (takeWhile (\<lambda>b. b = 0) d)) (pszBase58 ! 0) @ u) \<and>
    set u \<subseteq> set pszBase58 \<and> (u \<noteq> [] \<longrightarrow> hd u \<noteq> pszBase58 ! 0) \<and> number58 u = le_nat (rev (dropWhile (\<lambda>b. b = 0) d))"
proof -
  let ?z = "takeWhile (\<lambda>b. b = 0) d" and ?rest = "dropWhile (\<lambda>b. b = 0) d"
  have z: "?z = replicate (length ?z) 0" by (intro replicate_eqI) (auto dest: set_takeWhileD)
  have "le_nat (rev d) = le_nat (rev ?rest @ rev ?z)" by (metis rev_append takeWhile_dropWhile_id)
  also have "\<dots> = le_nat (rev ?rest)" using z by (metis add.right_neutral le_nat_append le_nat_replicate mult_0_right rev_replicate)
  finally have rest: "le_nat (rev d) = le_nat (rev ?rest)" .
  have v: "val (setvch B (rev d @ [0])) = int (le_nat (rev ?rest))"
    using mpi2bn[of "0 # d"] assms rest by (simp add: setvch_def le_nat_append)
  then obtain str where "base58_digits B (setvch B (rev d @ [0])) [] = Some str" "number58 (rev str) = le_nat (rev ?rest)"
    "set str \<subseteq> set pszBase58" "str \<noteq> [] \<longrightarrow> last str \<noteq> pszBase58 ! 0"
    using digits_loop[of "setvch B (rev d @ [0])" "[]"] by auto
  then show ?thesis by (intro exI[of _ "rev str"]) (auto simp: EncodeBase58_def map_replicate_const hd_rev)
qed

lemma base58_reads_back:
  assumes "length d + 1 < 2 ^ 32"
  shows "\<exists>t. to_base58 B d = Some t \<and> from_base58 B t = Inr d \<and> set t \<subseteq> set pszBase58"
proof (cases "d = []")
  case True
  then show ?thesis using decode_text[of "[]" "[]" 0] by (simp add: to_base58_def from_base58_def number58_simps)
next
  case False
  let ?n = "length (takeWhile (\<lambda>b. b = 0) d)" and ?rest = "dropWhile (\<lambda>b. b = 0) d"
  obtain u where u: "EncodeBase58 B d = Some (replicate ?n (pszBase58 ! 0) @ u)" "set u \<subseteq> set pszBase58"
    "u \<noteq> [] \<longrightarrow> hd u \<noteq> pszBase58 ! 0" "number58 u = le_nat (rev ?rest)" using encode_text[OF assms] by blast
  have z: "replicate ?n 0 @ ?rest = d"
  proof -
    have "takeWhile (\<lambda>b. b = 0) d = replicate ?n 0" by (intro replicate_eqI) (auto dest: set_takeWhileD)
    then show ?thesis by (metis takeWhile_dropWhile_id)
  qed
  have "DecodeBase58 B (replicate ?n (pszBase58 ! 0) @ u) = Some d"
    using decode_text[OF u(2-4), of ?n] hd_dropWhile[of "\<lambda>b. b = 0" d] z by simp
  moreover have "pszBase58 ! 0 \<in> set pszBase58" using alphabet(1) by simp
  ultimately show ?thesis using u(1,2) False
    by (intro exI[of _ "replicate ?n (pszBase58 ! 0) @ u"]) (auto simp: to_base58_def from_base58_def)
qed

end

section \<open>Integers as an instance\<close>

function minimal_bytes :: "nat \<Rightarrow> u8 list" where
  "minimal_bytes n = (if n = 0 then [] else word_of_nat n # minimal_bytes (n div 256))"
  by auto
termination by (relation "measure id") simp_all

declare minimal_bytes.simps [simp del]

lemma minimal_bytes_value: "le_nat (minimal_bytes n) = n"
proof (induction n rule: less_induct)
  case (less n)
  have "unat (word_of_nat n :: u8) = n mod 256" by (simp add: unat_of_nat)
  then show ?case using less[of "n div 256"] by (cases "n = 0") (simp_all add: minimal_bytes.simps[of n] minimal_bytes.simps[of 0])
qed

lemma minimal_bytes_last: "0 < n \<Longrightarrow> minimal_bytes n \<noteq> [] \<and> last (minimal_bytes n) \<noteq> 0"
proof (induction n rule: less_induct)
  case (less n)
  show ?case
  proof (cases "n div 256 = 0")
    case True
    then have "n < 256" by (simp add: div_eq_0_iff)
    then have "unat (word_of_nat n :: u8) = n" by (simp add: unat_of_nat)
    then show ?thesis using less.prems True by (auto simp: minimal_bytes.simps[of n] minimal_bytes.simps[of 0])
  next
    case False
    then show ?thesis using less.IH[of "n div 256"] less.prems by (auto simp: minimal_bytes.simps[of n])
  qed
qed

definition int_bn :: "int bn_ops" where
  "int_bn = \<lparr>bn_set_word = uint, bn_get_word = word_of_int, bn_add = (+), bn_mul = (*),
     bn_div = (\<lambda>x y. (x div y, x mod y)), bn_cmp = (\<lambda>x y. x - y),
     bn_mpi2bn = (\<lambda>bytes. int (le_nat (rev (drop 4 bytes)))),
     bn_bn2mpi = (\<lambda>x. let m = rev (minimal_bytes (nat x)); m = (if m \<noteq> [] \<and> 0x80 \<le> hd m then 0 # m else m)
        in mpi_size (word_of_nat (length m)) @ m)\<rparr>"

interpretation int_bignum: bignum int_bn id
proof unfold_locales
  fix x y :: int and n :: u64 and m :: "u8 list"
  show "id (bn_set_word int_bn n) = uint n" "id (bn_add int_bn x y) = id x + id y" "id (bn_mul int_bn x y) = id x * id y"
    "0 < bn_cmp int_bn x y \<longleftrightarrow> id y < id x"
    by (simp_all add: int_bn_def)
  show "uint (bn_get_word int_bn x) = id x" if "0 \<le> id x" "id x < 2 ^ 64"
    using that by (simp add: int_bn_def unsigned_of_int take_bit_int_eq_self)
  show "id (fst (bn_div int_bn x y)) = id x div id y \<and> id (snd (bn_div int_bn x y)) = id x mod id y"
    by (simp add: int_bn_def)
  show "id (bn_mpi2bn int_bn (mpi_size (word_of_nat (length m)) @ m)) = int (le_nat (rev m))"
    by (simp add: int_bn_def mpi_size_def)
  show "\<exists>m. bn_bn2mpi int_bn x = mpi_size (word_of_nat (length m)) @ m \<and> int (le_nat (rev m)) = id x \<and>
      (m \<noteq> [] \<longrightarrow> hd m < 0x80) \<and> (m \<noteq> [] \<and> hd m = 0 \<longrightarrow> 2 \<le> length m \<and> 0x80 \<le> m ! 1)" if "0 \<le> id x"
  proof -
    let ?m = "rev (minimal_bytes (nat x))"
    let ?k = "if ?m \<noteq> [] \<and> 0x80 \<le> hd ?m then 0 # ?m else ?m"
    have "int (le_nat (rev ?k)) = x" using that by (simp add: le_nat_append minimal_bytes_value)
    moreover have "?k \<noteq> [] \<longrightarrow> hd ?k < 0x80" by (auto simp: not_le)
    moreover have "?k \<noteq> [] \<and> hd ?k = 0 \<longrightarrow> 2 \<le> length ?k \<and> 0x80 \<le> ?k ! 1"
    proof (cases "?m \<noteq> [] \<and> 0x80 \<le> hd ?m")
      case True
      then show ?thesis by (cases ?m) auto
    next
      case False
      have "?m \<noteq> [] \<Longrightarrow> 0 < nat x" using minimal_bytes.simps[of 0] by (cases "nat x = 0") auto
      then show ?thesis using False minimal_bytes_last[of "nat x"] by (auto simp: hd_rev)
    qed
    moreover have "bn_bn2mpi int_bn x = mpi_size (word_of_nat (length ?k)) @ ?k" by (simp add: int_bn_def Let_def)
    ultimately show ?thesis by (intro exI[of _ ?k]) (simp only: id_apply simp_thms)
  qed
qed

section \<open>The round trip\<close>

text \<open>
  C30. Encoding in base 58 returns, uses the characters of the alphabet only, and is undone by decoding, whatever zero
  bytes the data begin with.
\<close>
theorem base58_roundtrip:
  assumes "bignum B val" and "length d + 1 < 2 ^ 32"
  shows "\<exists>t. to_base58 B d = Some t \<and> from_base58 B t = Inr d \<and> set t \<subseteq> set pszBase58"
  by (rule bignum.base58_reads_back[OF assms])

theorem base58_roundtrip_witness:
  "\<exists>t. to_base58 int_bn [0, 0, 1, 200] = Some t \<and> from_base58 int_bn t = Inr [0, 0, 1, 200] \<and> set t \<subseteq> set pszBase58"
  by (rule base58_roundtrip[OF int_bignum.bignum_axioms]) simp

end
