(* ===== verification/Key_Text.thy ===== *)
theory Key_Text
  imports Base58 Block_Codec
begin

text \<open>
  The texts of keys and signatures: include/fc/crypto/common.hpp, src/crypto/public_key.cpp, signature.cpp and
  private_key.cpp of fc. The first word of OpenSSL's RIPEMD-160 is the argument \<open>rip\<close>, its SHA-256 the argument \<open>sha\<close>, and
  its numbers are the operations \<open>B\<close> of Base58.
\<close>

datatype private_key = PVT_K1 sha256 | PVT_R1 sha256

section \<open>Data with a checksum\<close>

definition calculate_checksum :: "(u8 list \<Rightarrow> u32) \<Rightarrow> u8 list \<Rightarrow> string \<Rightarrow> u32" where
  "calculate_checksum rip data prefix = rip (data @ map of_char prefix)"

text \<open>The null pointer for no prefix is the empty text here; both write nothing to the encoder.\<close>

definition checksummed_text :: "'b bn_ops \<Rightarrow> (u8 list \<Rightarrow> u32) \<Rightarrow> u8 list \<Rightarrow> string \<Rightarrow> string option" where
  "checksummed_text B rip data prefix = to_base58 B (data @ pack_u32 (calculate_checksum rip data prefix))"

definition unwrap :: "(u8 list \<Rightarrow> u32) \<Rightarrow> nat \<Rightarrow> string \<Rightarrow> u8 list \<Rightarrow> u8 list result" where
  "unwrap rip len prefix bin =
     (let data = take len bin; check = from_le (take 4 (drop len bin))
      in if calculate_checksum rip data prefix = check then Inr data else Inl Assert_Exception)"

section \<open>The common form\<close>

text \<open>\<open>find('_')\<close>: the texts in front of and behind the first underscore.\<close>

definition at_pivot :: "string \<Rightarrow> (string \<times> string) option" where
  "at_pivot t =
     (case dropWhile (\<lambda>c. c \<noteq> CHR ''_'') t of [] \<Rightarrow> None | _ # others \<Rightarrow> Some (takeWhile (\<lambda>c. c \<noteq> CHR ''_'') t, others))"

definition prefix_matches :: "string \<Rightarrow> string \<Rightarrow> bool" where
  "prefix_matches prefix str \<longleftrightarrow> length prefix < length str \<and> take (length prefix) str = prefix"

fun base58_str_parser_impl ::
  "'b bn_ops \<Rightarrow> (u8 list \<Rightarrow> u32) \<Rightarrow> nat \<Rightarrow> (string \<times> (u8 list \<Rightarrow> 'k)) list \<Rightarrow> string \<Rightarrow> string \<Rightarrow> 'k result" where
  "base58_str_parser_impl B rip len [] prefix_str data_str = Inl Assert_Exception"
| "base58_str_parser_impl B rip len ((prefix, mk) # others) prefix_str data_str =
     (if prefix = prefix_str
      then (case from_base58 B data_str of Inl e \<Rightarrow> Inl e
            | Inr bin \<Rightarrow> (if length bin < len + 4 then Inl Assert_Exception
                        else map_sum id mk (unwrap rip len prefix bin)))
      else base58_str_parser_impl B rip len others prefix_str data_str)"

definition base58_str_parser ::
  "'b bn_ops \<Rightarrow> (u8 list \<Rightarrow> u32) \<Rightarrow> nat \<Rightarrow> (string \<times> (u8 list \<Rightarrow> 'k)) list \<Rightarrow> string \<Rightarrow> 'k result" where
  "base58_str_parser B rip len kinds base58str =
     (case at_pivot base58str of None \<Rightarrow> Inl Assert_Exception
      | Some (prefix_str, data_str) \<Rightarrow>
          (if data_str = [] then Inl Assert_Exception else base58_str_parser_impl B rip len kinds prefix_str data_str))"

text \<open>The checks that the three parsers share: the base prefix and some data behind it.\<close>

definition behind_base_prefix :: "string \<Rightarrow> string \<Rightarrow> string result" where
  "behind_base_prefix prefix base58str =
     (case at_pivot base58str of None \<Rightarrow> Inl Assert_Exception
      | Some (prefix_str, data_str) \<Rightarrow>
          (if prefix \<noteq> prefix_str \<or> data_str = [] then Inl Assert_Exception else Inr data_str))"

text \<open>\<open>base58str_visitor\<close> for a kind that is not the default.\<close>

definition base58str_visitor :: "'b bn_ops \<Rightarrow> (u8 list \<Rightarrow> u32) \<Rightarrow> string \<Rightarrow> u8 list \<Rightarrow> string option" where
  "base58str_visitor B rip prefix data = map_option (\<lambda>data_str. prefix @ ''_'' @ data_str) (checksummed_text B rip data prefix)"

section \<open>Public keys and signatures\<close>

definition public_key_kinds :: "(string \<times> (u8 list \<Rightarrow> public_key)) list" where
  "public_key_kinds = [(''K1'', \<lambda>d. PK_K1 (from_le d)), (''R1'', \<lambda>d. PK_R1 (from_le d))]"

definition signature_kinds :: "(string \<times> (u8 list \<Rightarrow> signature)) list" where
  "signature_kinds = [(''K1'', \<lambda>d. SIG_K1 (from_le d)), (''R1'', \<lambda>d. SIG_R1 (from_le d))]"

definition parse_public_key :: "'b bn_ops \<Rightarrow> (u8 list \<Rightarrow> u32) \<Rightarrow> string \<Rightarrow> public_key result" where
  "parse_public_key B rip base58str =
     (if prefix_matches ''EOS'' base58str \<and> at_pivot base58str = None
      then (case from_base58 B (drop 3 base58str) of Inl e \<Rightarrow> Inl e
            | Inr bin \<Rightarrow> (if length bin \<noteq> 33 + 4 then Inl Assert_Exception
                        else map_sum id (\<lambda>d. PK_K1 (from_le d)) (unwrap rip 33 [] bin)))
      else (case behind_base_prefix ''PUB'' base58str of Inl e \<Rightarrow> Inl e
            | Inr data_str \<Rightarrow> base58_str_parser B rip 33 public_key_kinds data_str))"

fun public_key_text :: "'b bn_ops \<Rightarrow> (u8 list \<Rightarrow> u32) \<Rightarrow> public_key \<Rightarrow> string option" where
  "public_key_text B rip (PK_K1 d) = map_option (\<lambda>data_str. ''EOS'' @ data_str) (checksummed_text B rip (le_bytes 33 d) [])"
| "public_key_text B rip (PK_R1 d) = map_option (\<lambda>data_str. ''PUB'' @ ''_'' @ data_str) (base58str_visitor B rip ''R1'' (le_bytes 33 d))"

definition parse_signature :: "'b bn_ops \<Rightarrow> (u8 list \<Rightarrow> u32) \<Rightarrow> string \<Rightarrow> signature result" where
  "parse_signature B rip base58str =
     (case behind_base_prefix ''SIG'' base58str of Inl e \<Rightarrow> Inl e
      | Inr data_str \<Rightarrow> base58_str_parser B rip 65 signature_kinds data_str)"

fun signature_text :: "'b bn_ops \<Rightarrow> (u8 list \<Rightarrow> u32) \<Rightarrow> signature \<Rightarrow> string option" where
  "signature_text B rip (SIG_K1 d) = map_option (\<lambda>data_str. ''SIG'' @ ''_'' @ data_str) (base58str_visitor B rip ''K1'' (le_bytes 65 d))"
| "signature_text B rip (SIG_R1 d) = map_option (\<lambda>data_str. ''SIG'' @ ''_'' @ data_str) (base58str_visitor B rip ''R1'' (le_bytes 65 d))"

section \<open>Private keys\<close>

definition to_wif :: "'b bn_ops \<Rightarrow> (u8 list \<Rightarrow> sha256) \<Rightarrow> sha256 \<Rightarrow> string option" where
  "to_wif B sha secret =
     (let data = 0x80 # pack_sha256 secret;
          digest = sha data;
          digest = sha (pack_sha256 digest)
      in to_base58 B (data @ take 4 (pack_sha256 digest)))"

definition from_wif :: "'b bn_ops \<Rightarrow> (u8 list \<Rightarrow> sha256) \<Rightarrow> lexical \<Rightarrow> string \<Rightarrow> sha256 result" where
  "from_wif B sha lx wif_key =
     (case from_base58 B wif_key of Inl e \<Rightarrow> Inl e
      | Inr wif_bytes \<Rightarrow>
          (if length wif_bytes < 5 then Inl Assert_Exception
           else
             (let body = take (length wif_bytes - 4) wif_bytes;
                  key_bytes = tl body;
                  check = sha body;
                  check2 = sha (pack_sha256 check);
                  tail = drop (length wif_bytes - 4) wif_bytes
              in if take 4 (pack_sha256 check) = tail \<or> take 4 (pack_sha256 check2) = tail
                 then from_variant_sha256 lx (to_variant_bytes key_bytes) blank_sha256
                 else Inl Assert_Exception)))"

definition private_key_kinds :: "(string \<times> (u8 list \<Rightarrow> private_key)) list" where
  "private_key_kinds = [(''K1'', \<lambda>d. PVT_K1 (sha256_of_bytes d)), (''R1'', \<lambda>d. PVT_R1 (sha256_of_bytes d))]"

definition parse_private_key ::
  "'b bn_ops \<Rightarrow> (u8 list \<Rightarrow> u32) \<Rightarrow> (u8 list \<Rightarrow> sha256) \<Rightarrow> lexical \<Rightarrow> string \<Rightarrow> private_key result" where
  "parse_private_key B rip sha lx base58str =
     (if at_pivot base58str = None then map_sum id PVT_K1 (from_wif B sha lx base58str)
      else (case behind_base_prefix ''PVT'' base58str of Inl e \<Rightarrow> Inl e
            | Inr data_str \<Rightarrow> base58_str_parser B rip 32 private_key_kinds data_str))"

fun private_key_text :: "'b bn_ops \<Rightarrow> (u8 list \<Rightarrow> u32) \<Rightarrow> (u8 list \<Rightarrow> sha256) \<Rightarrow> private_key \<Rightarrow> string option" where
  "private_key_text B rip sha (PVT_K1 secret) = to_wif B sha secret"
| "private_key_text B rip sha (PVT_R1 secret) =
     map_option (\<lambda>data_str. ''PVT'' @ ''_'' @ data_str) (base58str_visitor B rip ''R1'' (pack_sha256 secret))"

section \<open>Round trips\<close>

lemma at_pivot_simps [simp]:
  "CHR ''_'' \<notin> set t \<Longrightarrow> at_pivot t = None"
  "CHR ''_'' \<notin> set t \<Longrightarrow> at_pivot (t @ CHR ''_'' # u) = Some (t, u)"
proof -
  assume t: "CHR ''_'' \<notin> set t"
  then have "dropWhile (\<lambda>c. c \<noteq> CHR ''_'') t = []" by auto
  then show "at_pivot t = None" by (simp only: at_pivot_def list.case)
  have "\<And>x. x \<in> set t \<Longrightarrow> x \<noteq> CHR ''_''" using t by metis
  then show "at_pivot (t @ CHR ''_'' # u) = Some (t, u)"
    by (simp add: at_pivot_def dropWhile_append2 takeWhile_append2)
qed

lemma from_le_exact: "8 * n = LENGTH('a) \<Longrightarrow> from_le (le_bytes n d) = (d :: 'a::len word)"
  by (simp add: from_le_le_bytes take_bit_word_eq_self)

lemma unwrap_wrapped:
  "length data = n \<Longrightarrow> unwrap rip n prefix (data @ pack_u32 (calculate_checksum rip data prefix)) = Inr data"
  by (simp add: unwrap_def pack_u32_def from_le_exact)

context bignum
begin

lemma base58_short:
  assumes "length d < 2 ^ 16"
  obtains t where "to_base58 B d = Some t" "from_base58 B t = Inr d" "CHR ''_'' \<notin> set t" "set t \<subseteq> set pszBase58"
proof -
  have "length d + 1 < 2 ^ 32" using assms by simp
  with base58_reads_back[OF this] alphabet(3) that show thesis by blast
qed

lemma checksummed_roundtrip:
  assumes "length data = n" "n < 1000"
  obtains t where "checksummed_text B rip data prefix = Some t" "CHR ''_'' \<notin> set t" "set t \<subseteq> set pszBase58" "t \<noteq> []"
    "\<exists>bin. from_base58 B t = Inr bin \<and> length bin = n + 4 \<and> unwrap rip n prefix bin = Inr data"
proof -
  let ?d = "data @ pack_u32 (calculate_checksum rip data prefix)"
  have l: "length ?d = n + 4" using assms by (simp add: pack_u32_def)
  then obtain t where t: "to_base58 B ?d = Some t" "from_base58 B t = Inr ?d" "CHR ''_'' \<notin> set t" "set t \<subseteq> set pszBase58"
    using base58_short[of ?d] assms(2) by (auto simp del: length_append)
  moreover have "from_base58 B [] = Inr []" using base58_reads_back[of "[]"] by (auto simp: to_base58_def)
  then have "t \<noteq> []" using t(2) l by (metis add_is_0 list.size(3) sum.inject(2) zero_neq_numeral)
  ultimately show thesis using that[of t] unwrap_wrapped[OF assms(1)] l by (simp add: checksummed_text_def)
qed

lemma typed_roundtrip:
  assumes "length data = n" "n < 1000" "(prefix, mk) \<in> set kinds" "distinct (map fst kinds)" "CHR ''_'' \<notin> set prefix" "set prefix \<subseteq> set pszBase58"
  obtains t where "base58str_visitor B rip prefix data = Some t" "base58_str_parser B rip n kinds t = Inr (mk data)"
    "t \<noteq> []" "set t \<subseteq> insert CHR ''_'' (set pszBase58)"
proof -
  obtain u where u: "checksummed_text B rip data prefix = Some u" "CHR ''_'' \<notin> set u" "set u \<subseteq> set pszBase58" "u \<noteq> []"
    "\<exists>bin. from_base58 B u = Inr bin \<and> length bin = n + 4 \<and> unwrap rip n prefix bin = Inr data"
    using checksummed_roundtrip[OF assms(1,2)] by blast
  have "base58_str_parser_impl B rip n kinds prefix u = Inr (mk data)"
    using assms(3,4)
  proof (induction kinds)
    case (Cons k kinds)
    then show ?case using u(5) by (cases k) (auto simp: image_iff)
  qed simp
  then show thesis using that[of "prefix @ ''_'' @ u"] u assms(5,6)
    by (auto simp: base58str_visitor_def base58_str_parser_def)
qed

lemma behind_prefix: "CHR ''_'' \<notin> set p \<Longrightarrow> t \<noteq> [] \<Longrightarrow> behind_base_prefix p (p @ ''_'' @ t) = Inr t"
  by (simp add: behind_base_prefix_def)

lemma public_key_roundtrip:
  "\<exists>t. public_key_text B rip k = Some t \<and> parse_public_key B rip t = Inr k \<and> set t \<subseteq> set (''EOSPUB_'' @ pszBase58)"
proof (cases k)
  case (PK_K1 d)
  obtain u where u: "checksummed_text B rip (le_bytes 33 d) [] = Some u" "CHR ''_'' \<notin> set u" "set u \<subseteq> set pszBase58" "u \<noteq> []"
    "\<exists>bin. from_base58 B u = Inr bin \<and> length bin = 33 + 4 \<and> unwrap rip 33 [] bin = Inr (le_bytes 33 d)"
    by (rule checksummed_roundtrip[of "le_bytes 33 d" 33 rip "[]"]) (simp, simp, blast)
  then have "parse_public_key B rip (''EOS'' @ u) = Inr k"
    by (auto simp: parse_public_key_def prefix_matches_def PK_K1 from_le_exact)
  then show ?thesis using u(1,3) PK_K1 by (intro exI[of _ "''EOS'' @ u"]) auto
next
  case (PK_R1 d)
  obtain u where u: "base58str_visitor B rip ''R1'' (le_bytes 33 d) = Some u"
    "base58_str_parser B rip 33 public_key_kinds u = Inr (PK_R1 (from_le (le_bytes 33 d)))" "u \<noteq> []"
    "set u \<subseteq> insert CHR ''_'' (set pszBase58)"
    by (rule typed_roundtrip[of "le_bytes 33 d" 33 "''R1''" "\<lambda>d. PK_R1 (from_le d)" public_key_kinds rip])
      (simp_all add: public_key_kinds_def pszBase58_def)
  then have "parse_public_key B rip (''PUB'' @ ''_'' @ u) = Inr k"
    using behind_prefix[of "''PUB''" u] by (simp add: parse_public_key_def prefix_matches_def PK_R1 from_le_exact)
  then show ?thesis using u(1,4) PK_R1 by (intro exI[of _ "''PUB'' @ ''_'' @ u"]) auto
qed

lemma signature_roundtrip:
  "\<exists>t. signature_text B rip sg = Some t \<and> parse_signature B rip t = Inr sg \<and> set t \<subseteq> set (''SIG_'' @ pszBase58)"
proof -
  have one: "\<exists>t. map_option (\<lambda>data_str. ''SIG'' @ ''_'' @ data_str) (base58str_visitor B rip p (le_bytes 65 d)) = Some t \<and>
      parse_signature B rip t = Inr (mk (le_bytes 65 d)) \<and> set t \<subseteq> set (''SIG_'' @ pszBase58)"
    if p: "(p, mk) \<in> set signature_kinds" "CHR ''_'' \<notin> set p" "set p \<subseteq> set pszBase58" for p mk and d :: "520 word"
  proof -
    obtain u where u: "base58str_visitor B rip p (le_bytes 65 d) = Some u"
      "base58_str_parser B rip 65 signature_kinds u = Inr (mk (le_bytes 65 d))" "u \<noteq> []"
      "set u \<subseteq> insert CHR ''_'' (set pszBase58)"
      by (rule typed_roundtrip[of "le_bytes 65 d" 65 p mk signature_kinds rip])
        (use p in \<open>simp_all add: signature_kinds_def\<close>)
    then show ?thesis using behind_prefix[of "''SIG''" u] by (auto simp: parse_signature_def)
  qed
  show ?thesis
    using one[of "''K1''" "\<lambda>d. SIG_K1 (from_le d)"] one[of "''R1''" "\<lambda>d. SIG_R1 (from_le d)"]
    by (cases sg) (simp_all add: signature_kinds_def pszBase58_def from_le_exact)
qed

lemma wif_roundtrip:
  "\<exists>t. to_wif B sha secret = Some t \<and> from_wif B sha lx t = Inr secret \<and> CHR ''_'' \<notin> set t"
proof -
  let ?data = "0x80 # pack_sha256 secret"
  let ?check = "take 4 (pack_sha256 (sha (pack_sha256 (sha ?data))))"
  have l: "length ?check = 4" "length (pack_sha256 secret) = 32" by (simp_all add: length_pack_sha256)
  obtain t where t: "to_base58 B (?data @ ?check) = Some t" "from_base58 B t = Inr (?data @ ?check)" "CHR ''_'' \<notin> set t"
    by (rule base58_short[of "?data @ ?check"]) (use l in simp, blast)
  then have "from_wif B sha lx t = Inr secret"
    using l sha256_variant_roundtrip[of lx secret blank_sha256] by (simp add: from_wif_def Let_def to_variant_sha256_def)
  then show ?thesis using t by (intro exI[of _ t]) (simp add: to_wif_def Let_def)
qed

lemma private_key_roundtrip:
  "\<exists>t. private_key_text B rip sha k = Some t \<and> parse_private_key B rip sha lx t = Inr k"
proof (cases k)
  case (PVT_K1 secret)
  then show ?thesis using wif_roundtrip[of sha secret lx] by (auto simp: parse_private_key_def)
next
  case (PVT_R1 secret)
  obtain u where u: "base58str_visitor B rip ''R1'' (pack_sha256 secret) = Some u"
    "base58_str_parser B rip 32 private_key_kinds u = Inr (PVT_R1 (sha256_of_bytes (pack_sha256 secret)))" "u \<noteq> []"
    by (rule typed_roundtrip[of "pack_sha256 secret" 32 "''R1''" "\<lambda>d. PVT_R1 (sha256_of_bytes d)" private_key_kinds rip])
      (simp_all add: private_key_kinds_def pszBase58_def length_pack_sha256)
  then have "parse_private_key B rip sha lx (''PVT'' @ ''_'' @ u) = Inr k"
    using behind_prefix[of "''PVT''" u] at_pivot_simps(2)[of "''PVT''" u]
    by (simp add: parse_private_key_def PVT_R1 sha256_bytes_roundtrip)
  then show ?thesis using u(1) PVT_R1 by auto
qed

end

context bignum
begin

lemma parse_with_suffix:
  assumes "length data < 1000" "length xs < 60000" "CHR ''_'' \<notin> set p"
  shows "\<exists>u. from_base58 B u = Inr (data @ pack_u32 (calculate_checksum rip data p) @ xs) \<and>
    base58_str_parser B rip (length data) [(p, mk)] (p @ ''_'' @ u) = Inr (mk data)"
proof -
  let ?bin = "data @ pack_u32 (calculate_checksum rip data p) @ xs"
  have "length ?bin < 2 ^ 16" using assms(1,2) by (simp add: pack_u32_def)
  then obtain u where u: "from_base58 B u = Inr ?bin" by (rule base58_short)
  moreover have "length ?bin \<noteq> 0" by (simp add: pack_u32_def)
  then have "?bin \<noteq> []" by (metis length_0_conv)
  then have "u \<noteq> []" using u base58_reads_back[of "[]"] by (auto simp: to_base58_def)
  moreover have "unwrap rip (length data) p ?bin = Inr data"
    by (simp add: unwrap_def pack_u32_def from_le_exact)
  ultimately show ?thesis using assms(3) by (intro exI[of _ u]) (simp add: base58_str_parser_def pack_u32_def)
qed

lemma signature_with_suffix:
  assumes "length xs < 60000"
  shows "\<exists>u. from_base58 B u = Inr (le_bytes 65 d @ pack_u32 (calculate_checksum rip (le_bytes 65 d) ''K1'') @ xs) \<and>
    parse_signature B rip (''SIG_K1_'' @ u) = Inr (SIG_K1 d) \<and>
    (signature_text B rip (SIG_K1 d) = Some (''SIG_K1_'' @ u) \<longrightarrow> xs = [])"
proof -
  let ?data = "le_bytes 65 d" and ?check = "pack_u32 (calculate_checksum rip (le_bytes 65 d) ''K1'')"
  obtain u where u: "from_base58 B u = Inr (?data @ ?check @ xs)"
    "base58_str_parser B rip 65 [(''K1'', \<lambda>d. SIG_K1 (from_le d))] (''K1'' @ ''_'' @ u) = Inr (SIG_K1 (from_le ?data))"
    using parse_with_suffix[of ?data xs "''K1''" rip "\<lambda>d. SIG_K1 (from_le d)"] assms by auto
  have "length (?data @ ?check) < 2 ^ 16" by (simp add: pack_u32_def)
  then obtain w where w: "to_base58 B (?data @ ?check) = Some w" "from_base58 B w = Inr (?data @ ?check)" by (rule base58_short)
  have "signature_text B rip (SIG_K1 d) = Some (''SIG_K1_'' @ w)"
    using w(1) by (simp add: base58str_visitor_def checksummed_text_def)
  moreover have "u = w \<Longrightarrow> xs = []" using u(1) w(2) by auto
  moreover have "base58_str_parser B rip 65 signature_kinds (''K1'' @ ''_'' @ u) = Inr (SIG_K1 d)"
    using u(2) by (simp add: base58_str_parser_def signature_kinds_def from_le_exact split: option.splits prod.splits if_splits)
  then have "parse_signature B rip (''SIG_K1_'' @ u) = Inr (SIG_K1 d)"
    using behind_prefix[of "''SIG''" "''K1'' @ ''_'' @ u"] by (simp add: parse_signature_def)
  ultimately show ?thesis using u(1) by auto
qed

end

text \<open>
  C38. The text of a signature is not unique: whatever bytes \<open>xs\<close> follow the checksum, the text of base 58 of the signature's bytes, their
  checksum and \<open>xs\<close> reads as the same signature, although it is the text that the program prints only for \<open>xs = []\<close>.
\<close>
theorem signature_text_malleable:
  assumes "bignum B val" and "length xs < 60000"
  shows "\<exists>u. from_base58 B u = Inr (le_bytes 65 d @ pack_u32 (calculate_checksum rip (le_bytes 65 d) ''K1'') @ xs) \<and>
    parse_signature B rip (''SIG_K1_'' @ u) = Inr (SIG_K1 d) \<and>
    (signature_text B rip (SIG_K1 d) = Some (''SIG_K1_'' @ u) \<longrightarrow> xs = [])"
  by (rule bignum.signature_with_suffix[OF assms])

theorem signature_text_malleable_witness:
  "\<exists>u. from_base58 int_bn u = Inr (le_bytes 65 (5 :: 520 word) @ pack_u32 7 @ [1, 2]) \<and>
     parse_signature int_bn (\<lambda>_. 7) (''SIG_K1_'' @ u) = Inr (SIG_K1 5) \<and>
     signature_text int_bn (\<lambda>_. 7) (SIG_K1 5) \<noteq> Some (''SIG_K1_'' @ u)"
proof -
  have "length [1, 2 :: u8] < 60000" by simp
  from signature_text_malleable[OF int_bignum.bignum_axioms this, of 5 "\<lambda>_. 7"] obtain u where
    u: "from_base58 int_bn u = Inr (le_bytes 65 (5 :: 520 word) @ pack_u32 (calculate_checksum (\<lambda>_. 7) (le_bytes 65 (5 :: 520 word)) ''K1'') @ [1, 2]) \<and>
      parse_signature int_bn (\<lambda>_. 7) (''SIG_K1_'' @ u) = Inr (SIG_K1 5) \<and>
      (signature_text int_bn (\<lambda>_. 7) (SIG_K1 5) = Some (''SIG_K1_'' @ u) \<longrightarrow> [1, 2 :: u8] = [])" ..
  from u have "signature_text int_bn (\<lambda>_. 7) (SIG_K1 5) \<noteq> Some (''SIG_K1_'' @ u)" by (metis list.distinct(1))
  with u show ?thesis unfolding calculate_checksum_def by blast
qed

text \<open>
  C25. The texts of keys and signatures are always produced, and reading them gives the same key or signature back: public keys as
  EOS... or PUB_R1_..., signatures as SIG_K1_... or SIG_R1_..., private keys in the wallet import format or as PVT_R1_....
\<close>
theorem key_texts_roundtrip:
  assumes "bignum B val"
  shows "(\<exists>t. public_key_text B rip k = Some t \<and> parse_public_key B rip t = Inr k) \<and>
    (\<exists>t. signature_text B rip sg = Some t \<and> parse_signature B rip t = Inr sg) \<and>
    (\<exists>t. private_key_text B rip sha pk = Some t \<and> parse_private_key B rip sha lx t = Inr pk)"
  using bignum.public_key_roundtrip[OF assms, of rip k] bignum.signature_roundtrip[OF assms, of rip sg]
    bignum.private_key_roundtrip[OF assms, of rip sha pk lx] by blast

theorem key_texts_roundtrip_witness:
  "\<exists>t. public_key_text int_bn (\<lambda>_. 7) (PK_R1 5) = Some t \<and> parse_public_key int_bn (\<lambda>_. 7) t = Inr (PK_R1 5)"
  using key_texts_roundtrip[OF int_bignum.bignum_axioms] by blast

section \<open>The leaves of blocks\<close>

definition text_or_empty :: "string option \<Rightarrow> string" where
  "text_or_empty t = (case t of None \<Rightarrow> [] | Some t \<Rightarrow> t)"

definition with_key_texts :: "'b bn_ops \<Rightarrow> (u8 list \<Rightarrow> u32) \<Rightarrow> block_leaves \<Rightarrow> block_leaves" where
  "with_key_texts B rip lv = lv\<lparr>
     signature_str := \<lambda>sg. text_or_empty (signature_text B rip sg), signature_of := parse_signature B rip,
     key_str := \<lambda>k. text_or_empty (public_key_text B rip k), key_of := parse_public_key B rip\<rparr>"

lemma clean_key_text: "set t \<subseteq> set (''EOSPUB_'' @ pszBase58) \<or> set t \<subseteq> set (''SIG_'' @ pszBase58) \<Longrightarrow> clean_text t"
proof -
  have "clean_text (''EOSPUB_'' @ pszBase58)" "clean_text (''SIG_'' @ pszBase58)" by code_simp+
  then show "set t \<subseteq> set (''EOSPUB_'' @ pszBase58) \<or> set t \<subseteq> set (''SIG_'' @ pszBase58) \<Longrightarrow> clean_text t"
    unfolding clean_text_def by blast
qed

text \<open>
  With fc's texts of keys and signatures, a block is read back from its JSON text without any assumption on them; what
  remains assumed are the texts of times and numbers, and OpenSSL's arithmetic.
\<close>
theorem block_with_key_texts_read_back:
  assumes "bignum B val" and "lexical_laws lx" and "\<And>n. clean_text (str_uint64 lx n)"
    and "\<And>t. time_of lv (time_str lv t) = Inr t" and "\<And>t. clean_text (time_str lv t)"
  shows "block_from_json lx (with_key_texts B rip lv) now indet (block_to_json lx (with_key_texts B rip lv) b) = Inr b \<and>
    CHR 0x27 \<notin> set (block_to_json lx (with_key_texts B rip lv) b)"
proof -
  let ?lv = "with_key_texts B rip lv"
  have k: "parse_public_key B rip (text_or_empty (public_key_text B rip k)) = Inr k"
    "clean_text (text_or_empty (public_key_text B rip k))" for k
    using bignum.public_key_roundtrip[OF assms(1), of rip k] clean_key_text by (metis option.simps(5) text_or_empty_def)+
  have s: "parse_signature B rip (text_or_empty (signature_text B rip sg)) = Inr sg"
    "clean_text (text_or_empty (signature_text B rip sg))" for sg
    using bignum.signature_roundtrip[OF assms(1), of rip sg] clean_key_text by (metis option.simps(5) text_or_empty_def)+
  have "block_leaf_laws lx ?lv"
    by (intro block_leaf_laws.intro assms(2) block_leaf_laws_axioms.intro)
      (simp_all add: with_key_texts_def k s assms(3-5))
  from block_leaf_laws.block_json_roundtrip[OF this, of now indet b] block_leaf_laws.clean_block[OF this, of b]
  show ?thesis by (auto simp: clean_text_def)
qed

theorem block_with_key_texts_read_back_witness:
  "block_from_json ref_lexical (with_key_texts int_bn (\<lambda>_. 7) ref_leaves) 1 2
     (block_to_json ref_lexical (with_key_texts int_bn (\<lambda>_. 7) ref_leaves) (new_block 5 6)) = Inr (new_block 5 6)"
  using block_with_key_texts_read_back[OF int_bignum.bignum_axioms ref_lex.lexical_laws_axioms, of ref_leaves]
    ref_blocks.clean_number ref_blocks.time_read ref_blocks.clean_leaves(1) by blast

end
