(* ===== verification/Json_Relaxed.thy ===== *)
theory Json_Relaxed
  imports Json
begin

text \<open>
  The strict and the relaxed JSON parser: libraries/fc/include/fc/io/json_relaxed.hpp, over a
  \<open>std::stringstream\<close> as in Json, with the template argument \<open>strict\<close> as an argument. \<open>json.cpp\<close> reaches them
  through \<open>from_string\<close> and \<open>variants_from_string\<close>.

  One loop of these parsers does not end on some inputs: behind the last character of an open triple quote. It
  has the result \<open>Endless_Loop\<close>; None is fuel that has run out, as in Json.
\<close>

datatype parse_type = legacy legacy_type | strict_parser | relaxed_parser

section \<open>Tokens\<close>

definition is_relaxed_char :: "char \<Rightarrow> bool" where
  "is_relaxed_char c \<longleftrightarrow> is_alnum c \<or> c = CHR ''_'' \<or> c = CHR ''-'' \<or> c = CHR ''.'' \<or> c = CHR ''+'' \<or> c = CHR ''/''"

definition ends_token :: "char \<Rightarrow> bool" where
  "ends_token c \<longleftrightarrow> c = CHR 0x09 \<or> c = CHR '' '' \<or> c = CHR '','' \<or> c = CHR '':'' \<or> c = CHR 0x00 \<or> c = CHR 0x0A \<or> c = CHR 0x04"

function relaxed_token_loop :: "string \<Rightarrow> string \<Rightarrow> string \<times> string" where
  "relaxed_token_loop token ins =
     (if at_end ins then (token, ins)
      else
        (let c = peek ins
         in if c = backslash then (let (e, r) = parse_escape ins in relaxed_token_loop (token @ [e]) r)
            else if ends_token c then (token, tl ins)
            else if is_relaxed_char c then relaxed_token_loop (token @ [c]) (tl ins)
            else (token, ins)))"
  by pat_completeness auto
termination
  by (relation "measure (\<lambda>(token, ins). length ins)")
    (auto simp: at_end_def dest: parse_escape_shorter')

declare relaxed_token_loop.simps [simp del]

definition tokenFromStream :: "string \<Rightarrow> string \<times> string" where
  "tokenFromStream ins = relaxed_token_loop [] ins"

section \<open>Quoted strings\<close>

text \<open>
  The loop for triple quotes: at the end of the stream it appends EOF for ever.
\<close>

function triple_loop :: "bool \<Rightarrow> char \<Rightarrow> string \<Rightarrow> string \<Rightarrow> string parsed" where
  "triple_loop allow_escape q token ins =
     (if at_end ins then Inl Endless_Loop
      else
        (let c = peek ins
         in if c = q then
              (let ins = tl ins
               in if peek ins = q then
                    (let ins = tl ins
                     in if peek ins = q then Inr (token, tl ins)
                        else triple_loop allow_escape q (token @ [q, q]) ins)
                  else triple_loop allow_escape q (token @ [q]) ins)
            else if c = CHR 0x04 then Inl Parse_Error_Exception
            else if allow_escape \<and> c = backslash
            then (let (e, r) = parse_escape ins in triple_loop allow_escape q (token @ [e]) r)
            else triple_loop allow_escape q (token @ [c]) (tl ins)))"
  by pat_completeness auto
termination
  by (relation "measure (\<lambda>(allow_escape, q, token, ins). length ins)")
    (auto simp: at_end_def dest: parse_escape_shorter')

declare triple_loop.simps [simp del]

text \<open>A character 0xFF is EOF in a \<open>char\<close>.\<close>

function quote_loop :: "bool \<Rightarrow> char \<Rightarrow> string \<Rightarrow> string \<Rightarrow> string parsed" where
  "quote_loop allow_escape q token ins =
     (let c = peek ins
      in if at_end ins \<or> c = CHR 0xFF then Inl Eof_Exception
         else if c = q then Inr (token, tl ins)
         else if c = CHR 0x04 then Inl Parse_Error_Exception
         else if allow_escape \<and> c = backslash
         then (let (e, r) = parse_escape ins in quote_loop allow_escape q (token @ [e]) r)
         else if c = CHR 0x0D \<or> c = CHR 0x0A then Inl Parse_Error_Exception
         else quote_loop allow_escape q (token @ [c]) (tl ins))"
  by pat_completeness auto
termination
  by (relation "measure (\<lambda>(allow_escape, q, token, ins). length ins)")
    (auto simp: at_end_def dest: parse_escape_shorter')

declare quote_loop.simps [simp del]

definition apostrophe :: char where
  "apostrophe = CHR 0x27"

definition quoteStringFromStream :: "bool \<Rightarrow> bool \<Rightarrow> string \<Rightarrow> string parsed" where
  "quoteStringFromStream strict allow_escape ins =
     (let (q, ins) = get_char ins
      in if \<not> (q = quote \<or> q = apostrophe \<and> \<not> strict) then Inl Parse_Error_Exception
         else if peek ins = q then
           (let ins = tl ins
            in if peek ins \<noteq> q then Inr ([], ins)
               else if strict then Inl Parse_Error_Exception
               else triple_loop allow_escape q [] (tl ins))
         else quote_loop allow_escape q [] ins)"

definition stringFromStream :: "bool \<Rightarrow> string \<Rightarrow> string parsed" where
  "stringFromStream strict ins =
     (let c = peek ins
      in if c = apostrophe \<and> strict then Inl Parse_Error_Exception
         else if c = apostrophe \<or> c = quote then quoteStringFromStream strict True ins
         else if c = CHR ''r'' \<or> c = CHR ''R'' then
           (if strict then Inl Parse_Error_Exception
            else
              (let ins = tl ins; c2 = peek ins
               in if c2 = quote \<or> c2 = apostrophe then quoteStringFromStream strict False ins
                  else (let (t, r) = tokenFromStream ins in Inr (c # t, r))))
         else if is_relaxed_char c then
           (if strict then Inl Parse_Error_Exception else Inr (tokenFromStream ins))
         else if c = CHR 0xFF then Inl Eof_Exception
         else Inl Parse_Error_Exception)"

section \<open>Numbers\<close>

definition char_value :: "char \<Rightarrow> u8" where
  "char_value c =
     (let n = of_char c :: nat
      in if 48 \<le> n \<and> n \<le> 57 then word_of_nat (n - 48)
         else if 97 \<le> n \<and> n \<le> 122 then word_of_nat (n - 97 + 10)
         else if 65 \<le> n \<and> n \<le> 90 then word_of_nat (n - 65 + 10)
         else 0xFF)"

fun parse_int_loop :: "u8 \<Rightarrow> u64 \<Rightarrow> string \<Rightarrow> u64 result" where
  "parse_int_loop base val [] = Inr val"
| "parse_int_loop base val (c # cs) =
     (let vc = char_value c; maxb4mul = - 1 div ucast base
      in if vc = 0xFF then Inl Parse_Error_Exception
         else if val > maxb4mul then Inl Parse_Error_Exception
         else
           (let val = val * ucast base; newval = val + ucast vc
            in if newval < val then Inl Parse_Error_Exception else parse_int_loop base newval cs))"

definition int64_max_plus_one :: u64 where
  "int64_max_plus_one = push_bit 63 1"

text \<open>The token is not empty.\<close>

definition parseInt :: "u8 \<Rightarrow> string \<Rightarrow> nat \<Rightarrow> variant result" where
  "parseInt base token start =
     (if start \<ge> length token then Inl Parse_Error_Exception
      else (case parse_int_loop base 0 (drop start token) of
              Inl e \<Rightarrow> Inl e
            | Inr val \<Rightarrow>
                (if token ! 0 = CHR ''-'' then
                   (if val > int64_max_plus_one then Inl Parse_Error_Exception
                    else if val = int64_max_plus_one then Inr (V_int64 int64_max_plus_one)
                    else Inr (V_int64 (- val)))
                 else Inr (V_uint64 val))))"

definition maybeParseInt :: "bool \<Rightarrow> u8 \<Rightarrow> string \<Rightarrow> nat \<Rightarrow> variant result" where
  "maybeParseInt strict base token start =
     (case parseInt base token start of
        Inl e \<Rightarrow> if e = Parse_Error_Exception then (if strict then Inl e else Inr (V_string token)) else Inl e
      | Inr v \<Rightarrow> Inr v)"

text \<open>\<open>operator[]\<close> of a \<open>std::string\<close> at its length gives the NUL character.\<close>

definition token_at :: "string \<Rightarrow> nat \<Rightarrow> char" where
  "token_at token i = (if i < length token then token ! i else CHR 0x00)"

definition string_or_error :: "bool \<Rightarrow> string \<Rightarrow> variant result" where
  "string_or_error strict token = (if strict then Inl Parse_Error_Exception else Inr (V_string token))"

text \<open>The digits of an exponent.\<close>

fun exponent_loop :: "lexical \<Rightarrow> bool \<Rightarrow> string \<Rightarrow> string \<Rightarrow> variant result" where
  "exponent_loop lx strict token [] =
     (case to_double lx (c_str token) of Inl e \<Rightarrow> Inl e | Inr d \<Rightarrow> Inr (V_double d))"
| "exponent_loop lx strict token (c # cs) =
     (if \<not> is_digit c \<and> is_relaxed_char c then string_or_error strict token
      else exponent_loop lx strict token cs)"

definition parse_exponent :: "lexical \<Rightarrow> bool \<Rightarrow> string \<Rightarrow> string \<Rightarrow> variant result" where
  "parse_exponent lx strict token cs =
     (case cs of
        [] \<Rightarrow> string_or_error strict token
      | c # cs \<Rightarrow>
          (if c = CHR ''+'' \<or> c = CHR ''-'' then
             (if cs = [] then string_or_error strict token else exponent_loop lx strict token cs)
           else if is_digit c then exponent_loop lx strict token cs
           else if is_relaxed_char c then string_or_error strict token
           else Inl Parse_Error_Exception))"

text \<open>
  The loop over the characters behind the first digit. It returns the text as soon as it sees a decimal point;
  what the code has behind that return is not reached.
\<close>

fun mantissa_loop :: "lexical \<Rightarrow> bool \<Rightarrow> string \<Rightarrow> nat \<Rightarrow> string \<Rightarrow> variant result" where
  "mantissa_loop lx strict token start [] = parseInt 10 token start"
| "mantissa_loop lx strict token start (c # cs) =
     (if is_digit c then mantissa_loop lx strict token start cs
      else if c = CHR ''.'' then Inr (V_string token)
      else if c = CHR ''e'' \<or> c = CHR ''E'' then parse_exponent lx strict token cs
      else if is_relaxed_char c then string_or_error strict token
      else Inl Parse_Error_Exception)"

definition parseNumberOrStr :: "lexical \<Rightarrow> bool \<Rightarrow> string \<Rightarrow> variant result" where
  "parseNumberOrStr lx strict token =
     (let n = length token
      in if n = 0 then Inl Parse_Error_Exception
         else if token ! 0 = CHR ''+'' \<and> strict then Inl Parse_Error_Exception
         else
           (let i = (if token ! 0 = CHR ''+'' \<or> token ! 0 = CHR ''-'' then 1 else 0);
                c = token_at token i; i = i + 1; start = i - 1
            in if c = CHR ''0'' then
                 (if i \<ge> n then Inr (V_uint64 0)
                  else if token ! i = CHR ''b'' \<or> token ! i = CHR ''B'' then
                    (if strict \<or> i + 1 \<ge> n then Inl Parse_Error_Exception
                     else maybeParseInt strict 2 token (i + 1 + 1))
                  else if token ! i = CHR ''o'' \<or> token ! i = CHR ''O'' then
                    (if strict then Inl Parse_Error_Exception else maybeParseInt strict 8 token (i + 1))
                  else if token ! i = CHR ''x'' \<or> token ! i = CHR ''X'' then
                    (if strict then Inl Parse_Error_Exception else maybeParseInt strict 16 token (i + 1))
                  else if \<not> (token ! i = CHR ''.'' \<or> token ! i = CHR ''e'' \<or> token ! i = CHR ''E'') \<and> strict
                  then Inl Parse_Error_Exception
                  else mantissa_loop lx strict token start (drop i token))
               else if is_digit c then mantissa_loop lx strict token start (drop i token)
               else if is_relaxed_char c then string_or_error strict token
               else Inl Parse_Error_Exception))"

definition numberFromStream :: "lexical \<Rightarrow> bool \<Rightarrow> string \<Rightarrow> variant parsed" where
  "numberFromStream lx strict ins =
     (let (token, ins) = tokenFromStream ins
      in (case parseNumberOrStr lx strict token of
            Inl e \<Rightarrow> Inl e
          | Inr v \<Rightarrow>
              (if strict \<and> \<not> (is_int64 v \<or> is_uint64 v \<or> is_double v) then Inl Parse_Error_Exception
               else Inr (v, ins))))"

definition wordFromStream :: "bool \<Rightarrow> string \<Rightarrow> variant parsed" where
  "wordFromStream strict ins =
     (let (token, ins) = tokenFromStream ins
      in if length token = 0 then Inl Assert_Exception
         else if token = ''null'' then Inr (V_null, ins)
         else if token = ''true'' then Inr (V_bool True, ins)
         else if token = ''false'' then Inr (V_bool False, ins)
         else if \<not> strict then Inr (V_string token, ins)
         else Inl Parse_Error_Exception)"

section \<open>Values\<close>

definition is_relaxed_number_start :: "char \<Rightarrow> bool" where
  "is_relaxed_number_start c \<longleftrightarrow> c = CHR ''-'' \<or> c = CHR ''+'' \<or> c = CHR ''.'' \<or> is_digit c"

definition relaxed_variant_body ::
  "lexical \<Rightarrow> bool \<Rightarrow> (string \<Rightarrow> u32 \<Rightarrow> variant_object parsed option) \<Rightarrow> (string \<Rightarrow> u32 \<Rightarrow> variant list parsed option)
   \<Rightarrow> string \<Rightarrow> u32 \<Rightarrow> variant parsed option" where
  "relaxed_variant_body lx strict parse_object parse_array ins max_depth =
     (case skip_white_space ins of Inl e \<Rightarrow> Some (Inl e)
      | Inr (_, ins) \<Rightarrow>
        (let ins = dropWhile is_space ins; c = peek ins
         in if c = CHR 0x00 then Some (Inr (V_null, ins))
            else if c = quote then
              Some (case stringFromStream strict ins of Inl e \<Rightarrow> Inl e | Inr (t, r) \<Rightarrow> Inr (V_string t, r))
            else if c = CHR ''{'' then
              map_option (map_sum id (map_prod V_object id)) (parse_object ins (max_depth - 1))
            else if c = CHR ''['' then
              map_option (map_sum id (map_prod V_array id)) (parse_array ins (max_depth - 1))
            else if is_relaxed_number_start c then Some (numberFromStream lx strict ins)
            else if is_alnum c \<or> c = CHR ''_'' \<or> c = CHR ''/'' then Some (wordFromStream strict ins)
            else if c = CHR 0x04 \<or> c = CHR 0xFF then Some (Inl Eof_Exception)
            else Some (Inl Parse_Error_Exception)))"

definition relaxed_object_body ::
  "(variant_object \<Rightarrow> string \<Rightarrow> u32 \<Rightarrow> variant_object parsed option) \<Rightarrow> string \<Rightarrow> u32 \<Rightarrow> variant_object parsed option" where
  "relaxed_object_body loop ins max_depth =
     (if peek ins \<noteq> CHR ''{'' then Some (Inl Parse_Error_Exception)
      else map_option (map_sum eof_to_parse_error id)
        (case skip_white_space (tl ins) of Inl e \<Rightarrow> Some (Inl e)
         | Inr (_, ins) \<Rightarrow> loop [] ins max_depth))"

definition relaxed_object_loop_body ::
  "bool \<Rightarrow> (string \<Rightarrow> u32 \<Rightarrow> variant parsed option) \<Rightarrow> (variant_object \<Rightarrow> string \<Rightarrow> u32 \<Rightarrow> variant_object parsed option)
   \<Rightarrow> variant_object \<Rightarrow> string \<Rightarrow> u32 \<Rightarrow> variant_object parsed option" where
  "relaxed_object_loop_body strict parse_value loop obj ins max_depth =
     (if peek ins = CHR ''}'' then Some (Inr (obj, tl ins))
      else if peek ins = CHR '','' then loop obj (tl ins) max_depth
      else (case skip_white_space ins of Inl e \<Rightarrow> Some (Inl e)
      | Inr (skipped, ins) \<Rightarrow>
        (if skipped then loop obj ins max_depth
         else (case stringFromStream strict ins of Inl e \<Rightarrow> Some (Inl e)
         | Inr (key, ins) \<Rightarrow>
           (case skip_white_space ins of Inl e \<Rightarrow> Some (Inl e)
            | Inr (_, ins) \<Rightarrow>
              (if peek ins \<noteq> CHR '':'' then Some (Inl Parse_Error_Exception)
               else (case parse_value (tl ins) (max_depth - 1) of None \<Rightarrow> None
               | Some (Inl e) \<Rightarrow> Some (Inl e)
               | Some (Inr (val, ins)) \<Rightarrow>
                   (case skip_white_space ins of Inl e \<Rightarrow> Some (Inl e)
                    | Inr (_, ins) \<Rightarrow> loop (append_key obj key val) ins max_depth))))))))"

text \<open>The functions for arrays are those of the legacy parser, with the other parser for the elements.\<close>

fun relaxed_variant_from_stream :: "lexical \<Rightarrow> bool \<Rightarrow> nat \<Rightarrow> string \<Rightarrow> u32 \<Rightarrow> variant parsed option"
  and objectFromStream :: "lexical \<Rightarrow> bool \<Rightarrow> nat \<Rightarrow> string \<Rightarrow> u32 \<Rightarrow> variant_object parsed option"
  and relaxed_object_loop :: "lexical \<Rightarrow> bool \<Rightarrow> nat \<Rightarrow> variant_object \<Rightarrow> string \<Rightarrow> u32 \<Rightarrow> variant_object parsed option"
  and arrayFromStream :: "lexical \<Rightarrow> bool \<Rightarrow> nat \<Rightarrow> string \<Rightarrow> u32 \<Rightarrow> variant list parsed option"
  and relaxed_array_loop :: "lexical \<Rightarrow> bool \<Rightarrow> nat \<Rightarrow> variant list \<Rightarrow> string \<Rightarrow> u32 \<Rightarrow> variant list parsed option" where
  "relaxed_variant_from_stream lx strict 0 = (\<lambda>_ _. None)"
| "relaxed_variant_from_stream lx strict (Suc fuel) =
     relaxed_variant_body lx strict (objectFromStream lx strict fuel) (arrayFromStream lx strict fuel)"
| "objectFromStream lx strict 0 = (\<lambda>_ _. None)"
| "objectFromStream lx strict (Suc fuel) = relaxed_object_body (relaxed_object_loop lx strict fuel)"
| "relaxed_object_loop lx strict 0 = (\<lambda>_ _ _. None)"
| "relaxed_object_loop lx strict (Suc fuel) =
     relaxed_object_loop_body strict (relaxed_variant_from_stream lx strict fuel) (relaxed_object_loop lx strict fuel)"
| "arrayFromStream lx strict 0 = (\<lambda>_ _. None)"
| "arrayFromStream lx strict (Suc fuel) = array_body (relaxed_array_loop lx strict fuel)"
| "relaxed_array_loop lx strict 0 = (\<lambda>_ _ _. None)"
| "relaxed_array_loop lx strict (Suc fuel) =
     array_loop_body (relaxed_variant_from_stream lx strict fuel) (relaxed_array_loop lx strict fuel)"

text \<open>The same equations with all arguments, for evaluation.\<close>

lemma relaxed_code [code]:
  "relaxed_variant_from_stream lx strict 0 ins max_depth = None"
  "relaxed_variant_from_stream lx strict (Suc fuel) ins max_depth =
     relaxed_variant_body lx strict (objectFromStream lx strict fuel) (arrayFromStream lx strict fuel) ins max_depth"
  "objectFromStream lx strict 0 ins max_depth = None"
  "objectFromStream lx strict (Suc fuel) ins max_depth = relaxed_object_body (relaxed_object_loop lx strict fuel) ins max_depth"
  "relaxed_object_loop lx strict 0 obj ins max_depth = None"
  "relaxed_object_loop lx strict (Suc fuel) obj ins max_depth =
     relaxed_object_loop_body strict (relaxed_variant_from_stream lx strict fuel) (relaxed_object_loop lx strict fuel) obj ins max_depth"
  "arrayFromStream lx strict 0 ins max_depth = None"
  "arrayFromStream lx strict (Suc fuel) ins max_depth = array_body (relaxed_array_loop lx strict fuel) ins max_depth"
  "relaxed_array_loop lx strict 0 ar ins max_depth = None"
  "relaxed_array_loop lx strict (Suc fuel) ar ins max_depth =
     array_loop_body (relaxed_variant_from_stream lx strict fuel) (relaxed_array_loop lx strict fuel) ar ins max_depth"
  by simp_all

section \<open>The functions of json.cpp\<close>

definition from_string_any :: "lexical \<Rightarrow> string \<Rightarrow> parse_type \<Rightarrow> u32 \<Rightarrow> variant result option" where
  "from_string_any lx utf8_str ptype max_depth =
     (case ptype of
        legacy p \<Rightarrow> from_string lx utf8_str p max_depth
      | strict_parser \<Rightarrow>
          map_option (map_sum id fst) (relaxed_variant_from_stream lx True (enough_fuel utf8_str) utf8_str max_depth)
      | relaxed_parser \<Rightarrow>
          map_option (map_sum id fst) (relaxed_variant_from_stream lx False (enough_fuel utf8_str) utf8_str max_depth))"

text \<open>
  \<open>variants_from_string\<close> always uses the relaxed parser. The fuel for the loop is the length of the text,
  which every value shortens.
\<close>

fun variants_loop :: "lexical \<Rightarrow> nat \<Rightarrow> string \<Rightarrow> u32 \<Rightarrow> variant list \<Rightarrow> variant list result option" where
  "variants_loop lx 0 ins max_depth res = None"
| "variants_loop lx (Suc fuel) ins max_depth res =
     (case relaxed_variant_from_stream lx False (enough_fuel ins) ins max_depth of
        None \<Rightarrow> None
      | Some (Inl e) \<Rightarrow> Some (if e = Eof_Exception then Inr res else Inl e)
      | Some (Inr (v, ins)) \<Rightarrow> variants_loop lx fuel ins max_depth (res @ [v]))"

definition variants_from_string :: "lexical \<Rightarrow> string \<Rightarrow> parse_type \<Rightarrow> u32 \<Rightarrow> variant list result option" where
  "variants_from_string lx utf8_str ptype max_depth = variants_loop lx (Suc (length utf8_str)) utf8_str max_depth []"

definition is_valid_any :: "lexical \<Rightarrow> string \<Rightarrow> parse_type \<Rightarrow> u32 \<Rightarrow> bool result option" where
  "is_valid_any lx utf8_str ptype max_depth =
     (if length utf8_str = 0 then Some (Inr False)
      else map_option (map_sum id (\<lambda>_. False)) (from_string_any lx utf8_str ptype max_depth))"

section \<open>Pretty printing\<close>

record pretty_state =
  ps_level :: int
  ps_first :: bool
  ps_quote :: bool
  ps_escape :: bool

definition indentation :: "u8 \<Rightarrow> int \<Rightarrow> string" where
  "indentation indent level = replicate (nat (level * uint indent)) (CHR '' '')"

definition line_break :: "u8 \<Rightarrow> pretty_state \<Rightarrow> string" where
  "line_break indent st = (if ps_first st then CHR 0x0A # indentation indent (ps_level st) else [])"

text \<open>One turn of the loop: what is written and the new state. \<open>prev\<close> is the character in front of it.\<close>

definition pretty_step :: "u8 \<Rightarrow> char \<Rightarrow> char \<Rightarrow> pretty_state \<Rightarrow> string \<times> pretty_state" where
  "pretty_step indent prev c st =
     (if c = backslash then
        ([c], st\<lparr>ps_escape := (if \<not> ps_escape st then ps_quote st else False)\<rparr>)
      else if c = CHR '':'' then (if \<not> ps_quote st then '': '' else '':'', st)
      else if c = quote then
        (line_break indent st @ [c],
         st\<lparr>ps_first := False, ps_quote := (if \<not> ps_escape st then \<not> ps_quote st else ps_quote st), ps_escape := False\<rparr>)
      else if c = CHR ''{'' \<or> c = CHR ''['' then
        ([c], if \<not> ps_quote st then st\<lparr>ps_level := ps_level st + 1, ps_first := True\<rparr> else st\<lparr>ps_escape := False\<rparr>)
      else if c = CHR ''}'' \<or> c = CHR '']'' then
        (if \<not> ps_quote st then
           ((if prev \<noteq> CHR ''['' \<and> prev \<noteq> CHR ''{'' then [CHR 0x0A] else []) @
            (if \<not> ps_first st then indentation indent (ps_level st - 1) else []) @ [c],
            st\<lparr>ps_level := ps_level st - 1, ps_first := False\<rparr>)
         else ([c], st\<lparr>ps_escape := False\<rparr>))
      else if c = CHR '','' then
        ([c], if \<not> ps_quote st then st\<lparr>ps_first := True\<rparr> else st\<lparr>ps_escape := False\<rparr>)
      else
        (line_break indent st @ [c],
         st\<lparr>ps_first := False,
            ps_escape := (if c = CHR ''n'' \<and> ps_quote st \<and> ps_escape st then False else ps_escape st)\<rparr>))"

fun pretty_loop :: "u8 \<Rightarrow> char \<Rightarrow> string \<Rightarrow> pretty_state \<Rightarrow> string" where
  "pretty_loop indent prev [] st = []"
| "pretty_loop indent prev (c # v) st =
     (let (ss, st) = pretty_step indent prev c st in ss @ pretty_loop indent c v st)"

text \<open>
  The character \<open>v[i-1]\<close> in front of a first character \<open>}\<close> is outside of the string; it is the argument \<open>outside\<close>.
\<close>

definition pretty_print :: "char \<Rightarrow> string \<Rightarrow> u8 \<Rightarrow> string" where
  "pretty_print outside v indent =
     pretty_loop indent outside v \<lparr>ps_level = 0, ps_first = False, ps_quote = False, ps_escape = False\<rparr>"

definition to_pretty_string :: "lexical \<Rightarrow> char \<Rightarrow> variant \<Rightarrow> output_formatting \<Rightarrow> string" where
  "to_pretty_string lx outside v format = pretty_print outside (json_text lx format v) 2"

end
