(* ===== verification/Json_Relaxed_Spec.thy ===== *)
theory Json_Relaxed_Spec
  imports Json_Relaxed Json_Spec
begin

text \<open>
  What the strict and the relaxed parser do: they return with the fuel chosen (or are caught in the loop for triple quotes,
  the strict one never), they ignore the limit on the nesting, and their integers are exact up to 64 bits.
  Pretty printing adds blanks and line breaks only, some of them in the middle of strings.
\<close>

section \<open>The parsers consume their input\<close>

lemma relaxed_token_loop_simps [simp]:
  "relaxed_token_loop token [] = (token, [])"
  "relaxed_token_loop token (c # ins) =
     (if c = backslash then (let (e, r) = parse_escape (c # ins) in relaxed_token_loop (token @ [e]) r)
      else if ends_token c then (token, ins)
      else if is_relaxed_char c then relaxed_token_loop (token @ [c]) ins else (token, c # ins))"
  by (subst relaxed_token_loop.simps, simp add: at_end_def)+

lemma quote_loop_simps [simp]:
  "quote_loop esc q token [] = Inl Eof_Exception"
  "quote_loop esc q token (c # ins) =
     (if c = CHR 0xFF then Inl Eof_Exception
      else if c = q then Inr (token, ins)
      else if c = CHR 0x04 then Inl Parse_Error_Exception
      else if esc \<and> c = backslash then (let (e, r) = parse_escape (c # ins) in quote_loop esc q (token @ [e]) r)
      else if c = CHR 0x0D \<or> c = CHR 0x0A then Inl Parse_Error_Exception
      else quote_loop esc q (token @ [c]) ins)"
  by (subst quote_loop.simps, simp add: at_end_def Let_def)+

lemma parse_escape_rest: "parse_escape (c # ins) = (e, r) \<Longrightarrow> length r \<le> length ins"
  using parse_escape_shorter[of "c # ins"] by simp

lemma relaxed_token_loop_rest: "relaxed_token_loop token ins = (t, r) \<Longrightarrow> length r \<le> length ins"
proof (induction "length ins" arbitrary: token ins rule: less_induct)
  case less
  show ?case
  proof (cases ins)
    case (Cons c cs)
    obtain e q where q: "parse_escape (c # cs) = (e, q)" by fastforce
    have l: "length q \<le> length cs" by (rule parse_escape_rest[OF q])
    consider "r = cs" | "r = c # cs" | "relaxed_token_loop (token @ [c]) cs = (t, r)" | "relaxed_token_loop (token @ [e]) q = (t, r)"
      using less.prems Cons q by (auto split: if_splits)
    then show ?thesis
      using less.hyps[of cs "token @ [c]"] less.hyps[of q "token @ [e]"] l Cons by cases auto
  qed (use less.prems in simp)
qed

lemma tokenFromStream_rest:
  assumes "tokenFromStream ins = (t, r)" "is_relaxed_char (peek ins)"
  shows "length r < length ins \<and> t \<noteq> []"
proof -
  have start: "\<not> ends_token c \<and> c \<noteq> backslash" if "is_relaxed_char c" for c
    using that by (auto simp: is_relaxed_char_def ends_token_def is_alnum_def backslash_def)
  have kept: "\<exists>u. fst (relaxed_token_loop token ins) = token @ u" for token ins
  proof (induction "length ins" arbitrary: token ins rule: less_induct)
    case less
    show ?case
    proof (cases ins)
      case (Cons c cs)
      obtain e q where q: "parse_escape (c # cs) = (e, q)" by fastforce
      have "length q < length ins" "length cs < length ins" using parse_escape_rest[OF q] Cons by simp_all
      then show ?thesis using less.hyps[of cs "token @ [c]"] less.hyps[of q "token @ [e]"] Cons q by auto
    qed simp
  qed
  obtain c cs where ins: "ins = c # cs"
    using assms(2) by (cases ins) (auto simp: is_relaxed_char_def is_alnum_def)
  then have "relaxed_token_loop [c] cs = (t, r)" using assms start by (auto simp: tokenFromStream_def)
  then show ?thesis using relaxed_token_loop_rest kept[of "[c]" cs] ins by fastforce
qed

lemma quote_loop_rest: "quote_loop esc q token ins = Inr (t, r) \<Longrightarrow> length r < length ins"
proof (induction "length ins" arbitrary: token ins rule: less_induct)
  case less
  show ?case
  proof (cases ins)
    case (Cons c cs)
    obtain e p where p: "parse_escape (c # cs) = (e, p)" by fastforce
    consider "r = cs" | "quote_loop esc q (token @ [c]) cs = Inr (t, r)" | "quote_loop esc q (token @ [e]) p = Inr (t, r)"
      using less.prems Cons p by (auto split: if_splits)
    then show ?thesis
      using less.hyps[of cs "token @ [c]"] less.hyps[of p "token @ [e]"] parse_escape_rest[OF p] Cons by cases auto
  qed (use less.prems in simp)
qed

lemma triple_loop_simps [simp]:
  "triple_loop esc q token [] = Inl Endless_Loop"
  "triple_loop esc q token (c # ins) =
     (if c = q then
        (if peek ins = q then
           (if peek (tl ins) = q then Inr (token, tl (tl ins)) else triple_loop esc q (token @ [q, q]) (tl ins))
         else triple_loop esc q (token @ [q]) ins)
      else if c = CHR 0x04 then Inl Parse_Error_Exception
      else if esc \<and> c = backslash then (let (e, r) = parse_escape (c # ins) in triple_loop esc q (token @ [e]) r)
      else triple_loop esc q (token @ [c]) ins)"
  by (subst triple_loop.simps, simp add: at_end_def Let_def)+

lemma triple_loop_rest: "triple_loop esc q token ins = Inr (t, r) \<Longrightarrow> length r < length ins"
proof (induction "length ins" arbitrary: token ins rule: less_induct)
  case less
  show ?case
  proof (cases ins)
    case (Cons c cs)
    obtain e p where p: "parse_escape (c # cs) = (e, p)" by fastforce
    note len = parse_escape_rest[OF p]
    consider "r = tl (tl cs)" | "\<exists>token'. triple_loop esc q token' (tl cs) = Inr (t, r)"
      | "\<exists>token'. triple_loop esc q token' cs = Inr (t, r)" | "\<exists>token'. triple_loop esc q token' p = Inr (t, r)"
      using less.prems Cons p by (simp split: if_splits) blast+
    then show ?thesis
    proof cases
      case 1
      then show ?thesis using Cons by simp
    next
      case 2
      then obtain token' where "triple_loop esc q token' (tl cs) = Inr (t, r)" ..
      moreover have "length (tl cs) < length ins" using Cons by simp
      ultimately show ?thesis using less.hyps[of "tl cs" token'] by linarith
    next
      case 3
      then obtain token' where "triple_loop esc q token' cs = Inr (t, r)" ..
      then show ?thesis using less.hyps[of cs token'] Cons by simp
    next
      case 4
      then obtain token' where "triple_loop esc q token' p = Inr (t, r)" ..
      then show ?thesis using less.hyps[of p token'] Cons len by simp
    qed
  qed (use less.prems in simp)
qed

lemma quoteStringFromStream_rest:
  assumes "quoteStringFromStream strict esc ins = Inr (t, r)"
  shows "length r < length ins"
proof (cases ins)
  case Nil
  then show ?thesis using assms by (simp add: quoteStringFromStream_def get_char_def quote_def apostrophe_def)
next
  case (Cons c cs)
  then show ?thesis
    using assms quote_loop_rest[of esc c "[]" cs t r] triple_loop_rest[of esc c "[]" "tl (tl cs)" t r]
    by (auto simp: quoteStringFromStream_def get_char_def Let_def split: if_splits)
qed

lemma not_relaxed_quotes: "\<not> is_relaxed_char quote" "\<not> is_relaxed_char apostrophe" "\<not> is_relaxed_char CHR 0xFF"
  by (auto simp: is_relaxed_char_def is_alnum_def quote_def apostrophe_def)

lemma stringFromStream_rest:
  assumes "stringFromStream strict ins = Inr (t, r)"
  shows "length r < length ins"
proof (cases ins)
  case Nil
  then show ?thesis using assms not_relaxed_quotes by (simp add: stringFromStream_def Let_def quote_def apostrophe_def)
next
  case (Cons c cs)
  have t: "length r' \<le> length cs" if "tokenFromStream cs = (t', r')" for t' r'
    using that relaxed_token_loop_rest by (simp add: tokenFromStream_def)
  consider "quoteStringFromStream strict True ins = Inr (t, r)" | "quoteStringFromStream strict False cs = Inr (t, r)"
    | "r = snd (tokenFromStream cs)" | "is_relaxed_char c" "tokenFromStream ins = (t, r)"
    using assms Cons by (auto simp: stringFromStream_def Let_def split: if_splits prod.splits)
  then show ?thesis
  proof cases
    case 1
    then show ?thesis by (rule quoteStringFromStream_rest)
  next
    case 2
    then show ?thesis using quoteStringFromStream_rest[of strict False cs t r] Cons by simp
  next
    case 3
    then show ?thesis using t[of "fst (tokenFromStream cs)" r] Cons by simp
  next
    case 4
    then show ?thesis using tokenFromStream_rest[of ins t r] Cons by simp
  qed
qed

lemma numberFromStream_rest:
  assumes "numberFromStream lx strict ins = Inr (v, r)" "is_relaxed_char (peek ins)"
  shows "length r < length ins"
  using assms(1) tokenFromStream_rest[OF _ assms(2)]
  by (auto simp: numberFromStream_def Let_def split: prod.splits sum.splits if_splits)

lemma wordFromStream_rest:
  assumes "wordFromStream strict ins = Inr (v, r)" "is_relaxed_char (peek ins)"
  shows "length r < length ins"
  using assms(1) tokenFromStream_rest[OF _ assms(2)]
  by (auto simp: wordFromStream_def Let_def split: prod.splits sum.splits if_splits)

lemma relaxed_starts:
  "is_relaxed_number_start c \<Longrightarrow> is_relaxed_char c" "is_alnum c \<or> c = CHR ''_'' \<or> c = CHR ''/'' \<Longrightarrow> is_relaxed_char c"
  by (auto simp: is_relaxed_number_start_def is_relaxed_char_def is_alnum_def is_digit_def Let_def)

lemma skip_white_space_nul: "skip_white_space ins = Inr (b, q) \<Longrightarrow> peek q \<noteq> CHR 0x00"
proof (induction ins arbitrary: b)
  case (Cons c ins)
  show ?case
  proof (cases "is_space c")
    case True
    then obtain b' where "skip_white_space ins = Inr (b', q)" using Cons.prems by (simp split: sum.splits prod.splits)
    then show ?thesis by (rule Cons.IH)
  next
    case False
    then show ?thesis using Cons.prems by (auto split: if_splits)
  qed
qed auto

section \<open>The parsers return\<close>

lemma relaxed_variant_body_shrinks:
  assumes "shrinks objs" "shrinks arrs"
  shows "shrinks (relaxed_variant_body lx strict objs arrs)"
  unfolding shrinks_def
proof (intro allI impI)
  fix ins d v r assume g: "relaxed_variant_body lx strict objs arrs ins d = Some (Inr (v, r))"
  then obtain b q where q: "skip_white_space ins = Inr (b, q)" by (auto simp: relaxed_variant_body_def split: sum.splits)
  note w = skip_white_space_rest[OF q]
  note nul = skip_white_space_nul[OF q]
  have "length r < length q"
    using g q w nul shrinksD[OF assms(1), of q "d - 1"] shrinksD[OF assms(2), of q "d - 1"] relaxed_starts[of "peek q"]
      stringFromStream_rest[of strict q] numberFromStream_rest[of lx strict q v r] wordFromStream_rest[of strict q v r]
    by (auto simp: relaxed_variant_body_def Let_def split: if_splits sum.splits)
  then show "length r < length ins" using w by linarith
qed

lemma relaxed_object_body_shrinks:
  assumes "\<And>obj. shrinks (loop obj)"
  shows "shrinks (relaxed_object_body loop)"
  unfolding shrinks_def
proof (intro allI impI)
  fix ins d v r assume g: "relaxed_object_body loop ins d = Some (Inr (v, r))"
  then obtain b q where q: "skip_white_space (tl ins) = Inr (b, q)" "loop [] q d = Some (Inr (v, r))"
    by (auto simp: relaxed_object_body_def split: if_splits sum.splits)
  then show "length r < length ins" using skip_white_space_rest[OF q(1)] shrinksD[OF assms q(2)] by (simp only: length_tl) linarith
qed

lemma relaxed_object_loop_body_shrinks:
  assumes "shrinks val" "\<And>obj. shrinks (loop obj)"
  shows "shrinks (relaxed_object_loop_body strict val loop obj)"
  unfolding shrinks_def
proof (intro allI impI)
  fix ins d v r assume g: "relaxed_object_loop_body strict val loop obj ins d = Some (Inr (v, r))"
  show "length r < length ins"
  proof (cases "peek ins = CHR ''}'' \<or> peek ins = CHR '',''")
    case True
    then have "ins \<noteq> []" by auto
    then show ?thesis using g True shrinksD[OF assms(2), of obj "tl ins" d v r]
      by (cases ins) (auto simp: relaxed_object_loop_body_def split: if_splits)
  next
    case False
    obtain b q where q: "skip_white_space ins = Inr (b, q)"
      using g False by (auto simp: relaxed_object_loop_body_def split: sum.splits)
    note w = skip_white_space_rest[OF q]
    show ?thesis
    proof (cases b)
      case True
      then show ?thesis using g False q w shrinksD[OF assms(2), of obj q d v r] by (simp add: relaxed_object_loop_body_def)
    next
      case nb: False
      then obtain key q1 b2 q2 u q3 b4 q4 where s: "stringFromStream strict q = Inr (key, q1)" "skip_white_space q1 = Inr (b2, q2)"
        "val (tl q2) (d - 1) = Some (Inr (u, q3))" "skip_white_space q3 = Inr (b4, q4)"
        "loop (append_key obj key u) q4 d = Some (Inr (v, r))"
        using g False q by (auto simp: relaxed_object_loop_body_def split: sum.splits option.splits if_splits)
      have "length q3 \<le> length q2" using shrinksD[OF assms(1) s(3)] by simp
      then show ?thesis
        using stringFromStream_rest[OF s(1)] skip_white_space_rest[OF s(2)] skip_white_space_rest[OF s(4)]
          shrinksD[OF assms(2) s(5)] w by linarith
    qed
  qed
qed

lemma relaxed_shrinks:
  "shrinks (relaxed_variant_from_stream lx strict f)" "shrinks (objectFromStream lx strict f)"
  "\<And>obj. shrinks (relaxed_object_loop lx strict f obj)"
  "shrinks (arrayFromStream lx strict f)" "\<And>ar. shrinks (relaxed_array_loop lx strict f ar)"
proof (induction f)
  case 0
  { case 1 show ?case by (simp add: shrinks_def) next case 2 show ?case by (simp add: shrinks_def)
  next case 3 show ?case by (simp add: shrinks_def) next case 4 show ?case by (simp add: shrinks_def)
  next case 5 show ?case by (simp add: shrinks_def) }
next
  case (Suc f)
  { case 1 show ?case using Suc by (simp add: relaxed_variant_body_shrinks)
  next case 2 show ?case using Suc by (simp add: relaxed_object_body_shrinks)
  next case 3 show ?case using Suc by (simp add: relaxed_object_loop_body_shrinks)
  next case 4 show ?case using Suc by (simp add: array_body_shrinks)
  next case 5 show ?case using Suc by (simp add: array_loop_body_shrinks) }
qed

lemma relaxed_variant_body_total:
  assumes "total_upto n objs" "total_upto n arrs"
  shows "total_upto n (relaxed_variant_body lx strict objs arrs)"
  unfolding total_upto_def
proof (intro allI impI)
  fix ins :: string and d assume l: "length ins \<le> n"
  have "length q \<le> n \<and> dropWhile is_space q = q" if "skip_white_space ins = Inr (b, q)" for b q
    using skip_white_space_rest[OF that] l by linarith
  then show "relaxed_variant_body lx strict objs arrs ins d \<noteq> None"
    using assms by (auto simp: relaxed_variant_body_def total_upto_def Let_def split: sum.splits)
qed

lemma relaxed_object_body_total:
  assumes "\<And>obj. total_upto n (loop obj)"
  shows "total_upto (Suc n) (relaxed_object_body loop)"
  unfolding total_upto_def
proof (intro allI impI)
  fix ins :: string and d assume l: "length ins \<le> Suc n"
  have "length q \<le> n" if "skip_white_space (tl ins) = Inr (b, q)" for b q
    using skip_white_space_rest[OF that] l by (simp only: length_tl) linarith
  then show "relaxed_object_body loop ins d \<noteq> None"
    using assms unfolding total_upto_def by (auto simp: relaxed_object_body_def split: sum.splits)
qed

lemma relaxed_object_loop_body_total:
  assumes "shrinks val" "total_upto n val" "\<And>obj. total_upto n (loop obj)"
  shows "total_upto (Suc n) (relaxed_object_loop_body strict val loop obj)"
  unfolding total_upto_def
proof (intro allI impI notI)
  fix ins d assume l: "length ins \<le> Suc n" and none: "relaxed_object_loop_body strict val loop obj ins d = None"
  have tot: "loop obj' q d \<noteq> None" if "length q < length ins" for obj' q
    using assms(3) that l unfolding total_upto_def by auto
  have c1: "peek ins \<noteq> CHR ''}''" using none by (auto simp: relaxed_object_loop_body_def)
  have c: "peek ins \<noteq> CHR ''}''" "peek ins \<noteq> CHR '',''"
  proof (rule c1, rule notI)
    assume "peek ins = CHR '',''"
    moreover from this have "length (tl ins) < length ins" by (cases ins) simp_all
    ultimately show False using none c1 tot[of "tl ins"] by (simp add: relaxed_object_loop_body_def)
  qed
  then obtain b q where q: "skip_white_space ins = Inr (b, q)"
    using none by (auto simp: relaxed_object_loop_body_def split: sum.splits)
  note w = skip_white_space_rest[OF q]
  have nb: "\<not> b"
  proof
    assume "b"
    then show False using none c q w tot[of q obj] by (simp add: relaxed_object_loop_body_def)
  qed
  then obtain key q1 b2 q2 where s: "stringFromStream strict q = Inr (key, q1)" "skip_white_space q1 = Inr (b2, q2)"
    "peek q2 = CHR '':''"
    using none c q by (auto simp: relaxed_object_loop_body_def split: sum.splits if_splits)
  have l2: "length q2 + 1 \<le> length ins" using stringFromStream_rest[OF s(1)] skip_white_space_rest[OF s(2)] w by linarith
  from s(3) have "q2 \<noteq> []" by auto
  then have l3: "length (tl q2) < length q2" by simp
  then obtain x where x: "val (tl q2) (d - 1) = Some x" using total_uptoD[OF assms(2), of "tl q2"] l2 l by auto
  then obtain u q3 b4 q4 where x': "x = Inr (u, q3)" "skip_white_space q3 = Inr (b4, q4)"
    using none c q nb s by (auto simp: relaxed_object_loop_body_def split: sum.splits)
  have "length q4 < length ins"
    using shrinksD[OF assms(1), of "tl q2" "d - 1" u q3] x x' l2 l3 skip_white_space_rest[OF x'(2)] by simp
  then show False using none c q nb s x x' tot[of q4 "append_key obj key u"] by (simp add: relaxed_object_loop_body_def)
qed

lemma relaxed_total_upto_0:
  "total_upto 0 (relaxed_object_body loop)"
  "total_upto 0 (relaxed_object_loop_body strict val loop obj)"
  using not_relaxed_quotes
  by (auto simp: total_upto_def relaxed_object_body_def relaxed_object_loop_body_def stringFromStream_def quote_def apostrophe_def)

lemma relaxed_total:
  "f \<ge> 3 * n + 3 \<Longrightarrow> total_upto n (relaxed_variant_from_stream lx strict f)"
  "f \<ge> 3 * n + 2 \<Longrightarrow> total_upto n (objectFromStream lx strict f)"
  "f \<ge> 3 * n + 1 \<Longrightarrow> total_upto n (relaxed_object_loop lx strict f obj)"
  "f \<ge> 3 * n + 2 \<Longrightarrow> total_upto n (arrayFromStream lx strict f)"
  "f \<ge> 3 * n + 4 \<Longrightarrow> total_upto n (relaxed_array_loop lx strict f ar)"
proof (induction f arbitrary: n obj ar)
  case (Suc f)
  note sh = relaxed_shrinks[of lx strict f]
  { case 1 then show ?case using Suc.IH(2,4)[of n] by (simp add: relaxed_variant_body_total)
  next
    case 2
    then show ?case
      using Suc.IH(3) by (cases n) (simp_all add: relaxed_total_upto_0 relaxed_object_body_total)
  next
    case 3
    then show ?case using Suc.IH(1)[of "n - 1"] Suc.IH(3)[of "n - 1"] sh(1)
      by (cases n) (simp_all add: relaxed_total_upto_0 relaxed_object_loop_body_total)
  next
    case 4
    then show ?case using Suc.IH(5) by (cases n) (simp_all add: total_upto_0 array_body_total)
  next
    case 5
    have z: "total_upto 0 (array_loop_body (relaxed_variant_from_stream lx strict f) (relaxed_array_loop lx strict f) ar)" if "f \<ge> 3"
      using Suc.IH(1)[of 0] that sh(1) by (force simp: total_upto_def shrinks_def array_loop_body_def split: sum.splits option.splits)
    show ?case using 5 Suc.IH(1)[of n] Suc.IH(5)[of "n - 1"] sh(1) z
      by (cases n) (simp_all add: array_loop_body_total) }
qed simp_all

lemma relaxed_returns: "\<exists>x. relaxed_variant_from_stream lx strict (enough_fuel ins) ins d = Some x"
  using relaxed_total(1)[of "length ins" "enough_fuel ins" lx strict] by (auto simp: enough_fuel_def total_upto_def)

lemma variants_loop_returns:
  "length ins < fuel \<Longrightarrow> variants_loop lx fuel ins d res \<noteq> None"
proof (induction fuel arbitrary: ins res)
  case (Suc fuel)
  obtain x where x: "relaxed_variant_from_stream lx False (enough_fuel ins) ins d = Some x"
    using relaxed_returns by blast
  show ?case
  proof (cases x)
    case (Inr p)
    obtain v r where p: "p = (v, r)" by fastforce
    have "length r < length ins" using shrinksD[OF relaxed_shrinks(1)] x Inr p by blast
    then show ?thesis using Suc x Inr p by simp
  qed (use x in simp)
qed simp

text \<open>More fuel does not change a result.\<close>

lemma relaxed_variant_body_extends:
  assumes "extends objs objs'" "extends arrs arrs'"
  shows "extends (relaxed_variant_body lx strict objs arrs) (relaxed_variant_body lx strict objs' arrs')"
  unfolding extends_def
proof (intro allI impI)
  fix ins d x assume g: "relaxed_variant_body lx strict objs arrs ins d = Some x"
  show "relaxed_variant_body lx strict objs' arrs' ins d = Some x"
  proof (cases "skip_white_space ins")
    case (Inl e)
    then show ?thesis using g by (simp add: relaxed_variant_body_def)
  next
    case (Inr bq)
    then obtain b q where q: "skip_white_space ins = Inr (b, q)" by (cases bq) simp
    define p where "p = dropWhile is_space q"
    have dist: "CHR ''{'' \<noteq> quote" "CHR ''['' \<noteq> quote" by (simp_all add: quote_def)
    consider "peek p = CHR ''{''" | "peek p = CHR ''[''" | "peek p \<noteq> CHR ''{''" "peek p \<noteq> CHR ''[''" by blast
    then show ?thesis
    proof cases
      case 1
      then obtain y where "objs p (d - 1) = Some y" "x = map_sum id (map_prod V_object id) y"
        using g q dist by (auto simp: relaxed_variant_body_def Let_def simp flip: p_def)
      then show ?thesis using extendsD[OF assms(1)] 1 q dist by (simp add: relaxed_variant_body_def Let_def flip: p_def)
    next
      case 2
      then obtain y where "arrs p (d - 1) = Some y" "x = map_sum id (map_prod V_array id) y"
        using g q dist by (auto simp: relaxed_variant_body_def Let_def simp flip: p_def)
      then show ?thesis using extendsD[OF assms(2)] 2 q dist by (simp add: relaxed_variant_body_def Let_def flip: p_def)
    next
      case 3
      have "relaxed_variant_body lx strict objs' arrs' ins d = relaxed_variant_body lx strict objs arrs ins d"
        using 3 by (simp only: relaxed_variant_body_def q sum.case prod.case Let_def if_False flip: p_def)
      then show ?thesis using g by simp
    qed
  qed
qed

lemma relaxed_object_body_extends:
  "(\<And>obj. extends (loop obj) (loop' obj)) \<Longrightarrow> extends (relaxed_object_body loop) (relaxed_object_body loop')"
  unfolding extends_def relaxed_object_body_def by (auto split: sum.splits)

lemma relaxed_object_loop_body_extends:
  assumes "extends val val'" "\<And>obj. extends (loop obj) (loop' obj)"
  shows "extends (relaxed_object_loop_body strict val loop obj) (relaxed_object_loop_body strict val' loop' obj)"
  using assms(2)[THEN extendsD] assms(1)[THEN extendsD]
  unfolding extends_def relaxed_object_loop_body_def by (auto split: sum.splits option.splits if_splits)

lemma relaxed_extends_Suc:
  "extends (relaxed_variant_from_stream lx strict f) (relaxed_variant_from_stream lx strict (Suc f))"
  "extends (objectFromStream lx strict f) (objectFromStream lx strict (Suc f))"
  "\<And>obj. extends (relaxed_object_loop lx strict f obj) (relaxed_object_loop lx strict (Suc f) obj)"
  "extends (arrayFromStream lx strict f) (arrayFromStream lx strict (Suc f))"
  "\<And>ar. extends (relaxed_array_loop lx strict f ar) (relaxed_array_loop lx strict (Suc f) ar)"
proof (induction f)
  case 0
  { case 1 show ?case by (simp add: extends_def) next case 2 show ?case by (simp add: extends_def)
  next case 3 show ?case by (simp add: extends_def) next case 4 show ?case by (simp add: extends_def)
  next case 5 show ?case by (simp add: extends_def) }
next
  case (Suc f)
  { case 1 show ?case using Suc(2,4) unfolding relaxed_variant_from_stream.simps(2) by (rule relaxed_variant_body_extends)
  next case 2 show ?case using Suc(3) unfolding objectFromStream.simps(2) by (rule relaxed_object_body_extends)
  next case 3 show ?case using Suc(1,3) unfolding relaxed_object_loop.simps(2) by (rule relaxed_object_loop_body_extends)
  next case 4 show ?case using Suc(5) unfolding arrayFromStream.simps(2) by (rule array_body_extends)
  next case 5 show ?case using Suc(1,5) unfolding relaxed_array_loop.simps(2) by (rule array_loop_body_extends) }
qed

lemma relaxed_more_fuel:
  assumes "f \<le> f'" "relaxed_variant_from_stream lx strict f ins d = Some x"
  shows "relaxed_variant_from_stream lx strict f' ins d = Some x"
  using assms by (induction f' rule: dec_induct) (auto dest: extendsD[OF relaxed_extends_Suc(1)])

section \<open>The limit on the nesting is ignored\<close>

definition ignores_depth :: "(string \<Rightarrow> u32 \<Rightarrow> 'a) \<Rightarrow> bool" where
  "ignores_depth g \<longleftrightarrow> (\<exists>h. g = (\<lambda>ins _. h ins))"

lemma ignores_depthI: "(\<And>ins d. g ins d = h ins) \<Longrightarrow> ignores_depth g"
  unfolding ignores_depth_def by (intro exI[of _ h]) (simp add: fun_eq_iff)

lemma relaxed_bodies_ignore_depth:
  "ignores_depth objs \<Longrightarrow> ignores_depth arrs \<Longrightarrow> ignores_depth (relaxed_variant_body lx strict objs arrs)"
  "(\<And>obj. ignores_depth (loop obj)) \<Longrightarrow> ignores_depth (relaxed_object_body loop)"
  "ignores_depth vals \<Longrightarrow> (\<And>obj. ignores_depth (loop obj)) \<Longrightarrow> ignores_depth (relaxed_object_loop_body strict vals loop obj)"
  "(\<And>ar. ignores_depth (aloop ar)) \<Longrightarrow> ignores_depth (array_body aloop)"
  "ignores_depth vals \<Longrightarrow> (\<And>ar. ignores_depth (aloop ar)) \<Longrightarrow> ignores_depth (array_loop_body vals aloop ar)"
proof -
  assume "ignores_depth objs" "ignores_depth arrs"
  then obtain h k where "objs = (\<lambda>ins _. h ins)" "arrs = (\<lambda>ins _. k ins)" unfolding ignores_depth_def by blast
  then show "ignores_depth (relaxed_variant_body lx strict objs arrs)"
    by (intro ignores_depthI[where h = "\<lambda>ins. relaxed_variant_body lx strict objs arrs ins 0"]) (simp add: relaxed_variant_body_def)
next
  assume "\<And>obj. ignores_depth (loop obj)"
  then obtain h where "\<And>obj. loop obj = (\<lambda>ins _. h obj ins)" unfolding ignores_depth_def by metis
  then have "loop = (\<lambda>obj ins _. h obj ins)" by (simp add: fun_eq_iff)
  then show "ignores_depth (relaxed_object_body loop)"
    by (intro ignores_depthI[where h = "\<lambda>ins. relaxed_object_body loop ins 0"]) (simp add: relaxed_object_body_def)
next
  assume "ignores_depth vals" "\<And>obj. ignores_depth (loop obj)"
  then obtain h k where "vals = (\<lambda>ins _. k ins)" "\<And>obj. loop obj = (\<lambda>ins _. h obj ins)" unfolding ignores_depth_def by metis
  then have "vals = (\<lambda>ins _. k ins)" "loop = (\<lambda>obj ins _. h obj ins)" by (simp_all add: fun_eq_iff)
  then show "ignores_depth (relaxed_object_loop_body strict vals loop obj)"
    by (intro ignores_depthI[where h = "\<lambda>ins. relaxed_object_loop_body strict vals loop obj ins 0"]) (simp add: relaxed_object_loop_body_def)
next
  assume "\<And>ar. ignores_depth (aloop ar)"
  then obtain h where "\<And>ar. aloop ar = (\<lambda>ins _. h ar ins)" unfolding ignores_depth_def by metis
  then have "aloop = (\<lambda>ar ins _. h ar ins)" by (simp add: fun_eq_iff)
  then show "ignores_depth (array_body aloop)"
    by (intro ignores_depthI[where h = "\<lambda>ins. array_body aloop ins 0"]) (simp add: array_body_def)
next
  assume "ignores_depth vals" "\<And>ar. ignores_depth (aloop ar)"
  then obtain h k where "vals = (\<lambda>ins _. k ins)" "\<And>ar. aloop ar = (\<lambda>ins _. h ar ins)" unfolding ignores_depth_def by metis
  then have "vals = (\<lambda>ins _. k ins)" "aloop = (\<lambda>ar ins _. h ar ins)" by (simp_all add: fun_eq_iff)
  then show "ignores_depth (array_loop_body vals aloop ar)"
    by (intro ignores_depthI[where h = "\<lambda>ins. array_loop_body vals aloop ar ins 0"]) (simp add: array_loop_body_def)
qed

lemma relaxed_ignores_depth:
  "ignores_depth (relaxed_variant_from_stream lx strict f)" "ignores_depth (objectFromStream lx strict f)"
  "\<And>obj. ignores_depth (relaxed_object_loop lx strict f obj)"
  "ignores_depth (arrayFromStream lx strict f)" "\<And>ar. ignores_depth (relaxed_array_loop lx strict f ar)"
proof (induction f)
  case 0
  { case 1 show ?case by (auto intro: ignores_depthI) next case 2 show ?case by (auto intro: ignores_depthI)
  next case 3 show ?case by (auto intro: ignores_depthI) next case 4 show ?case by (auto intro: ignores_depthI)
  next case 5 show ?case by (auto intro: ignores_depthI) }
next
  case (Suc f)
  { case 1 show ?case using Suc by (simp add: relaxed_bodies_ignore_depth)
  next case 2 show ?case using Suc by (simp add: relaxed_bodies_ignore_depth)
  next case 3 show ?case using Suc by (simp add: relaxed_bodies_ignore_depth)
  next case 4 show ?case using Suc by (simp add: relaxed_bodies_ignore_depth)
  next case 5 show ?case using Suc by (simp add: relaxed_bodies_ignore_depth) }
qed

section \<open>The strict parser has no endless loop\<close>

definition no_endless :: "(string \<Rightarrow> u32 \<Rightarrow> 'a parsed option) \<Rightarrow> bool" where
  "no_endless g \<longleftrightarrow> (\<forall>ins d. g ins d \<noteq> Some (Inl Endless_Loop))"

lemma skip_white_space_no_endless: "skip_white_space ins \<noteq> Inl Endless_Loop"
proof (induction ins)
  case (Cons c ins)
  then show ?case by (cases "skip_white_space ins") auto
qed simp

lemma quote_loop_no_endless: "quote_loop esc q token ins \<noteq> Inl Endless_Loop"
proof (induction "length ins" arbitrary: token ins rule: less_induct)
  case less
  show ?case
  proof (cases ins)
    case (Cons c cs)
    obtain e p where p: "parse_escape (c # cs) = (e, p)" by fastforce
    then show ?thesis
      using less.hyps[of cs "token @ [c]"] less.hyps[of p "token @ [e]"] parse_escape_rest[OF p] Cons
      by (cases "esc \<and> c = backslash") auto
  qed simp
qed

lemma strict_string_no_endless: "stringFromStream True ins \<noteq> Inl Endless_Loop"
  using quote_loop_no_endless by (simp add: stringFromStream_def quoteStringFromStream_def get_char_def Let_def)

text \<open>What is thrown while a number is read is always a parse error.\<close>

definition parse_errors :: "'a result \<Rightarrow> bool" where
  "parse_errors r \<longleftrightarrow> (\<forall>e. r = Inl e \<longrightarrow> e = Parse_Error_Exception)"

lemma parse_errors_intros:
  "parse_errors (Inr v)" "parse_errors (Inl Parse_Error_Exception)"
  "(b \<Longrightarrow> parse_errors x) \<Longrightarrow> (\<not> b \<Longrightarrow> parse_errors y) \<Longrightarrow> parse_errors (if b then x else y)"
  by (auto simp: parse_errors_def)

lemma parse_errors_bind:
  "parse_errors r \<Longrightarrow> (\<And>v. parse_errors (f v)) \<Longrightarrow> parse_errors (case r of Inl e \<Rightarrow> Inl e | Inr v \<Rightarrow> f v)"
  by (auto simp: parse_errors_def split: sum.splits)

lemma parse_int_loop_error: "parse_errors (parse_int_loop base val cs)"
  by (induction base val cs rule: parse_int_loop.induct) (simp_all add: Let_def parse_errors_def)

lemma parseInt_error: "parse_errors (parseInt base token start)"
  unfolding parseInt_def by (intro parse_errors_intros parse_errors_bind parse_int_loop_error)

lemma maybeParseInt_error: "parse_errors (maybeParseInt strict base token start)"
  using parseInt_error[of base token start] by (auto simp: maybeParseInt_def parse_errors_def split: sum.splits if_splits)

lemma string_or_error_error: "parse_errors (string_or_error strict token)"
  unfolding string_or_error_def by (intro parse_errors_intros)

lemma exponent_loop_error: "parse_errors (exponent_loop lx strict token cs)"
proof (induction cs)
  case Nil
  have "parse_errors (to_double lx (c_str token))" by (simp add: to_double_def parse_errors_def split: option.splits)
  then show ?case unfolding exponent_loop.simps by (intro parse_errors_bind parse_errors_intros)
next
  case (Cons c cs)
  then show ?case unfolding exponent_loop.simps by (intro parse_errors_intros string_or_error_error)
qed

lemma parse_exponent_error: "parse_errors (parse_exponent lx strict token cs)"
proof (cases cs)
  case Nil
  then show ?thesis by (simp add: parse_exponent_def string_or_error_error)
next
  case (Cons c ds)
  then show ?thesis unfolding parse_exponent_def list.case
    by (simp only: list.case) (intro parse_errors_intros string_or_error_error exponent_loop_error)
qed

lemma mantissa_loop_error: "parse_errors (mantissa_loop lx strict token start cs)"
proof (induction cs)
  case Nil
  then show ?case by (simp add: parseInt_error)
next
  case (Cons c cs)
  then show ?case unfolding mantissa_loop.simps
    by (intro parse_errors_intros string_or_error_error parse_exponent_error)
qed

lemma parseNumberOrStr_error: "parse_errors (parseNumberOrStr lx strict token)"
  unfolding parseNumberOrStr_def Let_def
  by (intro parse_errors_intros string_or_error_error mantissa_loop_error maybeParseInt_error)

lemma tokens_no_endless:
  "numberFromStream lx strict ins \<noteq> Inl Endless_Loop" "wordFromStream strict ins \<noteq> Inl Endless_Loop"
  using parseNumberOrStr_error
  by (auto simp: numberFromStream_def wordFromStream_def parse_errors_def Let_def split: prod.splits sum.splits)

definition endless_free :: "'a parsed option \<Rightarrow> bool" where
  "endless_free x \<longleftrightarrow> x \<noteq> Some (Inl Endless_Loop)"

lemma endless_free_intros:
  "endless_free None" "endless_free (Some (Inr v))" "endless_free (Some (Inl Parse_Error_Exception))"
  "endless_free (Some (Inl Eof_Exception))"
  "(b \<Longrightarrow> endless_free x) \<Longrightarrow> (\<not> b \<Longrightarrow> endless_free y) \<Longrightarrow> endless_free (if b then x else y)"
  "endless_free x \<Longrightarrow> endless_free (map_option (map_sum id f) x)"
  "endless_free x \<Longrightarrow> endless_free (map_option (map_sum eof_to_parse_error f) x)"
  "endless_free (Some (numberFromStream lx strict ins))" "endless_free (Some (wordFromStream strict ins))"
  using tokens_no_endless
  by (auto simp: endless_free_def eof_to_parse_error_def map_sum_def split: sum.splits if_splits)

lemma endless_free_binds:
  "(\<And>b q. endless_free (f b q)) \<Longrightarrow> endless_free (case skip_white_space ins of Inl e \<Rightarrow> Some (Inl e) | Inr (b, q) \<Rightarrow> f b q)"
  "(\<And>k q. endless_free (h k q)) \<Longrightarrow> endless_free (case stringFromStream True ins of Inl e \<Rightarrow> Some (Inl e) | Inr (k, q) \<Rightarrow> h k q)"
  "endless_free (Some (case stringFromStream True ins of Inl e \<Rightarrow> Inl e | Inr (t, r) \<Rightarrow> Inr (g t, r)))"
  "endless_free x \<Longrightarrow> (\<And>v q. endless_free (j v q)) \<Longrightarrow>
    endless_free (case x of None \<Rightarrow> None | Some (Inl e) \<Rightarrow> Some (Inl e) | Some (Inr (v, q)) \<Rightarrow> j v q)"
  using skip_white_space_no_endless strict_string_no_endless
  by (auto simp: endless_free_def split: sum.splits option.splits)

lemma strict_endless_free:
  "endless_free (relaxed_variant_from_stream lx True f ins d)" "endless_free (objectFromStream lx True f ins d)"
  "endless_free (relaxed_object_loop lx True f obj ins d)"
  "endless_free (arrayFromStream lx True f ins d)" "endless_free (relaxed_array_loop lx True f ar ins d)"
proof (induction f arbitrary: ins d obj ar)
  case 0
  { case 1 show ?case by (simp add: endless_free_def) next case 2 show ?case by (simp add: endless_free_def)
  next case 3 show ?case by (simp add: endless_free_def) next case 4 show ?case by (simp add: endless_free_def)
  next case 5 show ?case by (simp add: endless_free_def) }
next
  case (Suc f)
  { case 1 show ?case unfolding relaxed_variant_from_stream.simps relaxed_variant_body_def Let_def
      by (intro endless_free_binds endless_free_intros Suc.IH)
  next case 2 show ?case unfolding objectFromStream.simps relaxed_object_body_def
      by (intro endless_free_binds endless_free_intros Suc.IH)
  next case 3 show ?case unfolding relaxed_object_loop.simps relaxed_object_loop_body_def
      by (intro endless_free_binds endless_free_intros Suc.IH)
  next case 4 show ?case unfolding arrayFromStream.simps array_body_def
      by (intro endless_free_binds endless_free_intros Suc.IH)
  next case 5 show ?case unfolding relaxed_array_loop.simps array_loop_body_def
      by (intro endless_free_binds endless_free_intros Suc.IH) }
qed

section \<open>Integers\<close>

text \<open>The number that the characters stand for, and which characters do.\<close>

definition int_value :: "u8 \<Rightarrow> nat \<Rightarrow> string \<Rightarrow> nat" where
  "int_value base v cs = foldl (\<lambda>v c. v * unat base + unat (char_value c)) v cs"

lemma int_value_simps [simp]:
  "int_value base v [] = v" "int_value base v (c # cs) = int_value base (v * unat base + unat (char_value c)) cs"
  by (simp_all add: int_value_def)

lemma int_value_mono:
  assumes "0 < base"
  shows "v \<le> int_value base v cs"
proof (induction cs arbitrary: v)
  case (Cons c cs)
  have "0 < unat base" using assms by (simp add: word_less_nat_alt)
  then have "v \<le> v * unat base + unat (char_value c)" by (cases "unat base") simp_all
  also have "\<dots> \<le> int_value base (v * unat base + unat (char_value c)) cs" by (rule Cons.IH)
  finally show ?case by simp
qed simp

text \<open>The two tests of a turn of the loop fail together exactly when the exact value fits.\<close>

lemma parse_int_step:
  fixes val b vc :: u64
  assumes "0 < b" "unat vc < 2 ^ 32" "unat b < 2 ^ 32"
  shows "(val \<le> - 1 div b \<and> \<not> val * b + vc < val * b) \<longleftrightarrow> unat val * unat b + unat vc < 2 ^ 64"
    and "val \<le> - 1 div b \<Longrightarrow> \<not> val * b + vc < val * b \<Longrightarrow> unat (val * b + vc) = unat val * unat b + unat vc"
proof -
  have b: "0 < unat b" using assms(1) by (simp add: word_less_nat_alt)
  have m1: "unat (- 1 :: u64) = 2 ^ 64 - 1" by (simp add: unsigned_minus_1_eq_mask mask_eq_exp_minus_1)
  have "unat (- 1 div b) = (2 ^ 64 - 1) div unat b" by (simp only: unat_div_distrib m1)
  then have le: "val \<le> - 1 div b \<longleftrightarrow> unat val * unat b \<le> 2 ^ 64 - 1"
    using b by (simp add: word_le_nat_alt less_eq_div_iff_mult_less_eq)
  have mul: "unat (val * b) = unat val * unat b" if "unat val * unat b \<le> 2 ^ 64 - 1"
    using that by (subst unat_mult_lem[THEN iffD1]) simp_all
  have add: "(\<not> x + vc < x) \<longleftrightarrow> unat x + unat vc < 2 ^ 64" for x :: u64
    using no_olen_add_nat[of x vc] by (simp add: not_less)
  have sum: "unat (x + vc) = unat x + unat vc" if "unat x + unat vc < 2 ^ 64" for x :: u64
    using that by (subst unat_add_lem[THEN iffD1]) simp_all
  show "(val \<le> - 1 div b \<and> \<not> val * b + vc < val * b) \<longleftrightarrow> unat val * unat b + unat vc < 2 ^ 64"
    using mul by (auto simp: le add)
  assume "val \<le> - 1 div b" "\<not> val * b + vc < val * b"
  then show "unat (val * b + vc) = unat val * unat b + unat vc" using mul sum[of "val * b"] by (simp add: le add)
qed

lemma parse_int_loop_correct:
  assumes "2 \<le> base"
  shows "parse_int_loop base val cs =
    (if (\<forall>c \<in> set cs. char_value c \<noteq> 0xFF) \<and> int_value base (unat val) cs < 2 ^ 64
     then Inr (word_of_nat (int_value base (unat val) cs)) else Inl Parse_Error_Exception)"
proof (induction cs arbitrary: val)
  case Nil
  have "unat val < 2 ^ 64" using unsigned_less[of val, where 'a = nat] by simp
  then show ?case by simp
next
  case (Cons c cs)
  let ?b = "ucast base :: u64" and ?vc = "ucast (char_value c) :: u64"
  have small: "unat (ucast x :: u64) = unat x" "unat x < 2 ^ 32" for x :: u8
  proof -
    have "unat x < 256" using unsigned_less[of x, where 'a = nat] by simp
    then show "unat (ucast x :: u64) = unat x" "unat x < 2 ^ 32" by (simp_all add: unsigned_ucast_eq take_bit_nat_eq_self)
  qed
  have pos: "0 < base" "0 < ?b" "unat ?vc < 2 ^ 32" "unat ?b < 2 ^ 32"
    using assms small by (auto simp: word_le_nat_alt word_less_nat_alt)
  note step = parse_int_step[OF pos(2-4), of val, unfolded small(1)]
  show ?case
  proof (cases "val \<le> - 1 div ?b \<and> \<not> val * ?b + ?vc < val * ?b")
    case True
    then have "unat (val * ?b + ?vc) = unat val * unat base + unat (char_value c)" using step(2) by blast
    then show ?thesis using True by (auto simp: Let_def Cons.IH not_less)
  next
    case False
    then have "\<not> unat val * unat base + unat (char_value c) < 2 ^ 64" using step(1) by blast
    then have "\<not> int_value base (unat val) (c # cs) < 2 ^ 64"
      using int_value_mono[OF pos(1), of "unat val * unat base + unat (char_value c)" cs] by simp
    then show ?thesis using False by (auto simp: Let_def not_less not_le)
  qed
qed

text \<open>
  C33. Integers are exact: a text whose characters from \<open>start\<close> on are digits or letters is read as the number that
  they stand for, if it is below 2^64 (or at most 2^63 behind a minus sign, which negates it), and as an
  error otherwise; no text wraps around. But a character counts with its value even when it is no digit of the base.
\<close>
theorem parseInt_correct:
  assumes "2 \<le> base" and "start < length token"
  shows "parseInt base token start =
    (let cs = drop start token; v = int_value base 0 cs
     in if \<not> list_all (\<lambda>c. char_value c \<noteq> 0xFF) cs \<or> v \<ge> 2 ^ 64 \<or> hd token = CHR ''-'' \<and> v > 2 ^ 63
        then Inl Parse_Error_Exception
        else if hd token = CHR ''-'' then Inr (V_int64 (- word_of_nat v)) else Inr (V_uint64 (word_of_nat v)))"
proof -
  let ?cs = "drop start token"
  let ?v = "int_value base 0 ?cs"
  have hd: "token ! 0 = hd token" using assms(2) by (cases token) simp_all
  have un: "unat int64_max_plus_one = 2 ^ 63" by (simp add: int64_max_plus_one_def)
  have big: "word_of_nat ?v > int64_max_plus_one \<longleftrightarrow> ?v > 2 ^ 63" "word_of_nat ?v = int64_max_plus_one \<longleftrightarrow> ?v = 2 ^ 63"
    if "?v < 2 ^ 64"
  proof -
    have w: "unat (word_of_nat ?v :: u64) = ?v" using that by (simp add: unat_of_nat take_bit_nat_eq_self)
    show "word_of_nat ?v > int64_max_plus_one \<longleftrightarrow> ?v > 2 ^ 63" by (simp add: word_less_nat_alt w un)
    show "word_of_nat ?v = int64_max_plus_one \<longleftrightarrow> ?v = 2 ^ 63" by (simp add: word_unat_eq_iff w un)
  qed
  have half: "int64_max_plus_one = - int64_max_plus_one" by (simp add: int64_max_plus_one_def)
  show ?thesis
  proof (cases "list_all (\<lambda>c. char_value c \<noteq> 0xFF) ?cs \<and> ?v < 2 ^ 64")
    case True
    then show ?thesis
      using assms(2) big half by (auto simp: parseInt_def parse_int_loop_correct[OF assms(1)] Let_def list_all_iff hd)
  next
    case False
    then show ?thesis
      using assms(2) by (auto simp: parseInt_def parse_int_loop_correct[OF assms(1)] Let_def list_all_iff)
  qed
qed

theorem parseInt_correct_witness:
  "parseInt 10 ''-9223372036854775808'' 1 = Inr (V_int64 (push_bit 63 1)) \<and>
   parseInt 10 ''18446744073709551616'' 0 = Inl Parse_Error_Exception \<and>
   parseInt 2 ''0b19'' 2 = Inr (V_uint64 11)"
proof -
  have "int_value 10 0 ''9223372036854775808'' = 2 ^ 63" "int_value 10 0 ''18446744073709551616'' = 2 ^ 64"
    "int_value 2 0 ''19'' = 11" by (simp_all add: char_value_def)
  moreover have "list_all (\<lambda>c. char_value c \<noteq> 0xFF) ''9223372036854775808''" "list_all (\<lambda>c. char_value c \<noteq> 0xFF) ''19''"
    by (simp_all add: char_value_def)
  ultimately show ?thesis
    using parseInt_correct[of 10 1 "''-9223372036854775808''"] parseInt_correct[of 10 0 "''18446744073709551616''"]
      parseInt_correct[of 2 2 "''0b19''"] by (simp add: Let_def)
qed

section \<open>What the parsers return\<close>

lemma from_string_any_relaxed:
  "from_string_any lx t strict_parser d = map_option (map_sum id fst) (relaxed_variant_from_stream lx True (enough_fuel t) t d)"
  "from_string_any lx t relaxed_parser d = map_option (map_sum id fst) (relaxed_variant_from_stream lx False (enough_fuel t) t d)"
  by (simp_all add: from_string_any_def)

lemma open_triple_quote:
  "from_string_any lx [quote, quote, quote, CHR ''a''] relaxed_parser d = Some (Inl Endless_Loop)"
proof -
  have "enough_fuel [quote, quote, quote, CHR ''a''] = Suc 14" by (simp add: enough_fuel_def)
  then show ?thesis
    by (simp add: from_string_any_relaxed relaxed_variant_body_def stringFromStream_def quoteStringFromStream_def
        get_char_def is_space_def quote_def apostrophe_def backslash_def del: Suc_numeral)
qed

text \<open>
  C34. The strict parser returns on every text; the relaxed one returns or is caught in its loop for triple quotes,
  as it is on an open triple quote. More fuel does not change a result, and neither does the limit
  on the nesting, which both parsers pass on and never test.
\<close>
theorem relaxed_parsers_return:
  "relaxed_variant_from_stream lx strict (enough_fuel t + k) t d = relaxed_variant_from_stream lx strict (enough_fuel t) t d' \<and>
   (\<exists>r. from_string_any lx t strict_parser d = Some r \<and> r \<noteq> Inl Endless_Loop) \<and>
   from_string_any lx t relaxed_parser d \<noteq> None \<and> variants_from_string lx t ptype d \<noteq> None \<and>
   from_string_any lx [quote, quote, quote, CHR ''a''] relaxed_parser d = Some (Inl Endless_Loop)"
proof -
  obtain x where x: "relaxed_variant_from_stream lx strict (enough_fuel t) t d = Some x" using relaxed_returns by blast
  have "relaxed_variant_from_stream lx strict (enough_fuel t + k) t d = relaxed_variant_from_stream lx strict (enough_fuel t) t d"
    using relaxed_more_fuel[OF _ x, of "enough_fuel t + k"] x by simp
  moreover have "relaxed_variant_from_stream lx strict (enough_fuel t) t d = relaxed_variant_from_stream lx strict (enough_fuel t) t d'"
    using relaxed_ignores_depth(1)[of lx strict "enough_fuel t"] by (auto simp: ignores_depth_def)
  moreover have "\<exists>r. from_string_any lx t strict_parser d = Some r \<and> r \<noteq> Inl Endless_Loop"
  proof -
    obtain y where y: "relaxed_variant_from_stream lx True (enough_fuel t) t d = Some y" using relaxed_returns by blast
    then have "y \<noteq> Inl Endless_Loop" using strict_endless_free(1)[of lx "enough_fuel t" t d] by (simp add: endless_free_def)
    then show ?thesis using y by (cases y) (simp_all add: from_string_any_relaxed)
  qed
  moreover have "from_string_any lx t relaxed_parser d \<noteq> None"
    using relaxed_returns[of lx False t d] by (auto simp: from_string_any_relaxed)
  moreover have "variants_from_string lx t ptype d \<noteq> None"
    unfolding variants_from_string_def by (rule variants_loop_returns) simp
  ultimately show ?thesis using open_triple_quote by simp
qed

text \<open>The relaxed parser reads an unquoted key with the colon behind it, and then misses the colon.\<close>

lemma unquoted_keys_need_a_blank:
  "from_string_any ref_lexical ''{a:1}'' relaxed_parser d = Some (Inl Parse_Error_Exception)"
  "from_string_any ref_lexical ''{a :1}'' relaxed_parser 200 = Some (Inr (V_object [(''a'', V_uint64 1)]))"
  by code_simp+

section \<open>Pretty printing\<close>

definition is_blank :: "char \<Rightarrow> bool" where
  "is_blank c \<longleftrightarrow> c = CHR '' '' \<or> c = CHR 0x0A"

lemma pretty_step_blanks: "filter (\<lambda>c. \<not> is_blank c) (fst (pretty_step indent prev c st)) = filter (\<lambda>c. \<not> is_blank c) [c]"
proof -
  have ind: "filter (\<lambda>c. \<not> is_blank c) (indentation indent n) = []" for n
    by (simp add: indentation_def filter_replicate is_blank_def)
  moreover have "is_blank CHR 0x0A" by (simp add: is_blank_def)
  ultimately have "filter (\<lambda>c. \<not> is_blank c) (line_break indent st) = []"
    by (simp add: line_break_def)
  then show ?thesis by (simp add: pretty_step_def ind, simp add: is_blank_def)
qed

text \<open>
  Pretty printing changes blanks and line breaks only: without them the text is the one that was printed. But not all of
  the changes are between values: behind an escape such as \<open>\t\<close> at the end of a string the quotes are taken the wrong way
  round, and the strings that follow are broken up, so that they are read back as other strings.
\<close>
theorem pretty_print_adds_blanks:
  "filter (\<lambda>c. \<not> is_blank c) (pretty_print outside v indent) = filter (\<lambda>c. \<not> is_blank c) v \<and>
   from_string ref_lexical (to_pretty_string ref_lexical CHR 0x00 (V_array [V_string [CHR 0x09], V_string ''a,b'']) legacy_generator)
     legacy_parser 200 = Some (Inr (V_array [V_string [CHR 0x09], V_string (''a,'' @ [CHR 0x0A] @ ''  b'')]))"
proof -
  have "filter (\<lambda>c. \<not> is_blank c) (pretty_loop indent prev v st) = filter (\<lambda>c. \<not> is_blank c) v" for prev st
  proof (induction v arbitrary: prev st)
    case (Cons c v)
    obtain ss st' where p: "pretty_step indent prev c st = (ss, st')" by fastforce
    then show ?case using Cons.IH[of c st'] pretty_step_blanks[of indent prev c st] by simp
  qed simp
  moreover have "from_string ref_lexical (to_pretty_string ref_lexical CHR 0x00 (V_array [V_string [CHR 0x09], V_string ''a,b'']) legacy_generator)
     legacy_parser 200 = Some (Inr (V_array [V_string [CHR 0x09], V_string (''a,'' @ [CHR 0x0A] @ ''  b'')]))"
    by code_simp
  ultimately show ?thesis by (simp add: pretty_print_def)
qed

end
