(* ===== verification/Sha256.thy ===== *)
theory Sha256
  imports Wire
begin

text \<open>
  libfc's bundled secp256k1, src/hash_impl.h: SHA-256 as an incremental hash, HMAC-SHA256 over it,
  and the RFC 6979 generator of nonces.

  \<open>s\<close> holds the eight words the code uses of \<open>uint32_t s[32]\<close>, as a list; \<open>buf\<close> is the memory
  image of \<open>uint32_t buf[16]\<close>, 64 bytes, on a little-endian host (the branch of \<open>BE32\<close> that is
  taken when WORDS_BIGENDIAN is not defined). The 64 \<open>Round\<close> lines of the transform are the calls
  \<open>0 \<dots> 63\<close> of \<open>transform_round\<close>: line \<open>t\<close> passes the working variables rotated by \<open>t\<close> places and
  the schedule word \<open>w\<close> with index \<open>t mod 16\<close>. (The last two lines add to \<open>w14\<close> and \<open>w15\<close> without
  storing the sum, which nothing reads afterwards.)
\<close>

section \<open>Macros\<close>

definition Ch :: "u32 \<Rightarrow> u32 \<Rightarrow> u32 \<Rightarrow> u32" where
  "Ch x y z = z XOR (x AND (y XOR z))"

definition Maj :: "u32 \<Rightarrow> u32 \<Rightarrow> u32 \<Rightarrow> u32" where
  "Maj x y z = (x AND y) OR (z AND (x OR y))"

definition Sigma0 :: "u32 \<Rightarrow> u32" where
  "Sigma0 x = (drop_bit 2 x OR push_bit 30 x) XOR (drop_bit 13 x OR push_bit 19 x) XOR (drop_bit 22 x OR push_bit 10 x)"

definition Sigma1 :: "u32 \<Rightarrow> u32" where
  "Sigma1 x = (drop_bit 6 x OR push_bit 26 x) XOR (drop_bit 11 x OR push_bit 21 x) XOR (drop_bit 25 x OR push_bit 7 x)"

definition sigma0 :: "u32 \<Rightarrow> u32" where
  "sigma0 x = (drop_bit 7 x OR push_bit 25 x) XOR (drop_bit 18 x OR push_bit 14 x) XOR (drop_bit 3 x)"

definition sigma1 :: "u32 \<Rightarrow> u32" where
  "sigma1 x = (drop_bit 17 x OR push_bit 15 x) XOR (drop_bit 19 x OR push_bit 13 x) XOR (drop_bit 10 x)"

definition BE32 :: "u32 \<Rightarrow> u32" where
  "BE32 p = push_bit 24 (p AND 0xFF) OR push_bit 8 (p AND 0xFF00) OR drop_bit 8 (p AND 0xFF0000)
     OR drop_bit 24 (p AND 0xFF000000)"

section \<open>The transform\<close>

definition round_constants :: "u32 list" where
  "round_constants =
    [0x428a2f98, 0x71374491, 0xb5c0fbcf, 0xe9b5dba5, 0x3956c25b, 0x59f111f1, 0x923f82a4, 0xab1c5ed5,
     0xd807aa98, 0x12835b01, 0x243185be, 0x550c7dc3, 0x72be5d74, 0x80deb1fe, 0x9bdc06a7, 0xc19bf174,
     0xe49b69c1, 0xefbe4786, 0x0fc19dc6, 0x240ca1cc, 0x2de92c6f, 0x4a7484aa, 0x5cb0a9dc, 0x76f988da,
     0x983e5152, 0xa831c66d, 0xb00327c8, 0xbf597fc7, 0xc6e00bf3, 0xd5a79147, 0x06ca6351, 0x14292967,
     0x27b70a85, 0x2e1b2138, 0x4d2c6dfc, 0x53380d13, 0x650a7354, 0x766a0abb, 0x81c2c92e, 0x92722c85,
     0xa2bfe8a1, 0xa81a664b, 0xc24b8b70, 0xc76c51a3, 0xd192e819, 0xd6990624, 0xf40e3585, 0x106aa070,
     0x19a4c116, 0x1e376c08, 0x2748774c, 0x34b0bcb5, 0x391c0cb3, 0x4ed8aa4a, 0x5b9cca4f, 0x682e6ff3,
     0x748f82ee, 0x78a5636f, 0x84c87814, 0x8cc70208, 0x90befffa, 0xa4506ceb, 0xbef9a3f7, 0xc67178f2]"

text \<open>
  \<open>Round(a,b,c,d,e,f,g,h,k,w)\<close> on the variables named by their positions in \<open>v\<close> (the list of
  \<open>a \<dots> h\<close>): it assigns its fourth and its eighth argument.
\<close>

definition Round ::
  "nat \<Rightarrow> nat \<Rightarrow> nat \<Rightarrow> nat \<Rightarrow> nat \<Rightarrow> nat \<Rightarrow> nat \<Rightarrow> nat \<Rightarrow> u32 \<Rightarrow> u32 \<Rightarrow> u32 list \<Rightarrow> u32 list" where
  "Round a b c d e f g h k w v =
     (let t1 = v ! h + Sigma1 (v ! e) + Ch (v ! e) (v ! f) (v ! g) + k + w;
          t2 = Sigma0 (v ! a) + Maj (v ! a) (v ! b) (v ! c)
      in v[d := v ! d + t1, h := t1 + t2])"

definition chunk_word :: "u8 list \<Rightarrow> nat \<Rightarrow> u32" where
  "chunk_word chunk i = from_le (take 4 (drop (4 * i) chunk))"

definition schedule_word :: "u8 list \<Rightarrow> nat \<Rightarrow> u32 list \<Rightarrow> u32" where
  "schedule_word chunk t w =
     (if t < 16 then BE32 (chunk_word chunk t)
      else w ! (t mod 16) + (sigma1 (w ! ((t + 14) mod 16)) + w ! ((t + 9) mod 16) + sigma0 (w ! ((t + 1) mod 16))))"

definition transform_round :: "u8 list \<Rightarrow> nat \<Rightarrow> u32 list \<times> u32 list \<Rightarrow> u32 list \<times> u32 list" where
  "transform_round chunk t vw =
     (let (v, w) = vw;
          w = w[t mod 16 := schedule_word chunk t w];
          p = (\<lambda>i. (i + 7 * t) mod 8)
      in (Round (p 0) (p 1) (p 2) (p 3) (p 4) (p 5) (p 6) (p 7) (round_constants ! t) (w ! (t mod 16)) v, w))"

definition sha256_transform :: "u32 list \<Rightarrow> u8 list \<Rightarrow> u32 list" where
  "sha256_transform s chunk =
     (let (v, w) = fold (transform_round chunk) [0..<64] (s, replicate 16 0)
      in map2 (+) s v)"

section \<open>The incremental hash\<close>

record sha256_t =
  s :: "u32 list"
  buf :: "u8 list"
  bytes :: u64

definition sha256_initialize :: sha256_t where
  "sha256_initialize = \<lparr>s = [0x6a09e667, 0xbb67ae85, 0x3c6ef372, 0xa54ff53a, 0x510e527f, 0x9b05688c,
     0x1f83d9ab, 0x5be0cd19], buf = replicate 64 0, bytes = 0\<rparr>"

text \<open>
  The loop of \<open>sha256_write\<close>; \<open>data\<close> is what is left to read, \<open>len\<close> its length. The first
  \<open>memcpy\<close> replaces the bytes from \<open>bufsize\<close> on.
\<close>

function sha256_write_loop :: "u32 list \<Rightarrow> u8 list \<Rightarrow> nat \<Rightarrow> u8 list \<Rightarrow> u32 list \<times> u8 list" where
  "sha256_write_loop st b bufsize data =
     (if bufsize + length data \<ge> 64 then
        (let b = take bufsize b @ take (64 - bufsize) data
         in sha256_write_loop (sha256_transform st b) b 0 (drop (64 - bufsize) data))
      else if length data \<noteq> 0 then (st, take bufsize b @ data @ drop (bufsize + length data) b)
      else (st, b))"
  by pat_completeness auto
termination
  by (relation "measure (\<lambda>(st, b, n, data). 2 * length data + (if n = 0 then 0 else 1))") auto

declare sha256_write_loop.simps [simp del]

definition sha256_write :: "sha256_t \<Rightarrow> u8 list \<Rightarrow> sha256_t" where
  "sha256_write hash data =
     (let bufsize = unat (bytes hash AND 0x3F);
          (st, b) = sha256_write_loop (s hash) (buf hash) bufsize data
      in \<lparr>s = st, buf = b, bytes = bytes hash + word_of_nat (length data)\<rparr>)"

definition pad :: "u8 list" where
  "pad = 0x80 # replicate 63 0"

definition sha256_finalize :: "sha256_t \<Rightarrow> u8 list \<times> sha256_t" where
  "sha256_finalize hash =
     (let sizedesc = le_bytes 4 (BE32 (ucast (drop_bit 29 (bytes hash))))
            @ le_bytes 4 (BE32 (ucast (push_bit 3 (bytes hash))));
          n = 1 + ((119 - (unat (bytes hash) mod 64)) mod 64);
          hash = sha256_write hash (take n pad);
          hash = sha256_write hash sizedesc;
          out = concat (map (\<lambda>x. le_bytes 4 (BE32 x)) (s hash))
      in (out, hash\<lparr>s := replicate 8 0\<rparr>))"

section \<open>HMAC\<close>

record hmac_sha256_t =
  inner :: sha256_t
  outer :: sha256_t

definition hmac_sha256_initialize :: "u8 list \<Rightarrow> hmac_sha256_t" where
  "hmac_sha256_initialize key =
     (let rkey = (if length key \<le> 64 then key @ replicate (64 - length key) 0
                  else fst (sha256_finalize (sha256_write sha256_initialize key)) @ replicate 32 0);
          rkey = map (\<lambda>b. b XOR 0x5c) rkey;
          outer = sha256_write sha256_initialize rkey;
          rkey = map (\<lambda>b. b XOR (0x5c XOR 0x36)) rkey;
          inner = sha256_write sha256_initialize rkey
      in \<lparr>inner = inner, outer = outer\<rparr>)"

definition hmac_sha256_write :: "hmac_sha256_t \<Rightarrow> u8 list \<Rightarrow> hmac_sha256_t" where
  "hmac_sha256_write hash data = hash\<lparr>inner := sha256_write (inner hash) data\<rparr>"

definition hmac_sha256_finalize :: "hmac_sha256_t \<Rightarrow> u8 list \<times> hmac_sha256_t" where
  "hmac_sha256_finalize hash =
     (let (temp, i) = sha256_finalize (inner hash);
          (out32, out) = sha256_finalize (sha256_write (outer hash) temp)
      in (out32, \<lparr>inner = i, outer = out\<rparr>))"

section \<open>The RFC 6979 generator\<close>

record rfc6979_t =
  rv :: "u8 list"
  rk :: "u8 list"
  retry :: bool

text \<open>One pass of steps d (\<open>tag\<close> 0) and f (\<open>tag\<close> 1): the two HMAC computations on \<open>k\<close> and \<open>v\<close>.\<close>

definition rfc6979_pass :: "u8 \<Rightarrow> u8 list \<Rightarrow> u8 list \<Rightarrow> u8 list option \<Rightarrow> rfc6979_t \<Rightarrow> rfc6979_t" where
  "rfc6979_pass tag key msg rnd rng =
     (let hmac = hmac_sha256_initialize (rk rng);
          hmac = hmac_sha256_write hmac (rv rng);
          hmac = hmac_sha256_write hmac [tag];
          hmac = hmac_sha256_write hmac key;
          hmac = hmac_sha256_write hmac msg;
          hmac = (case rnd of None \<Rightarrow> hmac
                  | Some r \<Rightarrow> if length r \<noteq> 0 then hmac_sha256_write hmac r else hmac);
          k = fst (hmac_sha256_finalize hmac);
          hmac = hmac_sha256_write (hmac_sha256_initialize k) (rv rng);
          v = fst (hmac_sha256_finalize hmac)
      in rng\<lparr>rk := k, rv := v\<rparr>)"

definition rfc6979_initialize :: "u8 list \<Rightarrow> u8 list \<Rightarrow> u8 list option \<Rightarrow> rfc6979_t" where
  "rfc6979_initialize key msg rnd =
     (let rng = \<lparr>rv = replicate 32 1, rk = replicate 32 0, retry = False\<rparr>;
          rng = rfc6979_pass 0 key msg rnd rng;
          rng = rfc6979_pass 1 key msg rnd rng
      in rng\<lparr>retry := False\<rparr>)"

function rfc6979_generate_loop :: "u8 list \<Rightarrow> u8 list \<Rightarrow> nat \<Rightarrow> u8 list \<times> u8 list" where
  "rfc6979_generate_loop k v outlen =
     (if outlen > 0 then
        (let v = fst (hmac_sha256_finalize (hmac_sha256_write (hmac_sha256_initialize k) v));
             now = (if outlen > 32 then 32 else outlen);
             (out, v') = rfc6979_generate_loop k v (outlen - now)
         in (take now v @ out, v'))
      else ([], v))"
  by pat_completeness auto
termination
  by (relation "measure (\<lambda>(k, v, n). n)") auto

declare rfc6979_generate_loop.simps [simp del]

definition rfc6979_generate :: "rfc6979_t \<Rightarrow> nat \<Rightarrow> u8 list \<times> rfc6979_t" where
  "rfc6979_generate rng outlen =
     (let rng = (if retry rng then
            (let hmac = hmac_sha256_write (hmac_sha256_initialize (rk rng)) (rv rng);
                 k = fst (hmac_sha256_finalize (hmac_sha256_write hmac [0]));
                 v = fst (hmac_sha256_finalize (hmac_sha256_write (hmac_sha256_initialize k) (rv rng)))
             in rng\<lparr>rk := k, rv := v\<rparr>)
          else rng);
          (out, v) = rfc6979_generate_loop (rk rng) (rv rng) outlen
      in (out, rng\<lparr>rv := v, retry := True\<rparr>))"

definition rfc6979_finalize :: "rfc6979_t \<Rightarrow> rfc6979_t" where
  "rfc6979_finalize rng = \<lparr>rv = replicate 32 0, rk = replicate 32 0, retry = False\<rparr>"

end
