(* ===== verification/Hash_Interface.thy ===== *)
theory Hash_Interface
  imports Prelude
begin

text \<open>
  The contract of an incremental hash: a state that absorbs bytes piece by piece and yields the
  hash of their concatenation. SHA-256 and HMAC-SHA256 of hash_impl.h meet it; HMAC and the
  RFC 6979 generator use it.
\<close>

locale streaming_hash =
  fixes init :: 'st
    and put :: "'st \<Rightarrow> u8 list \<Rightarrow> 'st"
    and finish :: "'st \<Rightarrow> u8 list \<times> 'st"
    and absorbs :: "'st \<Rightarrow> u8 list \<Rightarrow> bool"
    and H :: "u8 list \<Rightarrow> u8 list"
  assumes absorbs_init: "absorbs init []"
    and absorbs_write: "absorbs st m \<Longrightarrow> absorbs (put st d) (m @ d)"
    and absorbs_final: "absorbs st m \<Longrightarrow> fst (finish st) = H m"
begin

lemma absorbs_writes: "absorbs st m \<Longrightarrow> absorbs (foldl put st ds) (m @ concat ds)"
proof (induction ds arbitrary: st m)
  case Nil
  then show ?case by simp
next
  case (Cons d ds)
  from Cons.IH[OF absorbs_write[OF Cons.prems]] show ?case by simp
qed

lemma hash_writes: "fst (finish (foldl put init ds)) = H (concat ds)"
  using absorbs_final[OF absorbs_writes[OF absorbs_init]] by simp

lemma hash_write: "fst (finish (put init d)) = H d"
  using hash_writes[of "[d]"] by simp

text \<open>How the bytes are cut into pieces does not matter.\<close>

lemma hash_cut_irrelevant:
  "concat ds = concat es \<Longrightarrow> fst (finish (foldl put init ds)) = fst (finish (foldl put init es))"
  by (simp add: hash_writes)

end

end
