(* ===== verification/Sha256_Spec.thy ===== *)
theory Sha256_Spec
  imports Sha256 Hash_Interface
begin

text \<open>
  SHA-256, HMAC and the RFC 6979 generator as their standards state them, on whole messages, and
  the proof that the incremental code of hash_impl.h computes them.
\<close>

section \<open>SHA-256 on whole messages\<close>

definition be_word :: "u8 list \<Rightarrow> u32" where
  "be_word bs = foldl (\<lambda>w b. push_bit 8 w OR ucast b) 0 bs"

definition be_bytes :: "nat \<Rightarrow> 'a::len word \<Rightarrow> u8 list" where
  "be_bytes n w = rev (le_bytes n w)"

definition fips_Ch :: "u32 \<Rightarrow> u32 \<Rightarrow> u32 \<Rightarrow> u32" where
  "fips_Ch x y z = (x AND y) XOR (NOT x AND z)"

definition fips_Maj :: "u32 \<Rightarrow> u32 \<Rightarrow> u32 \<Rightarrow> u32" where
  "fips_Maj x y z = (x AND y) XOR (x AND z) XOR (y AND z)"

definition fips_Sigma0 :: "u32 \<Rightarrow> u32" where
  "fips_Sigma0 x = word_rotr 2 x XOR word_rotr 13 x XOR word_rotr 22 x"

definition fips_Sigma1 :: "u32 \<Rightarrow> u32" where
  "fips_Sigma1 x = word_rotr 6 x XOR word_rotr 11 x XOR word_rotr 25 x"

definition fips_sigma0 :: "u32 \<Rightarrow> u32" where
  "fips_sigma0 x = word_rotr 7 x XOR word_rotr 18 x XOR drop_bit 3 x"

definition fips_sigma1 :: "u32 \<Rightarrow> u32" where
  "fips_sigma1 x = word_rotr 17 x XOR word_rotr 19 x XOR drop_bit 10 x"

fun fips_W :: "u8 list \<Rightarrow> nat \<Rightarrow> u32" where
  "fips_W M t =
     (if t < 16 then be_word (take 4 (drop (4 * t) M))
      else fips_sigma1 (fips_W M (t - 2)) + fips_W M (t - 7) + fips_sigma0 (fips_W M (t - 15)) + fips_W M (t - 16))"

declare fips_W.simps [simp del]

fun fips_step :: "u32 \<Rightarrow> u32 \<Rightarrow> u32 list \<Rightarrow> u32 list" where
  "fips_step K W [a, b, c, d, e, f, g, h] =
     (let T1 = h + fips_Sigma1 e + fips_Ch e f g + K + W;
          T2 = fips_Sigma0 a + fips_Maj a b c
      in [T1 + T2, a, b, c, d + T1, e, f, g])"
| "fips_step K W v = v"

definition fips_compress :: "u32 list \<Rightarrow> u8 list \<Rightarrow> u32 list" where
  "fips_compress H M = map2 (+) H (fold (\<lambda>t. fips_step (round_constants ! t) (fips_W M t)) [0..<64] H)"

fun blocks :: "u8 list \<Rightarrow> u8 list list" where
  "blocks m = (if length m < 64 then [] else take 64 m # blocks (drop 64 m))"

declare blocks.simps [simp del]

definition fips_pad :: "u8 list \<Rightarrow> u8 list" where
  "fips_pad m = m @ [0x80] @ replicate ((119 - length m mod 64) mod 64) 0
     @ be_bytes 8 (word_of_nat (8 * length m) :: u64)"

definition fips_sha256 :: "u8 list \<Rightarrow> u8 list" where
  "fips_sha256 m = concat (map (be_bytes 4) (foldl fips_compress (s sha256_initialize) (blocks (fips_pad m))))"

section \<open>The macros\<close>

lemma rot_eq_rotr:
  assumes "0 < n" "n < 32"
  shows "drop_bit n x OR push_bit (32 - n) x = word_rotr n (x :: u32)"
proof (rule bit_word_eqI)
  have out: "\<not> bit x j" if "32 \<le> j" for j using that bit_imp_le_length[of x j] by auto
  fix i assume i: "i < LENGTH(32)"
  have "bit (drop_bit n x) i = bit x (i + n)" by (simp add: bit_simps add.commute)
  moreover have "bit (push_bit (32 - n) x) i \<longleftrightarrow> 32 \<le> i + n \<and> bit x (i + n - 32)"
    using assms i by (auto simp: bit_simps)
  moreover have "(i + n) mod 32 = (if i + n < 32 then i + n else i + n - 32)"
    using assms i by (simp add: mod_if)
  then have "bit (word_rotr n x) i = (if i + n < 32 then bit x (i + n) else bit x (i + n - 32))"
    using i by (simp add: bit_word_rotr_iff)
  ultimately show "bit (drop_bit n x OR push_bit (32 - n) x) i = bit (word_rotr n x) i"
    using out[of "i + n"] by (simp add: bit_or_iff)
qed

lemma Ch_eq: "Ch x y z = fips_Ch x y z"
  unfolding Ch_def fips_Ch_def by (rule bit_word_eqI) (auto simp: bit_simps)

lemma Maj_eq: "Maj x y z = fips_Maj x y z"
  unfolding Maj_def fips_Maj_def by (rule bit_word_eqI) (auto simp: bit_simps)

lemma Sigma_eq:
  "Sigma0 x = fips_Sigma0 x" "Sigma1 x = fips_Sigma1 x" "sigma0 x = fips_sigma0 x" "sigma1 x = fips_sigma1 x"
  using rot_eq_rotr[of 2 x] rot_eq_rotr[of 13 x] rot_eq_rotr[of 22 x] rot_eq_rotr[of 6 x] rot_eq_rotr[of 11 x]
    rot_eq_rotr[of 25 x] rot_eq_rotr[of 7 x] rot_eq_rotr[of 18 x] rot_eq_rotr[of 17 x] rot_eq_rotr[of 19 x]
  by (simp_all only: Sigma0_def Sigma1_def sigma0_def sigma1_def fips_Sigma0_def fips_Sigma1_def
      fips_sigma0_def fips_sigma1_def) simp_all

lemma bit_BE32:
  assumes "i < 32"
  shows "bit (BE32 p) i = bit p (if i < 8 then i + 24 else if i < 16 then i + 8 else if i < 24 then i - 8 else i - 24)"
proof -
  have masks: "(0xFF :: u32) = mask 8" "(0xFF00 :: u32) = push_bit 8 (mask 8)"
    "(0xFF0000 :: u32) = push_bit 16 (mask 8)" "(0xFF000000 :: u32) = push_bit 24 (mask 8)"
    by (simp_all add: mask_eq_exp_minus_1 push_bit_eq_mult)
  have "bit (push_bit 24 (p AND mask 8)) i \<longleftrightarrow> 24 \<le> i \<and> bit p (i - 24)"
    "bit (push_bit 8 (p AND push_bit 8 (mask 8))) i \<longleftrightarrow> 16 \<le> i \<and> i < 24 \<and> bit p (i - 8)"
    "bit (drop_bit 8 (p AND push_bit 16 (mask 8))) i \<longleftrightarrow> 8 \<le> i \<and> i < 16 \<and> bit p (i + 8)"
    "bit (drop_bit 24 (p AND push_bit 24 (mask 8))) i \<longleftrightarrow> i < 8 \<and> bit p (i + 24)"
    using assms by (auto simp: bit_simps add.commute)
  then show ?thesis unfolding BE32_def masks bit_or_iff by auto
qed

lemma bit_from_le4:
  assumes "i < 32"
  shows "bit (from_le [b0, b1, b2, b3] :: u32) i \<longleftrightarrow>
    (if i < 8 then bit b0 i else if i < 16 then bit b1 (i - 8) else if i < 24 then bit b2 (i - 16) else bit b3 (i - 24))"
proof -
  have out: "\<not> bit b j" if "8 \<le> j" for b :: u8 and j using that bit_imp_le_length[of b j] by auto
  show ?thesis using assms out[of "i" b0] out[of "i - 8" b1] out[of "i - 16" b2]
    by (auto simp: bit_simps)
qed

lemma bit_be_word4:
  assumes "i < 32"
  shows "bit (be_word [b0, b1, b2, b3]) i \<longleftrightarrow>
    (if i < 8 then bit b3 i else if i < 16 then bit b2 (i - 8) else if i < 24 then bit b1 (i - 16) else bit b0 (i - 24))"
proof -
  have out: "\<not> bit b j" if "8 \<le> j" for b :: u8 and j using that bit_imp_le_length[of b j] by auto
  show ?thesis using assms out[of "i" b3] out[of "i - 8" b2] out[of "i - 16" b1]
    by (auto simp: be_word_def bit_simps)
qed

lemma BE32_from_le: "BE32 (from_le [b0, b1, b2, b3]) = be_word [b0, b1, b2, b3]"
  by (rule bit_word_eqI) (auto simp: bit_BE32 bit_from_le4 bit_be_word4 simp del: from_le.simps)

lemma bit_ucast_byte: "bit (ucast (x :: u32) :: u8) j \<longleftrightarrow> j < 8 \<and> bit x j"
  by (auto simp: bit_simps)

lemma le_bytes_BE32: "le_bytes 4 (BE32 x) = be_bytes 4 x"
proof -
  have byte: "(ucast (drop_bit m (BE32 x)) :: u8) = ucast (drop_bit (24 - m) x)" if "m \<in> {0, 8, 16, 24}" for m
  proof (rule bit_word_eqI)
    fix j assume "j < LENGTH(8)"
    with that show "bit (ucast (drop_bit m (BE32 x)) :: u8) j = bit (ucast (drop_bit (24 - m) x) :: u8) j"
      by (auto simp: bit_ucast_byte bit_drop_bit_eq bit_BE32 add.commute)
  qed
  show ?thesis
    using byte[of 0] byte[of 8] byte[of 16] byte[of 24]
    by (simp add: be_bytes_def eval_nat_numeral)
qed

section \<open>The transform is the compression function\<close>

text \<open>
  The unrolled code renames its variables instead of moving them: before line \<open>t\<close> the standard's
  working variable \<open>i\<close> is the code's variable \<open>(i + 7 t) mod 8\<close>. The schedule is kept in a ring
  of 16 words: before line \<open>t\<close>, entry \<open>j mod 16\<close> is \<open>W j\<close> for the last 16 values \<open>j < t\<close>.
\<close>

definition rotated :: "nat \<Rightarrow> u32 list \<Rightarrow> u32 list" where
  "rotated t v = map (\<lambda>i. v ! ((i + 7 * t) mod 8)) [0..<8]"

lemma rotated_simp:
  "rotated t v = [v ! ((0 + 7 * t) mod 8), v ! ((1 + 7 * t) mod 8), v ! ((2 + 7 * t) mod 8), v ! ((3 + 7 * t) mod 8),
     v ! ((4 + 7 * t) mod 8), v ! ((5 + 7 * t) mod 8), v ! ((6 + 7 * t) mod 8), v ! ((7 + 7 * t) mod 8)]"
  by (simp add: rotated_def upt_rec)

lemma Round_step:
  fixes t :: nat
  assumes "length v = 8"
  defines "p \<equiv> \<lambda>i::nat. (i + 7 * t) mod 8"
  shows "rotated (Suc t) (Round (p 0) (p 1) (p 2) (p 3) (p 4) (p 5) (p 6) (p 7) k w v) = fips_step k w (rotated t v)"
proof -
  have fall: "(i + 7 * t) mod 8 = (i + 7 * (t mod 8)) mod 8" for i
    by (metis mod_add_right_eq mod_mult_right_eq)
  have succ: "(i + 7 * Suc t) mod 8 = (i + 7 + 7 * (t mod 8)) mod 8" for i
    using fall[of "i + 7"] by (simp add: add.assoc add.left_commute)
  obtain a b c d e f g h where v: "v = [a, b, c, d, e, f, g, h]"
    using length8E[OF assms(1)] .
  have "t mod 8 < 8" by simp
  then consider "t mod 8 = 0" | "t mod 8 = 1" | "t mod 8 = 2" | "t mod 8 = 3" | "t mod 8 = 4"
    | "t mod 8 = 5" | "t mod 8 = 6" | "t mod 8 = 7" by linarith
  then show ?thesis
    by cases (simp_all only: p_def rotated_simp fall succ, simp_all add: v Round_def Let_def
        Ch_eq Maj_eq Sigma_eq)
qed

definition ring :: "u8 list \<Rightarrow> nat \<Rightarrow> u32 list \<Rightarrow> bool" where
  "ring M t w \<longleftrightarrow> length w = 16 \<and> (\<forall>j < t. t \<le> j + 16 \<longrightarrow> w ! (j mod 16) = fips_W M j)"

lemma schedule_word_eq:
  assumes "ring M t w" "length M = 64" "t < 64"
  shows "schedule_word M t w = fips_W M t"
proof (cases "t < 16")
  case True
  then have "4 * t + 4 \<le> length M" using assms(2) by simp
  then have "length (take 4 (drop (4 * t) M)) = 4" by simp
  then obtain b0 b1 b2 b3 where "take 4 (drop (4 * t) M) = [b0, b1, b2, b3]" by (rule length4E)
  with True show ?thesis
    by (simp add: schedule_word_def chunk_word_def fips_W.simps BE32_from_le del: from_le.simps)
next
  case False
  then obtain u where u: "t = u + 16" by (metis add.commute le_Suc_ex not_less)
  have m: "(t + 14) mod 16 = (t - 2) mod 16" "(t + 9) mod 16 = (t - 7) mod 16"
    "(t + 1) mod 16 = (t - 15) mod 16" "t mod 16 = (t - 16) mod 16"
    using mod_add_self2[of "u + 14" 16] mod_add_self2[of "u + 9" 16] mod_add_self2[of "u + 1" 16]
    by (simp_all add: u add.commute)
  have W: "w ! ((t - n) mod 16) = fips_W M (t - n)" if "0 < n" "n \<le> 16" for n
    using assms(1) that False by (auto simp: ring_def)
  have "schedule_word M t w = fips_W M (t - 16) + (sigma1 (fips_W M (t - 2)) + fips_W M (t - 7)
      + sigma0 (fips_W M (t - 15)))"
    using False W[of 2] W[of 7] W[of 15] W[of 16] by (simp add: schedule_word_def m m(3)[simplified])
  with False show ?thesis by (subst fips_W.simps) (simp add: Sigma_eq)
qed

lemma ring_update:
  assumes "ring M t w" "x = fips_W M t"
  shows "ring M (Suc t) (w[t mod 16 := x])"
  unfolding ring_def
proof (intro conjI allI impI)
  show "length (w[t mod 16 := x]) = 16" using assms(1) by (simp add: ring_def)
  fix j assume j: "j < Suc t" "Suc t \<le> j + 16"
  show "w[t mod 16 := x] ! (j mod 16) = fips_W M j"
  proof (cases "j = t")
    case True
    with assms show ?thesis by (simp add: ring_def)
  next
    case False
    with j have "\<not> 16 dvd t - j" by (auto dest: dvd_imp_le)
    with False j have "j mod 16 \<noteq> t mod 16" by (metis less_Suc_eq_le mod_eq_dvd_iff_nat)
    with False j assms show ?thesis by (simp add: ring_def)
  qed
qed

lemma transform_rounds:
  assumes "length M = 64" "length H = 8" "n \<le> 64"
  shows "\<exists>v w. fold (transform_round M) [0..<n] (H, replicate 16 0) = (v, w) \<and> length v = 8 \<and> ring M n w \<and>
    rotated n v = fold (\<lambda>t. fips_step (round_constants ! t) (fips_W M t)) [0..<n] H"
  using assms(3)
proof (induction n)
  case 0
  obtain a b c d e f g h where "H = [a, b, c, d, e, f, g, h]" using length8E[OF assms(2)] .
  then show ?case by (simp add: rotated_simp ring_def)
next
  case (Suc n)
  then obtain v w where IH: "fold (transform_round M) [0..<n] (H, replicate 16 0) = (v, w)" "length v = 8"
    "ring M n w" "rotated n v = fold (\<lambda>t. fips_step (round_constants ! t) (fips_W M t)) [0..<n] H" by auto
  let ?w = "w[n mod 16 := fips_W M n]"
  have sw: "schedule_word M n w = fips_W M n" using schedule_word_eq[OF IH(3) assms(1)] Suc.prems by simp
  have rg: "ring M (Suc n) ?w" by (rule ring_update[OF IH(3) refl])
  have at: "?w ! (n mod 16) = fips_W M n" using IH(3) by (simp add: ring_def)
  obtain v' where v': "transform_round M n (v, w) = (v', ?w)"
      "rotated (Suc n) v' = fips_step (round_constants ! n) (fips_W M n) (rotated n v)" "length v' = 8"
    using Round_step[OF IH(2), of n] IH(2) sw at by (auto simp: transform_round_def Let_def Round_def)
  then show ?case using IH rg by auto
qed

lemma transform_eq:
  assumes "length M = 64" "length H = 8"
  shows "sha256_transform H M = fips_compress H M"
proof -
  obtain v w where vw: "fold (transform_round M) [0..<64] (H, replicate 16 0) = (v, w)" "length v = 8"
      "rotated 64 v = fold (\<lambda>t. fips_step (round_constants ! t) (fips_W M t)) [0..<64] H"
    using transform_rounds[OF assms, of 64] by auto
  obtain a b c d e f g h where "v = [a, b, c, d, e, f, g, h]" using length8E[OF vw(2)] .
  then have "rotated 64 v = v" by (simp add: rotated_simp)
  with vw show ?thesis by (simp add: sha256_transform_def fips_compress_def del: upt.simps)
qed

section \<open>Incremental hashing\<close>

fun rest :: "u8 list \<Rightarrow> u8 list" where
  "rest m = (if length m < 64 then m else rest (drop 64 m))"

declare rest.simps [simp del]

lemma length_rest: "length (rest m) = length m mod 64"
  by (induction m rule: rest.induct) (subst rest.simps, auto simp: le_mod_geq)

lemma rest_short [simp]: "length m < 64 \<Longrightarrow> rest m = m" "length m < 64 \<Longrightarrow> blocks m = []"
  by (simp_all add: rest.simps blocks.simps)

lemma blocks_append: "blocks (m @ d) = blocks m @ blocks (rest m @ d)"
proof (induction m rule: rest.induct)
  case (1 m)
  show ?case
  proof (cases "length m < 64")
    case False
    then have "blocks (m @ d) = take 64 m # blocks (drop 64 m @ d)" by (simp add: blocks.simps[of "m @ d"])
    moreover have "blocks m = take 64 m # blocks (drop 64 m)" "rest m = rest (drop 64 m)"
      using False by (simp_all add: blocks.simps[of m] rest.simps[of m])
    ultimately show ?thesis using 1[OF False] by simp
  qed simp
qed

lemma rest_append: "rest (m @ d) = rest (rest m @ d)"
proof (induction m rule: rest.induct)
  case (1 m)
  show ?case
  proof (cases "length m < 64")
    case False
    then have "rest (m @ d) = rest (drop 64 m @ d)" by (subst rest.simps) simp
    moreover from False have "rest m = rest (drop 64 m)" by (subst rest.simps) simp
    ultimately show ?thesis using 1[OF False] by simp
  qed simp
qed

lemma length_fips_compress [simp]: "length H = 8 \<Longrightarrow> length (fips_compress H M) = 8"
proof -
  have step: "length v = 8 \<Longrightarrow> length (fips_step k w v) = 8" for k w v
    by (erule length8E) (simp add: Let_def)
  have "length v = 8 \<Longrightarrow> length (fold (\<lambda>t. fips_step (round_constants ! t) (fips_W M t)) ts v) = 8" for ts v
    by (induction ts arbitrary: v) (simp_all add: step)
  then show "length H = 8 \<Longrightarrow> length (fips_compress H M) = 8" by (simp add: fips_compress_def del: upt.simps)
qed

lemma length_fold_compress [simp]: "length H = 8 \<Longrightarrow> length (foldl fips_compress H bs) = 8"
  by (induction bs arbitrary: H) simp_all

lemma write_loop:
  assumes "n < 64" "length b = 64" "length st = 8"
  shows "\<exists>b'. sha256_write_loop st b n data = (foldl fips_compress st (blocks (take n b @ data)), b') \<and>
    length b' = 64 \<and> take (length (rest (take n b @ data))) b' = rest (take n b @ data)"
  using assms
proof (induction st b n data rule: sha256_write_loop.induct)
  case (1 st b n data)
  let ?p = "take n b @ data"
  show ?case
  proof (cases "n + length data \<ge> 64")
    case True
    let ?b = "take n b @ take (64 - n) data"
    have b: "length ?b = 64" "take 64 ?p = ?b" "drop 64 ?p = drop (64 - n) data" "\<not> length ?p < 64"
      using True "1.prems" by simp_all
    have st: "sha256_transform st ?b = fips_compress st ?b" using transform_eq[OF b(1)] "1.prems" by simp
    have "blocks ?p = ?b # blocks (drop (64 - n) data)" "rest ?p = rest (drop (64 - n) data)"
      by (simp_all only: blocks.simps[of ?p] rest.simps[of ?p] b if_False)
    with "1.IH"[OF True refl] True b(1) st "1.prems" show ?thesis
      by (subst sha256_write_loop.simps) (simp add: Let_def)
  next
    case False
    with "1.prems" show ?thesis
      by (subst sha256_write_loop.simps) simp
  qed
qed

definition absorbed :: "sha256_t \<Rightarrow> u8 list \<Rightarrow> bool" where
  "absorbed h m \<longleftrightarrow> s h = foldl fips_compress (s sha256_initialize) (blocks m) \<and> length (buf h) = 64 \<and>
     take (length (rest m)) (buf h) = rest m \<and> bytes h = word_of_nat (length m)"

lemma length_init [simp]: "length (s sha256_initialize) = 8" by (simp add: sha256_initialize_def)

lemma absorbed_initialize: "absorbed sha256_initialize []"
  by (simp add: absorbed_def) (simp add: sha256_initialize_def)

lemma bufsize_eq: "unat (word_of_nat n AND 0x3F :: u64) = n mod 64"
proof -
  have "(0x3F :: u64) = mask 6" by (simp add: mask_eq_exp_minus_1)
  then have "unat (word_of_nat n AND 0x3F :: u64) = unat (take_bit 6 (word_of_nat n :: u64))"
    by (simp only: take_bit_eq_mask)
  also have "\<dots> = take_bit 6 (take_bit LENGTH(64) n)" by (simp only: unsigned_take_bit_eq unsigned_of_nat of_nat_id)
  also have "\<dots> = n mod 64" by (simp only: take_bit_take_bit) (simp add: take_bit_eq_mod)
  finally show ?thesis .
qed

lemma absorbed_write:
  assumes "absorbed h m"
  shows "absorbed (sha256_write h d) (m @ d)"
proof -
  from assms have a: "s h = foldl fips_compress (s sha256_initialize) (blocks m)" "length (buf h) = 64"
      "take (length (rest m)) (buf h) = rest m" "bytes h = word_of_nat (length m)"
    by (simp_all add: absorbed_def)
  have n: "unat (word_of_nat (length m) AND 0x3F :: u64) = length (rest m)"
    by (simp only: bufsize_eq length_rest)
  have "length (rest m) < 64" by (simp add: length_rest)
  from write_loop[OF this a(2), of "s h" d] a obtain b' where
    "sha256_write_loop (s h) (buf h) (length (rest m)) d = (foldl fips_compress (s h) (blocks (rest m @ d)), b')"
    "length b' = 64" "take (length (rest (rest m @ d))) b' = rest (rest m @ d)"
    by auto
  then show ?thesis
    using a by (simp add: absorbed_def sha256_write_def n blocks_append[of m] rest_append[of m])
qed

lemma sizedesc_eq:
  "le_bytes 4 (BE32 (ucast (drop_bit 29 (b :: u64)))) @ le_bytes 4 (BE32 (ucast (push_bit 3 b)))
     = be_bytes 8 (push_bit 3 b)"
proof -
  have byte: "(ucast (drop_bit k (ucast w :: u32)) :: u8) = ucast (drop_bit k w)" if "k \<le> 24" for k and w :: u64
    using that by (intro bit_word_eqI) (auto simp: bit_simps)
  have le: "le_bytes 4 (ucast w :: u32) = le_bytes 4 w" for w :: u64
    using byte[of 0 w] byte[of 8 w] byte[of 16 w] byte[of 24 w] by (simp add: le_bytes_4)
  have hi: "(ucast (drop_bit 29 b) :: u32) = ucast (drop_bit 32 (push_bit 3 b))"
    by (rule bit_word_eqI) (auto simp: bit_simps add.commute)
  have split: "le_bytes 8 w = le_bytes 4 w @ le_bytes 4 (drop_bit 32 w)" for w :: u64
    using le_bytes_add[of 4 4 w] by simp
  show ?thesis by (simp only: le_bytes_BE32 hi be_bytes_def le split rev_append)
qed

lemma absorbed_finalize:
  assumes "absorbed h m"
  shows "fst (sha256_finalize h) = fips_sha256 m"
proof -
  let ?z = "(119 - length m mod 64) mod 64"
  from assms have bytes: "bytes h = word_of_nat (length m)" by (simp add: absorbed_def)
  have r: "unat (bytes h) mod 64 = length m mod 64"
    by (simp add: bytes unat_of_nat take_bit_eq_mod mod_mod_cancel)
  have pad: "take (1 + ?z) pad = 0x80 # replicate ?z 0"
    by (simp add: pad_def min_def)
  have len: "push_bit 3 (bytes h) = (word_of_nat (8 * length m) :: u64)"
    by (simp add: bytes push_bit_eq_mult mult.commute)
  have "absorbed (sha256_write (sha256_write h (take (1 + ?z) pad)) (be_bytes 8 (push_bit 3 (bytes h))))
      ((m @ take (1 + ?z) pad) @ be_bytes 8 (push_bit 3 (bytes h)))"
    by (intro absorbed_write assms)
  moreover have "(m @ take (1 + ?z) pad) @ be_bytes 8 (push_bit 3 (bytes h)) = fips_pad m"
    by (simp only: pad len fips_pad_def append_assoc append_Cons append_Nil)
  moreover have "fst (sha256_finalize h) = concat (map (\<lambda>x. le_bytes 4 (BE32 x))
      (s (sha256_write (sha256_write h (take (1 + ?z) pad)) (be_bytes 8 (push_bit 3 (bytes h))))))"
    by (simp only: sha256_finalize_def Let_def r sizedesc_eq fst_conv)
  ultimately show ?thesis by (simp only: absorbed_def fips_sha256_def le_bytes_BE32)
qed

interpretation sha256: streaming_hash sha256_initialize sha256_write sha256_finalize absorbed fips_sha256
  by unfold_locales (simp_all add: absorbed_initialize absorbed_write absorbed_finalize)

text \<open>
  C17. The incremental SHA-256 computes the standard's function: for every way of cutting a
  message into the pieces of successive \<open>sha256_write\<close> calls, \<open>sha256_finalize\<close> returns the hash
  of the padded message under the compression function with the sixteen-to-sixty-four schedule.
\<close>
theorem sha256_computes_fips:
  "fst (sha256_finalize (foldl sha256_write sha256_initialize ds)) = fips_sha256 (concat ds)"
  by (rule sha256.hash_writes)

section \<open>HMAC on whole messages\<close>

definition hmac_block_key :: "u8 list \<Rightarrow> u8 list" where
  "hmac_block_key key =
     (if length key \<le> 64 then key @ replicate (64 - length key) 0 else fips_sha256 key @ replicate 32 0)"

definition hmac_spec :: "u8 list \<Rightarrow> u8 list \<Rightarrow> u8 list" where
  "hmac_spec key m =
     fips_sha256 (map (\<lambda>b. b XOR 0x5c) (hmac_block_key key)
       @ fips_sha256 (map (\<lambda>b. b XOR 0x36) (hmac_block_key key) @ m))"

definition hmac_absorbed :: "u8 list \<Rightarrow> hmac_sha256_t \<Rightarrow> u8 list \<Rightarrow> bool" where
  "hmac_absorbed key h m \<longleftrightarrow>
     absorbed (inner h) (map (\<lambda>b. b XOR 0x36) (hmac_block_key key) @ m) \<and>
     absorbed (outer h) (map (\<lambda>b. b XOR 0x5c) (hmac_block_key key))"

lemma xor_opad_ipad: "((b :: u8) XOR 0x5c) XOR (0x5c XOR 0x36) = b XOR 0x36"
  by (simp add: xor.assoc flip: xor.assoc[of "0x5c" "0x5c" "0x36"])

lemma hmac_initialize_absorbed: "hmac_absorbed key (hmac_sha256_initialize key) []"
proof -
  have "hmac_sha256_initialize key =
     \<lparr>inner = sha256_write sha256_initialize (map (\<lambda>b. b XOR 0x36) (hmac_block_key key)),
      outer = sha256_write sha256_initialize (map (\<lambda>b. b XOR 0x5c) (hmac_block_key key))\<rparr>"
    by (simp only: hmac_sha256_initialize_def Let_def sha256.hash_write map_map comp_def xor_opad_ipad
        hmac_block_key_def)
  with absorbed_write[OF absorbed_initialize] show ?thesis by (simp add: hmac_absorbed_def)
qed

interpretation hmac: streaming_hash "hmac_sha256_initialize key" hmac_sha256_write hmac_sha256_finalize
  "hmac_absorbed key" "hmac_spec key" for key
proof unfold_locales
  show "hmac_absorbed key (hmac_sha256_initialize key) []" by (rule hmac_initialize_absorbed)
  fix st m d assume a: "hmac_absorbed key st m"
  with absorbed_write[of "inner st" "map (\<lambda>b. b XOR 0x36) (hmac_block_key key) @ m" d] show "hmac_absorbed key (hmac_sha256_write st d) (m @ d)"
    by (auto simp: hmac_absorbed_def hmac_sha256_write_def)
  from a have "fst (sha256_finalize (inner st)) = fips_sha256 (map (\<lambda>b. b XOR 0x36) (hmac_block_key key) @ m)"
    by (simp add: hmac_absorbed_def absorbed_finalize)
  moreover have "fst (sha256_finalize (sha256_write (outer st) t))
      = fips_sha256 (map (\<lambda>b. b XOR 0x5c) (hmac_block_key key) @ t)" for t
    using a by (intro absorbed_finalize absorbed_write) (simp add: hmac_absorbed_def)
  ultimately show "fst (hmac_sha256_finalize st) = hmac_spec key m"
    by (simp add: hmac_sha256_finalize_def hmac_spec_def case_prod_beta)
qed

text \<open>
  C31. The incremental HMAC computes HMAC-SHA256 of the whole message for every key and every
  cutting of the message, including keys longer than a block, which are hashed first.
\<close>
theorem hmac_computes_spec:
  "fst (hmac_sha256_finalize (foldl hmac_sha256_write (hmac_sha256_initialize key) ds)) = hmac_spec key (concat ds)"
  by (rule hmac.hash_writes)

section \<open>The RFC 6979 generator on whole inputs\<close>

definition rfc_extra :: "u8 list option \<Rightarrow> u8 list" where
  "rfc_extra rnd = (case rnd of None \<Rightarrow> [] | Some r \<Rightarrow> r)"

definition rfc_pass :: "u8 \<Rightarrow> u8 list \<Rightarrow> u8 list \<times> u8 list \<Rightarrow> u8 list \<times> u8 list" where
  "rfc_pass tag seed kv =
     (let (K, V) = kv; K = hmac_spec K (V @ [tag] @ seed) in (K, hmac_spec K V))"

primrec rfc_blocks :: "nat \<Rightarrow> u8 list \<Rightarrow> u8 list \<Rightarrow> u8 list list" where
  "rfc_blocks 0 K V = []"
| "rfc_blocks (Suc n) K V = hmac_spec K V # rfc_blocks n K (hmac_spec K V)"

lemma length_fips_sha256: "length (fips_sha256 m) = 32"
proof -
  have "length (concat (map (be_bytes 4) xs)) = 4 * length (xs :: u32 list)" for xs
    by (induction xs) (simp_all add: be_bytes_def)
  then show ?thesis by (simp add: fips_sha256_def)
qed

lemma length_hmac_spec [simp]: "length (hmac_spec key m) = 32"
  by (simp add: hmac_spec_def length_fips_sha256)

lemma hmac_three: "fst (hmac_sha256_finalize (hmac_sha256_write (hmac_sha256_write (hmac_sha256_initialize k) a) b))
    = hmac_spec k (a @ b)"
  using hmac.hash_writes[of k "[a, b]"] by simp

lemma rfc6979_pass_eq:
  "rfc6979_pass tag key msg rnd rng =
     (let (K, V) = rfc_pass tag (key @ msg @ rfc_extra rnd) (rk rng, rv rng) in rng\<lparr>rk := K, rv := V\<rparr>)"
proof -
  let ?h = "hmac_sha256_write (hmac_sha256_write (hmac_sha256_write (hmac_sha256_write
    (hmac_sha256_initialize (rk rng)) (rv rng)) [tag]) key) msg"
  have "fst (hmac_sha256_finalize (case rnd of None \<Rightarrow> ?h
      | Some r \<Rightarrow> if length r \<noteq> 0 then hmac_sha256_write ?h r else ?h))
      = hmac_spec (rk rng) (rv rng @ [tag] @ key @ msg @ rfc_extra rnd)"
    using hmac.hash_writes[of "rk rng" "[rv rng, [tag], key, msg]"]
      hmac.hash_writes[of "rk rng" "[rv rng, [tag], key, msg, the rnd]"]
    by (cases rnd) (simp_all add: rfc_extra_def)
  then show ?thesis
    by (simp only: rfc6979_pass_def rfc_pass_def Let_def hmac.hash_write case_prod_conv)
qed

lemma rfc6979_generate_loop_eq:
  "rfc6979_generate_loop k v n =
     (take n (concat (rfc_blocks ((n + 31) div 32) k v)), last (v # rfc_blocks ((n + 31) div 32) k v))"
proof (induction k v n rule: rfc6979_generate_loop.induct)
  case (1 k v n)
  show ?case
  proof (cases "n > 0")
    case True
    let ?now = "if n > 32 then 32 else n"
    from True have d: "(n + 31) div 32 = Suc ((n - ?now + 31) div 32)" by (auto simp: div_if)
    have IH: "rfc6979_generate_loop k (hmac_spec k v) (n - ?now) =
        (take (n - ?now) (concat (rfc_blocks ((n - ?now + 31) div 32) k (hmac_spec k v))),
         last (hmac_spec k v # rfc_blocks ((n - ?now + 31) div 32) k (hmac_spec k v)))"
      using "1.IH"[OF True refl refl] by (simp only: hmac.hash_write)
    show ?thesis
      using True
      by (subst rfc6979_generate_loop.simps)
         (simp only: hmac.hash_write Let_def IH d rfc_blocks.simps if_True split, simp add: take_append)
  qed (subst rfc6979_generate_loop.simps, simp)
qed

text \<open>
  The nonce generator follows RFC 6979, section 3.2: after initialisation with a key, a
  message and optional extra data, the first request of \<open>n\<close> bytes returns the first \<open>n\<close> bytes of
  the stream V, HMAC_K(V), ... for the K and V that steps b to f derive.
\<close>
theorem rfc6979_first_output:
  "fst (rfc6979_generate (rfc6979_initialize key msg rnd) n) =
     (let (K, V) = rfc_pass 1 (key @ msg @ rfc_extra rnd)
          (rfc_pass 0 (key @ msg @ rfc_extra rnd) (replicate 32 0, replicate 32 1))
      in take n (concat (rfc_blocks ((n + 31) div 32) K V)))"
  by (simp add: rfc6979_generate_def rfc6979_initialize_def rfc6979_pass_eq rfc6979_generate_loop_eq
      Let_def split: prod.splits)

text \<open>
  A repeated request re-keys first, as section 3.2.h prescribes for a rejected nonce: K becomes
  HMAC_K(V || 0x00), V becomes HMAC_K(V), and the output is the stream of the new K and V.
\<close>
theorem rfc6979_retry_output:
  "fst (rfc6979_generate (snd (rfc6979_generate rng n)) m) =
     (let rng' = snd (rfc6979_generate rng n);
          K = hmac_spec (rk rng') (rv rng' @ [0]); V = hmac_spec K (rv rng')
      in take m (concat (rfc_blocks ((m + 31) div 32) K V)))"
proof -
  have "retry (snd (rfc6979_generate rng n))"
    by (simp add: rfc6979_generate_def case_prod_beta Let_def)
  moreover have "fst (rfc6979_generate r m) =
     (let K = hmac_spec (rk r) (rv r @ [0]); V = hmac_spec K (rv r)
      in take m (concat (rfc_blocks ((m + 31) div 32) K V)))" if "retry r" for r
    using that by (simp add: rfc6979_generate_def hmac_three hmac.hash_write rfc6979_generate_loop_eq Let_def)
  ultimately show ?thesis by (simp only: Let_def)
qed

section \<open>The constants\<close>

definition first_primes :: "nat list" where
  "first_primes =
    [2, 3, 5, 7, 11, 13, 17, 19, 23, 29, 31, 37, 41, 43, 47, 53,
     59, 61, 67, 71, 73, 79, 83, 89, 97, 101, 103, 107, 109, 113, 127, 131,
     137, 139, 149, 151, 157, 163, 167, 173, 179, 181, 191, 193, 197, 199, 211, 223,
     227, 229, 233, 239, 241, 251, 257, 263, 269, 271, 277, 281, 283, 293, 307, 311]"

definition floor_root :: "nat \<Rightarrow> nat \<Rightarrow> nat" where
  "floor_root k p = length (filter (\<lambda>r. r ^ k \<le> p) [1, 2, 3, 4, 5, 6, 7, 8, 9, 10])"

text \<open>\<open>w\<close> holds the first 32 bits of the fractional part of the \<open>k\<close>-th root of \<open>p\<close>.\<close>

definition root_bits :: "nat \<Rightarrow> nat \<Rightarrow> u32 \<Rightarrow> bool" where
  "root_bits k p w \<longleftrightarrow>
     (let n = floor_root k p * 2 ^ 32 + unat w in n ^ k \<le> p * 2 ^ (32 * k) \<and> p * 2 ^ (32 * k) < (n + 1) ^ k)"

text \<open>
  The tables of hash_impl.h hold the constants the standard defines: the round constants are
  the first 32 bits of the fractional parts of the cube roots of the first 64 primes, the initial
  state those of the square roots of the first 8.
\<close>
theorem sha256_constants:
  "list_all2 (root_bits 3) first_primes round_constants \<and>
   list_all2 (root_bits 2) (take 8 first_primes) (s sha256_initialize)"
  by (simp add: first_primes_def round_constants_def sha256_initialize_def root_bits_def floor_root_def)

end
