(* ===== verification/Field.thy ===== *)
theory Field
  imports Prelude
begin

text \<open>
  The field of secp256k1 in libfc's bundled secp256k1: field_5x52_impl.h with the 128-bit integer
  multiplication of field_5x52_int128_impl.h, and field_impl.h. libsecp256k1-config.h selects this
  representation. Of its two multiplications field_5x52_impl.h includes the portable one, which is
  modelled, where \<open>USE_ASM_X86_64\<close> is not defined; the configuration defines it on x86-64, where
  the inline assembly of field_5x52_asm_impl.h, not modelled, takes its place.

  An element is five 64-bit limbs in base 2^52; the code's VERIFY_CHECKs are not part of the
  release build, and the magnitudes they track appear as the predicates \<open>fe_verify_magnitude\<close>
  and \<open>fe_verify_normalized\<close> in the statements of the theorems.
\<close>

section \<open>Representation\<close>

datatype fe = Fe u64 u64 u64 u64 u64

primrec n_list :: "fe \<Rightarrow> u64 list" where
  "n_list (Fe n0 n1 n2 n3 n4) = [n0, n1, n2, n3, n4]"

definition fe_of_list :: "u64 list \<Rightarrow> fe" where
  "fe_of_list n = Fe (n ! 0) (n ! 1) (n ! 2) (n ! 3) (n ! 4)"

datatype fe_storage = Fe_Storage u64 u64 u64 u64

text \<open>\<open>secp256k1_fe_verify\<close> on an element that is not, or is, marked normalized.\<close>

fun fe_verify_magnitude :: "nat \<Rightarrow> fe \<Rightarrow> bool" where
  "fe_verify_magnitude m (Fe d0 d1 d2 d3 d4) \<longleftrightarrow>
     d0 \<le> 0xFFFFFFFFFFFFF * word_of_nat (2 * m) \<and> d1 \<le> 0xFFFFFFFFFFFFF * word_of_nat (2 * m) \<and>
     d2 \<le> 0xFFFFFFFFFFFFF * word_of_nat (2 * m) \<and> d3 \<le> 0xFFFFFFFFFFFFF * word_of_nat (2 * m) \<and>
     d4 \<le> 0x0FFFFFFFFFFFF * word_of_nat (2 * m) \<and> m \<le> 2048"

fun fe_verify_normalized :: "fe \<Rightarrow> bool" where
  "fe_verify_normalized (Fe d0 d1 d2 d3 d4) \<longleftrightarrow>
     d0 \<le> 0xFFFFFFFFFFFFF \<and> d1 \<le> 0xFFFFFFFFFFFFF \<and> d2 \<le> 0xFFFFFFFFFFFFF \<and> d3 \<le> 0xFFFFFFFFFFFFF \<and>
     d4 \<le> 0x0FFFFFFFFFFFF \<and>
     (d4 = 0x0FFFFFFFFFFFF \<and> (d3 AND d2 AND d1) = 0xFFFFFFFFFFFFF \<longrightarrow> d0 < 0xFFFFEFFFFFC2F)"

section \<open>Normalisation\<close>

text \<open>
  The first pass that all the normalisations share: the top bits of \<open>t4\<close> are folded into \<open>t0\<close>
  and the carries propagated; it returns \<open>t0 \<dots> t4\<close>.
\<close>

definition fe_first_pass :: "fe \<Rightarrow> fe" where
  "fe_first_pass r = (case r of Fe t0 t1 t2 t3 t4 \<Rightarrow>
     (let x = drop_bit 48 t4; t4 = t4 AND 0x0FFFFFFFFFFFF;
          t0 = t0 + x * 0x1000003D1;
          t1 = t1 + drop_bit 52 t0; t0 = t0 AND 0xFFFFFFFFFFFFF;
          t2 = t2 + drop_bit 52 t1; t1 = t1 AND 0xFFFFFFFFFFFFF;
          t3 = t3 + drop_bit 52 t2; t2 = t2 AND 0xFFFFFFFFFFFFF;
          t4 = t4 + drop_bit 52 t3; t3 = t3 AND 0xFFFFFFFFFFFFF
      in Fe t0 t1 t2 t3 t4))"

fun fe_needs_reduction :: "fe \<Rightarrow> u64" where
  "fe_needs_reduction (Fe t0 t1 t2 t3 t4) =
     drop_bit 48 t4 OR (if t4 = 0x0FFFFFFFFFFFF \<and> (t1 AND t2 AND t3) = 0xFFFFFFFFFFFFF \<and> t0 \<ge> 0xFFFFEFFFFFC2F
                        then 1 else 0)"

fun fe_final_reduction :: "u64 \<Rightarrow> fe \<Rightarrow> fe" where
  "fe_final_reduction x (Fe t0 t1 t2 t3 t4) =
     (let t0 = t0 + x * 0x1000003D1;
          t1 = t1 + drop_bit 52 t0; t0 = t0 AND 0xFFFFFFFFFFFFF;
          t2 = t2 + drop_bit 52 t1; t1 = t1 AND 0xFFFFFFFFFFFFF;
          t3 = t3 + drop_bit 52 t2; t2 = t2 AND 0xFFFFFFFFFFFFF;
          t4 = t4 + drop_bit 52 t3; t3 = t3 AND 0xFFFFFFFFFFFFF;
          t4 = t4 AND 0x0FFFFFFFFFFFF
      in Fe t0 t1 t2 t3 t4)"

definition fe_normalize :: "fe \<Rightarrow> fe" where
  "fe_normalize r = (let t = fe_first_pass r in fe_final_reduction (fe_needs_reduction t) t)"

definition fe_normalize_weak :: "fe \<Rightarrow> fe" where
  "fe_normalize_weak r = fe_first_pass r"

definition fe_normalize_var :: "fe \<Rightarrow> fe" where
  "fe_normalize_var r =
     (let t = fe_first_pass r; x = fe_needs_reduction t
      in if x \<noteq> 0 then fe_final_reduction 1 t else t)"

definition fe_normalizes_to_zero :: "fe \<Rightarrow> bool" where
  "fe_normalizes_to_zero r = (case r of Fe t0 t1 t2 t3 t4 \<Rightarrow>
     (let x = drop_bit 48 t4; t4 = t4 AND 0x0FFFFFFFFFFFF;
          t0 = t0 + x * 0x1000003D1;
          t1 = t1 + drop_bit 52 t0; t0 = t0 AND 0xFFFFFFFFFFFFF; z0 = t0; z1 = t0 XOR 0x1000003D0;
          t2 = t2 + drop_bit 52 t1; t1 = t1 AND 0xFFFFFFFFFFFFF; z0 = z0 OR t1; z1 = z1 AND t1;
          t3 = t3 + drop_bit 52 t2; t2 = t2 AND 0xFFFFFFFFFFFFF; z0 = z0 OR t2; z1 = z1 AND t2;
          t4 = t4 + drop_bit 52 t3; t3 = t3 AND 0xFFFFFFFFFFFFF; z0 = z0 OR t3; z1 = z1 AND t3;
          z0 = z0 OR t4; z1 = z1 AND (t4 XOR 0xF000000000000)
      in z0 = 0 \<or> z1 = 0xFFFFFFFFFFFFF))"

definition fe_normalizes_to_zero_var :: "fe \<Rightarrow> bool" where
  "fe_normalizes_to_zero_var r = (case r of Fe n0 n1 n2 n3 n4 \<Rightarrow>
     (let t0 = n0; t4 = n4;
          x = drop_bit 48 t4;
          t0 = t0 + x * 0x1000003D1;
          z0 = t0 AND 0xFFFFFFFFFFFFF; z1 = z0 XOR 0x1000003D0
      in if z0 \<noteq> 0 \<and> z1 \<noteq> 0xFFFFFFFFFFFFF then False
         else
           (let t1 = n1; t2 = n2; t3 = n3;
                t4 = t4 AND 0x0FFFFFFFFFFFF;
                t1 = t1 + drop_bit 52 t0; t0 = z0;
                t2 = t2 + drop_bit 52 t1; t1 = t1 AND 0xFFFFFFFFFFFFF; z0 = z0 OR t1; z1 = z1 AND t1;
                t3 = t3 + drop_bit 52 t2; t2 = t2 AND 0xFFFFFFFFFFFFF; z0 = z0 OR t2; z1 = z1 AND t2;
                t4 = t4 + drop_bit 52 t3; t3 = t3 AND 0xFFFFFFFFFFFFF; z0 = z0 OR t3; z1 = z1 AND t3;
                z0 = z0 OR t4; z1 = z1 AND (t4 XOR 0xF000000000000)
            in z0 = 0 \<or> z1 = 0xFFFFFFFFFFFFF)))"

section \<open>Simple operations\<close>

definition fe_set_int :: "32 word \<Rightarrow> fe" where
  "fe_set_int a = Fe (scast a) 0 0 0 0"

fun fe_is_zero :: "fe \<Rightarrow> bool" where
  "fe_is_zero (Fe t0 t1 t2 t3 t4) \<longleftrightarrow> (t0 OR t1 OR t2 OR t3 OR t4) = 0"

fun fe_is_odd :: "fe \<Rightarrow> bool" where
  "fe_is_odd (Fe t0 t1 t2 t3 t4) \<longleftrightarrow> t0 AND 1 \<noteq> 0"

definition fe_clear :: fe where
  "fe_clear = Fe 0 0 0 0 0"

fun fe_cmp_loop :: "u64 list \<Rightarrow> u64 list \<Rightarrow> nat \<Rightarrow> int" where
  "fe_cmp_loop a b 0 = 0"
| "fe_cmp_loop a b (Suc i) = (if a ! i > b ! i then 1 else if a ! i < b ! i then - 1 else fe_cmp_loop a b i)"

definition fe_cmp_var :: "fe \<Rightarrow> fe \<Rightarrow> int" where
  "fe_cmp_var a b = fe_cmp_loop (n_list a) (n_list b) 5"

text \<open>The body of the two nested loops of \<open>fe_set_b32\<close>, for one nibble.\<close>

definition set_b32_nibble :: "u8 list \<Rightarrow> nat \<Rightarrow> nat \<Rightarrow> u64 list \<Rightarrow> u64 list" where
  "set_b32_nibble a i j n =
     (let limb = (8 * i + 4 * j) div 52; shift = (8 * i + 4 * j) mod 52
      in n[limb := n ! limb OR push_bit shift (ucast (drop_bit (4 * j) (a ! (31 - i)) AND 0xF))])"

definition fe_set_b32 :: "u8 list \<Rightarrow> fe \<times> bool" where
  "fe_set_b32 a =
     (let n = fold (\<lambda>i n. fold (\<lambda>j n. set_b32_nibble a i j n) [0..<2] n) [0..<32] (replicate 5 0)
      in if n ! 4 = 0x0FFFFFFFFFFFF \<and> (n ! 3 AND n ! 2 AND n ! 1) = 0xFFFFFFFFFFFFF \<and> n ! 0 \<ge> 0xFFFFEFFFFFC2F
         then (fe_of_list n, False) else (fe_of_list n, True))"

definition get_b32_nibble :: "u64 list \<Rightarrow> nat \<Rightarrow> nat \<Rightarrow> u32" where
  "get_b32_nibble n i j =
     (let limb = (8 * i + 4 * j) div 52; shift = (8 * i + 4 * j) mod 52
      in push_bit (4 * j) (ucast (drop_bit shift (n ! limb) AND 0xF)))"

definition fe_get_b32 :: "fe \<Rightarrow> u8 list" where
  "fe_get_b32 a =
     fold (\<lambda>i r. r[31 - i := ucast (fold (\<lambda>j c. c OR get_b32_nibble (n_list a) i j) [0..<2] 0)]) [0..<32]
       (replicate 32 0)"

fun fe_negate :: "fe \<Rightarrow> u32 \<Rightarrow> fe" where
  "fe_negate (Fe n0 n1 n2 n3 n4) m =
     Fe (0xFFFFEFFFFFC2F * 2 * scast (m + 1) - n0) (0xFFFFFFFFFFFFF * 2 * scast (m + 1) - n1)
        (0xFFFFFFFFFFFFF * 2 * scast (m + 1) - n2) (0xFFFFFFFFFFFFF * 2 * scast (m + 1) - n3)
        (0x0FFFFFFFFFFFF * 2 * scast (m + 1) - n4)"

fun fe_mul_int :: "fe \<Rightarrow> u32 \<Rightarrow> fe" where
  "fe_mul_int (Fe n0 n1 n2 n3 n4) a = Fe (n0 * scast a) (n1 * scast a) (n2 * scast a) (n3 * scast a) (n4 * scast a)"

fun fe_add :: "fe \<Rightarrow> fe \<Rightarrow> fe" where
  "fe_add (Fe r0 r1 r2 r3 r4) (Fe a0 a1 a2 a3 a4) = Fe (r0 + a0) (r1 + a1) (r2 + a2) (r3 + a3) (r4 + a4)"

definition cmov_word :: "bool \<Rightarrow> u64 \<Rightarrow> u64 \<Rightarrow> u64" where
  "cmov_word flag r a =
     (let mask0 = (if flag then 1 else 0) + NOT 0; mask1 = NOT mask0 in (r AND mask0) OR (a AND mask1))"

fun fe_cmov :: "fe \<Rightarrow> fe \<Rightarrow> bool \<Rightarrow> fe" where
  "fe_cmov (Fe r0 r1 r2 r3 r4) (Fe a0 a1 a2 a3 a4) flag =
     Fe (cmov_word flag r0 a0) (cmov_word flag r1 a1) (cmov_word flag r2 a2) (cmov_word flag r3 a3) (cmov_word flag r4 a4)"

fun fe_storage_cmov :: "fe_storage \<Rightarrow> fe_storage \<Rightarrow> bool \<Rightarrow> fe_storage" where
  "fe_storage_cmov (Fe_Storage r0 r1 r2 r3) (Fe_Storage a0 a1 a2 a3) flag =
     Fe_Storage (cmov_word flag r0 a0) (cmov_word flag r1 a1) (cmov_word flag r2 a2) (cmov_word flag r3 a3)"

fun fe_to_storage :: "fe \<Rightarrow> fe_storage" where
  "fe_to_storage (Fe n0 n1 n2 n3 n4) =
     Fe_Storage (n0 OR push_bit 52 n1) (drop_bit 12 n1 OR push_bit 40 n2) (drop_bit 24 n2 OR push_bit 28 n3)
       (drop_bit 36 n3 OR push_bit 16 n4)"

fun fe_from_storage :: "fe_storage \<Rightarrow> fe" where
  "fe_from_storage (Fe_Storage n0 n1 n2 n3) =
     Fe (n0 AND 0xFFFFFFFFFFFFF) (drop_bit 52 n0 OR (push_bit 12 n1 AND 0xFFFFFFFFFFFFF))
        (drop_bit 40 n1 OR (push_bit 24 n2 AND 0xFFFFFFFFFFFFF))
        (drop_bit 28 n2 OR (push_bit 36 n3 AND 0xFFFFFFFFFFFFF)) (drop_bit 16 n3)"

section \<open>Multiplication\<close>

definition mul128 :: "u64 \<Rightarrow> u64 \<Rightarrow> u128" where
  "mul128 a b = ucast a * ucast b"

definition M52 :: u64 where "M52 = 0xFFFFFFFFFFFFF"

definition R52 :: u64 where "R52 = 0x1000003D10"

text \<open>Each \<open>let\<close> line is a statement of the C function; \<open>c\<close> and \<open>d\<close> are its 128-bit accumulators.\<close>

definition fe_mul_inner :: "fe \<Rightarrow> fe \<Rightarrow> fe" where
  "fe_mul_inner a b = (case (a, b) of (Fe a0 a1 a2 a3 a4, Fe b0 b1 b2 b3 b4) \<Rightarrow>
     (let d = mul128 a0 b3 + mul128 a1 b2 + mul128 a2 b1 + mul128 a3 b0;
          c = mul128 a4 b4;
          d = d + (c AND ucast M52) * ucast R52; c = drop_bit 52 c;
          t3 = ucast (d AND ucast M52) :: u64; d = drop_bit 52 d;
          d = d + (mul128 a0 b4 + mul128 a1 b3 + mul128 a2 b2 + mul128 a3 b1 + mul128 a4 b0);
          d = d + c * ucast R52;
          t4 = ucast (d AND ucast M52) :: u64; d = drop_bit 52 d;
          tx = drop_bit 48 t4; t4 = t4 AND drop_bit 4 M52;
          c = mul128 a0 b0;
          d = d + (mul128 a1 b4 + mul128 a2 b3 + mul128 a3 b2 + mul128 a4 b1);
          u0 = ucast (d AND ucast M52) :: u64; d = drop_bit 52 d;
          u0 = push_bit 4 u0 OR tx;
          c = c + mul128 u0 (drop_bit 4 R52);
          r0 = ucast (c AND ucast M52) :: u64; c = drop_bit 52 c;
          c = c + (mul128 a0 b1 + mul128 a1 b0);
          d = d + (mul128 a2 b4 + mul128 a3 b3 + mul128 a4 b2);
          c = c + (d AND ucast M52) * ucast R52; d = drop_bit 52 d;
          r1 = ucast (c AND ucast M52) :: u64; c = drop_bit 52 c;
          c = c + (mul128 a0 b2 + mul128 a1 b1 + mul128 a2 b0);
          d = d + (mul128 a3 b4 + mul128 a4 b3);
          c = c + (d AND ucast M52) * ucast R52; d = drop_bit 52 d;
          r2 = ucast (c AND ucast M52) :: u64; c = drop_bit 52 c;
          c = c + (d * ucast R52 + ucast t3);
          r3 = ucast (c AND ucast M52) :: u64; c = drop_bit 52 c;
          c = c + ucast t4;
          r4 = ucast c
      in Fe r0 r1 r2 r3 r4))"

text \<open>
  In the squaring \<open>t3\<close>, \<open>t4\<close>, \<open>tx\<close> and \<open>u0\<close> are \<open>int64_t\<close>: their right shift is the arithmetic
  one and their conversion to 128 bits extends the sign.
\<close>

definition fe_sqr_inner :: "fe \<Rightarrow> fe" where
  "fe_sqr_inner r = (case r of Fe a0 a1 a2 a3 a4 \<Rightarrow>
     (let d = mul128 (a0 * 2) a3 + mul128 (a1 * 2) a2;
          c = mul128 a4 a4;
          d = d + (c AND ucast M52) * ucast R52; c = drop_bit 52 c;
          t3 = ucast (d AND ucast M52) :: u64; d = drop_bit 52 d;
          a4 = a4 * 2;
          d = d + (mul128 a0 a4 + mul128 (a1 * 2) a3 + mul128 a2 a2);
          d = d + c * ucast R52;
          t4 = ucast (d AND ucast M52) :: u64; d = drop_bit 52 d;
          tx = signed_drop_bit 48 t4; t4 = t4 AND drop_bit 4 M52;
          c = mul128 a0 a0;
          d = d + (mul128 a1 a4 + mul128 (a2 * 2) a3);
          u0 = ucast (d AND ucast M52) :: u64; d = drop_bit 52 d;
          u0 = push_bit 4 u0 OR tx;
          c = c + scast u0 * ucast (drop_bit 4 R52);
          r0 = ucast (c AND ucast M52) :: u64; c = drop_bit 52 c;
          a0 = a0 * 2;
          c = c + mul128 a0 a1;
          d = d + (mul128 a2 a4 + mul128 a3 a3);
          c = c + (d AND ucast M52) * ucast R52; d = drop_bit 52 d;
          r1 = ucast (c AND ucast M52) :: u64; c = drop_bit 52 c;
          c = c + (mul128 a0 a2 + mul128 a1 a1);
          d = d + mul128 a3 a4;
          c = c + (d AND ucast M52) * ucast R52; d = drop_bit 52 d;
          r2 = ucast (c AND ucast M52) :: u64; c = drop_bit 52 c;
          c = c + (d * ucast R52 + scast t3);
          r3 = ucast (c AND ucast M52) :: u64; c = drop_bit 52 c;
          c = c + scast t4;
          r4 = ucast c
      in Fe r0 r1 r2 r3 r4))"

definition fe_mul :: "fe \<Rightarrow> fe \<Rightarrow> fe" where
  "fe_mul a b = fe_mul_inner a b"

definition fe_sqr :: "fe \<Rightarrow> fe" where
  "fe_sqr a = fe_sqr_inner a"

section \<open>Equality, square root and inverse\<close>

definition fe_equal_var :: "fe \<Rightarrow> fe \<Rightarrow> bool" where
  "fe_equal_var a b = fe_normalizes_to_zero_var (fe_add (fe_negate a 1) b)"

text \<open>\<open>for (j=0; j<n; j++) secp256k1_fe_sqr(&x, &x);\<close>\<close>

definition fe_sqr_times :: "nat \<Rightarrow> fe \<Rightarrow> fe" where
  "fe_sqr_times n x = (fe_sqr ^^ n) x"

text \<open>The addition chain that \<open>fe_sqrt_var\<close> and \<open>fe_inv\<close> share: \<open>x2\<close>, \<open>x3\<close>, \<open>x22\<close> and \<open>x223\<close>.\<close>

definition fe_chain :: "fe \<Rightarrow> fe \<times> fe \<times> fe \<times> fe" where
  "fe_chain a =
     (let x2 = fe_mul (fe_sqr a) a;
          x3 = fe_mul (fe_sqr x2) a;
          x6 = fe_mul (fe_sqr_times 3 x3) x3;
          x9 = fe_mul (fe_sqr_times 3 x6) x3;
          x11 = fe_mul (fe_sqr_times 2 x9) x2;
          x22 = fe_mul (fe_sqr_times 11 x11) x11;
          x44 = fe_mul (fe_sqr_times 22 x22) x22;
          x88 = fe_mul (fe_sqr_times 44 x44) x44;
          x176 = fe_mul (fe_sqr_times 88 x88) x88;
          x220 = fe_mul (fe_sqr_times 44 x176) x44;
          x223 = fe_mul (fe_sqr_times 3 x220) x3
      in (x2, x3, x22, x223))"

definition fe_sqrt_var :: "fe \<Rightarrow> fe \<times> bool" where
  "fe_sqrt_var a =
     (let (x2, x3, x22, x223) = fe_chain a;
          t1 = fe_mul (fe_sqr_times 23 x223) x22;
          t1 = fe_mul (fe_sqr_times 6 t1) x2;
          t1 = fe_sqr t1;
          r = fe_sqr t1
      in (r, fe_equal_var (fe_sqr r) a))"

definition fe_inv :: "fe \<Rightarrow> fe" where
  "fe_inv a =
     (let (x2, x3, x22, x223) = fe_chain a;
          t1 = fe_mul (fe_sqr_times 23 x223) x22;
          t1 = fe_mul (fe_sqr_times 5 t1) a;
          t1 = fe_mul (fe_sqr_times 3 t1) x2;
          t1 = fe_sqr_times 2 t1
      in fe_mul a t1)"

text \<open>
  The branch \<open>USE_FIELD_INV_BUILTIN\<close>. The configuration builds the other one, which calls GMP:
  \<open>fe_inv_var_num\<close> of Num_Gmp, where both are proved to return the same value modulo the prime.
\<close>

definition fe_inv_var :: "fe \<Rightarrow> fe" where
  "fe_inv_var a = fe_inv a"

text \<open>
  \<open>fe_inv_all_var\<close>: the first loop fills \<open>r\<close> with the prefix products, the second walks back with
  \<open>u\<close> the inverse of the prefix product up to \<open>i\<close>.
\<close>

fun inv_all_forward :: "fe list \<Rightarrow> fe list \<Rightarrow> nat \<Rightarrow> nat \<Rightarrow> fe list" where
  "inv_all_forward a r i 0 = r"
| "inv_all_forward a r i (Suc k) = inv_all_forward a (r[i := fe_mul (r ! (i - 1)) (a ! i)]) (i + 1) k"

fun inv_all_backward :: "fe list \<Rightarrow> fe list \<Rightarrow> fe \<Rightarrow> nat \<Rightarrow> fe list \<times> fe" where
  "inv_all_backward a r u 0 = (r, u)"
| "inv_all_backward a r u (Suc i) = inv_all_backward a (r[Suc i := fe_mul (r ! i) u]) (fe_mul u (a ! Suc i)) i"

definition fe_inv_all_var :: "fe list \<Rightarrow> fe list \<Rightarrow> fe list" where
  "fe_inv_all_var r a =
     (let len = length a
      in if len < 1 then r
         else
           (let r = r[0 := a ! 0];
                r = inv_all_forward a r 1 (len - 1);
                u = fe_inv_var (r ! (len - 1));
                (r, u) = inv_all_backward a r u (len - 1)
            in r[0 := u]))"

end
