(* ===== verification/Field_Spec.thy ===== *)
theory Field_Spec
  imports Field
begin

text \<open>
  What the field arithmetic computes: every operation on limbs is the operation modulo the field
  prime on the value of the limbs, with the magnitude bounds that keep 64-bit and 128-bit
  arithmetic from wrapping.
\<close>

section \<open>Values and bounds\<close>

definition fe_p :: int where
  "fe_p = 2 ^ 256 - 2 ^ 32 - 977"

fun fe_val :: "fe \<Rightarrow> int" where
  "fe_val (Fe n0 n1 n2 n3 n4) =
     uint n0 + uint n1 * 2 ^ 52 + uint n2 * 2 ^ 104 + uint n3 * 2 ^ 156 + uint n4 * 2 ^ 208"

text \<open>Bounds on the limbs as integers: \<open>l\<close> for the four lower ones, \<open>t\<close> for the top one.\<close>

fun fe_within :: "int \<Rightarrow> int \<Rightarrow> fe \<Rightarrow> bool" where
  "fe_within l t (Fe n0 n1 n2 n3 n4) \<longleftrightarrow>
     uint n0 \<le> l \<and> uint n1 \<le> l \<and> uint n2 \<le> l \<and> uint n3 \<le> l \<and> uint n4 \<le> t"

lemma fe_within_mono: "fe_within l t a \<Longrightarrow> l \<le> l' \<Longrightarrow> t \<le> t' \<Longrightarrow> fe_within l' t' a"
  by (cases a) auto

lemma uint_limb_bound:
  assumes "m \<le> 2048"
  shows "uint (0xFFFFFFFFFFFFF * word_of_nat (2 * m) :: u64) = 0xFFFFFFFFFFFFF * (2 * int m)"
    "uint (0x0FFFFFFFFFFFF * word_of_nat (2 * m) :: u64) = 0x0FFFFFFFFFFFF * (2 * int m)"
proof -
  have m: "uint (word_of_nat (2 * m) :: u64) = 2 * int m"
    using assms by (subst uint_of_nat_nowrap) simp_all
  show "uint (0xFFFFFFFFFFFFF * word_of_nat (2 * m) :: u64) = 0xFFFFFFFFFFFFF * (2 * int m)"
    using assms by (subst uint_mult_nowrap) (simp_all add: m del: of_nat_mult)
  show "uint (0x0FFFFFFFFFFFF * word_of_nat (2 * m) :: u64) = 0x0FFFFFFFFFFFF * (2 * int m)"
    using assms by (subst uint_mult_nowrap) (simp_all add: m del: of_nat_mult)
qed

lemma fe_verify_magnitude_within:
  "fe_verify_magnitude m a \<longleftrightarrow>
     m \<le> 2048 \<and> fe_within (0xFFFFFFFFFFFFF * (2 * int m)) (0x0FFFFFFFFFFFF * (2 * int m)) a"
  by (cases a) (auto simp: word_le_def uint_limb_bound simp del: of_nat_mult)

section \<open>128-bit accumulators\<close>

lemma uint_mul128 [nowrap]: "uint (mul128 a b) = uint a * uint b"
proof -
  have "uint a < 2 ^ 64" "uint b < 2 ^ 64" using uint_lt2p[of a] uint_lt2p[of b] by simp_all
  then have "uint a * uint b < 2 ^ 64 * 2 ^ 64" by (intro mult_strict_mono) simp_all
  moreover have "uint (ucast a :: u128) = uint a" "uint (ucast b :: u128) = uint b"
    by (simp_all add: uint_ucast_up)
  ultimately show ?thesis unfolding mul128_def by (subst uint_mult_nowrap) simp_all
qed

lemma uint_M52: "uint (ucast M52 :: u128) = 2 ^ 52 - 1" by (simp add: M52_def)

lemma uint_R52: "uint (ucast R52 :: u128) = 0x1000003D10" by (simp add: R52_def)

lemma uint_and_M52: "uint ((x :: u128) AND ucast M52) = uint x mod 2 ^ 52"
proof -
  have "(ucast M52 :: u128) = mask 52" by (simp add: M52_def mask_eq_exp_minus_1)
  then show ?thesis by (simp only: uint_and_mask_mod)
qed

lemma uint_lo52: "uint (ucast ((x :: u128) AND ucast M52) :: u64) = uint x mod 2 ^ 52"
proof -
  have "uint (x AND ucast M52) < 2 ^ 52" by (simp only: uint_and_M52) simp
  then have "uint (ucast (x AND ucast M52) :: u64) = uint (x AND ucast M52)"
    by (simp add: unsigned_ucast_eq take_bit_int_eq_self)
  then show ?thesis by (simp only: uint_and_M52)
qed

text \<open>One carry step: what is kept is the low 52 bits, what is passed on is the rest.\<close>

lemma carry52:
  "uint (x :: u128) = 4503599627370496 * uint (drop_bit 52 x) + uint (x AND ucast M52)"
  "0 \<le> uint (x AND ucast M52)" "uint (x AND ucast M52) < 4503599627370496" "0 \<le> uint (drop_bit 52 x)"
proof -
  show "uint x = 4503599627370496 * uint (drop_bit 52 x) + uint (x AND ucast M52)"
    using mult_div_mod_eq[of "2 ^ 52" "uint x"] by (simp add: uint_drop_bit_div uint_and_M52)
  show "uint (x AND ucast M52) < 4503599627370496" by (simp only: uint_and_M52) simp
qed simp_all

lemma uint_lo52_and: "uint (ucast ((x :: u128) AND ucast M52) :: u64) = uint (x AND ucast M52)"
  by (simp only: uint_lo52 uint_and_M52)

lemma mul_bound:
  assumes "uint (a :: u64) \<le> l" "uint (b :: u64) \<le> m"
  shows "0 \<le> uint a * uint b" "uint a * uint b \<le> l * m"
  using assms by (simp_all add: mult_mono order_trans[OF uint_ge_0])

lemmas acc = uint_add_nowrap[where 'a = 128] uint_mult_nowrap[where 'a = 128] uint_mul128 uint_R52

lemma uint_add128: "uint x + uint y < 340282366920938463463374607431768211456 \<Longrightarrow> uint (x + y :: u128) = uint x + uint y"
  by (rule uint_add_nowrap) simp

lemma uint_add_mulR:
  assumes "uint x + uint y * 0x1000003D10 < 340282366920938463463374607431768211456"
  shows "uint (x + y * ucast R52 :: u128) = uint x + uint y * 0x1000003D10"
proof -
  have "0 \<le> uint x" "0 \<le> uint y" by simp_all
  then have "uint y * 0x1000003D10 < 340282366920938463463374607431768211456"
    using assms by linarith
  then have "uint (y * ucast R52 :: u128) = uint y * 0x1000003D10"
    using uint_mult_nowrap[of y "ucast R52"] by (simp add: uint_R52)
  then show ?thesis using uint_add128[of x "y * ucast R52"] assms by simp
qed

text \<open>
  Multiplication and squaring differ in how they form the nine column sums
  \<open>s\<^sub>k = \<Sum> a\<^sub>i b\<^sub>k\<^sub>-\<^sub>i\<close>; the interleaved carries and reductions are the same function of them.
\<close>

definition reduce_columns ::
  "u128 \<Rightarrow> u128 \<Rightarrow> u128 \<Rightarrow> u128 \<Rightarrow> u128 \<Rightarrow> u128 \<Rightarrow> u128 \<Rightarrow> u128 \<Rightarrow> u128 \<Rightarrow> fe" where
  "reduce_columns s0 s1 s2 s3 s4 s5 s6 s7 s8 =
     (let d = s3; c = s8;
          d = d + (c AND ucast M52) * ucast R52; c = drop_bit 52 c;
          t3 = ucast (d AND ucast M52) :: u64; d = drop_bit 52 d;
          d = d + s4; d = d + c * ucast R52;
          t4 = ucast (d AND ucast M52) :: u64; d = drop_bit 52 d;
          tx = drop_bit 48 t4; t4 = t4 AND drop_bit 4 M52;
          c = s0; d = d + s5;
          u0 = ucast (d AND ucast M52) :: u64; d = drop_bit 52 d;
          u0 = push_bit 4 u0 OR tx;
          c = c + mul128 u0 (drop_bit 4 R52);
          r0 = ucast (c AND ucast M52) :: u64; c = drop_bit 52 c;
          c = c + s1; d = d + s6;
          c = c + (d AND ucast M52) * ucast R52; d = drop_bit 52 d;
          r1 = ucast (c AND ucast M52) :: u64; c = drop_bit 52 c;
          c = c + s2; d = d + s7;
          c = c + (d AND ucast M52) * ucast R52; d = drop_bit 52 d;
          r2 = ucast (c AND ucast M52) :: u64; c = drop_bit 52 c;
          c = c + (d * ucast R52 + ucast t3);
          r3 = ucast (c AND ucast M52) :: u64; c = drop_bit 52 c;
          c = c + ucast t4;
          r4 = ucast c
      in Fe r0 r1 r2 r3 r4)"

lemma fe_mul_inner_columns:
  "fe_mul_inner (Fe a0 a1 a2 a3 a4) (Fe b0 b1 b2 b3 b4) =
     reduce_columns (mul128 a0 b0) (mul128 a0 b1 + mul128 a1 b0)
       (mul128 a0 b2 + mul128 a1 b1 + mul128 a2 b0)
       (mul128 a0 b3 + mul128 a1 b2 + mul128 a2 b1 + mul128 a3 b0)
       (mul128 a0 b4 + mul128 a1 b3 + mul128 a2 b2 + mul128 a3 b1 + mul128 a4 b0)
       (mul128 a1 b4 + mul128 a2 b3 + mul128 a3 b2 + mul128 a4 b1)
       (mul128 a2 b4 + mul128 a3 b3 + mul128 a4 b2) (mul128 a3 b4 + mul128 a4 b3) (mul128 a4 b4)"
  by (simp only: fe_mul_inner_def reduce_columns_def prod.case fe.case Let_def)

text \<open>The top nibble of \<open>t4\<close> joins the next 52 bits.\<close>

lemma split_t4:
  assumes "uint (t4 :: u64) < 4503599627370496" "uint (u0 :: u64) < 4503599627370496"
  shows "uint (t4 AND drop_bit 4 M52) < 281474976710656" "0 \<le> uint (t4 AND drop_bit 4 M52)"
    "uint (push_bit 4 u0 OR drop_bit 48 t4) < 72057594037927936" "0 \<le> uint (push_bit 4 u0 OR drop_bit 48 t4)"
    "uint t4 + 4503599627370496 * uint u0 =
       uint (t4 AND drop_bit 4 M52) + 281474976710656 * uint (push_bit 4 u0 OR drop_bit 48 t4)"
proof -
  have m: "(drop_bit 4 M52) = (mask 48 :: u64)" by (simp add: M52_def mask_eq_exp_minus_1)
  have lo: "uint (t4 AND drop_bit 4 M52) = uint t4 mod 2 ^ 48" by (simp only: m uint_and_mask_mod)
  have tx: "uint (drop_bit 48 t4) = uint t4 div 2 ^ 48" by (simp only: uint_drop_bit_div)
  then have tx16: "uint (drop_bit 48 t4) < 16" using assms(1) by simp
  have disj: "push_bit 4 u0 AND drop_bit 48 t4 = 0"
  proof (rule bit_word_eqI)
    fix i assume "i < LENGTH(64)"
    have "drop_bit 48 t4 = take_bit 4 (drop_bit 48 t4)"
      using tx16 by (intro word_uint_eqI) (simp only: unsigned_take_bit_eq, simp add: take_bit_int_eq_self)
    then have "bit (drop_bit 48 t4) i \<Longrightarrow> i < 4" by (metis bit_take_bit_iff)
    then show "bit (push_bit 4 u0 AND drop_bit 48 t4) i = bit (0 :: u64) i"
      by (auto simp: bit_and_iff bit_push_bit_iff)
  qed
  have push: "uint (push_bit 4 u0) = 16 * uint u0"
    using assms(2) by (simp add: push_bit_eq_mult uint_mult_nowrap)
  have "push_bit 4 u0 OR drop_bit 48 t4 = push_bit 4 u0 + drop_bit 48 t4"
    by (rule disjunctive_add_eq_or[OF disj, symmetric])
  then have u: "uint (push_bit 4 u0 OR drop_bit 48 t4) = 16 * uint u0 + uint t4 div 2 ^ 48"
    using assms(2) push tx tx16 by (simp add: uint_add_nowrap)
  show "uint (t4 AND drop_bit 4 M52) < 281474976710656" by (simp add: lo)
  show "uint (push_bit 4 u0 OR drop_bit 48 t4) < 72057594037927936" using u tx tx16 assms(2) by simp
  show "uint t4 + 4503599627370496 * uint u0 =
       uint (t4 AND drop_bit 4 M52) + 281474976710656 * uint (push_bit 4 u0 OR drop_bit 48 t4)"
    using mult_div_mod_eq[of "2 ^ 48" "uint t4"] by (simp add: u lo)
qed simp_all

lemma reduce_columns_spec:
  fixes s0 s1 s2 s3 s4 s5 s6 s7 s8 :: u128
  assumes B: "uint s0 \<le> 2 ^ 112" "uint s1 \<le> 2 ^ 113" "uint s2 \<le> 2 ^ 114" "uint s3 \<le> 2 ^ 114"
    "uint s4 \<le> 2 ^ 114" "uint s5 \<le> 2 ^ 114" "uint s6 \<le> 2 ^ 113" "uint s7 \<le> 2 ^ 109" "uint s8 \<le> 2 ^ 104"
  shows "fe_within (2 ^ 52 - 1) (2 ^ 49 - 2) (reduce_columns s0 s1 s2 s3 s4 s5 s6 s7 s8) \<and>
    (\<exists>K. uint s0 + uint s1 * 2 ^ 52 + uint s2 * 2 ^ 104 + uint s3 * 2 ^ 156 + uint s4 * 2 ^ 208
        + uint s5 * 2 ^ 260 + uint s6 * 2 ^ 312 + uint s7 * 2 ^ 364 + uint s8 * 2 ^ 416
      = fe_val (reduce_columns s0 s1 s2 s3 s4 s5 s6 s7 s8) + fe_p * K)"
proof -
  define d1 where "d1 = s3 + (s8 AND ucast M52) * ucast R52"
  define c1 where "c1 = drop_bit 52 s8"
  define t3 where "t3 = (ucast (d1 AND ucast M52) :: u64)"
  define d2 where "d2 = drop_bit 52 d1 + s4"
  define d3 where "d3 = d2 + c1 * ucast R52"
  define t4' where "t4' = (ucast (d3 AND ucast M52) :: u64)"
  define t4 where "t4 = t4' AND drop_bit 4 M52"
  define d4 where "d4 = drop_bit 52 d3 + s5"
  define u0' where "u0' = (ucast (d4 AND ucast M52) :: u64)"
  define u0 where "u0 = push_bit 4 u0' OR drop_bit 48 t4'"
  define c2 where "c2 = s0 + mul128 u0 (drop_bit 4 R52)"
  define c3 where "c3 = drop_bit 52 c2 + s1"
  define d5 where "d5 = drop_bit 52 d4 + s6"
  define c4 where "c4 = c3 + (d5 AND ucast M52) * ucast R52"
  define c5 where "c5 = drop_bit 52 c4 + s2"
  define d6 where "d6 = drop_bit 52 d5 + s7"
  define c6 where "c6 = c5 + (d6 AND ucast M52) * ucast R52"
  define c7 where "c7 = drop_bit 52 c6 + (drop_bit 52 d6 * ucast R52 + ucast t3)"
  define c8 where "c8 = drop_bit 52 c7 + ucast t4"
  note defs = d1_def c1_def t3_def d2_def d3_def t4'_def t4_def d4_def u0'_def u0_def c2_def c3_def d5_def c4_def
    c5_def d6_def c6_def c7_def c8_def
  have r: "reduce_columns s0 s1 s2 s3 s4 s5 s6 s7 s8 = Fe (ucast (c2 AND ucast M52)) (ucast (c4 AND ucast M52))
      (ucast (c6 AND ucast M52)) (ucast (c7 AND ucast M52)) (ucast c8)"
    by (simp only: reduce_columns_def Let_def defs)
  note pos = uint_ge_0[of s0] uint_ge_0[of s1] uint_ge_0[of s2] uint_ge_0[of s3] uint_ge_0[of s4] uint_ge_0[of s5]
    uint_ge_0[of s6] uint_ge_0[of s7] uint_ge_0[of s8]
  note B = B[simplified]
  note k8 = carry52[of s8]
  have d1: "uint d1 = uint s3 + uint (s8 AND ucast M52) * 0x1000003D10"
    unfolding d1_def
    by (rule uint_add_mulR) (use B pos k8 in linarith)
  note k1 = carry52[of d1]
  have d2: "uint d2 = uint (drop_bit 52 d1) + uint s4"
    unfolding d2_def
    by (rule uint_add128) (use B pos k8 d1 k1 in linarith)
  have d3: "uint d3 = uint d2 + uint (drop_bit 52 s8) * 0x1000003D10"
    unfolding d3_def c1_def
    by (rule uint_add_mulR) (use B pos k8 d1 k1 d2 in linarith)
  note k3 = carry52[of d3]
  have d4: "uint d4 = uint (drop_bit 52 d3) + uint s5"
    unfolding d4_def
    by (rule uint_add128) (use B pos k8 d1 k1 d2 d3 k3 in linarith)
  note k4 = carry52[of d4]
  have t4': "uint t4' = uint (d3 AND ucast M52)" "uint u0' = uint (d4 AND ucast M52)"
    by (simp_all only: t4'_def u0'_def uint_lo52_and)
  have "uint t4' < 4503599627370496" "uint u0' < 4503599627370496" using k3 k4 by (simp_all add: t4')
  note t4 = split_t4[OF this, folded t4_def u0_def, unfolded t4']
  have R4: "uint (drop_bit 4 R52 :: u64) = 0x1000003D1" by (simp add: R52_def)
  have c2: "uint c2 = uint s0 + uint u0 * 0x1000003D1"
    unfolding c2_def using uint_add128[of s0 "mul128 u0 (drop_bit 4 R52)"] B pos t4
    by (simp add: uint_mul128 R4)
  note j2 = carry52[of c2]
  have c3: "uint c3 = uint (drop_bit 52 c2) + uint s1"
    unfolding c3_def
    by (rule uint_add128) (use B pos t4 c2 j2 in linarith)
  have d5: "uint d5 = uint (drop_bit 52 d4) + uint s6"
    unfolding d5_def
    by (rule uint_add128) (use B pos k3 d4 k4 d3 d2 d1 k1 k8 in linarith)
  note k5 = carry52[of d5]
  have c4: "uint c4 = uint c3 + uint (d5 AND ucast M52) * 0x1000003D10"
    unfolding c4_def
    by (rule uint_add_mulR) (use B pos t4 c2 j2 c3 k5 in linarith)
  note j4 = carry52[of c4]
  have c5: "uint c5 = uint (drop_bit 52 c4) + uint s2"
    unfolding c5_def
    by (rule uint_add128) (use B pos t4 c2 j2 c3 k5 c4 j4 in linarith)
  have d5b: "uint d5 \<le> 20769187434139310514121985316880384" using B pos k3 d4 k4 d3 d2 d1 k1 k8 d5 by linarith
  have d6: "uint d6 = uint (drop_bit 52 d5) + uint s7"
    unfolding d6_def
    by (rule uint_add128) (use B pos k5 d5b in linarith)
  note k6 = carry52[of d6]
  have c5b: "uint c5 \<le> 41538374868278621028243970633760768" using B pos t4 c2 j2 c3 k5 c4 j4 c5 by linarith
  have c6: "uint c6 = uint c5 + uint (d6 AND ucast M52) * 0x1000003D10"
    unfolding c6_def
    by (rule uint_add_mulR) (use c5b k6 in linarith)
  note j6 = carry52[of c6]
  have t3: "uint (ucast t3 :: u128) = uint (d1 AND ucast M52)"
    by (simp add: t3_def uint_ucast_up uint_lo52_and)
  have d6b: "uint (drop_bit 52 d6) \<le> 4611686018427387904" using B pos k5 d5b d6 k6 by linarith
  have c6b: "uint (drop_bit 52 c6) \<le> 18446744073709551616" using c5b k6 c6 j6 by linarith
  have c7: "uint c7 = uint (drop_bit 52 c6) + (uint (drop_bit 52 d6) * 0x1000003D10 + uint (d1 AND ucast M52))"
  proof -
    have "uint (ucast t3 + drop_bit 52 d6 * ucast R52 :: u128) = uint (ucast t3 :: u128) + uint (drop_bit 52 d6) * 0x1000003D10"
      by (rule uint_add_mulR) (use c6b d6b k1 t3 in linarith)
    then have i: "uint (drop_bit 52 d6 * ucast R52 + ucast t3 :: u128)
        = uint (drop_bit 52 d6) * 0x1000003D10 + uint (d1 AND ucast M52)"
      by (simp only: t3 add.commute)
    show ?thesis unfolding c7_def i[symmetric] by (rule uint_add128) (use i c6b d6b k1 in linarith)
  qed
  note j7 = carry52[of c7]
  have c7b: "uint (drop_bit 52 c7) < 140737488355328" using c6b d6b k1 c7 j7 by linarith
  have c8: "uint c8 = uint (drop_bit 52 c7) + uint t4"
    unfolding c8_def using uint_add128[of "drop_bit 52 c7" "ucast t4"] c7b t4 j7 by (simp add: uint_ucast_up)
  have c8b: "uint c8 \<le> 562949953421310" using c7b t4 c8 by linarith
  then have r4: "uint (ucast c8 :: u64) = uint c8"
    by (simp add: unsigned_ucast_eq take_bit_int_eq_self)
  let ?K = "16 * (uint (s8 AND ucast M52) * 2 ^ 156 + uint (drop_bit 52 s8) * 2 ^ 208 + uint (d5 AND ucast M52) * 2 ^ 52
      + uint (d6 AND ucast M52) * 2 ^ 104 + uint (drop_bit 52 d6) * 2 ^ 156) + uint u0"
  have "uint s0 + uint s1 * 2 ^ 52 + uint s2 * 2 ^ 104 + uint s3 * 2 ^ 156 + uint s4 * 2 ^ 208
        + uint s5 * 2 ^ 260 + uint s6 * 2 ^ 312 + uint s7 * 2 ^ 364 + uint s8 * 2 ^ 416
      = uint (c2 AND ucast M52) + uint (c4 AND ucast M52) * 2 ^ 52 + uint (c6 AND ucast M52) * 2 ^ 104
        + uint (c7 AND ucast M52) * 2 ^ 156 + uint c8 * 2 ^ 208 + fe_p * ?K"
    unfolding fe_p_def
    using d1 k1(1) d2 d3 k3(1) d4 k4(1) t4(5) c2 j2(1) c3 d5 k5(1) c4 j4(1) c5 d6 k6(1) c6 j6(1) c7 j7(1) c8 k8(1)
    by simp
  then show ?thesis
    using j2(3) j4(3) j6(3) j7(3) c8b
    by (auto simp: r r4 uint_lo52_and)
qed

section \<open>Multiplication and squaring\<close>

text \<open>The \<open>int64_t\<close> variables of the squaring are never negative.\<close>

lemma nonneg_signed:
  assumes "uint (x :: u64) < 2 ^ 63"
  shows "signed_drop_bit n x = drop_bit n x" "(scast x :: u128) = ucast x"
proof -
  have nb: "\<not> bit (uint x) 63"
    using assms by (metis bit_take_bit_iff less_irrefl take_bit_int_eq_self uint_ge_0)
  have s: "sint x = uint x" using assms by (simp add: sint_uint signed_take_bit_eq_if_positive nb take_bit_int_eq_self)
  show "signed_drop_bit n x = drop_bit n x"
  proof (rule bit_word_eqI)
    fix i assume "i < LENGTH(64)"
    have "\<not> bit x 63" using nb by (simp add: bit_uint_iff)
    moreover have "\<not> bit x j" if "64 \<le> j" for j using that bit_imp_le_length[of x j] by auto
    ultimately have "\<not> bit x j" if "63 \<le> j" for j using that by (cases "j = 63") auto
    then show "bit (signed_drop_bit n x) i = bit (drop_bit n x) i"
      by (simp add: bit_signed_drop_bit_iff bit_drop_bit_eq) (use \<open>\<not> bit x 63\<close> in auto)
  qed
  show "(scast x :: u128) = ucast x" by (simp only: scast_eq ucast_eq s)
qed

lemma sqr_signed:
  "signed_drop_bit 48 (ucast (d AND ucast M52 :: u128) :: u64) = drop_bit 48 (ucast (d AND ucast M52))"
  "(scast (ucast (d AND ucast M52) :: u64) :: u128) = ucast (ucast (d AND ucast M52) :: u64)"
  "(scast (push_bit 4 (ucast (d AND ucast M52)) OR drop_bit 48 (ucast (e AND ucast M52 :: u128)) :: u64) :: u128)
     = ucast (push_bit 4 (ucast (d AND ucast M52)) OR drop_bit 48 (ucast (e AND ucast M52)) :: u64)"
  "(scast (ucast (d AND ucast M52) AND drop_bit 4 M52 :: u64) :: u128) = ucast (ucast (d AND ucast M52) AND drop_bit 4 M52 :: u64)"
proof -
  have lo: "uint (ucast (d AND ucast M52) :: u64) < 4503599627370496" for d :: u128
    using carry52(3)[of d] by (simp only: uint_lo52_and)
  note sp = split_t4[OF lo[of e] lo[of d]]
  show "signed_drop_bit 48 (ucast (d AND ucast M52 :: u128) :: u64) = drop_bit 48 (ucast (d AND ucast M52))"
    "(scast (ucast (d AND ucast M52) :: u64) :: u128) = ucast (ucast (d AND ucast M52) :: u64)"
    using lo[of d] by (simp_all add: nonneg_signed)
  show "(scast (push_bit 4 (ucast (d AND ucast M52)) OR drop_bit 48 (ucast (e AND ucast M52 :: u128)) :: u64) :: u128)
     = ucast (push_bit 4 (ucast (d AND ucast M52)) OR drop_bit 48 (ucast (e AND ucast M52)) :: u64)"
    using sp(3) by (intro nonneg_signed(2)) simp
  show "(scast (ucast (d AND ucast M52) AND drop_bit 4 M52 :: u64) :: u128) = ucast (ucast (d AND ucast M52) AND drop_bit 4 M52 :: u64)"
    using split_t4(1)[OF lo[of d] lo[of d]] by (intro nonneg_signed(2)) simp
qed

lemma fe_sqr_inner_columns:
  "fe_sqr_inner (Fe a0 a1 a2 a3 a4) =
     reduce_columns (mul128 a0 a0) (mul128 (a0 * 2) a1) (mul128 (a0 * 2) a2 + mul128 a1 a1)
       (mul128 (a0 * 2) a3 + mul128 (a1 * 2) a2)
       (mul128 a0 (a4 * 2) + mul128 (a1 * 2) a3 + mul128 a2 a2)
       (mul128 a1 (a4 * 2) + mul128 (a2 * 2) a3) (mul128 a2 (a4 * 2) + mul128 a3 a3)
       (mul128 a3 (a4 * 2)) (mul128 a4 a4)"
  by (simp only: fe_sqr_inner_def reduce_columns_def fe.case Let_def sqr_signed mul128_def)

lemma mul128_double:
  assumes "uint a < 2 ^ 63"
  shows "mul128 (a * 2) b = mul128 a b + mul128 b a" "mul128 b (a * 2) = mul128 b a + mul128 a b"
proof -
  have "uint (a * 2) = uint a * 2" using assms by (subst uint_mult_nowrap) simp_all
  then have "(ucast (a * 2) :: u128) = ucast a * 2"
    using assms by (intro word_uint_eqI) (simp add: uint_mult_nowrap uint_ucast_up)
  then show "mul128 (a * 2) b = mul128 a b + mul128 b a" "mul128 b (a * 2) = mul128 b a + mul128 a b"
    by (simp_all add: mul128_def)
qed

lemma fe_sqr_inner_eq_mul:
  assumes "fe_within (2 ^ 56 - 1) (2 ^ 52 - 1) a"
  shows "fe_sqr_inner a = fe_mul_inner a a"
proof (cases a)
  case (Fe a0 a1 a2 a3 a4)
  with assms have "uint a0 < 2 ^ 63" "uint a1 < 2 ^ 63" "uint a2 < 2 ^ 63" "uint a4 < 2 ^ 63" by simp_all
  then show ?thesis
    by (simp add: Fe fe_sqr_inner_columns fe_mul_inner_columns mul128_double ac_simps)
qed

lemma fe_mul_inner_spec:
  assumes "fe_within (2 ^ 56 - 1) (2 ^ 52 - 1) a" "fe_within (2 ^ 56 - 1) (2 ^ 52 - 1) b"
  shows "fe_within (2 ^ 52 - 1) (2 ^ 49 - 2) (fe_mul_inner a b) \<and>
    fe_val (fe_mul_inner a b) mod fe_p = fe_val a * fe_val b mod fe_p"
proof (cases a; cases b)
  fix a0 a1 a2 a3 a4 b0 b1 b2 b3 b4
  assume ab: "a = Fe a0 a1 a2 a3 a4" "b = Fe b0 b1 b2 b3 b4"
  let ?s0 = "mul128 a0 b0" and ?s1 = "mul128 a0 b1 + mul128 a1 b0"
    and ?s2 = "mul128 a0 b2 + mul128 a1 b1 + mul128 a2 b0"
    and ?s3 = "mul128 a0 b3 + mul128 a1 b2 + mul128 a2 b1 + mul128 a3 b0"
    and ?s4 = "mul128 a0 b4 + mul128 a1 b3 + mul128 a2 b2 + mul128 a3 b1 + mul128 a4 b0"
    and ?s5 = "mul128 a1 b4 + mul128 a2 b3 + mul128 a3 b2 + mul128 a4 b1"
    and ?s6 = "mul128 a2 b4 + mul128 a3 b3 + mul128 a4 b2"
    and ?s7 = "mul128 a3 b4 + mul128 a4 b3" and ?s8 = "mul128 a4 b4"
  note lim = assms[unfolded ab fe_within.simps]
  have la: "uint a0 \<le> 2 ^ 56 - 1" "uint a1 \<le> 2 ^ 56 - 1" "uint a2 \<le> 2 ^ 56 - 1" "uint a3 \<le> 2 ^ 56 - 1"
    "uint a4 \<le> 2 ^ 52 - 1" and lb: "uint b0 \<le> 2 ^ 56 - 1" "uint b1 \<le> 2 ^ 56 - 1" "uint b2 \<le> 2 ^ 56 - 1"
    "uint b3 \<le> 2 ^ 56 - 1" "uint b4 \<le> 2 ^ 52 - 1"
    using assms unfolding ab by simp_all
  note P0 = mul_bound[OF la(1) lb(1)]
  have s0: "uint ?s0 = uint a0 * uint b0"
    using P0 by (simp add: acc)
  have b0: "uint ?s0 \<le> 2 ^ 112" unfolding s0 using P0 by simp
  note P1 = mul_bound[OF la(1) lb(2)] mul_bound[OF la(2) lb(1)]
  have s1: "uint ?s1 = uint a0 * uint b1 + uint a1 * uint b0"
    using P1 by (simp add: acc)
  have b1: "uint ?s1 \<le> 2 ^ 113" unfolding s1 using P1 by simp
  note P2 = mul_bound[OF la(1) lb(3)] mul_bound[OF la(2) lb(2)] mul_bound[OF la(3) lb(1)]
  have s2: "uint ?s2 = uint a0 * uint b2 + uint a1 * uint b1 + uint a2 * uint b0"
    using P2 by (simp add: acc)
  have b2: "uint ?s2 \<le> 2 ^ 114" unfolding s2 using P2 by simp
  note P3 = mul_bound[OF la(1) lb(4)] mul_bound[OF la(2) lb(3)] mul_bound[OF la(3) lb(2)] mul_bound[OF la(4) lb(1)]
  have s3: "uint ?s3 = uint a0 * uint b3 + uint a1 * uint b2 + uint a2 * uint b1 + uint a3 * uint b0"
    using P3 by (simp add: acc)
  have b3: "uint ?s3 \<le> 2 ^ 114" unfolding s3 using P3 by simp
  note P4 = mul_bound[OF la(1) lb(5)] mul_bound[OF la(2) lb(4)] mul_bound[OF la(3) lb(3)] mul_bound[OF la(4) lb(2)] mul_bound[OF la(5) lb(1)]
  have s4: "uint ?s4 = uint a0 * uint b4 + uint a1 * uint b3 + uint a2 * uint b2 + uint a3 * uint b1 + uint a4 * uint b0"
    using P4 by (simp add: acc)
  have b4: "uint ?s4 \<le> 2 ^ 114" unfolding s4 using P4 by simp
  note P5 = mul_bound[OF la(2) lb(5)] mul_bound[OF la(3) lb(4)] mul_bound[OF la(4) lb(3)] mul_bound[OF la(5) lb(2)]
  have s5: "uint ?s5 = uint a1 * uint b4 + uint a2 * uint b3 + uint a3 * uint b2 + uint a4 * uint b1"
    using P5 by (simp add: acc)
  have b5: "uint ?s5 \<le> 2 ^ 114" unfolding s5 using P5 by simp
  note P6 = mul_bound[OF la(3) lb(5)] mul_bound[OF la(4) lb(4)] mul_bound[OF la(5) lb(3)]
  have s6: "uint ?s6 = uint a2 * uint b4 + uint a3 * uint b3 + uint a4 * uint b2"
    using P6 by (simp add: acc)
  have b6: "uint ?s6 \<le> 2 ^ 113" unfolding s6 using P6 by simp
  note P7 = mul_bound[OF la(4) lb(5)] mul_bound[OF la(5) lb(4)]
  have s7: "uint ?s7 = uint a3 * uint b4 + uint a4 * uint b3"
    using P7 by (simp add: acc)
  have b7: "uint ?s7 \<le> 2 ^ 109" unfolding s7 using P7 by simp
  note P8 = mul_bound[OF la(5) lb(5)]
  have s8: "uint ?s8 = uint a4 * uint b4"
    using P8 by (simp add: acc)
  have b8: "uint ?s8 \<le> 2 ^ 104" unfolding s8 using P8 by simp
  have "fe_within (2 ^ 52 - 1) (2 ^ 49 - 2) (reduce_columns ?s0 ?s1 ?s2 ?s3 ?s4 ?s5 ?s6 ?s7 ?s8) \<and>
    (\<exists>K. uint ?s0 + uint ?s1 * 2 ^ 52 + uint ?s2 * 2 ^ 104 + uint ?s3 * 2 ^ 156 + uint ?s4 * 2 ^ 208
        + uint ?s5 * 2 ^ 260 + uint ?s6 * 2 ^ 312 + uint ?s7 * 2 ^ 364 + uint ?s8 * 2 ^ 416
      = fe_val (reduce_columns ?s0 ?s1 ?s2 ?s3 ?s4 ?s5 ?s6 ?s7 ?s8) + fe_p * K)"
    by (rule reduce_columns_spec[OF b0 b1 b2 b3 b4 b5 b6 b7 b8])
  then obtain K where w: "fe_within (2 ^ 52 - 1) (2 ^ 49 - 2) (fe_mul_inner a b)"
    and K: "uint ?s0 + uint ?s1 * 2 ^ 52 + uint ?s2 * 2 ^ 104 + uint ?s3 * 2 ^ 156 + uint ?s4 * 2 ^ 208
        + uint ?s5 * 2 ^ 260 + uint ?s6 * 2 ^ 312 + uint ?s7 * 2 ^ 364 + uint ?s8 * 2 ^ 416
      = fe_val (fe_mul_inner a b) + fe_p * K"
    unfolding ab fe_mul_inner_columns by blast
  have "fe_val a * fe_val b = fe_val (fe_mul_inner a b) + fe_p * K"
    unfolding K[symmetric] s0 s1 s2 s3 s4 s5 s6 s7 s8 unfolding ab by (simp add: algebra_simps)
  with w show ?thesis by simp
qed

text \<open>
  C12. Field multiplication is correct: on inputs of magnitude at most 8, the value of \<open>fe_mul a b\<close> is
  the product of the values modulo the field prime, and the result has magnitude 1. No 64-bit or
  128-bit intermediate of the interleaved reduction wraps.
\<close>
theorem fe_mul_correct:
  assumes "fe_verify_magnitude 8 a" "fe_verify_magnitude 8 b"
  shows "fe_val (fe_mul a b) mod fe_p = (fe_val a * fe_val b) mod fe_p \<and> fe_verify_magnitude 1 (fe_mul a b)"
proof -
  have "fe_within (2 ^ 56 - 1) (2 ^ 52 - 1) a" "fe_within (2 ^ 56 - 1) (2 ^ 52 - 1) b"
    using assms by (auto simp: fe_verify_magnitude_within elim!: fe_within_mono)
  from fe_mul_inner_spec[OF this] show ?thesis
    by (auto simp: fe_mul_def fe_verify_magnitude_within elim!: fe_within_mono)
qed

theorem fe_mul_correct_witness:
  "fe_val (fe_mul (Fe 2 0 0 0 0) (Fe 0 3 0 0 0)) mod fe_p = (2 * (3 * 2 ^ 52)) mod fe_p"
proof -
  have "fe_verify_magnitude 8 (Fe 2 0 0 0 0)" "fe_verify_magnitude 8 (Fe 0 3 0 0 0)" by simp_all
  from fe_mul_correct[OF this] show ?thesis by simp
qed

text \<open>
  The dedicated squaring agrees with the general multiplication, limb by limb, on every input of
  magnitude at most 8 (it doubles operands instead of adding products, and keeps four
  temporaries in signed integers).
\<close>
theorem fe_sqr_is_mul:
  assumes "fe_verify_magnitude 8 a"
  shows "fe_sqr a = fe_mul a a"
proof -
  have "fe_within (2 ^ 56 - 1) (2 ^ 52 - 1) a"
    using assms by (auto simp: fe_verify_magnitude_within elim!: fe_within_mono)
  then show ?thesis by (simp add: fe_sqr_def fe_mul_def fe_sqr_inner_eq_mul)
qed

theorem fe_sqr_is_mul_witness:
  "fe_sqr (Fe 5 6 7 8 9) = fe_mul (Fe 5 6 7 8 9) (Fe 5 6 7 8 9)"
  by (rule fe_sqr_is_mul) simp

end
