(* ===== verification/Field_Ops.thy ===== *)
theory Field_Ops
  imports Field_Spec
begin

text \<open>
  The remaining field operations of field_5x52_impl.h: normalisation, comparison, conversion to
  bytes and to the storage form, negation, addition, small multiples and conditional moves.
\<close>

declare fe_final_reduction.simps [simp del] fe_needs_reduction.simps [simp del]

section \<open>64-bit carries\<close>

lemma limb_masks: "(0xFFFFFFFFFFFFF :: u64) = mask 52" "(0x0FFFFFFFFFFFF :: u64) = mask 48"
  by (simp_all add: mask_eq_exp_minus_1)

lemma low52:
  "uint (x :: u64) = 4503599627370496 * uint (drop_bit 52 x) + uint (x AND 0xFFFFFFFFFFFFF)"
  "0 \<le> uint (x AND 0xFFFFFFFFFFFFF)" "uint (x AND 0xFFFFFFFFFFFFF) \<le> 4503599627370495" "0 \<le> uint (drop_bit 52 x)"
  "uint (drop_bit 52 x) \<le> 4095"
proof -
  have lo: "uint (x AND 0xFFFFFFFFFFFFF) = uint x mod 2 ^ 52" by (simp only: limb_masks uint_and_mask_mod)
  have hi: "uint (drop_bit 52 x) = uint x div 2 ^ 52" by (simp only: uint_drop_bit_div)
  have "uint x < 18446744073709551616" using uint_lt2p[of x] by simp
  then show "uint (drop_bit 52 x) \<le> 4095" unfolding hi by simp
  show "uint x = 4503599627370496 * uint (drop_bit 52 x) + uint (x AND 0xFFFFFFFFFFFFF)"
    using mult_div_mod_eq[of "2 ^ 52" "uint x"] by (simp add: lo hi)
  show "uint (x AND 0xFFFFFFFFFFFFF) \<le> 4503599627370495" unfolding lo by simp
qed simp_all

lemma low48:
  "uint (x :: u64) = 281474976710656 * uint (drop_bit 48 x) + uint (x AND 0x0FFFFFFFFFFFF)"
  "0 \<le> uint (x AND 0x0FFFFFFFFFFFF)" "uint (x AND 0x0FFFFFFFFFFFF) \<le> 281474976710655" "0 \<le> uint (drop_bit 48 x)"
proof -
  have lo: "uint (x AND 0x0FFFFFFFFFFFF) = uint x mod 2 ^ 48" by (simp only: limb_masks uint_and_mask_mod)
  have hi: "uint (drop_bit 48 x) = uint x div 2 ^ 48" by (simp only: uint_drop_bit_div)
  show "uint x = 281474976710656 * uint (drop_bit 48 x) + uint (x AND 0x0FFFFFFFFFFFF)"
    using mult_div_mod_eq[of "2 ^ 48" "uint x"] by (simp add: lo hi)
  show "uint (x AND 0x0FFFFFFFFFFFF) \<le> 281474976710655" unfolding lo by simp
qed simp_all

lemma uint_add64: "uint x + uint y \<le> 18446744073709551615 \<Longrightarrow> uint (x + y :: u64) = uint x + uint y"
  by (rule uint_add_nowrap) simp

text \<open>The value and the prime with their powers evaluated, for linear arithmetic.\<close>

lemma fe_val_num:
  "fe_val (Fe n0 n1 n2 n3 n4) = uint n0 + uint n1 * 4503599627370496 + uint n2 * 20282409603651670423947251286016
     + uint n3 * 91343852333181432387730302044767688728495783936
     + uint n4 * 411376139330301510538742295639337626245683966408394965837152256"
  by simp

lemma fe_p_num: "fe_p = 115792089237316195423570985008687907853269984665640564039457584007908834671663"
  by (simp add: fe_p_def)

section \<open>The shared first pass\<close>

text \<open>
  The carry chain of the normalisations: adding \<open>k\<close> to the lowest limb and propagating. It keeps
  the value up to the added amount and leaves 52-bit limbs below the top one.
\<close>

definition carry_chain :: "u64 \<Rightarrow> u64 \<Rightarrow> u64 \<Rightarrow> u64 \<Rightarrow> u64 \<Rightarrow> u64 \<Rightarrow> fe" where
  "carry_chain k t0 t1 t2 t3 t4 =
     (let t0 = t0 + k;
          t1 = t1 + drop_bit 52 t0; t0 = t0 AND 0xFFFFFFFFFFFFF;
          t2 = t2 + drop_bit 52 t1; t1 = t1 AND 0xFFFFFFFFFFFFF;
          t3 = t3 + drop_bit 52 t2; t2 = t2 AND 0xFFFFFFFFFFFFF;
          t4 = t4 + drop_bit 52 t3; t3 = t3 AND 0xFFFFFFFFFFFFF
      in Fe t0 t1 t2 t3 t4)"

lemma carry_chain_spec:
  assumes "uint t0 + uint k \<le> 18446744073709551615" "uint t1 \<le> 18446744073709547520"
    "uint t2 \<le> 18446744073709547520" "uint t3 \<le> 18446744073709547520" "uint t4 \<le> 18446744073709547520"
  shows "\<exists>r0 r1 r2 r3 r4. carry_chain k t0 t1 t2 t3 t4 = Fe r0 r1 r2 r3 r4 \<and>
    uint r0 \<le> 4503599627370495 \<and> uint r1 \<le> 4503599627370495 \<and> uint r2 \<le> 4503599627370495 \<and> uint r3 \<le> 4503599627370495 \<and>
    uint t4 \<le> uint r4 \<and> uint r4 \<le> uint t4 + 4095 \<and>
    fe_val (Fe r0 r1 r2 r3 r4) = fe_val (Fe t0 t1 t2 t3 t4) + uint k"
proof -
  define a0 where "a0 = t0 + k"
  define a1 where "a1 = t1 + drop_bit 52 a0"
  define a2 where "a2 = t2 + drop_bit 52 a1"
  define a3 where "a3 = t3 + drop_bit 52 a2"
  define a4 where "a4 = t4 + drop_bit 52 a3"
  have r: "carry_chain k t0 t1 t2 t3 t4 = Fe (a0 AND 0xFFFFFFFFFFFFF) (a1 AND 0xFFFFFFFFFFFFF)
      (a2 AND 0xFFFFFFFFFFFFF) (a3 AND 0xFFFFFFFFFFFFF) a4"
    by (simp only: carry_chain_def Let_def a0_def a1_def a2_def a3_def a4_def)
  have a0: "uint a0 = uint t0 + uint k" unfolding a0_def by (rule uint_add64) (rule assms(1))
  have a1: "uint a1 = uint t1 + uint (drop_bit 52 a0)"
    unfolding a1_def by (rule uint_add64) (use assms low52[of a0] in linarith)
  have a2: "uint a2 = uint t2 + uint (drop_bit 52 a1)"
    unfolding a2_def by (rule uint_add64) (use assms low52[of a1] in linarith)
  have a3: "uint a3 = uint t3 + uint (drop_bit 52 a2)"
    unfolding a3_def by (rule uint_add64) (use assms low52[of a2] in linarith)
  have a4: "uint a4 = uint t4 + uint (drop_bit 52 a3)"
    unfolding a4_def by (rule uint_add64) (use assms low52[of a3] in linarith)
  have "fe_val (Fe (a0 AND 0xFFFFFFFFFFFFF) (a1 AND 0xFFFFFFFFFFFFF) (a2 AND 0xFFFFFFFFFFFFF)
      (a3 AND 0xFFFFFFFFFFFFF) a4) = fe_val (Fe t0 t1 t2 t3 t4) + uint k"
    using a0 a1 a2 a3 a4 low52(1)[of a0] low52(1)[of a1] low52(1)[of a2] low52(1)[of a3] by simp
  with r a4 low52[of a0] low52[of a1] low52[of a2] low52[of a3] show ?thesis by auto
qed

lemma first_pass_chain:
  "fe_first_pass (Fe t0 t1 t2 t3 t4) = carry_chain (drop_bit 48 t4 * 0x1000003D1) t0 t1 t2 t3 (t4 AND 0x0FFFFFFFFFFFF)"
  by (simp only: fe_first_pass_def carry_chain_def fe.case Let_def)

text \<open>
  The bound is the largest magnitude, 2047, for which nothing wraps: 4094 times the limb bound
  plus 4094 times 0x1000003D1 stays below 2^64.
\<close>

lemma fe_first_pass_spec:
  assumes "fe_verify_magnitude m a" "m \<le> 2047"
  shows "\<exists>r0 r1 r2 r3 r4 k. fe_first_pass a = Fe r0 r1 r2 r3 r4 \<and>
    uint r0 \<le> 4503599627370495 \<and> uint r1 \<le> 4503599627370495 \<and> uint r2 \<le> 4503599627370495 \<and> uint r3 \<le> 4503599627370495 \<and>
    uint r4 \<le> 281474976714750 \<and> fe_val a = fe_val (Fe r0 r1 r2 r3 r4) + fe_p * k"
proof (cases a)
  case (Fe t0 t1 t2 t3 t4)
  have m: "int m \<le> 2047" using assms(2) by simp
  from assms(1) have b: "uint t0 \<le> 4503599627370495 * (2 * int m)" "uint t1 \<le> 4503599627370495 * (2 * int m)"
    "uint t2 \<le> 4503599627370495 * (2 * int m)" "uint t3 \<le> 4503599627370495 * (2 * int m)"
    "uint t4 \<le> 281474976710655 * (2 * int m)"
    by (simp_all add: Fe fe_verify_magnitude_within)
  have x: "uint (drop_bit 48 t4) \<le> 4094"
    using b(5) m low48[of t4] by linarith
  then have k: "uint (drop_bit 48 t4 * 0x1000003D1) = uint (drop_bit 48 t4) * 4294968273"
    by (subst uint_mult_nowrap) simp_all
  have "\<exists>r0 r1 r2 r3 r4. carry_chain (drop_bit 48 t4 * 0x1000003D1) t0 t1 t2 t3 (t4 AND 0x0FFFFFFFFFFFF) = Fe r0 r1 r2 r3 r4 \<and>
    uint r0 \<le> 4503599627370495 \<and> uint r1 \<le> 4503599627370495 \<and> uint r2 \<le> 4503599627370495 \<and> uint r3 \<le> 4503599627370495 \<and>
    uint (t4 AND 0x0FFFFFFFFFFFF) \<le> uint r4 \<and> uint r4 \<le> uint (t4 AND 0x0FFFFFFFFFFFF) + 4095 \<and>
    fe_val (Fe r0 r1 r2 r3 r4) = fe_val (Fe t0 t1 t2 t3 (t4 AND 0x0FFFFFFFFFFFF)) + uint (drop_bit 48 t4 * 0x1000003D1)"
    by (rule carry_chain_spec) (use b m x k low48[of t4] in linarith)+
  then obtain r0 r1 r2 r3 r4 where r: "fe_first_pass a = Fe r0 r1 r2 r3 r4"
    "uint r0 \<le> 4503599627370495" "uint r1 \<le> 4503599627370495" "uint r2 \<le> 4503599627370495" "uint r3 \<le> 4503599627370495"
    "uint r4 \<le> uint (t4 AND 0x0FFFFFFFFFFFF) + 4095"
    "fe_val (Fe r0 r1 r2 r3 r4) = fe_val (Fe t0 t1 t2 t3 (t4 AND 0x0FFFFFFFFFFFF)) + uint (drop_bit 48 t4) * 4294968273"
    unfolding Fe first_pass_chain k by blast
  have "fe_val a = fe_val (Fe r0 r1 r2 r3 r4) + fe_p * uint (drop_bit 48 t4)"
    using r(7) low48(1)[of t4] by (simp add: Fe fe_p_def)
  moreover have "uint r4 \<le> 281474976714750" using r(6) low48(3)[of t4] by linarith
  ultimately show ?thesis using r by blast
qed

section \<open>Full normalisation\<close>

lemma and_mask_full:
  assumes "uint (x :: u64) \<le> 4503599627370495" "uint (y :: u64) \<le> 4503599627370495" "uint (z :: u64) \<le> 4503599627370495"
  shows "(x AND y AND z) = 0xFFFFFFFFFFFFF \<longleftrightarrow>
    uint x = 4503599627370495 \<and> uint y = 4503599627370495 \<and> uint z = 4503599627370495"
proof
  assume eq: "(x AND y AND z) = 0xFFFFFFFFFFFFF"
  have le: "uint (v AND w) \<le> uint v" "uint (v AND w) \<le> uint w" for v w :: u64
    using word_and_le1[of v w] word_and_le2[of v w] by (simp_all add: word_le_def)
  have "uint (x AND y AND z) \<le> uint x" "uint (x AND y AND z) \<le> uint y" "uint (x AND y AND z) \<le> uint z"
    using le[of x "y AND z"] le[of y z] by linarith+
  with assms eq show "uint x = 4503599627370495 \<and> uint y = 4503599627370495 \<and> uint z = 4503599627370495" by simp
next
  assume "uint x = 4503599627370495 \<and> uint y = 4503599627370495 \<and> uint z = 4503599627370495"
  then have "x = 0xFFFFFFFFFFFFF" "y = 0xFFFFFFFFFFFFF" "z = 0xFFFFFFFFFFFFF"
    by (auto intro!: word_uint_eqI)
  then show "(x AND y AND z) = 0xFFFFFFFFFFFFF" by simp
qed

lemma word_eq_uint: "(x :: 'a::len word) = y \<longleftrightarrow> uint x = uint y" by (auto intro: word_uint_eqI)

text \<open>For 52-bit limbs, the test for a final reduction is a comparison of the value with the prime.\<close>

lemma top_test:
  assumes "uint (t0 :: u64) \<le> 4503599627370495" "uint (t1 :: u64) \<le> 4503599627370495"
    "uint (t2 :: u64) \<le> 4503599627370495" "uint (t3 :: u64) \<le> 4503599627370495" "uint (t4 :: u64) \<le> 281474976710655"
  shows "t4 = 0x0FFFFFFFFFFFF \<and> (t1 AND t2 AND t3) = 0xFFFFFFFFFFFFF \<and> 0xFFFFEFFFFFC2F \<le> t0 \<longleftrightarrow>
    fe_p \<le> fe_val (Fe t0 t1 t2 t3 t4)"
proof -
  have c: "uint (0x0FFFFFFFFFFFF :: u64) = 281474976710655" "uint (0xFFFFEFFFFFC2F :: u64) = 4503595332402223"
    by simp_all
  show ?thesis
    unfolding and_mask_full[OF assms(2-4)] word_eq_uint[of t4] word_le_def c
    using assms
      fe_val_num[of t0 t1 t2 t3 t4] uint_ge_0[of t0] uint_ge_0[of t1] uint_ge_0[of t2] uint_ge_0[of t3] uint_ge_0[of t4] fe_p_num by linarith
qed

lemma fe_verify_normalized_iff:
  "fe_verify_normalized a \<longleftrightarrow> fe_within 4503599627370495 281474976710655 a \<and> fe_val a < fe_p"
proof (cases a)
  case (Fe d0 d1 d2 d3 d4)
  show ?thesis
  proof (cases "fe_within 4503599627370495 281474976710655 a")
    case True
    then have b: "uint d0 \<le> 4503599627370495" "uint d1 \<le> 4503599627370495" "uint d2 \<le> 4503599627370495"
      "uint d3 \<le> 4503599627370495" "uint d4 \<le> 281474976710655" by (simp_all add: Fe)
    have "d3 AND d2 AND d1 = d1 AND d2 AND d3" by (simp add: and.left_commute and.commute)
    with b top_test[OF b] show ?thesis by (auto simp: Fe word_le_def not_le word_less_def simp del: fe_val.simps)
  qed (auto simp: Fe word_le_def)
qed

lemma final_reduction_chain:
  "fe_final_reduction x (Fe t0 t1 t2 t3 t4) =
     (case carry_chain (x * 0x1000003D1) t0 t1 t2 t3 t4 of Fe r0 r1 r2 r3 r4 \<Rightarrow> Fe r0 r1 r2 r3 (r4 AND 0x0FFFFFFFFFFFF))"
  by (simp only: fe_final_reduction.simps carry_chain_def fe.case Let_def)

lemma fe_needs_reduction_cases:
  assumes "uint r0 \<le> 4503599627370495" "uint r1 \<le> 4503599627370495" "uint r2 \<le> 4503599627370495"
    "uint r3 \<le> 4503599627370495" "uint r4 \<le> 281474976714750"
  shows "fe_needs_reduction (Fe r0 r1 r2 r3 r4) = (if fe_p \<le> fe_val (Fe r0 r1 r2 r3 r4) then 1 else 0)"
proof (cases "uint r4 \<le> 281474976710655")
  case True
  have "uint (drop_bit 48 r4) = 0" using True by (simp add: uint_drop_bit_div)
  then have "drop_bit 48 r4 = 0" by (simp add: word_eq_uint)
  then show ?thesis using top_test[OF assms(1-4) True] by (simp add: fe_needs_reduction.simps del: fe_val.simps)
next
  case False
  then have "uint (drop_bit 48 r4) = 1" using assms(5) by (simp add: uint_drop_bit_div)
  then have "drop_bit 48 r4 = 1" by (simp add: word_eq_uint)
  moreover have "r4 \<noteq> 0x0FFFFFFFFFFFF" using False by auto
  moreover have "fe_p \<le> fe_val (Fe r0 r1 r2 r3 r4)"
    using False
      fe_val_num[of r0 r1 r2 r3 r4] uint_ge_0[of r0] uint_ge_0[of r1] uint_ge_0[of r2] uint_ge_0[of r3] uint_ge_0[of r4] fe_p_num by linarith
  ultimately show ?thesis by (simp add: fe_needs_reduction.simps del: fe_val.simps)
qed

lemma reduce_once:
  assumes b: "uint r0 \<le> 4503599627370495" "uint r1 \<le> 4503599627370495" "uint r2 \<le> 4503599627370495"
    "uint r3 \<le> 4503599627370495" "uint r4 \<le> 281474976714750" and x: "x = 0 \<or> x = 1"
    and xiff: "x = 1 \<longleftrightarrow> fe_p \<le> fe_val (Fe r0 r1 r2 r3 r4)"
  shows "fe_verify_normalized (fe_final_reduction x (Fe r0 r1 r2 r3 r4)) \<and>
    fe_val (fe_final_reduction x (Fe r0 r1 r2 r3 r4)) = fe_val (Fe r0 r1 r2 r3 r4) - fe_p * uint x"
proof -
  have k: "uint (x * 0x1000003D1) = uint x * 4294968273" "uint x \<le> 1" "0 \<le> uint x" using x by auto
  have "\<exists>s0 s1 s2 s3 s4. carry_chain (x * 0x1000003D1) r0 r1 r2 r3 r4 = Fe s0 s1 s2 s3 s4 \<and>
    uint s0 \<le> 4503599627370495 \<and> uint s1 \<le> 4503599627370495 \<and> uint s2 \<le> 4503599627370495 \<and> uint s3 \<le> 4503599627370495 \<and>
    uint r4 \<le> uint s4 \<and> uint s4 \<le> uint r4 + 4095 \<and>
    fe_val (Fe s0 s1 s2 s3 s4) = fe_val (Fe r0 r1 r2 r3 r4) + uint (x * 0x1000003D1)"
    by (rule carry_chain_spec) (use b k in linarith)+
  then obtain s0 s1 s2 s3 s4 where c: "carry_chain (x * 0x1000003D1) r0 r1 r2 r3 r4 = Fe s0 s1 s2 s3 s4"
    and s: "uint s0 \<le> 4503599627370495" "uint s1 \<le> 4503599627370495" "uint s2 \<le> 4503599627370495"
      "uint s3 \<le> 4503599627370495" "uint s4 \<le> uint r4 + 4095"
    and v: "fe_val (Fe s0 s1 s2 s3 s4) = fe_val (Fe r0 r1 r2 r3 r4) + uint x * 4294968273"
    unfolding k by blast
  have pos: "0 \<le> uint s0" "0 \<le> uint s1" "0 \<le> uint s2" "0 \<le> uint s3" "0 \<le> uint s4"
    "0 \<le> uint r0" "0 \<le> uint r1" "0 \<le> uint r2" "0 \<le> uint r3" "0 \<le> uint r4" by simp_all
  have q: "uint (drop_bit 48 s4) = uint x"
  proof (cases "x = 1")
    case True
    have "uint x = 1" using True by simp
    moreover have "fe_p \<le> fe_val (Fe r0 r1 r2 r3 r4)" using xiff True by blast
    ultimately have lb: "281474976710656 \<le> uint s4"
      using v s
      fe_val_num[of s0 s1 s2 s3 s4] uint_ge_0[of s0] uint_ge_0[of s1] uint_ge_0[of s2] uint_ge_0[of s3] uint_ge_0[of s4] fe_p_num by linarith
    have "uint s4 \<le> 281474976718845" using s b by linarith
    with lb have "uint s4 div 281474976710656 = 1" by simp
    then show ?thesis using True by (simp add: uint_drop_bit_div)
  next
    case False
    then have "x = 0" using x by blast
    then have "uint x = 0" by simp
    moreover have "\<not> fe_p \<le> fe_val (Fe r0 r1 r2 r3 r4)" using xiff False by blast
    ultimately have "uint s4 \<le> 281474976710655"
      using v s
      fe_val_num[of s0 s1 s2 s3 s4] uint_ge_0[of s0] uint_ge_0[of s1] uint_ge_0[of s2] uint_ge_0[of s3] uint_ge_0[of s4] fe_p_num by linarith
    with \<open>x = 0\<close> pos show ?thesis by (simp add: uint_drop_bit_div)
  qed
  have f: "fe_final_reduction x (Fe r0 r1 r2 r3 r4) = Fe s0 s1 s2 s3 (s4 AND 0x0FFFFFFFFFFFF)"
    by (simp only: final_reduction_chain c fe.case)
  have val: "fe_val (Fe s0 s1 s2 s3 (s4 AND 0x0FFFFFFFFFFFF)) = fe_val (Fe r0 r1 r2 r3 r4) - fe_p * uint x"
    using v low48(1)[of s4] q by (simp add: fe_p_def)
  have "fe_val (Fe r0 r1 r2 r3 r4) < 2 * fe_p" using b
      fe_val_num[of r0 r1 r2 r3 r4] uint_ge_0[of r0] uint_ge_0[of r1] uint_ge_0[of r2] uint_ge_0[of r3] uint_ge_0[of r4] fe_p_num by linarith
  then have "fe_val (Fe s0 s1 s2 s3 (s4 AND 0x0FFFFFFFFFFFF)) < fe_p"
    using val xiff x by (cases "x = 1") (auto simp del: fe_val.simps)
  then show ?thesis using s low48(3)[of s4] f val by (simp add: fe_verify_normalized_iff del: fe_val.simps)
qed

text \<open>52-bit limbs are the digits of the value.\<close>

lemma digits5:
  fixes B x4 :: int
  assumes "0 \<le> x0" "x0 < B" "0 \<le> x1" "x1 < B" "0 \<le> x2" "x2 < B" "0 \<le> x3" "x3 < B"
  defines "v \<equiv> x0 + B * (x1 + B * (x2 + B * (x3 + B * x4)))"
  shows "x0 = v mod B" "x1 = v div B mod B" "x2 = v div (B * B) mod B" "x3 = v div (B * B * B) mod B"
    "x4 = v div (B * B * B * B)"
proof -
  have B: "0 \<le> B" "B \<noteq> 0" using assms(1,2) by linarith+
  have d: "(x + B * y) div B = y" "(x + B * y) mod B = x" if "0 \<le> x" "x < B" for x y
    using that B by simp_all
  have 1: "v div B = x1 + B * (x2 + B * (x3 + B * x4))" unfolding v_def using assms(1,2) by (rule d(1))
  have 2: "v div (B * B) = x2 + B * (x3 + B * x4)"
    unfolding zdiv_zmult2_eq[OF B(1)] 1 using assms(3,4) by (rule d(1))
  have 3: "v div (B * B * B) = x3 + B * x4"
    unfolding zdiv_zmult2_eq[OF B(1), of v "B * B"] 2 using assms(5,6) by (rule d(1))
  have 4: "v div (B * B * B * B) = x4"
    unfolding zdiv_zmult2_eq[OF B(1), of v "B * B * B"] 3 using assms(7,8) by (rule d(1))
  show "x0 = v mod B" unfolding v_def by (rule d(2)[symmetric, OF assms(1,2)])
  show "x1 = v div B mod B" unfolding 1 by (rule d(2)[symmetric, OF assms(3,4)])
  show "x2 = v div (B * B) mod B" unfolding 2 by (rule d(2)[symmetric, OF assms(5,6)])
  show "x3 = v div (B * B * B) mod B" unfolding 3 by (rule d(2)[symmetric, OF assms(7,8)])
  show "x4 = v div (B * B * B * B)" by (rule 4[symmetric])
qed

lemma fe_digits:
  assumes "uint n0 \<le> 4503599627370495" "uint n1 \<le> 4503599627370495" "uint n2 \<le> 4503599627370495"
    "uint n3 \<le> 4503599627370495"
  shows "uint n0 = fe_val (Fe n0 n1 n2 n3 n4) mod 2 ^ 52" "uint n1 = fe_val (Fe n0 n1 n2 n3 n4) div 2 ^ 52 mod 2 ^ 52"
    "uint n2 = fe_val (Fe n0 n1 n2 n3 n4) div 2 ^ 104 mod 2 ^ 52" "uint n3 = fe_val (Fe n0 n1 n2 n3 n4) div 2 ^ 156 mod 2 ^ 52"
    "uint n4 = fe_val (Fe n0 n1 n2 n3 n4) div 2 ^ 208"
proof -
  have lt: "uint n0 < 2 ^ 52" "uint n1 < 2 ^ 52" "uint n2 < 2 ^ 52" "uint n3 < 2 ^ 52" using assms by simp_all
  note d = digits5[OF uint_ge_0 lt(1) uint_ge_0 lt(2) uint_ge_0 lt(3) uint_ge_0 lt(4), of "uint n4"]
  have v: "fe_val (Fe n0 n1 n2 n3 n4) = uint n0 + 2 ^ 52 * (uint n1 + 2 ^ 52 * (uint n2 + 2 ^ 52 * (uint n3 + 2 ^ 52 * uint n4)))"
    by simp
  have pow: "(2 :: int) ^ 104 = 2 ^ 52 * 2 ^ 52" "(2 :: int) ^ 156 = 2 ^ 52 * 2 ^ 52 * 2 ^ 52"
    "(2 :: int) ^ 208 = 2 ^ 52 * 2 ^ 52 * 2 ^ 52 * 2 ^ 52" by simp_all
  show "uint n0 = fe_val (Fe n0 n1 n2 n3 n4) mod 2 ^ 52" "uint n1 = fe_val (Fe n0 n1 n2 n3 n4) div 2 ^ 52 mod 2 ^ 52"
    "uint n2 = fe_val (Fe n0 n1 n2 n3 n4) div 2 ^ 104 mod 2 ^ 52" "uint n3 = fe_val (Fe n0 n1 n2 n3 n4) div 2 ^ 156 mod 2 ^ 52"
    "uint n4 = fe_val (Fe n0 n1 n2 n3 n4) div 2 ^ 208"
    unfolding v pow by (rule d)+
qed

lemma fe_val_inj:
  assumes "fe_within 4503599627370495 t a" "fe_within 4503599627370495 u b" "fe_val a = fe_val b"
  shows "a = b"
proof (cases a; cases b)
  fix a0 a1 a2 a3 a4 b0 b1 b2 b3 b4 assume ab: "a = Fe a0 a1 a2 a3 a4" "b = Fe b0 b1 b2 b3 b4"
  have A: "uint a0 \<le> 4503599627370495" "uint a1 \<le> 4503599627370495" "uint a2 \<le> 4503599627370495" "uint a3 \<le> 4503599627370495"
    and B: "uint b0 \<le> 4503599627370495" "uint b1 \<le> 4503599627370495" "uint b2 \<le> 4503599627370495" "uint b3 \<le> 4503599627370495"
    using assms(1,2) by (simp_all add: ab)
  have "uint a0 = uint b0" "uint a1 = uint b1" "uint a2 = uint b2" "uint a3 = uint b3" "uint a4 = uint b4"
    using fe_digits[OF A, of a4] fe_digits[OF B, of b4] assms(3) unfolding ab by (simp_all only:)
  then show ?thesis by (simp add: ab word_eq_uint)
qed

lemma fe_normalize_spec:
  assumes "fe_verify_magnitude m a" "m \<le> 2047"
  shows "fe_verify_normalized (fe_normalize a)" "fe_val (fe_normalize a) = fe_val a mod fe_p"
    "fe_normalize_var a = fe_normalize a"
proof -
  from fe_first_pass_spec[OF assms] obtain r0 r1 r2 r3 r4 k where r: "fe_first_pass a = Fe r0 r1 r2 r3 r4"
    and b: "uint r0 \<le> 4503599627370495" "uint r1 \<le> 4503599627370495" "uint r2 \<le> 4503599627370495"
      "uint r3 \<le> 4503599627370495" "uint r4 \<le> 281474976714750"
    and v: "fe_val a = fe_val (Fe r0 r1 r2 r3 r4) + fe_p * k" by blast
  define x where "x = fe_needs_reduction (Fe r0 r1 r2 r3 r4)"
  have x: "x = 0 \<or> x = 1" "x = 1 \<longleftrightarrow> fe_p \<le> fe_val (Fe r0 r1 r2 r3 r4)"
    using fe_needs_reduction_cases[OF b] by (simp_all add: x_def)
  have n: "fe_normalize a = fe_final_reduction x (Fe r0 r1 r2 r3 r4)"
    by (simp only: fe_normalize_def r Let_def x_def)
  note red = reduce_once[OF b x]
  then show norm: "fe_verify_normalized (fe_normalize a)" by (simp only: n)
  have "fe_val a = fe_p * (k + uint x) + fe_val (fe_normalize a)"
    using red v by (simp add: n algebra_simps)
  moreover have "0 \<le> fe_val (fe_normalize a)" by (cases "fe_normalize a") simp
  moreover have "fe_val (fe_normalize a) < fe_p" using norm by (simp add: fe_verify_normalized_iff)
  ultimately have "fe_val a mod fe_p = fe_val (fe_normalize a)" by (rule int_mod_pos_eq)
  then show "fe_val (fe_normalize a) = fe_val a mod fe_p" by simp
  show "fe_normalize_var a = fe_normalize a"
  proof (cases "x = 1")
    case True
    then show ?thesis by (simp only: n fe_normalize_var_def r Let_def x_def[symmetric]) simp
  next
    case False
    with x(1) have x0: "x = 0" by blast
    have var: "fe_normalize_var a = Fe r0 r1 r2 r3 r4" using x0 by (simp only: fe_normalize_var_def r Let_def x_def[symmetric]) simp
    have "fe_val (Fe r0 r1 r2 r3 r4) = fe_val (fe_normalize a)" using red x0 by (simp add: n)
    moreover have "fe_within 4503599627370495 281474976710655 (fe_normalize a)"
      using norm by (simp add: fe_verify_normalized_iff)
    ultimately show ?thesis
      using b unfolding var by (intro fe_val_inj[of 281474976714750 _ 281474976710655]) simp_all
  qed
qed

section \<open>Zero tests\<close>

lemma or_zero: "(x :: u64) OR y = 0 \<longleftrightarrow> x = 0 \<and> y = 0"
  by (auto simp: bit_eq_iff bit_simps)

lemma and_full:
  assumes "uint (x :: u64) \<le> 4503599627370495"
  shows "x AND y = 0xFFFFFFFFFFFFF \<Longrightarrow> x = 0xFFFFFFFFFFFFF"
proof -
  assume eq: "x AND y = 0xFFFFFFFFFFFFF"
  have "uint (x AND y) \<le> uint x" using word_and_le2[of x y] by (simp add: word_le_def)
  with assms eq show "x = 0xFFFFFFFFFFFFF" by (simp add: word_eq_uint)
qed

lemma and_full_iff:
  assumes "uint (x :: u64) \<le> 4503599627370495" "uint (y :: u64) \<le> 4503599627370495"
  shows "x AND y = 0xFFFFFFFFFFFFF \<longleftrightarrow> x = 0xFFFFFFFFFFFFF \<and> y = 0xFFFFFFFFFFFFF"
  using and_full[OF assms(1), of y] and_full[OF assms(2), of x] by (auto simp: and.commute)

text \<open>An exclusive or with a 52-bit constant keeps 52 bits and is inverted by itself.\<close>

lemma xor_52:
  assumes "uint (x :: u64) \<le> 4503599627370495" "uint (c :: u64) \<le> 4503599627370495"
  shows "uint (x XOR c) \<le> 4503599627370495" "x XOR c = d \<longleftrightarrow> x = d XOR c"
proof -
  have t: "take_bit 52 w = w" if "uint w \<le> 4503599627370495" for w :: u64
    using that by (intro word_uint_eqI) (simp only: unsigned_take_bit_eq, simp add: take_bit_int_eq_self)
  have "take_bit 52 (x XOR c) = x XOR c" using t[OF assms(1)] t[OF assms(2)] by (simp add: take_bit_xor)
  then have "uint (x XOR c) = take_bit 52 (uint (x XOR c))" by (metis unsigned_take_bit_eq)
  also have "\<dots> < 4503599627370496" by (simp add: take_bit_eq_mod)
  finally show "uint (x XOR c) \<le> 4503599627370495" by simp
  show "x XOR c = d \<longleftrightarrow> x = d XOR c" by (auto simp: xor.assoc)
qed

fun zero_test :: "fe \<Rightarrow> bool" where
  "zero_test (Fe t0 t1 t2 t3 t4) \<longleftrightarrow>
     t0 OR t1 OR t2 OR t3 OR t4 = 0 \<or>
     ((((t0 XOR 0x1000003D0) AND t1) AND t2) AND t3) AND (t4 XOR 0xF000000000000) = 0xFFFFFFFFFFFFF"

lemma normalizes_to_zero_test: "fe_normalizes_to_zero a \<longleftrightarrow> zero_test (fe_first_pass a)"
proof (cases a)
  case (Fe n0 n1 n2 n3 n4)
  show ?thesis
    by (simp only: Fe fe_normalizes_to_zero_def fe_first_pass_def fe.case Let_def zero_test.simps or.assoc)
qed

lemma zero_test_iff:
  assumes "uint r0 \<le> 4503599627370495" "uint r1 \<le> 4503599627370495" "uint r2 \<le> 4503599627370495"
    "uint r3 \<le> 4503599627370495" "uint r4 \<le> 281474976714750"
  shows "zero_test (Fe r0 r1 r2 r3 r4) \<longleftrightarrow> fe_val (Fe r0 r1 r2 r3 r4) = 0 \<or> fe_val (Fe r0 r1 r2 r3 r4) = fe_p"
proof -
  have r4: "uint r4 \<le> 4503599627370495" using assms(5) by simp
  have z0: "r0 OR r1 OR r2 OR r3 OR r4 = 0 \<longleftrightarrow>
      uint r0 = 0 \<and> uint r1 = 0 \<and> uint r2 = 0 \<and> uint r3 = 0 \<and> uint r4 = 0"
    unfolding or_zero by (simp add: word_eq_uint)
  have b: "uint (r0 XOR 0x1000003D0) \<le> 4503599627370495" "uint (r4 XOR 0xF000000000000) \<le> 4503599627370495"
    using xor_52(1)[OF assms(1), of "0x1000003D0"] xor_52(1)[OF r4, of "0xF000000000000"] by simp_all
  have full: "uint (x AND y) \<le> 4503599627370495" if "uint x \<le> 4503599627370495" for x y :: u64
    using word_and_le2[of x y] that by (simp add: word_le_def)
  have "((((r0 XOR 0x1000003D0) AND r1) AND r2) AND r3) AND (r4 XOR 0xF000000000000) = 0xFFFFFFFFFFFFF \<longleftrightarrow>
      r0 XOR 0x1000003D0 = 0xFFFFFFFFFFFFF \<and> r1 = 0xFFFFFFFFFFFFF \<and> r2 = 0xFFFFFFFFFFFFF \<and>
      r3 = 0xFFFFFFFFFFFFF \<and> r4 XOR 0xF000000000000 = 0xFFFFFFFFFFFFF"
    using b assms by (simp add: and_full_iff full)
  also have "\<dots> \<longleftrightarrow> r0 = 0xFFFFEFFFFFC2F \<and> r1 = 0xFFFFFFFFFFFFF \<and> r2 = 0xFFFFFFFFFFFFF \<and>
      r3 = 0xFFFFFFFFFFFFF \<and> r4 = 0x0FFFFFFFFFFFF"
    using xor_52(2)[OF assms(1), of "0x1000003D0" "0xFFFFFFFFFFFFF"]
      xor_52(2)[OF r4, of "0xF000000000000" "0xFFFFFFFFFFFFF"] by simp
  finally have z1: "((((r0 XOR 0x1000003D0) AND r1) AND r2) AND r3) AND (r4 XOR 0xF000000000000) = 0xFFFFFFFFFFFFF \<longleftrightarrow>
      uint r0 = 4503595332402223 \<and> uint r1 = 4503599627370495 \<and> uint r2 = 4503599627370495 \<and>
      uint r3 = 4503599627370495 \<and> uint r4 = 281474976710655"
    by (simp add: word_eq_uint)
  have pos: "0 \<le> uint r0" "0 \<le> uint r1" "0 \<le> uint r2" "0 \<le> uint r3" "0 \<le> uint r4" by simp_all
  have "uint r0 = 0 \<and> uint r1 = 0 \<and> uint r2 = 0 \<and> uint r3 = 0 \<and> uint r4 = 0 \<longleftrightarrow> fe_val (Fe r0 r1 r2 r3 r4) = 0"
    using fe_val_num[of r0 r1 r2 r3 r4] pos by linarith
  moreover have "uint r0 = 4503595332402223 \<and> uint r1 = 4503599627370495 \<and> uint r2 = 4503599627370495 \<and>
      uint r3 = 4503599627370495 \<and> uint r4 = 281474976710655 \<longleftrightarrow> fe_val (Fe r0 r1 r2 r3 r4) = fe_p"
  proof
    assume v: "fe_val (Fe r0 r1 r2 r3 r4) = fe_p"
    show "uint r0 = 4503595332402223 \<and> uint r1 = 4503599627370495 \<and> uint r2 = 4503599627370495 \<and>
      uint r3 = 4503599627370495 \<and> uint r4 = 281474976710655"
      using fe_digits[OF assms(1-4), of r4] unfolding v fe_p_num by simp
  qed (simp add: fe_p_def)
  ultimately show ?thesis unfolding zero_test.simps z0 z1 by blast
qed

lemma multiple_below_2p:
  assumes "0 \<le> v" "v < 2 * fe_p"
  shows "v mod fe_p = 0 \<longleftrightarrow> v = 0 \<or> v = fe_p"
proof
  assume "v mod fe_p = 0"
  then obtain q where q: "v = fe_p * q" by (auto simp: mod_eq_0_iff_dvd)
  have p: "0 < fe_p" by (simp add: fe_p_def)
  have "0 \<le> q" using assms(1) p q by (simp add: zero_le_mult_iff)
  moreover have "q < 2" using assms(2) p q by (metis mult.commute mult_less_cancel_left_pos)
  ultimately have "q = 0 \<or> q = 1" by linarith
  then show "v = 0 \<or> v = fe_p" using q by auto
qed auto

lemma fe_normalizes_to_zero_iff:
  assumes "fe_verify_magnitude m a" "m \<le> 2047"
  shows "fe_normalizes_to_zero a \<longleftrightarrow> fe_val a mod fe_p = 0"
proof -
  from fe_first_pass_spec[OF assms] obtain r0 r1 r2 r3 r4 k where r: "fe_first_pass a = Fe r0 r1 r2 r3 r4"
    and b: "uint r0 \<le> 4503599627370495" "uint r1 \<le> 4503599627370495" "uint r2 \<le> 4503599627370495"
      "uint r3 \<le> 4503599627370495" "uint r4 \<le> 281474976714750"
    and v: "fe_val a = fe_val (Fe r0 r1 r2 r3 r4) + fe_p * k" by blast
  have "0 \<le> fe_val (Fe r0 r1 r2 r3 r4)" "fe_val (Fe r0 r1 r2 r3 r4) < 2 * fe_p"
    using b fe_val_num[of r0 r1 r2 r3 r4] fe_p_num uint_ge_0[of r0] uint_ge_0[of r1] uint_ge_0[of r2]
      uint_ge_0[of r3] uint_ge_0[of r4] by linarith+
  then show ?thesis
    unfolding normalizes_to_zero_test r zero_test_iff[OF b] v mod_mult_self2 by (rule multiple_below_2p[symmetric])
qed

text \<open>The variable-time test only adds an early exit.\<close>

lemma fe_normalizes_to_zero_var_eq: "fe_normalizes_to_zero_var a = fe_normalizes_to_zero a"
proof (cases a)
  case (Fe n0 n1 n2 n3 n4)
  let ?t0 = "n0 + drop_bit 48 n4 * 0x1000003D1"
  define z where "z = ?t0 AND 0xFFFFFFFFFFFFF"
  define t1 where "t1 = n1 + drop_bit 52 ?t0"
  define t2 where "t2 = n2 + drop_bit 52 t1"
  define t3 where "t3 = n3 + drop_bit 52 t2"
  define t4 where "t4 = (n4 AND 0x0FFFFFFFFFFFF) + drop_bit 52 t3"
  let ?m = "0xFFFFFFFFFFFFF :: u64"
  let ?full = "((((z OR (t1 AND ?m)) OR (t2 AND ?m)) OR (t3 AND ?m)) OR t4) = 0 \<or>
     ((((z XOR 0x1000003D0) AND (t1 AND ?m)) AND (t2 AND ?m)) AND (t3 AND ?m)) AND (t4 XOR 0xF000000000000) = ?m"
  have full: "fe_normalizes_to_zero a = ?full"
    by (simp only: Fe fe_normalizes_to_zero_def fe.case Let_def z_def t1_def t2_def t3_def t4_def)
  have var: "fe_normalizes_to_zero_var a = (if z \<noteq> 0 \<and> z XOR 0x1000003D0 \<noteq> ?m then False else ?full)"
    by (simp only: Fe fe_normalizes_to_zero_var_def fe.case Let_def z_def t1_def t2_def t3_def t4_def)
  have z: "uint z \<le> 4503599627370495" unfolding z_def by (rule low52)
  have "uint (z XOR 0x1000003D0) \<le> 4503599627370495"
    using xor_52(1)[OF z, of "0x1000003D0"] by simp
  then have "\<not> ?full" if "z \<noteq> 0" "z XOR 0x1000003D0 \<noteq> ?m"
    using that and_full[of "z XOR 0x1000003D0"] by (auto simp: or_zero and.assoc)
  then show ?thesis unfolding full var by auto
qed

section \<open>Predicates and comparison\<close>

lemma fe_is_zero_iff: "fe_is_zero a \<longleftrightarrow> fe_val a = 0"
proof (cases a)
  case (Fe t0 t1 t2 t3 t4)
  have "fe_is_zero a \<longleftrightarrow> uint t0 = 0 \<and> uint t1 = 0 \<and> uint t2 = 0 \<and> uint t3 = 0 \<and> uint t4 = 0"
    unfolding Fe fe_is_zero.simps or_zero by (simp add: word_eq_uint)
  then show ?thesis
    using fe_val_num[of t0 t1 t2 t3 t4] uint_ge_0[of t0] uint_ge_0[of t1] uint_ge_0[of t2]
      uint_ge_0[of t3] uint_ge_0[of t4] unfolding Fe by linarith
qed

lemma fe_is_odd_iff: "fe_is_odd a \<longleftrightarrow> odd (fe_val a)"
proof (cases a)
  case (Fe t0 t1 t2 t3 t4)
  have "fe_is_odd a \<longleftrightarrow> odd (uint t0)"
    using uint_and_mask_mod[of t0 1] by (auto simp: Fe word_eq_uint odd_iff_mod_2_eq_one)
  moreover have "odd (fe_val a) \<longleftrightarrow> odd (uint t0)" by (simp add: Fe)
  ultimately show ?thesis by simp
qed

lemma sgn_digit:
  assumes "\<bar>l\<bar> < (B :: int)"
  shows "sgn (h * B + l) = (if h = 0 then sgn l else sgn h)"
proof (cases "h = 0")
  case False
  then consider "1 \<le> h" | "h \<le> - 1" by linarith
  then show ?thesis
  proof cases
    case 1
    then have "1 * B \<le> h * B" using assms by (intro mult_right_mono) auto
    with assms 1 have "0 < h * B + l" by linarith
    with 1 show ?thesis by simp
  next
    case 2
    then have "h * B \<le> - 1 * B" using assms by (intro mult_right_mono) auto
    with assms 2 have "h * B + l < 0" by linarith
    with 2 show ?thesis by simp
  qed
qed simp

lemma digit_diff_bound:
  assumes "\<forall>i < k. uint (a ! i :: u64) < 2 ^ 52 \<and> uint (b ! i :: u64) < 2 ^ 52"
  shows "\<bar>\<Sum>i < k. (uint (a ! i) - uint (b ! i)) * 2 ^ (52 * i)\<bar> < (2 ^ (52 * k) :: int)"
  using assms
proof (induction k)
  case (Suc k)
  let ?d = "uint (a ! k) - uint (b ! k)"
  have "uint (a ! k) < 4503599627370496" "uint (b ! k) < 4503599627370496" "0 \<le> uint (a ! k)" "0 \<le> uint (b ! k)"
    using Suc.prems by auto
  then have "\<bar>?d\<bar> \<le> 4503599627370495" by linarith
  then have "\<bar>?d\<bar> \<le> 2 ^ 52 - 1" by simp
  then have "\<bar>?d\<bar> * 2 ^ (52 * k) \<le> (2 ^ 52 - 1) * 2 ^ (52 * k)" by (intro mult_right_mono) simp_all
  also have "(2 ^ 52 - 1) * 2 ^ (52 * k) = (2 ^ (52 * Suc k) - 2 ^ (52 * k) :: int)"
    by (simp add: power_add algebra_simps)
  finally have "\<bar>?d * 2 ^ (52 * k)\<bar> \<le> 2 ^ (52 * Suc k) - 2 ^ (52 * k)"
    by (simp only: abs_mult) (simp only: abs_power2 abs_numeral power_abs)
  moreover have "\<bar>\<Sum>i < k. (uint (a ! i) - uint (b ! i)) * 2 ^ (52 * i)\<bar> < (2 ^ (52 * k) :: int)"
    using Suc by simp
  ultimately show ?case using abs_triangle_ineq[of "\<Sum>i < k. (uint (a ! i) - uint (b ! i)) * 2 ^ (52 * i)" "?d * 2 ^ (52 * k)"] by (simp only: sum.lessThan_Suc)
qed simp

lemma fe_cmp_loop_sgn:
  assumes "\<forall>i < n - 1. uint (a ! i) < 2 ^ 52 \<and> uint (b ! i) < 2 ^ 52"
  shows "fe_cmp_loop a b n = sgn (\<Sum>i < n. (uint (a ! i) - uint (b ! i)) * 2 ^ (52 * i))"
  using assms
proof (induction n)
  case (Suc n)
  have "fe_cmp_loop a b n = sgn (\<Sum>i < n. (uint (a ! i) - uint (b ! i)) * 2 ^ (52 * i))"
    using Suc by simp
  moreover have "\<bar>\<Sum>i < n. (uint (a ! i) - uint (b ! i)) * 2 ^ (52 * i)\<bar> < (2 ^ (52 * n) :: int)"
    using Suc.prems by (intro digit_diff_bound) simp
  note sgn_digit[OF this, of "uint (a ! n) - uint (b ! n)"]
  ultimately show ?case by (auto simp: word_less_def sgn_if add.commute)
qed simp

lemma fe_cmp_var_sgn:
  assumes "fe_verify_normalized a" "fe_verify_normalized b"
  shows "fe_cmp_var a b = sgn (fe_val a - fe_val b)"
proof (cases a; cases b)
  fix a0 a1 a2 a3 a4 b0 b1 b2 b3 b4 assume ab: "a = Fe a0 a1 a2 a3 a4" "b = Fe b0 b1 b2 b3 b4"
  have "\<forall>i < 4. uint ([a0, a1, a2, a3, a4] ! i) < 2 ^ 52 \<and> uint ([b0, b1, b2, b3, b4] ! i) < 2 ^ 52"
    using assms by (auto simp: ab fe_verify_normalized_iff less_Suc_eq numeral_eq_Suc nth_Cons')
  then have "fe_cmp_var a b = sgn (\<Sum>i < 5. (uint (n_list a ! i) - uint (n_list b ! i)) * 2 ^ (52 * i))"
    unfolding fe_cmp_var_def by (intro fe_cmp_loop_sgn) (simp add: ab)
  also have "(\<Sum>i < 5. (uint (n_list a ! i) - uint (n_list b ! i)) * 2 ^ (52 * i)) = fe_val a - fe_val b"
  proof -
    have "{..<5 :: nat} = {0, 1, 2, 3, 4}" by auto
    then show ?thesis by (simp add: ab algebra_simps)
  qed
  finally show "fe_cmp_var a b = sgn (fe_val a - fe_val b)" .
qed

section \<open>Linear operations\<close>

lemma scast_small: "uint (a :: u32) < 2 ^ 31 \<Longrightarrow> uint (scast a :: u64) = uint a"
proof -
  assume a: "uint (a :: u32) < 2 ^ 31"
  have "\<not> bit (uint a) 31" using a by (metis bit_take_bit_iff less_irrefl take_bit_int_eq_self uint_ge_0)
  then have "sint a = uint a"
    using a by (simp add: sint_uint signed_take_bit_eq_if_positive take_bit_int_eq_self)
  then show "uint (scast a :: u64) = uint a"
    by (simp add: scast_eq uint_ucast_up)
qed

lemma uint_add_limb:
  assumes "uint (x :: u64) \<le> l * (2 * int m)" "uint (y :: u64) \<le> l * (2 * int n)" "m + n \<le> 2048" "l \<le> 4503599627370495" "0 \<le> l"
  shows "uint (x + y) = uint x + uint y" "uint x + uint y \<le> l * (2 * int (m + n))"
proof -
  show s: "uint x + uint y \<le> l * (2 * int (m + n))" using assms(1,2) by (simp add: algebra_simps)
  have "l * (2 * int (m + n)) \<le> 4503599627370495 * (2 * 2048)"
    using assms(3-5) by (intro mult_mono) simp_all
  with s show "uint (x + y) = uint x + uint y" by (intro uint_add64) linarith
qed

lemma fe_add_spec:
  assumes "fe_verify_magnitude m a" "fe_verify_magnitude n b" "m + n \<le> 2048"
  shows "fe_verify_magnitude (m + n) (fe_add a b)" "fe_val (fe_add a b) = fe_val a + fe_val b"
proof -
  obtain a0 a1 a2 a3 a4 b0 b1 b2 b3 b4 where ab: "a = Fe a0 a1 a2 a3 a4" "b = Fe b0 b1 b2 b3 b4"
    by (cases a; cases b) auto
  from assms(1,2) have A: "uint a0 \<le> 4503599627370495 * (2 * int m)" "uint a1 \<le> 4503599627370495 * (2 * int m)"
    "uint a2 \<le> 4503599627370495 * (2 * int m)" "uint a3 \<le> 4503599627370495 * (2 * int m)" "uint a4 \<le> 281474976710655 * (2 * int m)"
    and B: "uint b0 \<le> 4503599627370495 * (2 * int n)" "uint b1 \<le> 4503599627370495 * (2 * int n)"
    "uint b2 \<le> 4503599627370495 * (2 * int n)" "uint b3 \<le> 4503599627370495 * (2 * int n)" "uint b4 \<le> 281474976710655 * (2 * int n)"
    by (simp_all add: ab fe_verify_magnitude_within)
  note S = uint_add_limb[OF A(1) B(1) assms(3)] uint_add_limb[OF A(2) B(2) assms(3)] uint_add_limb[OF A(3) B(3) assms(3)]
    uint_add_limb[OF A(4) B(4) assms(3)] uint_add_limb[OF A(5) B(5) assms(3)]
  show "fe_verify_magnitude (m + n) (fe_add a b)" using S assms(3) by (simp add: ab fe_verify_magnitude_within)
  show "fe_val (fe_add a b) = fe_val a + fe_val b" using S by (simp add: ab)
qed

lemma uint_negate_limb:
  assumes "uint (x :: u64) \<le> l * (2 * int m)" "uint (c :: u64) = k" "l \<le> k * 2" "k \<le> 4503599627370495" "0 \<le> l" "0 \<le> k"
    and n: "uint (n :: u32) \<le> 2046" "l * (2 * int m) \<le> k * (2 * (uint n + 1))"
  shows "uint (c * 2 * scast (n + 1) - x) = k * (2 * (uint n + 1)) - uint x"
proof -
  have n1: "uint (n + 1) = uint n + 1" using n by (subst uint_add_nowrap) simp_all
  then have s: "uint (scast (n + 1) :: u64) = uint n + 1" using n by (subst scast_small) simp_all
  have c2: "uint (c * 2) = k * 2" using assms(2,4) by (subst uint_mult_nowrap) simp_all
  have "k * 2 * (uint n + 1) \<le> 4503599627370495 * 2 * 2047" using assms(4,6) n by (intro mult_mono) simp_all
  then have "uint (c * 2 * scast (n + 1)) = k * (2 * (uint n + 1))"
    using c2 s by (subst uint_mult_nowrap) (simp_all add: algebra_simps)
  then show ?thesis using assms(1) n(2) by (subst uint_sub_nowrap) simp_all
qed

lemma fe_negate_spec:
  assumes "fe_verify_magnitude m a" "int m \<le> uint n" "uint n \<le> 2046"
  shows "fe_verify_magnitude (unat n + 1) (fe_negate a n)"
    "fe_val (fe_negate a n) = 2 * (uint n + 1) * fe_p - fe_val a"
proof -
  obtain a0 a1 a2 a3 a4 where a: "a = Fe a0 a1 a2 a3 a4" by (cases a)
  from assms(1) have A: "uint a0 \<le> 4503599627370495 * (2 * int m)" "uint a1 \<le> 4503599627370495 * (2 * int m)"
    "uint a2 \<le> 4503599627370495 * (2 * int m)" "uint a3 \<le> 4503599627370495 * (2 * int m)" "uint a4 \<le> 281474976710655 * (2 * int m)"
    by (simp_all add: a fe_verify_magnitude_within)
  have c: "uint (0xFFFFEFFFFFC2F :: u64) = 4503595332402223" "uint (0xFFFFFFFFFFFFF :: u64) = 4503599627370495"
    "uint (0x0FFFFFFFFFFFF :: u64) = 281474976710655" by simp_all
  have "int m \<le> uint n" by (rule assms(2))
  then have r: "4503599627370495 * (2 * int m) \<le> 4503595332402223 * (2 * (uint n + 1))"
    "4503599627370495 * (2 * int m) \<le> 4503599627370495 * (2 * (uint n + 1))"
    "281474976710655 * (2 * int m) \<le> 281474976710655 * (2 * (uint n + 1))"
    using assms(3) by simp_all
  have N: "uint (0xFFFFEFFFFFC2F * 2 * scast (n + 1) - a0) = 4503595332402223 * (2 * (uint n + 1)) - uint a0"
    "uint (0xFFFFFFFFFFFFF * 2 * scast (n + 1) - a1) = 4503599627370495 * (2 * (uint n + 1)) - uint a1"
    "uint (0xFFFFFFFFFFFFF * 2 * scast (n + 1) - a2) = 4503599627370495 * (2 * (uint n + 1)) - uint a2"
    "uint (0xFFFFFFFFFFFFF * 2 * scast (n + 1) - a3) = 4503599627370495 * (2 * (uint n + 1)) - uint a3"
    "uint (0x0FFFFFFFFFFFF * 2 * scast (n + 1) - a4) = 281474976710655 * (2 * (uint n + 1)) - uint a4"
    using uint_negate_limb[OF A(1) c(1) _ _ _ _ assms(3) r(1)] uint_negate_limb[OF A(2) c(2) _ _ _ _ assms(3) r(2)]
      uint_negate_limb[OF A(3) c(2) _ _ _ _ assms(3) r(2)] uint_negate_limb[OF A(4) c(2) _ _ _ _ assms(3) r(2)]
      uint_negate_limb[OF A(5) c(3) _ _ _ _ assms(3) r(3)] by simp_all
  have pos: "0 \<le> uint a0" "0 \<le> uint a1" "0 \<le> uint a2" "0 \<le> uint a3" "0 \<le> uint a4" "0 \<le> uint n" by simp_all
  have un: "int (unat n) = uint n" by simp
  define q where "q = 2 * (uint n + 1)"
  have q: "2 \<le> q" "2 * int (unat n + 1) = q" using pos(6) un by (simp_all add: q_def)
  note N = N[folded q_def]
  have "4503595332402223 * q - uint a0 \<le> 4503599627370495 * q" using pos(1) q(1) by linarith
  moreover have "4503599627370495 * q - uint a1 \<le> 4503599627370495 * q" "4503599627370495 * q - uint a2 \<le> 4503599627370495 * q"
    "4503599627370495 * q - uint a3 \<le> 4503599627370495 * q" "281474976710655 * q - uint a4 \<le> 281474976710655 * q"
    by simp_all
  moreover have "unat n + 1 \<le> 2048" using assms(3) un by linarith
  ultimately show "fe_verify_magnitude (unat n + 1) (fe_negate a n)"
    unfolding a fe_negate.simps fe_verify_magnitude_within fe_within.simps N q(2) by blast
  show "fe_val (fe_negate a n) = 2 * (uint n + 1) * fe_p - fe_val a"
    unfolding a fe_negate.simps fe_val_num N fe_p_num by (simp add: q_def algebra_simps)
qed

lemma fe_mul_int_spec:
  assumes "fe_verify_magnitude m a" "int m * uint n \<le> 2048" "uint n \<le> 2048"
  shows "fe_verify_magnitude (m * unat n) (fe_mul_int a n)" "fe_val (fe_mul_int a n) = fe_val a * uint n"
proof -
  obtain a0 a1 a2 a3 a4 where a: "a = Fe a0 a1 a2 a3 a4" by (cases a)
  from assms(1) have A: "uint a0 \<le> 4503599627370495 * (2 * int m)" "uint a1 \<le> 4503599627370495 * (2 * int m)"
    "uint a2 \<le> 4503599627370495 * (2 * int m)" "uint a3 \<le> 4503599627370495 * (2 * int m)" "uint a4 \<le> 281474976710655 * (2 * int m)"
    by (simp_all add: a fe_verify_magnitude_within)
  have s: "uint (scast n :: u64) = uint n" using assms(3) by (subst scast_small) simp_all
  have M: "uint (x * scast n) = uint x * uint n" "uint x * uint n \<le> l * (2 * (int m * uint n))"
    if "uint (x :: u64) \<le> l * (2 * int m)" "l \<le> 4503599627370495" "0 \<le> l" for x l
  proof -
    have "uint x * uint n \<le> l * (2 * int m) * uint n" using that by (intro mult_right_mono) simp_all
    then show b: "uint x * uint n \<le> l * (2 * (int m * uint n))" by (simp add: algebra_simps)
    have "l * (2 * (int m * uint n)) \<le> 4503599627370495 * (2 * 2048)"
      using that assms(2) by (intro mult_mono) simp_all
    with b show "uint (x * scast n) = uint x * uint n" using s by (subst uint_mult_nowrap) simp_all
  qed
  note L = M[OF A(1)] M[OF A(2)] M[OF A(3)] M[OF A(4)] M[OF A(5)]
  have i: "int (m * unat n) = int m * uint n" by simp
  then have "int (m * unat n) \<le> int 2048" using assms(2) by linarith
  then have "m * unat n \<le> 2048" by (simp only: of_nat_le_iff)
  then show "fe_verify_magnitude (m * unat n) (fe_mul_int a n)"
    using L by (simp add: a fe_verify_magnitude_within)
  show "fe_val (fe_mul_int a n) = fe_val a * uint n" using L by (simp add: a algebra_simps)
qed

lemma cmov_word_eq: "cmov_word flag r a = (if flag then a else r)"
  by (simp add: cmov_word_def)

lemma fe_cmov_eq: "fe_cmov r a flag = (if flag then a else r)"
  by (cases r; cases a) (simp add: cmov_word_eq)

lemma fe_storage_cmov_eq: "fe_storage_cmov r a flag = (if flag then a else r)"
  by (cases r; cases a) (simp add: cmov_word_eq)

section \<open>The properties\<close>

text \<open>
  C19. \<open>fe_normalize\<close> brings any element of magnitude at most 2047 to its unique representation: the
  limbs are in range, the value is below the field prime and congruent to the input's. The
  variable-time version returns the same limbs.
\<close>
theorem fe_normalize_correct:
  assumes "fe_verify_magnitude m a" "m \<le> 2047"
  shows "fe_verify_normalized (fe_normalize a) \<and> fe_val (fe_normalize a) = fe_val a mod fe_p \<and>
    fe_normalize_var a = fe_normalize a"
  using fe_normalize_spec[OF assms] by simp

theorem fe_normalize_correct_witness:
  "fe_verify_normalized (fe_normalize (Fe 0xFFFFEFFFFFC30 0xFFFFFFFFFFFFF 0xFFFFFFFFFFFFF 0xFFFFFFFFFFFFF 0x0FFFFFFFFFFFF)) \<and>
   fe_val (fe_normalize (Fe 0xFFFFEFFFFFC30 0xFFFFFFFFFFFFF 0xFFFFFFFFFFFFF 0xFFFFFFFFFFFFF 0x0FFFFFFFFFFFF)) = 1"
proof -
  have "fe_verify_magnitude 1 (Fe 0xFFFFEFFFFFC30 0xFFFFFFFFFFFFF 0xFFFFFFFFFFFFF 0xFFFFFFFFFFFFF 0x0FFFFFFFFFFFF)"
    by simp
  from fe_normalize_correct[OF this] show ?thesis by (simp add: fe_p_def)
qed

text \<open>
  The bound 2047 is sharp although \<open>secp256k1_fe_verify\<close> admits magnitude 2048: there is an
  element of that magnitude on which the first pass of \<open>fe_normalize\<close> overflows 64 bits and the
  result is not congruent to the input.
\<close>
theorem fe_normalize_wraps_at_2048:
  "\<exists>a. fe_verify_magnitude 2048 a \<and> fe_val (fe_normalize a) mod fe_p \<noteq> fe_val a mod fe_p"
proof (intro exI conjI)
  show "fe_verify_magnitude 2048 (Fe 0xFFFFFFFFFFFFF000 0 0 0 0xFFFFFFFFFFFF000)" by simp
  have "fe_normalize (Fe 0xFFFFFFFFFFFFF000 0 0 0 0xFFFFFFFFFFFF000) = Fe 17587895073839 0 0 0 281474976706560"
    by code_simp
  then show "fe_val (fe_normalize (Fe 0xFFFFFFFFFFFFF000 0 0 0 0xFFFFFFFFFFFF000)) mod fe_p
      \<noteq> fe_val (Fe 0xFFFFFFFFFFFFF000 0 0 0 0xFFFFFFFFFFFF000) mod fe_p" by (simp add: fe_p_def)
qed

text \<open>
  \<open>fe_normalizes_to_zero\<close> and its early-exit version decide, without normalising, whether an
  element of magnitude at most 2047 is zero modulo the field prime.
\<close>
theorem fe_normalizes_to_zero_correct:
  assumes "fe_verify_magnitude m a" "m \<le> 2047"
  shows "(fe_normalizes_to_zero a \<longleftrightarrow> fe_val a mod fe_p = 0) \<and> (fe_normalizes_to_zero_var a \<longleftrightarrow> fe_val a mod fe_p = 0)"
  using fe_normalizes_to_zero_iff[OF assms] by (simp add: fe_normalizes_to_zero_var_eq)

theorem fe_normalizes_to_zero_correct_witness:
  "fe_normalizes_to_zero_var (Fe 0xFFFFEFFFFFC2F 0xFFFFFFFFFFFFF 0xFFFFFFFFFFFFF 0xFFFFFFFFFFFFF 0x0FFFFFFFFFFFF)"
proof -
  have "fe_verify_magnitude 1 (Fe 0xFFFFEFFFFFC2F 0xFFFFFFFFFFFFF 0xFFFFFFFFFFFFF 0xFFFFFFFFFFFFF 0x0FFFFFFFFFFFF)"
    by simp
  from fe_normalizes_to_zero_correct[OF this] show ?thesis by (simp add: fe_p_def)
qed

lemma fe_sub_zero_iff:
  assumes "fe_verify_magnitude 1 a" "fe_verify_magnitude n b" "n \<le> 2045"
  shows "fe_normalizes_to_zero_var (fe_add (fe_negate a 1) b) \<longleftrightarrow> fe_val a mod fe_p = fe_val b mod fe_p"
proof -
  have neg: "fe_verify_magnitude (unat (1 :: u32) + 1) (fe_negate a 1)"
    "fe_val (fe_negate a 1) = 2 * (uint (1 :: u32) + 1) * fe_p - fe_val a"
    by (rule fe_negate_spec[OF assms(1)]; simp)+
  have sum: "fe_verify_magnitude (unat (1 :: u32) + 1 + n) (fe_add (fe_negate a 1) b)"
    "fe_val (fe_add (fe_negate a 1) b) = fe_val (fe_negate a 1) + fe_val b"
    using assms(3) by (intro fe_add_spec[OF neg(1) assms(2)]; simp)+
  have "fe_normalizes_to_zero_var (fe_add (fe_negate a 1) b) \<longleftrightarrow> (4 * fe_p + (fe_val b - fe_val a)) mod fe_p = 0"
    using fe_normalizes_to_zero_iff[OF sum(1)] assms(3) neg(2) sum(2)
    by (simp add: fe_normalizes_to_zero_var_eq algebra_simps)
  also have "\<dots> \<longleftrightarrow> fe_val b mod fe_p = fe_val a mod fe_p"
    by (simp add: mod_eq_dvd_iff mod_eq_0_iff_dvd dvd_add_right_iff)
  finally show ?thesis by auto
qed

text \<open>
  \<open>fe_equal_var\<close> (negate, add, test for zero) decides equality modulo the field prime, for a
  first argument of magnitude 1 and any second argument of magnitude at most 2045.
\<close>
theorem fe_equal_var_correct:
  assumes "fe_verify_magnitude 1 a" "fe_verify_magnitude n b" "n \<le> 2045"
  shows "fe_equal_var a b \<longleftrightarrow> fe_val a mod fe_p = fe_val b mod fe_p"
  unfolding fe_equal_var_def by (rule fe_sub_zero_iff[OF assms])

theorem fe_equal_var_correct_witness:
  "fe_equal_var (Fe 1 0 0 0 0) (Fe 0xFFFFEFFFFFC30 0xFFFFFFFFFFFFF 0xFFFFFFFFFFFFF 0xFFFFFFFFFFFFF 0x0FFFFFFFFFFFF)"
proof -
  have "fe_verify_magnitude 1 (Fe 1 0 0 0 0)"
    "fe_verify_magnitude 1 (Fe 0xFFFFEFFFFFC30 0xFFFFFFFFFFFFF 0xFFFFFFFFFFFFF 0xFFFFFFFFFFFFF 0x0FFFFFFFFFFFF)"
    by simp_all
  from fe_equal_var_correct[OF this] show ?thesis by (simp add: fe_p_def)
qed

end
