(* ===== verification/Field_Bytes.thy ===== *)
theory Field_Bytes
  imports Field_Ops
begin

text \<open>
  The byte form of a field element (\<open>fe_set_b32\<close>, \<open>fe_get_b32\<close>: 32 bytes, big-endian) and its
  storage form (four full 64-bit words), with their round trips.
\<close>

section \<open>Bits of a value\<close>

text \<open>The number a list of bytes stands for, most significant byte first.\<close>

definition be_val :: "u8 list \<Rightarrow> int" where
  "be_val bs = horner_sum uint 256 (rev bs)"

lemma bit_be_val: "bit (be_val bs) k \<longleftrightarrow> k div 8 < length bs \<and> bit (rev bs ! (k div 8)) (k mod 8)"
  using bit_horner_sum_uint_exp_iff[of "rev bs" k] by (simp add: be_val_def)

lemma be_val_inj:
  assumes "length xs = length ys" "be_val xs = be_val ys"
  shows "xs = ys"
proof -
  have "rev xs ! i = rev ys ! i" if i: "i < length ys" for i
  proof (rule bit_word_eqI)
    fix q assume "q < LENGTH(8)"
    then have "(8 * i + q) div 8 = i" "(8 * i + q) mod 8 = q" by simp_all
    then show "bit (rev xs ! i) q = bit (rev ys ! i) q"
      using bit_be_val[of xs "8 * i + q"] bit_be_val[of ys "8 * i + q"] assms i by simp
  qed
  then have "rev xs = rev ys" using assms(1) by (simp add: list_eq_iff_nth_eq)
  then show ?thesis by simp
qed

lemma be_val_bounds: "0 \<le> be_val bs" "be_val bs < 2 ^ (8 * length bs)"
proof -
  have "be_val bs = take_bit (8 * length bs) (be_val bs)"
    by (rule bit_eqI) (auto simp: bit_take_bit_iff bit_be_val)
  then show "be_val bs < 2 ^ (8 * length bs)" "0 \<le> be_val bs"
    by (metis take_bit_int_less_exp, metis take_bit_nonnegative)
qed

lemma len64: "LENGTH(64) = 64" by simp

lemma limb_bits:
  assumes "fe_within 4503599627370495 281474976710655 a" "l < 5"
  shows "uint (n_list a ! l) = take_bit 52 (drop_bit (52 * l) (fe_val a))"
proof (cases a)
  case (Fe n0 n1 n2 n3 n4)
  have low: "uint n0 \<le> 4503599627370495" "uint n1 \<le> 4503599627370495" "uint n2 \<le> 4503599627370495"
    "uint n3 \<le> 4503599627370495" "uint n4 \<le> 281474976710655" using assms by (simp_all add: Fe)
  note dig = fe_digits[OF low(1-4), of n4, folded Fe]
  have "uint n4 mod 2 ^ 52 = uint n4" using low(5) by (intro mod_pos_pos_trivial) simp_all
  then have "uint n4 = fe_val a div 2 ^ 208 mod 2 ^ 52" using dig(5) by metis
  with dig have d: "uint n0 = take_bit 52 (drop_bit 0 (fe_val a))" "uint n1 = take_bit 52 (drop_bit 52 (fe_val a))"
    "uint n2 = take_bit 52 (drop_bit 104 (fe_val a))" "uint n3 = take_bit 52 (drop_bit 156 (fe_val a))"
    "uint n4 = take_bit 52 (drop_bit 208 (fe_val a))"
    by (simp_all only: take_bit_eq_mod drop_bit_eq_div power_0 div_by_1)
  consider "l = 0" | "l = 1" | "l = 2" | "l = 3" | "l = 4" using \<open>l < 5\<close> by linarith
  moreover have "n_list a = [n0, n1, n2, n3, n4]" by (simp add: Fe)
  ultimately show ?thesis using d by cases simp_all
qed

lemma bit_limb:
  assumes "fe_within 4503599627370495 281474976710655 a" "l < 5"
  shows "bit (n_list a ! l) s \<longleftrightarrow> s < 52 \<and> bit (fe_val a) (52 * l + s)"
proof -
  have "bit (n_list a ! l) s \<longleftrightarrow> bit (uint (n_list a ! l)) s" by (simp add: bit_uint_iff) (metis bit_imp_le_length len64)
  then show ?thesis by (simp only: limb_bits[OF assms] bit_take_bit_iff bit_drop_bit_eq) auto
qed

lemma fe_val_256:
  assumes "fe_within 4503599627370495 281474976710655 a"
  shows "0 \<le> fe_val a" "fe_val a < 2 ^ 256" "bit (fe_val a) k \<Longrightarrow> k < 256"
proof -
  show "fe_val a < 2 ^ 256" "0 \<le> fe_val a" using assms by (cases a; simp)+
  then have "take_bit 256 (fe_val a) = fe_val a" by (simp add: take_bit_int_eq_self)
  then show "bit (fe_val a) k \<Longrightarrow> k < 256" by (metis bit_take_bit_iff)
qed

section \<open>Bytes to limbs\<close>

text \<open>After the first \<open>t\<close> nibbles, the limbs hold the low \<open>4 * t\<close> bits of the input.\<close>

definition nibbles_read :: "u8 list \<Rightarrow> nat \<Rightarrow> u64 list \<Rightarrow> bool" where
  "nibbles_read a t n \<longleftrightarrow> length n = 5 \<and>
     (\<forall>l < 5. \<forall>s. bit (n ! l) s \<longleftrightarrow> s < 52 \<and> 52 * l + s < 4 * t \<and> bit (be_val a) (52 * l + s))"

lemma set_b32_nibble_step:
  assumes "length a = 32" "nibbles_read a (2 * i + j) n" "i < 32" "j < 2"
  shows "nibbles_read a (Suc (2 * i + j)) (set_b32_nibble a i j n)"
proof -
  define l where "l = (8 * i + 4 * j) div 52"
  define h where "h = (8 * i + 4 * j) mod 52"
  have lh: "8 * i + 4 * j = 52 * l + h" "h + 4 \<le> 52" "l < 5"
  proof -
    have t: "8 * i + 4 * j = 4 * (2 * i + j)" by simp
    show "8 * i + 4 * j = 52 * l + h" by (simp add: l_def h_def)
    have "h = 4 * ((2 * i + j) mod 13)" unfolding h_def t using mult_mod_right[of 4 "2 * i + j" 13] by simp
    moreover have "(2 * i + j) mod 13 < 13" by simp
    ultimately show "h + 4 \<le> 52" by linarith
    have "8 * i + 4 * j < 5 * 52" using assms(3,4) by linarith
    then show "l < 5" unfolding l_def by (rule less_mult_imp_div_less)
  qed
  have n: "length n = 5" and r: "\<And>l s. l < 5 \<Longrightarrow> bit (n ! l) s \<longleftrightarrow> s < 52 \<and> 52 * l + s < 4 * (2 * i + j) \<and> bit (be_val a) (52 * l + s)"
    using assms(2) by (auto simp: nibbles_read_def)
  have byte: "bit (a ! (31 - i)) (4 * j + q) \<longleftrightarrow> bit (be_val a) (52 * l + h + q)" if "q < 4" for q
  proof -
    have e: "52 * l + h + q = 8 * i + (4 * j + q)" using lh(1) by simp
    have b8: "4 * j + q < 8" using that assms(4) by simp
    have "(52 * l + h + q) div 8 = i" "(52 * l + h + q) mod 8 = 4 * j + q"
      by (simp_all only: e div_mult_self4 mod_mult_self4 div_less mod_less b8)
    then show ?thesis using assms(1,3) by (simp add: bit_be_val rev_nth)
  qed
  have new: "bit (push_bit h (ucast (drop_bit (4 * j) (a ! (31 - i)) AND 0xF)) :: u64) s
      \<longleftrightarrow> h \<le> s \<and> s < h + 4 \<and> bit (be_val a) (52 * l + s)" for s
  proof -
    have F: "(0xF :: u8) = mask 4" by (simp add: mask_eq_exp_minus_1)
    show ?thesis using lh(2) byte[of "s - h"]
      by (auto simp: F bit_simps)
  qed
  show ?thesis
    unfolding nibbles_read_def set_b32_nibble_def Let_def l_def[symmetric] h_def[symmetric]
  proof (intro conjI allI impI)
    fix l' s :: nat assume l': "l' < 5"
    have t: "4 * (2 * i + j) = 52 * l + h" "4 * Suc (2 * i + j) = 52 * l + h + 4" using lh(1) by simp_all
    show "bit (n[l := n ! l OR push_bit h (ucast (drop_bit (4 * j) (a ! (31 - i)) AND 0xF))] ! l') s \<longleftrightarrow>
        s < 52 \<and> 52 * l' + s < 4 * Suc (2 * i + j) \<and> bit (be_val a) (52 * l' + s)"
    proof (cases "l' = l")
      case True
      have "s < 52 \<and> 52 * l + s < 52 * l + h + 4 \<longleftrightarrow> s < 52 \<and> 52 * l + s < 52 * l + h \<or> h \<le> s \<and> s < h + 4"
        using lh(2) by linarith
      then show ?thesis
        unfolding True t using n lh(3) r[OF lh(3), of s, unfolded t] by (auto simp: bit_or_iff new)
    next
      case False
      then have "s < 52 \<Longrightarrow> 52 * l' + s < 52 * l + h + 4 \<longleftrightarrow> 52 * l' + s < 52 * l + h"
        using lh(2) by linarith
      then show ?thesis using False r[OF l', of s] unfolding t by auto
    qed
  qed (simp add: n)
qed

lemma fe_set_b32_bits:
  assumes "length a = 32"
  shows "nibbles_read a 64 (fold (\<lambda>i n. fold (\<lambda>j n. set_b32_nibble a i j n) [0..<2] n) [0..<32] (replicate 5 0))"
proof -
  have "nibbles_read a (2 * k) (fold (\<lambda>i n. fold (\<lambda>j n. set_b32_nibble a i j n) [0..<2] n) [0..<k] (replicate 5 0))"
    if "k \<le> 32" for k
    using that
  proof (induction k)
    case 0
    then show ?case by (auto simp: nibbles_read_def)
  next
    case (Suc k)
    then have "nibbles_read a (2 * k + 0) (fold (\<lambda>i n. fold (\<lambda>j n. set_b32_nibble a i j n) [0..<2] n) [0..<k] (replicate 5 0))"
      by simp
    from set_b32_nibble_step[OF assms this] Suc.prems
    have "nibbles_read a (2 * k + 1) (set_b32_nibble a k 0 (fold (\<lambda>i n. fold (\<lambda>j n. set_b32_nibble a i j n) [0..<2] n) [0..<k] (replicate 5 0)))"
      by simp
    from set_b32_nibble_step[OF assms this] Suc.prems show ?case by (simp add: numeral_2_eq_2)
  qed
  from this[of 32] show ?thesis by simp
qed

lemma fe_set_b32_spec:
  assumes "length a = 32"
  shows "fe_within 4503599627370495 281474976710655 (fst (fe_set_b32 a))"
    "fe_val (fst (fe_set_b32 a)) = be_val a"
    "snd (fe_set_b32 a) \<longleftrightarrow> be_val a < fe_p"
proof -
  define n where "n = fold (\<lambda>i n. fold (\<lambda>j n. set_b32_nibble a i j n) [0..<2] n) [0..<32] (replicate 5 0)"
  have read: "nibbles_read a 64 n" unfolding n_def by (rule fe_set_b32_bits[OF assms])
  then obtain n0 n1 n2 n3 n4 where n: "n = [n0, n1, n2, n3, n4]"
    by (auto simp: nibbles_read_def length_Suc_conv eval_nat_numeral)
  have f: "fst (fe_set_b32 a) = Fe n0 n1 n2 n3 n4"
    unfolding fe_set_b32_def n_def[symmetric] by (simp add: n fe_of_list_def Let_def)
  have limb: "bit (n ! l) s \<longleftrightarrow> s < 52 \<and> 52 * l + s < 256 \<and> bit (be_val a) (52 * l + s)" if "l < 5" for l s
    using read that by (simp add: nibbles_read_def)
  have small: "uint w \<le> 2 ^ k - 1" if "\<And>s. bit w s \<Longrightarrow> s < k" for k and w :: u64
  proof -
    have "take_bit k w = w" using that by (intro bit_word_eqI) (auto simp: bit_take_bit_iff)
    then have "uint w = take_bit k (uint w)" by (metis unsigned_take_bit_eq)
    then have "uint w < 2 ^ k" by (metis take_bit_int_less_exp)
    then show ?thesis by simp
  qed
  have "uint n0 \<le> 2 ^ 52 - 1" "uint n1 \<le> 2 ^ 52 - 1" "uint n2 \<le> 2 ^ 52 - 1" "uint n3 \<le> 2 ^ 52 - 1" "uint n4 \<le> 2 ^ 48 - 1"
    using limb[of 0] limb[of 1] limb[of 2] limb[of 3] limb[of 4] by (intro small; simp add: n)+
  then have low: "uint n0 \<le> 4503599627370495" "uint n1 \<le> 4503599627370495" "uint n2 \<le> 4503599627370495"
    "uint n3 \<le> 4503599627370495" "uint n4 \<le> 281474976710655" by simp_all
  then show w: "fe_within 4503599627370495 281474976710655 (fst (fe_set_b32 a))" by (simp add: f)
  have nl: "n_list (fst (fe_set_b32 a)) = n" by (simp add: f n)
  show v: "fe_val (fst (fe_set_b32 a)) = be_val a"
  proof (rule bit_eqI)
    fix k :: nat
    have k: "52 * (k div 52) + k mod 52 = k" by simp
    have "k < 256 \<Longrightarrow> k div 52 < 5" by simp
    then have "k < 256 \<Longrightarrow> bit (fe_val (fst (fe_set_b32 a))) k \<longleftrightarrow> bit (be_val a) k"
      using limb[of "k div 52" "k mod 52"] bit_limb[OF w, of "k div 52" "k mod 52"] by (simp add: nl)
    moreover have "bit (fe_val (fst (fe_set_b32 a))) k \<Longrightarrow> k < 256" by (rule fe_val_256[OF w])
    moreover have "bit (be_val a) k \<Longrightarrow> k < 256" using assms by (auto simp: bit_be_val)
    ultimately show "bit (fe_val (fst (fe_set_b32 a))) k \<longleftrightarrow> bit (be_val a) k" by blast
  qed
  have "snd (fe_set_b32 a) \<longleftrightarrow> \<not> (n4 = 0x0FFFFFFFFFFFF \<and> (n3 AND n2 AND n1) = 0xFFFFFFFFFFFFF \<and> 0xFFFFEFFFFFC2F \<le> n0)"
    unfolding fe_set_b32_def n_def[symmetric] by (simp add: n Let_def)
  moreover have "(n3 AND n2 AND n1) = (n1 AND n2 AND n3)" by (simp add: ac_simps)
  ultimately have "snd (fe_set_b32 a) \<longleftrightarrow> \<not> fe_p \<le> fe_val (Fe n0 n1 n2 n3 n4)"
    using top_test[OF low] by metis
  then show "snd (fe_set_b32 a) \<longleftrightarrow> be_val a < fe_p"
    unfolding f[symmetric] v by linarith
qed

section \<open>Limbs to bytes\<close>

lemma get_b32_byte:
  assumes "i < 32" "q < 8"
  shows "bit (ucast (fold (\<lambda>j c. c OR get_b32_nibble n i j) [0..<2] 0) :: u8) q
    \<longleftrightarrow> bit (n ! ((8 * i + q) div 52)) ((8 * i + q) mod 52)"
proof -
  have F: "(0xF :: u64) = mask 4" by (simp add: mask_eq_exp_minus_1)
  have nib: "bit (get_b32_nibble n i j) q \<longleftrightarrow> 4 * j \<le> q \<and> q < 4 * j + 4 \<and> bit (n ! ((8 * i + q) div 52)) ((8 * i + q) mod 52)"
    if "j < 2" for j
  proof -
    define l where "l = (8 * i + 4 * j) div 52"
    define h where "h = (8 * i + 4 * j) mod 52"
    have lh: "8 * i + 4 * j = 52 * l + h" by (simp add: l_def h_def)
    have "h = 4 * ((2 * i + j) mod 13)" unfolding h_def using mult_mod_right[of 4 "2 * i + j" 13] by simp
    moreover have "(2 * i + j) mod 13 < 13" by simp
    ultimately have h: "h + 4 \<le> 52" by linarith
    have "(8 * i + q) div 52 = l \<and> (8 * i + q) mod 52 = h + (q - 4 * j)" if "4 * j \<le> q" "q < 4 * j + 4"
    proof -
      have e: "8 * i + q = 52 * l + (h + (q - 4 * j))" "h + (q - 4 * j) < 52" using lh h that by linarith+
      show ?thesis unfolding e(1) by (simp only: div_mult_self4 mod_mult_self4 div_less mod_less e(2)) simp
    qed
    then show ?thesis
      unfolding get_b32_nibble_def Let_def l_def[symmetric] h_def[symmetric]
      using assms(2) by (auto simp: F bit_simps)
  qed
  have "fold (\<lambda>j c. c OR get_b32_nibble n i j) [0..<2] 0 = get_b32_nibble n i 0 OR get_b32_nibble n i 1"
    by (simp add: numeral_2_eq_2)
  then show ?thesis using assms(2) nib[of 0] nib[of 1] by (auto simp: bit_simps)
qed

lemma fold_update_rev:
  assumes "k \<le> Suc m"
  shows "length (fold (\<lambda>i r. r[m - i := f i]) [0..<k] (replicate (Suc m) z)) = Suc m \<and>
    (\<forall>i < k. fold (\<lambda>i r. r[m - i := f i]) [0..<k] (replicate (Suc m) z) ! (m - i) = f i)"
  using assms by (induction k) (auto simp: nth_list_update simp del: replicate_Suc elim!: less_SucE)

lemma fe_get_b32_spec:
  assumes "fe_within 4503599627370495 281474976710655 a"
  shows "length (fe_get_b32 a) = 32" "be_val (fe_get_b32 a) = fe_val a"
proof -
  have g: "length (fe_get_b32 a) = 32"
    "\<And>i. i < 32 \<Longrightarrow> fe_get_b32 a ! (31 - i) = ucast (fold (\<lambda>j c. c OR get_b32_nibble (n_list a) i j) [0..<2] 0)"
    using fold_update_rev[of 32 31 "\<lambda>i. ucast (fold (\<lambda>j c. c OR get_b32_nibble (n_list a) i j) [0..<2] 0)" "0 :: u8"]
    by (simp_all add: fe_get_b32_def)
  then show "length (fe_get_b32 a) = 32" by simp
  show "be_val (fe_get_b32 a) = fe_val a"
  proof (rule bit_eqI)
    fix k :: nat
    have e: "8 * (k div 8) + k mod 8 = k" by simp
    have k: "52 * (k div 52) + k mod 52 = k" by simp
    have "bit (be_val (fe_get_b32 a)) k \<longleftrightarrow> k div 8 < 32 \<and> bit (fe_get_b32 a ! (31 - k div 8)) (k mod 8)"
      by (auto simp: bit_be_val g(1) rev_nth)
    also have "\<dots> \<longleftrightarrow> k div 8 < 32 \<and> bit (n_list a ! (k div 52)) (k mod 52)"
      using get_b32_byte[of "k div 8" "k mod 8" "n_list a"] g(2)[of "k div 8"] unfolding e by auto
    also have "\<dots> \<longleftrightarrow> k < 256 \<and> bit (fe_val a) k"
      using bit_limb[OF assms, of "k div 52" "k mod 52"] unfolding k by auto
    also have "\<dots> \<longleftrightarrow> bit (fe_val a) k" using fe_val_256(3)[OF assms] by blast
    finally show "bit (be_val (fe_get_b32 a)) k \<longleftrightarrow> bit (fe_val a) k" .
  qed
qed

text \<open>
  \<open>fe_set_b32\<close> reads 32 bytes as a big-endian number: the limbs have that value, and the result
  flag tells whether the number is below the field prime.
\<close>
theorem fe_set_b32_correct:
  assumes "length a = 32"
  shows "fe_val (fst (fe_set_b32 a)) = be_val a \<and> (snd (fe_set_b32 a) \<longleftrightarrow> be_val a < fe_p) \<and>
    fe_verify_magnitude 1 (fst (fe_set_b32 a))"
proof -
  have "fe_verify_magnitude 1 (fst (fe_set_b32 a))"
    using fe_set_b32_spec(1)[OF assms] unfolding fe_verify_magnitude_within by (auto elim!: fe_within_mono)
  then show ?thesis using fe_set_b32_spec(2,3)[OF assms] by blast
qed

theorem fe_set_b32_correct_witness: "\<not> snd (fe_set_b32 (replicate 32 0xFF))"
proof -
  have "be_val (replicate 32 0xFF) = 2 ^ 256 - 1" by code_simp
  then show ?thesis using fe_set_b32_correct[of "replicate 32 0xFF"] by (simp add: fe_p_def)
qed

lemma fe_set_get_b32:
  assumes n: "fe_verify_normalized a"
  shows "fe_set_b32 (fe_get_b32 a) = (a, True)"
proof -
  from n have w: "fe_within 4503599627370495 281474976710655 a" and v: "fe_val a < fe_p"
    by (simp_all add: fe_verify_normalized_iff)
  note g = fe_get_b32_spec[OF w] and s = fe_set_b32_spec[OF fe_get_b32_spec(1)[OF w]]
  have "fst (fe_set_b32 (fe_get_b32 a)) = a" by (rule fe_val_inj[OF s(1) w]) (simp add: s g)
  moreover have "snd (fe_set_b32 (fe_get_b32 a))" using s(3) g(2) v by simp
  ultimately show "fe_set_b32 (fe_get_b32 a) = (a, True)" by (metis prod.collapse)
qed

lemma fe_get_set_b32:
  assumes l: "length bs = 32"
  shows "fe_get_b32 (fst (fe_set_b32 bs)) = bs"
  using fe_set_b32_spec[OF l] fe_get_b32_spec[OF fe_set_b32_spec(1)[OF l]] l by (intro be_val_inj) simp_all

text \<open>Only the first 32 bytes are read.\<close>

lemma fe_set_b32_take: "32 \<le> length a \<Longrightarrow> fe_set_b32 a = fe_set_b32 (take 32 a)"
proof -
  assume "32 \<le> length a"
  then have "set_b32_nibble a i j = set_b32_nibble (take 32 a) i j" for i j
    by (auto simp: set_b32_nibble_def fun_eq_iff)
  then show ?thesis by (simp add: fe_set_b32_def)
qed

text \<open>
  Bytes round trip: for a normalized element, \<open>fe_set_b32\<close> accepts the bytes of \<open>fe_get_b32\<close> and
  returns the same limbs, and for accepted bytes, \<open>fe_get_b32\<close> of the element read gives them back.
\<close>
theorem fe_b32_roundtrip:
  "(fe_verify_normalized a \<longrightarrow> fe_set_b32 (fe_get_b32 a) = (a, True)) \<and>
   (length bs = 32 \<longrightarrow> fe_get_b32 (fst (fe_set_b32 bs)) = bs)"
  using fe_set_get_b32 fe_get_set_b32 by blast

theorem fe_b32_roundtrip_witness:
  "fe_set_b32 (fe_get_b32 (Fe 1 2 3 4 5)) = (Fe 1 2 3 4 5, True) \<and>
   fe_get_b32 (fst (fe_set_b32 (replicate 32 7))) = replicate 32 7"
  using fe_b32_roundtrip[of "Fe 1 2 3 4 5" "replicate 32 7"] by simp

section \<open>The storage form\<close>

fun storage_val :: "fe_storage \<Rightarrow> int" where
  "storage_val (Fe_Storage n0 n1 n2 n3) = uint n0 + uint n1 * 2 ^ 64 + uint n2 * 2 ^ 128 + uint n3 * 2 ^ 192"

lemma limb_take_bit:
  assumes "fe_within 4503599627370495 281474976710655 (Fe n0 n1 n2 n3 n4)"
  shows "bit n0 s \<Longrightarrow> s < 52" "bit n1 s \<Longrightarrow> s < 52" "bit n2 s \<Longrightarrow> s < 52" "bit n3 s \<Longrightarrow> s < 52" "bit n4 s \<Longrightarrow> s < 48"
proof -
  have small: "bit w s \<Longrightarrow> s < k" if "uint w < 2 ^ k" for k and w :: u64
  proof -
    assume "bit w s"
    then have "bit (uint w) s" using bit_imp_le_length[of w s] by (simp add: bit_uint_iff)
    moreover have "take_bit k (uint w) = uint w" using that by (simp add: take_bit_int_eq_self)
    ultimately show "s < k" by (metis bit_take_bit_iff)
  qed
  show "bit n0 s \<Longrightarrow> s < 52" "bit n1 s \<Longrightarrow> s < 52" "bit n2 s \<Longrightarrow> s < 52" "bit n3 s \<Longrightarrow> s < 52" "bit n4 s \<Longrightarrow> s < 48"
    using assms by (intro small; simp)+
qed

lemma fe_from_to_storage:
  assumes n: "fe_verify_normalized a"
  shows "fe_from_storage (fe_to_storage a) = a"
proof (cases a)
  have M: "(0xFFFFFFFFFFFFF :: u64) = mask 52" by (simp add: mask_eq_exp_minus_1)
  case (Fe n0 n1 n2 n3 n4)
  then have w: "fe_within 4503599627370495 281474976710655 (Fe n0 n1 n2 n3 n4)"
    using n by (simp add: fe_verify_normalized_iff)
  note b = limb_take_bit[OF w]
  show ?thesis
    unfolding Fe fe_to_storage.simps fe_from_storage.simps fe.inject M
    by (intro conjI; rule bit_word_eqI; auto simp: bit_simps dest: b)
qed

lemma fe_to_from_storage: "fe_to_storage (fe_from_storage st) = st"
proof (cases st)
  have M: "(0xFFFFFFFFFFFFF :: u64) = mask 52" by (simp add: mask_eq_exp_minus_1)
  case (Fe_Storage m0 m1 m2 m3)
  have top: "\<And>w :: u64. bit w i \<Longrightarrow> i < 64" for i by (metis bit_imp_le_length len64)
  show ?thesis
    unfolding Fe_Storage fe_to_storage.simps fe_from_storage.simps fe_storage.inject M
    by (intro conjI; rule bit_word_eqI; auto simp: bit_simps dest: top; rule ccontr; simp)
qed

text \<open>
  Storage round trip: a normalized element survives \<open>fe_to_storage\<close> followed by
  \<open>fe_from_storage\<close>, and any four stored words survive the opposite order.
\<close>
theorem fe_storage_roundtrip:
  "(fe_verify_normalized a \<longrightarrow> fe_from_storage (fe_to_storage a) = a) \<and> fe_to_storage (fe_from_storage st) = st"
  by (simp add: fe_from_to_storage fe_to_from_storage)

theorem fe_storage_roundtrip_witness:
  "fe_from_storage (fe_to_storage (Fe 1 2 3 4 5)) = Fe 1 2 3 4 5"
  using fe_storage_roundtrip[of "Fe 1 2 3 4 5"] by simp

end
