(* ===== verification/Field_Pow.thy ===== *)
theory Field_Pow
  imports Field_Ops
begin

text \<open>
  The addition chains of field_impl.h: \<open>fe_inv\<close> and \<open>fe_sqrt_var\<close> compute fixed powers of their
  argument, with every intermediate of magnitude 1; \<open>fe_inv_all_var\<close> inverts a whole array with one
  inversion.
\<close>

section \<open>Powers through limbs\<close>

text \<open>\<open>x\<close> has a magnitude the multiplications accept and stands for the \<open>e\<close>-th power of \<open>v\<close>.\<close>

definition fe_power :: "int \<Rightarrow> nat \<Rightarrow> fe \<Rightarrow> bool" where
  "fe_power v e x \<longleftrightarrow> fe_verify_magnitude 8 x \<and> fe_val x mod fe_p = v ^ e mod fe_p"

lemma fe_magnitude_mono: "fe_verify_magnitude m x \<Longrightarrow> m \<le> n \<Longrightarrow> n \<le> 2048 \<Longrightarrow> fe_verify_magnitude n x"
  unfolding fe_verify_magnitude_within by (auto elim!: fe_within_mono)

lemma fe_mul_spec:
  assumes "fe_verify_magnitude 8 a" "fe_verify_magnitude 8 b"
  shows "fe_val (fe_mul a b) mod fe_p = fe_val a * fe_val b mod fe_p" "fe_verify_magnitude 1 (fe_mul a b)"
proof -
  have "fe_within (2 ^ 56 - 1) (2 ^ 52 - 1) a" "fe_within (2 ^ 56 - 1) (2 ^ 52 - 1) b"
    using assms by (auto simp: fe_verify_magnitude_within elim!: fe_within_mono)
  from fe_mul_inner_spec[OF this]
  show "fe_val (fe_mul a b) mod fe_p = fe_val a * fe_val b mod fe_p" "fe_verify_magnitude 1 (fe_mul a b)"
    by (auto simp: fe_mul_def fe_verify_magnitude_within elim!: fe_within_mono)
qed

lemma fe_sqr_spec:
  assumes "fe_verify_magnitude 8 a"
  shows "fe_val (fe_sqr a) mod fe_p = fe_val a * fe_val a mod fe_p" "fe_verify_magnitude 1 (fe_sqr a)"
proof -
  have "fe_within (2 ^ 56 - 1) (2 ^ 52 - 1) a"
    using assms by (auto simp: fe_verify_magnitude_within elim!: fe_within_mono)
  then have "fe_sqr a = fe_mul a a" by (simp add: fe_sqr_def fe_mul_def fe_sqr_inner_eq_mul)
  then show "fe_val (fe_sqr a) mod fe_p = fe_val a * fe_val a mod fe_p" "fe_verify_magnitude 1 (fe_sqr a)"
    using fe_mul_spec[OF assms assms] by simp_all
qed

lemma fe_power_mul:
  assumes "fe_power v d x" "fe_power v e y"
  shows "fe_power v (d + e) (fe_mul x y)" "fe_verify_magnitude 1 (fe_mul x y)"
proof -
  have m: "fe_verify_magnitude 8 x" "fe_verify_magnitude 8 y" using assms by (simp_all add: fe_power_def)
  note s = fe_mul_spec[OF m]
  have "fe_val x * fe_val y mod fe_p = v ^ d * v ^ e mod fe_p"
    using assms by (intro mod_mult_cong) (simp_all add: fe_power_def)
  with s show "fe_power v (d + e) (fe_mul x y)" "fe_verify_magnitude 1 (fe_mul x y)"
    by (auto simp: fe_power_def power_add intro: fe_magnitude_mono)
qed

lemma fe_power_sqr:
  assumes "fe_power v e x"
  shows "fe_power v (2 * e) (fe_sqr x)" "fe_verify_magnitude 1 (fe_sqr x)"
proof -
  have m: "fe_verify_magnitude 8 x" using assms by (simp add: fe_power_def)
  note s = fe_sqr_spec[OF m]
  have "fe_val x * fe_val x mod fe_p = v ^ e * v ^ e mod fe_p"
    using assms by (intro mod_mult_cong) (simp_all add: fe_power_def)
  with s show "fe_power v (2 * e) (fe_sqr x)" "fe_verify_magnitude 1 (fe_sqr x)"
    by (auto simp: fe_power_def mult_2 power_add intro: fe_magnitude_mono)
qed

lemma fe_power_sqr_times: "fe_power v e x \<Longrightarrow> fe_power v (2 ^ n * e) (fe_sqr_times n x)"
proof (induction n)
  case (Suc n)
  from fe_power_sqr(1)[OF Suc.IH[OF Suc.prems]] show ?case by (simp add: fe_sqr_times_def mult.assoc)
qed (simp add: fe_sqr_times_def)

lemma fe_power_self: "fe_verify_magnitude 8 a \<Longrightarrow> fe_power (fe_val a) 1 a"
  by (simp add: fe_power_def)

text \<open>The exponent is only known up to evaluation.\<close>

lemma fe_power_exp: "fe_power v d x \<Longrightarrow> d = e \<Longrightarrow> fe_power v e x"
  by simp

lemma fe_chain_powers:
  assumes "fe_verify_magnitude 8 a" "fe_chain a = (x2, x3, x22, x223)"
  shows "fe_power (fe_val a) 3 x2" "fe_power (fe_val a) 7 x3" "fe_power (fe_val a) (2 ^ 22 - 1) x22"
    "fe_power (fe_val a) (2 ^ 223 - 1) x223"
proof -
  let ?v = "fe_val a"
  note pow = fe_power_mul(1)[of ?v] and sq = fe_power_sqr(1)[of ?v] and sqt = fe_power_sqr_times[of ?v]
  define y2 where "y2 = fe_mul (fe_sqr a) a"
  define y3 where "y3 = fe_mul (fe_sqr y2) a"
  define y6 where "y6 = fe_mul (fe_sqr_times 3 y3) y3"
  define y9 where "y9 = fe_mul (fe_sqr_times 3 y6) y3"
  define y11 where "y11 = fe_mul (fe_sqr_times 2 y9) y2"
  define y22 where "y22 = fe_mul (fe_sqr_times 11 y11) y11"
  define y44 where "y44 = fe_mul (fe_sqr_times 22 y22) y22"
  define y88 where "y88 = fe_mul (fe_sqr_times 44 y44) y44"
  define y176 where "y176 = fe_mul (fe_sqr_times 88 y88) y88"
  define y220 where "y220 = fe_mul (fe_sqr_times 44 y176) y44"
  define y223 where "y223 = fe_mul (fe_sqr_times 3 y220) y3"
  have a: "fe_power ?v 1 a" by (rule fe_power_self[OF assms(1)])
  have y2: "fe_power ?v 3 y2" unfolding y2_def by (rule fe_power_exp[OF pow[OF sq[OF a] a]]) simp
  have y3: "fe_power ?v 7 y3" unfolding y3_def by (rule fe_power_exp[OF pow[OF sq[OF y2] a]]) simp
  have y6: "fe_power ?v (2 ^ 6 - 1) y6" unfolding y6_def by (rule fe_power_exp[OF pow[OF sqt[OF y3] y3]]) simp
  have y9: "fe_power ?v (2 ^ 9 - 1) y9" unfolding y9_def by (rule fe_power_exp[OF pow[OF sqt[OF y6] y3]]) simp
  have y11: "fe_power ?v (2 ^ 11 - 1) y11" unfolding y11_def by (rule fe_power_exp[OF pow[OF sqt[OF y9] y2]]) simp
  have y22: "fe_power ?v (2 ^ 22 - 1) y22" unfolding y22_def by (rule fe_power_exp[OF pow[OF sqt[OF y11] y11]]) simp
  have y44: "fe_power ?v (2 ^ 44 - 1) y44" unfolding y44_def by (rule fe_power_exp[OF pow[OF sqt[OF y22] y22]]) simp
  have y88: "fe_power ?v (2 ^ 88 - 1) y88" unfolding y88_def by (rule fe_power_exp[OF pow[OF sqt[OF y44] y44]]) simp
  have y176: "fe_power ?v (2 ^ 176 - 1) y176" unfolding y176_def by (rule fe_power_exp[OF pow[OF sqt[OF y88] y88]]) simp
  have y220: "fe_power ?v (2 ^ 220 - 1) y220" unfolding y220_def by (rule fe_power_exp[OF pow[OF sqt[OF y176] y44]]) simp
  have y223: "fe_power ?v (2 ^ 223 - 1) y223" unfolding y223_def by (rule fe_power_exp[OF pow[OF sqt[OF y220] y3]]) simp
  have "fe_chain a = (y2, y3, y22, y223)"
    unfolding fe_chain_def Let_def y2_def y3_def y6_def y9_def y11_def y22_def y44_def y88_def y176_def y220_def y223_def ..
  with assms(2) y2 y3 y22 y223 show "fe_power ?v 3 x2" "fe_power ?v 7 x3" "fe_power ?v (2 ^ 22 - 1) x22"
    "fe_power ?v (2 ^ 223 - 1) x223" by simp_all
qed

lemma fe_inv_power:
  assumes "fe_verify_magnitude 8 a"
  shows "fe_power (fe_val a) (nat (fe_p - 2)) (fe_inv a)" "fe_verify_magnitude 1 (fe_inv a)"
proof -
  obtain x2 x3 x22 x223 where c: "fe_chain a = (x2, x3, x22, x223)" by (cases "fe_chain a") auto
  note x = fe_chain_powers[OF assms c] and a = fe_power_self[OF assms]
  note pow = fe_power_mul(1)[of "fe_val a"] and sqt = fe_power_sqr_times[of "fe_val a"]
  note t = sqt[OF pow[OF sqt[OF pow[OF sqt[OF pow[OF sqt[OF x(4)] x(3)]] a]] x(1)]]
  have e: "fe_inv a = fe_mul a (fe_sqr_times 2 (fe_mul (fe_sqr_times 3 (fe_mul (fe_sqr_times 5
      (fe_mul (fe_sqr_times 23 x223) x22)) a)) x2))"
    unfolding fe_inv_def c by (simp add: Let_def)
  show "fe_power (fe_val a) (nat (fe_p - 2)) (fe_inv a)" unfolding e
    by (rule fe_power_exp[OF pow[OF a t]]) (simp add: fe_p_def)
  show "fe_verify_magnitude 1 (fe_inv a)" unfolding e by (rule fe_power_mul(2)[OF a t])
qed

lemma fe_sqrt_var_power:
  assumes "fe_verify_magnitude 8 a"
  shows "fe_power (fe_val a) (nat ((fe_p + 1) div 4)) (fst (fe_sqrt_var a))"
    "fe_verify_magnitude 1 (fst (fe_sqrt_var a))"
    "snd (fe_sqrt_var a) \<longleftrightarrow> fe_val (fst (fe_sqrt_var a)) ^ 2 mod fe_p = fe_val a mod fe_p"
proof -
  obtain x2 x3 x22 x223 where c: "fe_chain a = (x2, x3, x22, x223)" by (cases "fe_chain a") auto
  note x = fe_chain_powers[OF assms c]
  note pow = fe_power_mul(1)[of "fe_val a"] and sq = fe_power_sqr[of "fe_val a"] and sqt = fe_power_sqr_times[of "fe_val a"]
  note t = sq(1)[OF pow[OF sqt[OF pow[OF sqt[OF x(4)] x(3)]] x(1)]]
  have e: "fst (fe_sqrt_var a) = fe_sqr (fe_sqr (fe_mul (fe_sqr_times 6 (fe_mul (fe_sqr_times 23 x223) x22)) x2))"
    "snd (fe_sqrt_var a) = fe_equal_var (fe_sqr (fst (fe_sqrt_var a))) a"
    unfolding fe_sqrt_var_def c by (simp_all add: Let_def)
  show "fe_power (fe_val a) (nat ((fe_p + 1) div 4)) (fst (fe_sqrt_var a))" unfolding e(1)
    by (rule fe_power_exp[OF sq(1)[OF t]]) (simp add: fe_p_def)
  show m: "fe_verify_magnitude 1 (fst (fe_sqrt_var a))" unfolding e(1) by (rule sq(2)[OF t])
  have m8: "fe_verify_magnitude 8 (fst (fe_sqrt_var a))" by (rule fe_magnitude_mono[OF m]) simp_all
  note s = fe_sqr_spec[OF m8]
  show "snd (fe_sqrt_var a) \<longleftrightarrow> fe_val (fst (fe_sqrt_var a)) ^ 2 mod fe_p = fe_val a mod fe_p"
    unfolding e(2) fe_equal_var_def using fe_sub_zero_iff[OF s(2) assms] s(1) by (simp add: power2_eq_square)
qed

section \<open>The inverse and the square root\<close>

lemma fe_sqrt_var_spec:
  assumes "fe_verify_magnitude 8 a"
  shows "fe_val (fst (fe_sqrt_var a)) mod fe_p = fe_val a ^ nat ((fe_p + 1) div 4) mod fe_p \<and>
    (snd (fe_sqrt_var a) \<longleftrightarrow> fe_val (fst (fe_sqrt_var a)) ^ 2 mod fe_p = fe_val a mod fe_p) \<and>
    (\<forall>y. y ^ nat (fe_p - 1) mod fe_p = 1 \<and> fe_val a mod fe_p = y ^ 2 mod fe_p \<longrightarrow> snd (fe_sqrt_var a))"
proof (intro conjI allI impI)
  let ?r = "fe_val (fst (fe_sqrt_var a))"
  have r: "?r mod fe_p = fe_val a ^ nat ((fe_p + 1) div 4) mod fe_p"
    using fe_sqrt_var_power(1)[OF assms] by (simp add: fe_power_def)
  then show "?r mod fe_p = fe_val a ^ nat ((fe_p + 1) div 4) mod fe_p" .
  show flag: "snd (fe_sqrt_var a) \<longleftrightarrow> ?r ^ 2 mod fe_p = fe_val a mod fe_p"
    by (rule fe_sqrt_var_power(3)[OF assms])
  fix y assume y: "y ^ nat (fe_p - 1) mod fe_p = 1 \<and> fe_val a mod fe_p = y ^ 2 mod fe_p"
  have "?r ^ 2 mod fe_p = (fe_val a ^ nat ((fe_p + 1) div 4)) ^ 2 mod fe_p"
    using r by (metis power_mod)
  also have "\<dots> = (y ^ 2) ^ (nat ((fe_p + 1) div 4) * 2) mod fe_p"
    using y by (metis power_mod power_mult)
  also have "(y ^ 2) ^ (nat ((fe_p + 1) div 4) * 2) = y ^ nat (fe_p - 1) * y ^ 2"
  proof -
    have "2 * (nat ((fe_p + 1) div 4) * 2) = nat (fe_p - 1) + 2" by (simp add: fe_p_def)
    then show ?thesis by (metis power_mult power_add)
  qed
  also have "y ^ nat (fe_p - 1) * y ^ 2 mod fe_p = (y ^ nat (fe_p - 1) mod fe_p) * y ^ 2 mod fe_p"
    by (simp only: mod_mult_left_eq)
  also have "\<dots> = fe_val a mod fe_p" using y by simp
  finally show "snd (fe_sqrt_var a)" by (simp only: flag)
qed

text \<open>
  Square root: \<open>fe_sqrt_var\<close> returns the power \<open>(p + 1) / 4\<close> of its argument, its flag says
  exactly whether that is a square root, and it finds a root whenever the argument is the square
  of some \<open>y\<close> for which Fermat's congruence holds.
\<close>
theorem fe_sqrt_var_correct:
  assumes "fe_verify_magnitude 8 a"
  shows "fe_val (fst (fe_sqrt_var a)) mod fe_p = fe_val a ^ nat ((fe_p + 1) div 4) mod fe_p \<and>
    (snd (fe_sqrt_var a) \<longleftrightarrow> fe_val (fst (fe_sqrt_var a)) ^ 2 mod fe_p = fe_val a mod fe_p) \<and>
    (\<forall>y. y ^ nat (fe_p - 1) mod fe_p = 1 \<and> fe_val a mod fe_p = y ^ 2 mod fe_p \<longrightarrow> snd (fe_sqrt_var a))"
  using assms by (rule fe_sqrt_var_spec)

theorem fe_sqrt_var_correct_witness: "snd (fe_sqrt_var (Fe 1 0 0 0 0))"
proof -
  have "fe_verify_magnitude 8 (Fe 1 0 0 0 0)" by simp
  from fe_sqrt_var_correct[OF this] have
    "\<forall>y. y ^ nat (fe_p - 1) mod fe_p = 1 \<and> fe_val (Fe 1 0 0 0 0) mod fe_p = y ^ 2 mod fe_p \<longrightarrow> snd (fe_sqrt_var (Fe 1 0 0 0 0))"
    by blast
  then have "(1 :: int) ^ nat (fe_p - 1) mod fe_p = 1 \<and> fe_val (Fe 1 0 0 0 0) mod fe_p = 1 ^ 2 mod fe_p
      \<longrightarrow> snd (fe_sqrt_var (Fe 1 0 0 0 0))" by (rule spec)
  then show ?thesis unfolding power_one by (simp add: fe_p_def)
qed

text \<open>Fermat's congruence at a product.\<close>

lemma fermat_prod:
  assumes "x ^ n mod (m :: int) = 1" "y ^ n mod m = 1"
  shows "(x * y) ^ n mod m = 1"
proof -
  have "(x * y) ^ n mod m = (x ^ n mod m) * (y ^ n mod m) mod m"
    by (simp only: power_mult_distrib mod_mult_eq)
  also have "\<dots> = 1" using assms by (metis mod_mod_trivial mult_1)
  finally show ?thesis .
qed

text \<open>The assumption is Fermat's congruence at the value, which the primality of \<open>fe_p\<close> gives when it is not zero.\<close>

lemma fe_inv_inverse:
  assumes "fe_verify_magnitude 8 a" "fe_val a ^ nat (fe_p - 1) mod fe_p = 1"
  shows "fe_val (fe_inv a) * fe_val a mod fe_p = 1"
proof -
  have "fe_val (fe_inv a) * fe_val a mod fe_p = fe_val a ^ nat (fe_p - 2) * fe_val a mod fe_p"
    using fe_inv_power(1)[OF assms(1)] by (intro mod_mult_cong) (simp_all add: fe_power_def)
  also have "fe_val a ^ nat (fe_p - 2) * fe_val a = fe_val a ^ nat (fe_p - 1)"
  proof -
    have "nat (fe_p - 1) = Suc (nat (fe_p - 2))" by (simp add: fe_p_def)
    then show ?thesis by (metis power_Suc2)
  qed
  finally show ?thesis by (simp only: assms(2))
qed

section \<open>Inverting an array\<close>

lemma inv_all_forward_spec:
  assumes "i + k \<le> length r" "0 < i"
  shows "length (inv_all_forward a r i k) = length r"
    "j < i \<or> i + k \<le> j \<Longrightarrow> inv_all_forward a r i k ! j = r ! j"
    "i \<le> j \<Longrightarrow> j < i + k \<Longrightarrow> inv_all_forward a r i k ! j = fe_mul (inv_all_forward a r i k ! (j - 1)) (a ! j)"
proof -
  have "length (inv_all_forward a r i k) = length r \<and>
    (\<forall>j. j < i \<or> i + k \<le> j \<longrightarrow> inv_all_forward a r i k ! j = r ! j) \<and>
    (\<forall>j. i \<le> j \<and> j < i + k \<longrightarrow> inv_all_forward a r i k ! j = fe_mul (inv_all_forward a r i k ! (j - 1)) (a ! j))"
    using assms
  proof (induction k arbitrary: r i)
    case (Suc k)
    let ?r = "r[i := fe_mul (r ! (i - 1)) (a ! i)]"
    have L: "Suc i + k \<le> length ?r" "0 < Suc i" using Suc.prems by simp_all
    from Suc.IH[OF L]
    have IH: "length (inv_all_forward a ?r (Suc i) k) = length r"
      "\<And>j. j < Suc i \<or> Suc i + k \<le> j \<Longrightarrow> inv_all_forward a ?r (Suc i) k ! j = ?r ! j"
      "\<And>j. Suc i \<le> j \<Longrightarrow> j < Suc i + k \<Longrightarrow>
        inv_all_forward a ?r (Suc i) k ! j = fe_mul (inv_all_forward a ?r (Suc i) k ! (j - 1)) (a ! j)"
      by (simp, blast, blast)
    have "inv_all_forward a ?r (Suc i) k ! j = fe_mul (inv_all_forward a ?r (Suc i) k ! (j - 1)) (a ! j)"
      if "i \<le> j" "j < i + Suc k" for j
    proof (cases "j = i")
      case True
      moreover have "i - 1 < Suc i" by simp
      ultimately show ?thesis using IH(2)[of i] IH(2)[of "i - 1"] Suc.prems by simp
    next
      case False
      then show ?thesis using IH(3)[of j] that by simp
    qed
    moreover have "inv_all_forward a ?r (Suc i) k ! j = r ! j" if "j < i \<or> i + Suc k \<le> j" for j
      using IH(2)[of j] that by (auto simp: nth_list_update)
    ultimately show ?case using IH(1) by simp
  qed auto
  then show "length (inv_all_forward a r i k) = length r"
    "j < i \<or> i + k \<le> j \<Longrightarrow> inv_all_forward a r i k ! j = r ! j"
    "i \<le> j \<Longrightarrow> j < i + k \<Longrightarrow> inv_all_forward a r i k ! j = fe_mul (inv_all_forward a r i k ! (j - 1)) (a ! j)"
    by blast+
qed

text \<open>\<open>P j\<close> stands for the product of the first \<open>j + 1\<close> values.\<close>

lemma inv_all_backward_spec:
  assumes "i < length r" "\<forall>j \<le> i. fe_verify_magnitude 8 (r ! j) \<and> fe_val (r ! j) mod fe_p = P j mod fe_p"
    and "\<forall>j \<le> i. fe_verify_magnitude 8 (a ! j)" "\<forall>j < i. P (Suc j) = P j * fe_val (a ! Suc j)"
    and "fe_verify_magnitude 8 u" "fe_val u * P i mod fe_p = 1"
    and "inv_all_backward a r u i = (r', u')"
  shows "length r' = length r \<and> fe_verify_magnitude 8 u' \<and> fe_val u' * P 0 mod fe_p = 1 \<and>
    (\<forall>j. i < j \<longrightarrow> r' ! j = r ! j) \<and> (\<forall>j. 0 < j \<and> j \<le> i \<longrightarrow> fe_verify_magnitude 8 (r' ! j) \<and> fe_val (r' ! j) * fe_val (a ! j) mod fe_p = 1)"
  using assms
proof (induction i arbitrary: r u)
  case (Suc i)
  let ?r = "r[Suc i := fe_mul (r ! i) u]" and ?u = "fe_mul u (a ! Suc i)"
  have m: "fe_verify_magnitude 8 (r ! i)" "fe_verify_magnitude 8 u" "fe_verify_magnitude 8 (a ! Suc i)"
    and ri: "fe_val (r ! i) mod fe_p = P i mod fe_p"
    and Pi: "P (Suc i) = P i * fe_val (a ! Suc i)" using Suc.prems by simp_all
  note mr = fe_mul_spec[OF m(1,2)] and mu = fe_mul_spec[OF m(2,3)]
  have u1: "fe_val u * (P i * fe_val (a ! Suc i)) mod fe_p = 1" using Suc.prems(6) Pi by simp
  have "fe_val ?u * P i mod fe_p = fe_val u * fe_val (a ! Suc i) * P i mod fe_p"
    using mu(1) by (rule mod_mult_cong) simp
  with u1 have u': "fe_val ?u * P i mod fe_p = 1" by (simp add: ac_simps)
  have "fe_val (r ! i) * fe_val u mod fe_p = P i * fe_val u mod fe_p" using ri by (rule mod_mult_cong) simp
  with mr(1) have "fe_val (fe_mul (r ! i) u) * fe_val (a ! Suc i) mod fe_p = P i * fe_val u * fe_val (a ! Suc i) mod fe_p"
    by (intro mod_mult_cong) simp_all
  with u1 have top: "fe_val (fe_mul (r ! i) u) * fe_val (a ! Suc i) mod fe_p = 1" by (simp add: ac_simps)
  have "fe_verify_magnitude 8 ?u" by (rule fe_magnitude_mono[OF mu(2)]) simp_all
  moreover have "inv_all_backward a ?r ?u i = (r', u')" using Suc.prems(7) by simp
  ultimately have IH: "length r' = length ?r \<and> fe_verify_magnitude 8 u' \<and> fe_val u' * P 0 mod fe_p = 1 \<and>
    (\<forall>j. i < j \<longrightarrow> r' ! j = ?r ! j) \<and> (\<forall>j. 0 < j \<and> j \<le> i \<longrightarrow> fe_verify_magnitude 8 (r' ! j) \<and> fe_val (r' ! j) * fe_val (a ! j) mod fe_p = 1)"
    using Suc.prems u' by (intro Suc.IH) simp_all
  moreover have "fe_verify_magnitude 8 (r' ! Suc i) \<and> fe_val (r' ! Suc i) * fe_val (a ! Suc i) mod fe_p = 1"
    using IH top fe_magnitude_mono[OF mr(2), of 8] Suc.prems(1) by simp
  moreover have "\<forall>j. 0 < j \<and> j \<le> Suc i \<longrightarrow> 0 < j \<and> j \<le> i \<or> j = Suc i" by auto
  ultimately show ?case by auto
qed auto

lemma fermat_prod_list:
  assumes "\<forall>j \<le> (i :: nat). v j ^ n mod (m :: int) = 1"
  shows "(\<Prod>j \<le> i. v j) ^ n mod m = 1"
  using assms by (induction i) (auto intro: fermat_prod simp: mult.commute)

lemma fe_inv_all_var_spec:
  assumes "length r = length a" "\<forall>i < length a. fe_verify_magnitude 8 (a ! i) \<and> fe_val (a ! i) ^ nat (fe_p - 1) mod fe_p = 1"
  shows "length (fe_inv_all_var r a) = length a \<and>
    (\<forall>i < length a. fe_verify_magnitude 8 (fe_inv_all_var r a ! i) \<and> fe_val (fe_inv_all_var r a ! i) * fe_val (a ! i) mod fe_p = 1)"
proof (cases "a = []")
  case False
  define n where "n = length a - 1"
  have n: "length a = Suc n" using False by (simp add: n_def)
  define f where "f = inv_all_forward a (r[0 := a ! 0]) 1 n"
  define P where "P = (\<lambda>i. \<Prod>j \<le> i. fe_val (a ! j))"
  note fs = inv_all_forward_spec[of 1 n "r[0 := a ! 0]", folded f_def]
  have len: "length f = Suc n" using fs(1)[of a] assms(1) n by (simp add: f_def)
  have pre: "fe_verify_magnitude 8 (f ! j) \<and> fe_val (f ! j) mod fe_p = P j mod fe_p" if "j \<le> n" for j
    using that
  proof (induction j)
    case 0
    have "f ! 0 = a ! 0" using fs(2)[of 0 a] assms(1) n by (simp add: f_def)
    then show ?case using assms(2) n by (simp add: P_def)
  next
    case (Suc j)
    have "f ! Suc j = fe_mul (f ! j) (a ! Suc j)" using fs(3)[of "Suc j" a] assms(1) n Suc.prems by (simp add: f_def)
    moreover have m: "fe_verify_magnitude 8 (f ! j)" "fe_verify_magnitude 8 (a ! Suc j)"
      using Suc assms(2) n by simp_all
    moreover have "fe_val (f ! j) * fe_val (a ! Suc j) mod fe_p = P j * fe_val (a ! Suc j) mod fe_p"
      using Suc by (intro mod_mult_cong) simp_all
    ultimately show ?case using fe_mul_spec[OF m] by (simp add: P_def fe_magnitude_mono)
  qed
  have "P n ^ nat (fe_p - 1) mod fe_p = 1"
    unfolding P_def using assms(2) n by (intro fermat_prod_list) simp
  then have "fe_val (f ! n) ^ nat (fe_p - 1) mod fe_p = 1" using pre[of n] by (metis order_refl power_mod)
  then have inv: "fe_val (fe_inv_var (f ! n)) * fe_val (f ! n) mod fe_p = 1"
    unfolding fe_inv_var_def using pre[of n] by (intro fe_inv_inverse) simp_all
  have "fe_val (fe_inv_var (f ! n)) * P n mod fe_p = fe_val (fe_inv_var (f ! n)) * fe_val (f ! n) mod fe_p"
    using pre[of n] by (intro mod_mult_cong) simp_all
  with inv have inv: "fe_val (fe_inv_var (f ! n)) * P n mod fe_p = 1" by simp
  have mi: "fe_verify_magnitude 8 (fe_inv_var (f ! n))"
    unfolding fe_inv_var_def by (rule fe_magnitude_mono[OF fe_inv_power(2)]) (use pre[of n] in simp_all)
  obtain r' u' where b: "inv_all_backward a f (fe_inv_var (f ! n)) n = (r', u')" by fastforce
  have B: "length r' = length f \<and> fe_verify_magnitude 8 u' \<and> fe_val u' * P 0 mod fe_p = 1 \<and>
    (\<forall>j. n < j \<longrightarrow> r' ! j = f ! j) \<and> (\<forall>j. 0 < j \<and> j \<le> n \<longrightarrow> fe_verify_magnitude 8 (r' ! j) \<and> fe_val (r' ! j) * fe_val (a ! j) mod fe_p = 1)"
    by (rule inv_all_backward_spec[where P = P, OF _ _ _ _ mi inv b]) (use len pre assms(2) n in \<open>simp_all add: P_def\<close>)
  have "fe_inv_all_var r a = r'[0 := u']"
    using n b by (simp add: fe_inv_all_var_def Let_def f_def)
  then show ?thesis using B len n by (auto simp: P_def nth_list_update less_Suc_eq_le)
qed (simp add: assms(1) fe_inv_all_var_def)

text \<open>
  One inversion inverts a whole array: after \<open>fe_inv_all_var\<close>, every entry is the inverse of the
  entry of the input at the same index, for inputs of magnitude at most 8 that satisfy Fermat's congruence.
\<close>
theorem fe_inv_all_var_correct:
  assumes "length r = length a" "\<forall>i < length a. fe_verify_magnitude 8 (a ! i) \<and> fe_val (a ! i) ^ nat (fe_p - 1) mod fe_p = 1"
  shows "length (fe_inv_all_var r a) = length a \<and>
    (\<forall>i < length a. fe_verify_magnitude 8 (fe_inv_all_var r a ! i) \<and> fe_val (fe_inv_all_var r a ! i) * fe_val (a ! i) mod fe_p = 1)"
  using assms by (rule fe_inv_all_var_spec)

theorem fe_inv_all_var_correct_witness:
  "fe_val (fe_inv_all_var [fe_clear, fe_clear] [Fe 1 0 0 0 0, Fe 1 0 0 0 0] ! 1) mod fe_p = 1"
proof -
  have "\<forall>i < length [Fe 1 0 0 0 0, Fe 1 0 0 0 0]. fe_verify_magnitude 8 ([Fe 1 0 0 0 0, Fe 1 0 0 0 0] ! i) \<and>
      fe_val ([Fe 1 0 0 0 0, Fe 1 0 0 0 0] ! i) ^ nat (fe_p - 1) mod fe_p = 1"
    by (auto simp: less_Suc_eq fe_p_def)
  from fe_inv_all_var_correct[OF _ this, of "[fe_clear, fe_clear]"] show ?thesis by (simp add: less_Suc_eq all_conj_distrib)
qed

end
