(* ===== verification/Scalar.thy ===== *)
theory Scalar
  imports Field_Bytes
begin

text \<open>
  Arithmetic modulo the order of the secp256k1 group: scalar_4x64_impl.h and scalar_impl.h. Of the
  three functions that also have an assembly version (\<open>scalar_reduce_512\<close>, \<open>scalar_mul_512\<close>,
  \<open>scalar_sqr_512\<close>) the portable branches are modelled; libsecp256k1-config.h selects the assembly on
  x86-64, which is not modelled.

  A scalar is four 64-bit limbs. Products go through a 160-bit accumulator (c0, c1, c2), whose
  macros \<open>muladd\<close>, \<open>sumadd\<close>, \<open>extract\<close> and their variants are functions on a triple; \<open>c2\<close> is a
  \<open>uint32_t\<close> in the multiplications and a \<open>uint64_t\<close> in the reduction, hence its type variable.
\<close>

section \<open>Representation and constants\<close>

datatype scalar = Scalar u64 u64 u64 u64

primrec d_list :: "scalar \<Rightarrow> u64 list" where
  "d_list (Scalar d0 d1 d2 d3) = [d0, d1, d2, d3]"

definition N_0 :: u64 where "N_0 = 0xBFD25E8CD0364141"
definition N_1 :: u64 where "N_1 = 0xBAAEDCE6AF48A03B"
definition N_2 :: u64 where "N_2 = 0xFFFFFFFFFFFFFFFE"
definition N_3 :: u64 where "N_3 = 0xFFFFFFFFFFFFFFFF"

definition N_C_0 :: u64 where "N_C_0 = NOT N_0 + 1"
definition N_C_1 :: u64 where "N_C_1 = NOT N_1"
definition N_C_2 :: u64 where "N_C_2 = 1"

definition N_H_0 :: u64 where "N_H_0 = 0xDFE92F46681B20A0"
definition N_H_1 :: u64 where "N_H_1 = 0x5D576E7357A4501D"
definition N_H_2 :: u64 where "N_H_2 = 0xFFFFFFFFFFFFFFFF"
definition N_H_3 :: u64 where "N_H_3 = 0x7FFFFFFFFFFFFFFF"

section \<open>Simple operations\<close>

definition scalar_clear :: scalar where
  "scalar_clear = Scalar 0 0 0 0"

definition scalar_set_int :: "u32 \<Rightarrow> scalar" where
  "scalar_set_int v = Scalar (ucast v) 0 0 0"

definition scalar_get_bits :: "scalar \<Rightarrow> u32 \<Rightarrow> u32 \<Rightarrow> u32" where
  "scalar_get_bits a offset count =
     ucast (drop_bit (unat (offset AND 0x3F)) (d_list a ! unat (drop_bit 6 offset)) AND (push_bit (unat count) 1 - 1))"

definition scalar_get_bits_var :: "scalar \<Rightarrow> u32 \<Rightarrow> u32 \<Rightarrow> u32" where
  "scalar_get_bits_var a offset count =
     (if drop_bit 6 (offset + count - 1) = drop_bit 6 offset then scalar_get_bits a offset count
      else ucast ((drop_bit (unat (offset AND 0x3F)) (d_list a ! unat (drop_bit 6 offset))
             OR push_bit (unat (64 - (offset AND 0x3F))) (d_list a ! unat (drop_bit 6 offset + 1)))
           AND (push_bit (unat count) 1 - 1)))"

text \<open>The flags \<open>yes\<close> and \<open>no\<close> are ints that only hold 0 and 1.\<close>

definition scalar_check_overflow :: "scalar \<Rightarrow> bool" where
  "scalar_check_overflow a = (case a of Scalar d0 d1 d2 d3 \<Rightarrow>
     (let yes = False; no = False;
          no = (no \<or> d3 < N_3);
          no = (no \<or> d2 < N_2);
          yes = (yes \<or> d2 > N_2 \<and> \<not> no);
          no = (no \<or> d1 < N_1);
          yes = (yes \<or> d1 > N_1 \<and> \<not> no);
          yes = (yes \<or> d0 \<ge> N_0 \<and> \<not> no)
      in yes))"

definition u64_mask :: u128 where "u64_mask = 0xFFFFFFFFFFFFFFFF"

definition scalar_reduce :: "scalar \<Rightarrow> u32 \<Rightarrow> scalar" where
  "scalar_reduce r overflow = (case r of Scalar d0 d1 d2 d3 \<Rightarrow>
     (let t = ucast d0 + ucast (ucast overflow * N_C_0) :: u128;
          r0 = ucast (t AND u64_mask); t = drop_bit 64 t;
          t = t + (ucast d1 + ucast (ucast overflow * N_C_1));
          r1 = ucast (t AND u64_mask); t = drop_bit 64 t;
          t = t + (ucast d2 + ucast (ucast overflow * N_C_2));
          r2 = ucast (t AND u64_mask); t = drop_bit 64 t;
          t = t + ucast d3;
          r3 = ucast (t AND u64_mask)
      in Scalar r0 r1 r2 r3))"

text \<open>\<open>int\<close> results of comparisons.\<close>

definition flag :: "bool \<Rightarrow> 'a::len word" where
  "flag b = (if b then 1 else 0)"

definition scalar_add :: "scalar \<Rightarrow> scalar \<Rightarrow> scalar \<times> u32" where
  "scalar_add a b = (case (a, b) of (Scalar a0 a1 a2 a3, Scalar b0 b1 b2 b3) \<Rightarrow>
     (let t = ucast a0 + ucast b0 :: u128;
          r0 = ucast (t AND u64_mask); t = drop_bit 64 t;
          t = t + (ucast a1 + ucast b1);
          r1 = ucast (t AND u64_mask); t = drop_bit 64 t;
          t = t + (ucast a2 + ucast b2);
          r2 = ucast (t AND u64_mask); t = drop_bit 64 t;
          t = t + (ucast a3 + ucast b3);
          r3 = ucast (t AND u64_mask); t = drop_bit 64 t;
          overflow = ucast (t + flag (scalar_check_overflow (Scalar r0 r1 r2 r3)))
      in (scalar_reduce (Scalar r0 r1 r2 r3) overflow, overflow)))"

definition bit_limb64 :: "u32 \<Rightarrow> u32 \<Rightarrow> u64" where
  "bit_limb64 k bt = push_bit (unat (bt AND 0x3F)) (flag (drop_bit 6 bt = k))"

definition scalar_add_bit :: "scalar \<Rightarrow> u32 \<Rightarrow> scalar" where
  "scalar_add_bit r bt = (case r of Scalar d0 d1 d2 d3 \<Rightarrow>
     (let t = ucast d0 + ucast (bit_limb64 0 bt) :: u128;
          r0 = ucast (t AND u64_mask); t = drop_bit 64 t;
          t = t + (ucast d1 + ucast (bit_limb64 1 bt));
          r1 = ucast (t AND u64_mask); t = drop_bit 64 t;
          t = t + (ucast d2 + ucast (bit_limb64 2 bt));
          r2 = ucast (t AND u64_mask); t = drop_bit 64 t;
          t = t + (ucast d3 + ucast (bit_limb64 3 bt));
          r3 = ucast (t AND u64_mask)
      in Scalar r0 r1 r2 r3))"

text \<open>One limb of \<open>scalar_set_b32\<close>: bytes \<open>i + 7\<close> (lowest) down to \<open>i\<close>.\<close>

definition limb_of_bytes :: "u8 list \<Rightarrow> nat \<Rightarrow> u64" where
  "limb_of_bytes b i = ucast (b ! (i + 7)) OR push_bit 8 (ucast (b ! (i + 6))) OR push_bit 16 (ucast (b ! (i + 5)))
     OR push_bit 24 (ucast (b ! (i + 4))) OR push_bit 32 (ucast (b ! (i + 3))) OR push_bit 40 (ucast (b ! (i + 2)))
     OR push_bit 48 (ucast (b ! (i + 1))) OR push_bit 56 (ucast (b ! i))"

definition scalar_set_b32 :: "u8 list \<Rightarrow> scalar \<times> u32" where
  "scalar_set_b32 b32 =
     (let r = Scalar (limb_of_bytes b32 24) (limb_of_bytes b32 16) (limb_of_bytes b32 8) (limb_of_bytes b32 0);
          over = flag (scalar_check_overflow r)
      in (scalar_reduce r over, over))"

definition bytes_of_limb :: "u64 \<Rightarrow> u8 list" where
  "bytes_of_limb d = [ucast (drop_bit 56 d), ucast (drop_bit 48 d), ucast (drop_bit 40 d), ucast (drop_bit 32 d),
     ucast (drop_bit 24 d), ucast (drop_bit 16 d), ucast (drop_bit 8 d), ucast d]"

fun scalar_get_b32 :: "scalar \<Rightarrow> u8 list" where
  "scalar_get_b32 (Scalar d0 d1 d2 d3) = bytes_of_limb d3 @ bytes_of_limb d2 @ bytes_of_limb d1 @ bytes_of_limb d0"

fun scalar_is_zero :: "scalar \<Rightarrow> bool" where
  "scalar_is_zero (Scalar d0 d1 d2 d3) \<longleftrightarrow> (d0 OR d1 OR d2 OR d3) = 0"

definition scalar_negate :: "scalar \<Rightarrow> scalar" where
  "scalar_negate a = (case a of Scalar d0 d1 d2 d3 \<Rightarrow>
     (let nonzero = 0xFFFFFFFFFFFFFFFF * flag (\<not> scalar_is_zero (Scalar d0 d1 d2 d3)) :: u64;
          t = ucast (NOT d0) + ucast N_0 + 1 :: u128;
          r0 = ucast (t AND ucast nonzero); t = drop_bit 64 t;
          t = t + (ucast (NOT d1) + ucast N_1);
          r1 = ucast (t AND ucast nonzero); t = drop_bit 64 t;
          t = t + (ucast (NOT d2) + ucast N_2);
          r2 = ucast (t AND ucast nonzero); t = drop_bit 64 t;
          t = t + (ucast (NOT d3) + ucast N_3);
          r3 = ucast (t AND ucast nonzero)
      in Scalar r0 r1 r2 r3))"

fun scalar_is_one :: "scalar \<Rightarrow> bool" where
  "scalar_is_one (Scalar d0 d1 d2 d3) \<longleftrightarrow> ((d0 XOR 1) OR d1 OR d2 OR d3) = 0"

definition scalar_is_high :: "scalar \<Rightarrow> bool" where
  "scalar_is_high a = (case a of Scalar d0 d1 d2 d3 \<Rightarrow>
     (let yes = False; no = False;
          no = (no \<or> d3 < N_H_3);
          yes = (yes \<or> d3 > N_H_3 \<and> \<not> no);
          no = (no \<or> d2 < N_H_2 \<and> \<not> yes);
          no = (no \<or> d1 < N_H_1 \<and> \<not> yes);
          yes = (yes \<or> d1 > N_H_1 \<and> \<not> no);
          yes = (yes \<or> d0 > N_H_0 \<and> \<not> no)
      in yes))"

definition scalar_wnaf_force_odd :: "scalar \<Rightarrow> scalar \<times> int" where
  "scalar_wnaf_force_odd r = (case r of Scalar d0 d1 d2 d3 \<Rightarrow>
     (let mask = (d0 AND 1) - 1;
          nonzero = flag (scalar_is_zero (Scalar d0 d1 d2 d3)) - 1 :: u64;
          t = ucast (d0 XOR mask) + ucast ((N_0 + 1) AND mask) :: u128;
          r0 = ucast (t AND ucast nonzero); t = drop_bit 64 t;
          t = t + (ucast (d1 XOR mask) + ucast (N_1 AND mask));
          r1 = ucast (t AND ucast nonzero); t = drop_bit 64 t;
          t = t + (ucast (d2 XOR mask) + ucast (N_2 AND mask));
          r2 = ucast (t AND ucast nonzero); t = drop_bit 64 t;
          t = t + (ucast (d3 XOR mask) + ucast (N_3 AND mask));
          r3 = ucast (t AND ucast nonzero)
      in (Scalar r0 r1 r2 r3, 2 * (if mask = 0 then 1 else 0) - 1)))"

fun scalar_eq :: "scalar \<Rightarrow> scalar \<Rightarrow> bool" where
  "scalar_eq (Scalar a0 a1 a2 a3) (Scalar b0 b1 b2 b3) \<longleftrightarrow>
     ((a0 XOR b0) OR (a1 XOR b1) OR (a2 XOR b2) OR (a3 XOR b3)) = 0"

fun scalar_split_128 :: "scalar \<Rightarrow> scalar \<times> scalar" where
  "scalar_split_128 (Scalar d0 d1 d2 d3) = (Scalar d0 d1 0 0, Scalar d2 d3 0 0)"

fun scalar_shr_int :: "scalar \<Rightarrow> nat \<Rightarrow> scalar \<times> int" where
  "scalar_shr_int (Scalar d0 d1 d2 d3) n =
     (Scalar (drop_bit n d0 + push_bit (64 - n) d1) (drop_bit n d1 + push_bit (64 - n) d2)
        (drop_bit n d2 + push_bit (64 - n) d3) (drop_bit n d3), uint (d0 AND (push_bit n 1 - 1)))"

section \<open>The 160-bit accumulator\<close>

type_synonym 'a accum = "u64 \<times> u64 \<times> 'a word"

definition muladd :: "u64 \<Rightarrow> u64 \<Rightarrow> 'a::len accum \<Rightarrow> 'a accum" where
  "muladd a b c = (case c of (c0, c1, c2) \<Rightarrow>
     (let t = ucast a * ucast b :: u128; th = ucast (drop_bit 64 t); tl = ucast t;
          c0 = c0 + tl;
          th = th + flag (c0 < tl);
          c1 = c1 + th;
          c2 = c2 + flag (c1 < th)
      in (c0, c1, c2)))"

definition muladd_fast :: "u64 \<Rightarrow> u64 \<Rightarrow> 'a::len accum \<Rightarrow> 'a accum" where
  "muladd_fast a b c = (case c of (c0, c1, c2) \<Rightarrow>
     (let t = ucast a * ucast b :: u128; th = ucast (drop_bit 64 t); tl = ucast t;
          c0 = c0 + tl;
          th = th + flag (c0 < tl);
          c1 = c1 + th
      in (c0, c1, c2)))"

definition muladd2 :: "u64 \<Rightarrow> u64 \<Rightarrow> 'a::len accum \<Rightarrow> 'a accum" where
  "muladd2 a b c = (case c of (c0, c1, c2) \<Rightarrow>
     (let t = ucast a * ucast b :: u128; th = ucast (drop_bit 64 t); tl = ucast t;
          th2 = th + th;
          c2 = c2 + flag (th2 < th);
          tl2 = tl + tl;
          th2 = th2 + flag (tl2 < tl);
          c0 = c0 + tl2;
          th2 = th2 + flag (c0 < tl2);
          c2 = c2 + flag (c0 < tl2 \<and> th2 = 0);
          c1 = c1 + th2;
          c2 = c2 + flag (c1 < th2)
      in (c0, c1, c2)))"

definition sumadd :: "u64 \<Rightarrow> 'a::len accum \<Rightarrow> 'a accum" where
  "sumadd a c = (case c of (c0, c1, c2) \<Rightarrow>
     (let c0 = c0 + a;
          over = flag (c0 < a) :: u32;
          c1 = c1 + ucast over;
          c2 = c2 + flag (c1 < ucast over)
      in (c0, c1, c2)))"

definition sumadd_fast :: "u64 \<Rightarrow> 'a::len accum \<Rightarrow> 'a accum" where
  "sumadd_fast a c = (case c of (c0, c1, c2) \<Rightarrow>
     (let c0 = c0 + a; c1 = c1 + flag (c0 < a) in (c0, c1, c2)))"

definition extract_limb :: "'a::len accum \<Rightarrow> u64 \<times> 'a accum" where
  "extract_limb c = (case c of (c0, c1, c2) \<Rightarrow> (c0, (c1, ucast c2, 0)))"

definition extract_limb_fast :: "'a::len accum \<Rightarrow> u64 \<times> 'a accum" where
  "extract_limb_fast c = (case c of (c0, c1, c2) \<Rightarrow> (c0, (c1, 0, c2)))"

section \<open>Multiplication\<close>

definition scalar_mul_512 :: "scalar \<Rightarrow> scalar \<Rightarrow> u64 list" where
  "scalar_mul_512 a b = (case (a, b) of (Scalar a0 a1 a2 a3, Scalar b0 b1 b2 b3) \<Rightarrow>
     (let c = (0, 0, 0) :: 32 accum;
          c = muladd_fast a0 b0 c; (l0, c) = extract_limb_fast c;
          c = muladd a0 b1 c; c = muladd a1 b0 c; (l1, c) = extract_limb c;
          c = muladd a0 b2 c; c = muladd a1 b1 c; c = muladd a2 b0 c; (l2, c) = extract_limb c;
          c = muladd a0 b3 c; c = muladd a1 b2 c; c = muladd a2 b1 c; c = muladd a3 b0 c; (l3, c) = extract_limb c;
          c = muladd a1 b3 c; c = muladd a2 b2 c; c = muladd a3 b1 c; (l4, c) = extract_limb c;
          c = muladd a2 b3 c; c = muladd a3 b2 c; (l5, c) = extract_limb c;
          c = muladd_fast a3 b3 c; (l6, c) = extract_limb_fast c;
          l7 = fst c
      in [l0, l1, l2, l3, l4, l5, l6, l7]))"

definition scalar_sqr_512 :: "scalar \<Rightarrow> u64 list" where
  "scalar_sqr_512 a = (case a of Scalar a0 a1 a2 a3 \<Rightarrow>
     (let c = (0, 0, 0) :: 32 accum;
          c = muladd_fast a0 a0 c; (l0, c) = extract_limb_fast c;
          c = muladd2 a0 a1 c; (l1, c) = extract_limb c;
          c = muladd2 a0 a2 c; c = muladd a1 a1 c; (l2, c) = extract_limb c;
          c = muladd2 a0 a3 c; c = muladd2 a1 a2 c; (l3, c) = extract_limb c;
          c = muladd2 a1 a3 c; c = muladd a2 a2 c; (l4, c) = extract_limb c;
          c = muladd2 a2 a3 c; (l5, c) = extract_limb c;
          c = muladd_fast a3 a3 c; (l6, c) = extract_limb_fast c;
          l7 = fst c
      in [l0, l1, l2, l3, l4, l5, l6, l7]))"

text \<open>The reduction in three steps: 512 bits to 385, to 258, and to 256 with a carry.\<close>

definition reduce_385 :: "u64 list \<Rightarrow> u64 \<times> u64 \<times> u64 \<times> u64 \<times> u64 \<times> u64 \<times> u32" where
  "reduce_385 l =
     (let n0 = l ! 4; n1 = l ! 5; n2 = l ! 6; n3 = l ! 7;
          c = (l ! 0, 0, 0) :: 64 accum;
          c = muladd_fast n0 N_C_0 c; (m0, c) = extract_limb_fast c;
          c = sumadd_fast (l ! 1) c; c = muladd n1 N_C_0 c; c = muladd n0 N_C_1 c; (m1, c) = extract_limb c;
          c = sumadd (l ! 2) c; c = muladd n2 N_C_0 c; c = muladd n1 N_C_1 c; c = sumadd n0 c; (m2, c) = extract_limb c;
          c = sumadd (l ! 3) c; c = muladd n3 N_C_0 c; c = muladd n2 N_C_1 c; c = sumadd n1 c; (m3, c) = extract_limb c;
          c = muladd n3 N_C_1 c; c = sumadd n2 c; (m4, c) = extract_limb c;
          c = sumadd_fast n3 c; (m5, c) = extract_limb_fast c;
          m6 = ucast (fst c)
      in (m0, m1, m2, m3, m4, m5, m6))"

definition reduce_258 :: "u64 \<times> u64 \<times> u64 \<times> u64 \<times> u64 \<times> u64 \<times> u32 \<Rightarrow> u64 \<times> u64 \<times> u64 \<times> u64 \<times> u32" where
  "reduce_258 m = (case m of (m0, m1, m2, m3, m4, m5, m6) \<Rightarrow>
     (let c = (m0, 0, 0) :: 64 accum;
          c = muladd_fast m4 N_C_0 c; (p0, c) = extract_limb_fast c;
          c = sumadd_fast m1 c; c = muladd m5 N_C_0 c; c = muladd m4 N_C_1 c; (p1, c) = extract_limb c;
          c = sumadd m2 c; c = muladd (ucast m6) N_C_0 c; c = muladd m5 N_C_1 c; c = sumadd m4 c; (p2, c) = extract_limb c;
          c = sumadd_fast m3 c; c = muladd_fast (ucast m6) N_C_1 c; c = sumadd_fast m5 c; (p3, c) = extract_limb_fast c;
          p4 = ucast (fst c + ucast m6)
      in (p0, p1, p2, p3, p4)))"

definition reduce_256 :: "u64 \<times> u64 \<times> u64 \<times> u64 \<times> u32 \<Rightarrow> scalar \<times> u128" where
  "reduce_256 p = (case p of (p0, p1, p2, p3, p4) \<Rightarrow>
     (let c = ucast p0 + ucast N_C_0 * ucast p4 :: u128;
          r0 = ucast (c AND u64_mask); c = drop_bit 64 c;
          c = c + (ucast p1 + ucast N_C_1 * ucast p4);
          r1 = ucast (c AND u64_mask); c = drop_bit 64 c;
          c = c + (ucast p2 + ucast p4);
          r2 = ucast (c AND u64_mask); c = drop_bit 64 c;
          c = c + ucast p3;
          r3 = ucast (c AND u64_mask); c = drop_bit 64 c
      in (Scalar r0 r1 r2 r3, c)))"

definition scalar_reduce_512 :: "u64 list \<Rightarrow> scalar" where
  "scalar_reduce_512 l =
     (let (r, c) = reduce_256 (reduce_258 (reduce_385 l))
      in scalar_reduce r (ucast (c + flag (scalar_check_overflow r))))"

definition scalar_mul :: "scalar \<Rightarrow> scalar \<Rightarrow> scalar" where
  "scalar_mul a b = scalar_reduce_512 (scalar_mul_512 a b)"

definition scalar_sqr :: "scalar \<Rightarrow> scalar" where
  "scalar_sqr a = scalar_reduce_512 (scalar_sqr_512 a)"

definition scalar_mul_shift_var :: "scalar \<Rightarrow> scalar \<Rightarrow> nat \<Rightarrow> scalar" where
  "scalar_mul_shift_var a b shift =
     (let l = scalar_mul_512 a b;
          shiftlimbs = shift div 64; shiftlow = shift mod 64; shifthigh = 64 - shiftlow;
          d0 = (if shift < 512 then drop_bit shiftlow (l ! (0 + shiftlimbs))
                  OR (if shift < 448 \<and> shiftlow \<noteq> 0 then push_bit shifthigh (l ! (1 + shiftlimbs)) else 0) else 0);
          d1 = (if shift < 448 then drop_bit shiftlow (l ! (1 + shiftlimbs))
                  OR (if shift < 384 \<and> shiftlow \<noteq> 0 then push_bit shifthigh (l ! (2 + shiftlimbs)) else 0) else 0);
          d2 = (if shift < 384 then drop_bit shiftlow (l ! (2 + shiftlimbs))
                  OR (if shift < 320 \<and> shiftlow \<noteq> 0 then push_bit shifthigh (l ! (3 + shiftlimbs)) else 0) else 0);
          d3 = (if shift < 320 then drop_bit shiftlow (l ! (3 + shiftlimbs)) else 0);
          r = Scalar d0 d1 d2 d3
      in if drop_bit ((shift - 1) mod 64) (l ! ((shift - 1) div 64)) AND 1 \<noteq> 0 then scalar_add_bit r 0 else r)"

section \<open>Inverse\<close>

text \<open>\<open>sqn n t\<close> is a loop of \<open>n\<close> squarings; \<open>step\<close> a loop and the multiplication that follows it.\<close>

definition scalar_sqn :: "nat \<Rightarrow> scalar \<Rightarrow> scalar" where
  "scalar_sqn n t = (scalar_sqr ^^ n) t"

definition scalar_step :: "scalar \<Rightarrow> nat \<times> scalar \<Rightarrow> scalar" where
  "scalar_step t s = scalar_mul (scalar_sqn (fst s) t) (snd s)"

definition scalar_inverse :: "scalar \<Rightarrow> scalar" where
  "scalar_inverse x =
     (let x2 = scalar_mul (scalar_sqr x) x;
          x3 = scalar_mul (scalar_sqr x2) x;
          x4 = scalar_mul (scalar_sqr x3) x;
          x6 = scalar_mul (scalar_sqr (scalar_sqr x4)) x2;
          x7 = scalar_mul (scalar_sqr x6) x;
          x8 = scalar_mul (scalar_sqr x7) x;
          x15 = scalar_mul (scalar_sqn 6 (scalar_sqr x8)) x7;
          x30 = scalar_mul (scalar_sqn 14 (scalar_sqr x15)) x15;
          x60 = scalar_mul (scalar_sqn 29 (scalar_sqr x30)) x30;
          x120 = scalar_mul (scalar_sqn 59 (scalar_sqr x60)) x60;
          x127 = scalar_mul (scalar_sqn 6 (scalar_sqr x120)) x7
      in foldl scalar_step x127
           [(2, x), (4, x3), (2, x), (2, x), (2, x), (4, x3), (3, x2), (4, x3), (5, x3), (4, x2), (2, x), (2, x),
            (5, x4), (2, x), (3, x), (4, x), (2, x), (10, x3), (4, x3), (9, x8), (2, x), (3, x), (3, x), (5, x4),
            (2, x), (5, x2), (4, x2), (2, x), (8, x2), (3, x2), (3, x), (6, x), (8, x6)])"

text \<open>
  The branch \<open>USE_SCALAR_INV_BUILTIN\<close>. The configuration builds the other one, which calls GMP:
  \<open>scalar_inverse_var_num\<close> of Num_Gmp, where both are proved to return the same scalar.
\<close>

definition scalar_inverse_var :: "scalar \<Rightarrow> scalar" where
  "scalar_inverse_var x = scalar_inverse x"

section \<open>Splitting for the endomorphism\<close>

definition scalar_const :: "u32 \<Rightarrow> u32 \<Rightarrow> u32 \<Rightarrow> u32 \<Rightarrow> u32 \<Rightarrow> u32 \<Rightarrow> u32 \<Rightarrow> u32 \<Rightarrow> scalar" where
  "scalar_const d7 d6 d5 d4 d3 d2 d1 d0 =
     Scalar (push_bit 32 (ucast d1) OR ucast d0) (push_bit 32 (ucast d3) OR ucast d2)
       (push_bit 32 (ucast d5) OR ucast d4) (push_bit 32 (ucast d7) OR ucast d6)"

definition minus_lambda :: scalar where
  "minus_lambda = scalar_const 0xAC9C52B3 0x3FA3CF1F 0x5AD9E3FD 0x77ED9BA4 0xA880B9FC 0x8EC739C2 0xE0CFC810 0xB51283CF"

definition minus_b1 :: scalar where
  "minus_b1 = scalar_const 0x00000000 0x00000000 0x00000000 0x00000000 0xE4437ED6 0x010E8828 0x6F547FA9 0x0ABFE4C3"

definition minus_b2 :: scalar where
  "minus_b2 = scalar_const 0xFFFFFFFF 0xFFFFFFFF 0xFFFFFFFF 0xFFFFFFFE 0x8A280AC5 0x0774346D 0xD765CDA8 0x3DB1562C"

definition split_g1 :: scalar where
  "split_g1 = scalar_const 0x00000000 0x00000000 0x00000000 0x00003086 0xD221A7D4 0x6BCDE86C 0x90E49284 0xEB153DAB"

definition split_g2 :: scalar where
  "split_g2 = scalar_const 0x00000000 0x00000000 0x00000000 0x0000E443 0x7ED6010E 0x88286F54 0x7FA90ABF 0xE4C42212"

definition scalar_split_lambda_var :: "scalar \<Rightarrow> scalar \<times> scalar" where
  "scalar_split_lambda_var a =
     (let c1 = scalar_mul_shift_var a split_g1 272;
          c2 = scalar_mul_shift_var a split_g2 272;
          c1 = scalar_mul c1 minus_b1;
          c2 = scalar_mul c2 minus_b2;
          r2 = fst (scalar_add c1 c2);
          r1 = scalar_mul r2 minus_lambda;
          r1 = fst (scalar_add r1 a)
      in (r1, r2))"

end
