(* ===== verification/Scalar_Spec.thy ===== *)
theory Scalar_Spec
  imports Scalar
begin

text \<open>
  What the scalar arithmetic computes: on the values of the limbs every operation is the operation
  modulo the group order, and the 160-bit and 128-bit accumulators never overflow.
\<close>

section \<open>Values\<close>

definition scalar_n :: int where
  "scalar_n = 0xFFFFFFFFFFFFFFFFFFFFFFFFFFFFFFFEBAAEDCE6AF48A03BBFD25E8CD0364141"

fun scalar_val :: "scalar \<Rightarrow> int" where
  "scalar_val (Scalar d0 d1 d2 d3) = uint d0 + uint d1 * 2 ^ 64 + uint d2 * 2 ^ 128 + uint d3 * 2 ^ 192"

lemma scalar_val_num:
  "scalar_val (Scalar d0 d1 d2 d3) = uint d0 + uint d1 * 18446744073709551616
     + uint d2 * 340282366920938463463374607431768211456
     + uint d3 * 6277101735386680763835789423207666416102355444464034512896"
  by simp

lemma u64_bounds: "0 \<le> uint (x :: u64)" "uint x \<le> 18446744073709551615"
  using uint_lt2p[of x] by simp_all

lemma scalar_val_bounds: "0 \<le> scalar_val a"
  "scalar_val a \<le> 115792089237316195423570985008687907853269984665640564039457584007913129639935"
proof -
  obtain d0 d1 d2 d3 where a: "a = Scalar d0 d1 d2 d3" by (cases a)
  show "0 \<le> scalar_val a" by (simp add: a)
  show "scalar_val a \<le> 115792089237316195423570985008687907853269984665640564039457584007913129639935"
    unfolding a scalar_val_num
    using u64_bounds(2)[of d0] u64_bounds(2)[of d1] u64_bounds(2)[of d2] u64_bounds(2)[of d3] by linarith
qed

lemma scalar_n_num: "scalar_n = 115792089237316195423570985008687907852837564279074904382605163141518161494337"
  by (simp add: scalar_n_def)

lemma N_uints: "uint N_0 = 13822214165235122497" "uint N_1 = 13451932020343611451"
  "uint N_2 = 18446744073709551614" "uint N_3 = 18446744073709551615"
  "uint N_C_0 = 4624529908474429119" "uint N_C_1 = 4994812053365940164" "uint N_C_2 = 1"
  by (simp_all add: N_0_def N_1_def N_2_def N_3_def N_C_0_def N_C_1_def N_C_2_def)

text \<open>Two scalars with the same value are equal.\<close>

lemma digit:
  fixes x y :: int
  assumes "0 \<le> x" "x < B" "0 \<le> y" "y < B" "x + B * r = y + B * q"
  shows "x = y \<and> r = q"
proof -
  have m: "x = (x + B * z) mod B" if "0 \<le> x" "x < B" for x z using that by simp
  have "x = y" using m[OF assms(1,2), of r] m[OF assms(3,4), of q] unfolding assms(5) by simp
  with assms show ?thesis by simp
qed

lemma digits4:
  fixes x0 :: int
  assumes "0 \<le> x0" "x0 < B" "0 \<le> x1" "x1 < B" "0 \<le> y0" "y0 < B" "0 \<le> y1" "y1 < B" "x0 + B * (x1 + B * r) = y0 + B * (y1 + B * q)"
  shows "x0 = y0 \<and> x1 = y1 \<and> r = q"
  using digit[OF assms(1,2,5,6,9)] digit[OF assms(3,4,7,8)] by blast

lemma scalar_val_inj:
  assumes "scalar_val a = scalar_val b"
  shows "a = b"
proof -
  obtain a0 a1 a2 a3 b0 b1 b2 b3 where ab: "a = Scalar a0 a1 a2 a3" "b = Scalar b0 b1 b2 b3" by (cases a; cases b) auto
  have e: "uint a0 + 18446744073709551616 * (uint a1 + 18446744073709551616 * (uint a2 + 18446744073709551616 * uint a3))
      = uint b0 + 18446744073709551616 * (uint b1 + 18446744073709551616 * (uint b2 + 18446744073709551616 * uint b3))"
    using assms unfolding ab scalar_val_num by simp
  have lt: "uint x < 18446744073709551616" for x :: u64 using uint_lt2p[of x] by simp
  note d = digits4[OF uint_ge_0 lt uint_ge_0 lt uint_ge_0 lt uint_ge_0 lt e]
  then have "uint a2 + 18446744073709551616 * (uint a3 + 18446744073709551616 * 0)
      = uint b2 + 18446744073709551616 * (uint b3 + 18446744073709551616 * 0)" by simp
  from digits4[OF uint_ge_0 lt uint_ge_0 lt uint_ge_0 lt uint_ge_0 lt this] d show ?thesis
    by (simp add: ab word_eq_uint)
qed

lemma check_overflow_iff: "scalar_check_overflow a \<longleftrightarrow> scalar_n \<le> scalar_val a"
proof -
  obtain d0 d1 d2 d3 where a: "a = Scalar d0 d1 d2 d3" by (cases a)
  note b = u64_bounds[of d0] u64_bounds[of d1] u64_bounds[of d2] u64_bounds[of d3]
  show ?thesis
    unfolding a scalar_check_overflow_def scalar.case Let_def scalar_val_num scalar_n_num word_less_def word_le_def N_uints
    using b by (simp only: simp_thms) linarith
qed

lemma is_high_iff: "scalar_is_high a \<longleftrightarrow> scalar_n div 2 < scalar_val a"
proof -
  obtain d0 d1 d2 d3 where a: "a = Scalar d0 d1 d2 d3" by (cases a)
  have h: "uint N_H_0 = 16134479119472337056" "uint N_H_1 = 6725966010171805725"
    "uint N_H_2 = 18446744073709551615" "uint N_H_3 = 9223372036854775807"
    by (simp_all add: N_H_0_def N_H_1_def N_H_2_def N_H_3_def)
  have n2: "scalar_n div 2 = 57896044618658097711785492504343953926418782139537452191302581570759080747168"
    by (simp add: scalar_n_def)
  note b = u64_bounds[of d0] u64_bounds[of d1] u64_bounds[of d2] u64_bounds[of d3]
  show ?thesis
    unfolding a scalar_is_high_def scalar.case Let_def scalar_val_num n2 word_less_def word_le_def h
    using b by (simp only: simp_thms) linarith
qed

section \<open>Chains of 64-bit additions\<close>

lemma carry64:
  "uint (x :: u128) = 18446744073709551616 * uint (drop_bit 64 x) + uint (ucast (x AND u64_mask) :: u64)"
  "0 \<le> uint (drop_bit 64 x)" "uint (drop_bit 64 x) \<le> 18446744073709551615"
  "uint (ucast (x AND u64_mask) :: u64) \<le> 18446744073709551615" "0 \<le> uint (ucast (x AND u64_mask) :: u64)"
proof -
  have "u64_mask = mask 64" by (simp add: u64_mask_def mask_eq_exp_minus_1)
  then have lo: "uint (x AND u64_mask) = uint x mod 2 ^ 64" using uint_and_mask_mod[of x 64] by simp
  then have "uint (x AND u64_mask) < 2 ^ 64" by simp
  then have u: "uint (ucast (x AND u64_mask) :: u64) = uint x mod 2 ^ 64"
    by (simp only: unsigned_ucast_eq) (simp add: take_bit_int_eq_self lo)
  have "uint x < 340282366920938463463374607431768211456" using uint_lt2p[of x] by simp
  then show "uint (drop_bit 64 x) \<le> 18446744073709551615" by (simp only: uint_drop_bit_div) simp
  show "uint x = 18446744073709551616 * uint (drop_bit 64 x) + uint (ucast (x AND u64_mask) :: u64)"
    using mult_div_mod_eq[of "2 ^ 64" "uint x"] by (simp add: u uint_drop_bit_div)
qed (use u64_bounds in simp_all)

lemma uint_ucast_u64 [simp]: "uint (ucast (x :: u64) :: u128) = uint x"
  by (simp add: uint_ucast_up)

text \<open>Adding \<open>b\<close> limb by limb with the carry in the upper half of a 128-bit accumulator.\<close>

definition add_chain :: "u128 \<Rightarrow> u128 \<Rightarrow> u128 \<Rightarrow> u128 \<Rightarrow> scalar \<times> u128" where
  "add_chain s0 s1 s2 s3 =
     (let t = s0;
          r0 = ucast (t AND u64_mask); t = drop_bit 64 t;
          t = t + s1;
          r1 = ucast (t AND u64_mask); t = drop_bit 64 t;
          t = t + s2;
          r2 = ucast (t AND u64_mask); t = drop_bit 64 t;
          t = t + s3;
          r3 = ucast (t AND u64_mask); t = drop_bit 64 t
      in (Scalar r0 r1 r2 r3, t))"

lemma add_chain_spec:
  assumes "uint s1 \<le> 340282366920938463444927863358058659840" "uint s2 \<le> 340282366920938463444927863358058659840"
    "uint s3 \<le> 340282366920938463444927863358058659840" "add_chain s0 s1 s2 s3 = (r, t)"
  shows "scalar_val r + uint t * 2 ^ 256 = uint s0 + uint s1 * 2 ^ 64 + uint s2 * 2 ^ 128 + uint s3 * 2 ^ 192"
proof -
  define t1 where "t1 = drop_bit 64 s0 + s1"
  define t2 where "t2 = drop_bit 64 t1 + s2"
  define t3 where "t3 = drop_bit 64 t2 + s3"
  have r: "r = Scalar (ucast (s0 AND u64_mask)) (ucast (t1 AND u64_mask)) (ucast (t2 AND u64_mask)) (ucast (t3 AND u64_mask))"
    "t = drop_bit 64 t3"
    using assms(4) unfolding add_chain_def Let_def t1_def t2_def t3_def by simp_all
  have e1: "uint t1 = uint (drop_bit 64 s0) + uint s1"
    unfolding t1_def by (rule uint_add128) (use assms carry64(3)[of s0] in linarith)
  have e2: "uint t2 = uint (drop_bit 64 t1) + uint s2"
    unfolding t2_def by (rule uint_add128) (use assms carry64(3)[of t1] in linarith)
  have e3: "uint t3 = uint (drop_bit 64 t2) + uint s3"
    unfolding t3_def by (rule uint_add128) (use assms carry64(3)[of t2] in linarith)
  show ?thesis
    unfolding r scalar_val_num using carry64(1)[of s0] carry64(1)[of t1] carry64(1)[of t2] carry64(1)[of t3] e1 e2 e3 by simp
qed

lemma scalar_reduce_chain:
  "scalar_reduce (Scalar d0 d1 d2 d3) ov = fst (add_chain (ucast d0 + ucast (ucast ov * N_C_0))
     (ucast d1 + ucast (ucast ov * N_C_1)) (ucast d2 + ucast (ucast ov * N_C_2)) (ucast d3))"
  by (simp only: scalar_reduce_def add_chain_def Let_def scalar.case fst_conv)

lemma uint_two_limbs: "uint (ucast (x :: u64) + ucast (y :: u64) :: u128) = uint x + uint y"
  by (subst uint_add128) (use u64_bounds[of x] u64_bounds[of y] in simp_all)

lemma scalar_reduce_spec:
  assumes "ov = flag b"
  shows "scalar_val (scalar_reduce r ov) = (scalar_val r + (if b then 2 ^ 256 - scalar_n else 0)) mod 2 ^ 256"
proof -
  obtain d0 d1 d2 d3 where r: "r = Scalar d0 d1 d2 d3" by (cases r)
  note lim = u64_bounds[of d0] u64_bounds[of d1] u64_bounds[of d2] u64_bounds[of d3]
  obtain q t where q: "add_chain (ucast d0 + ucast (ucast ov * N_C_0)) (ucast d1 + ucast (ucast ov * N_C_1))
      (ucast d2 + ucast (ucast ov * N_C_2)) (ucast d3) = (q, t)" by fastforce
  have "scalar_val q + uint t * 2 ^ 256 = scalar_val r + (if b then 2 ^ 256 - scalar_n else 0)"
  proof (cases b)
    case True
    then have ov: "(ucast ov :: u64) = 1" by (simp add: assms flag_def)
    from add_chain_spec[OF _ _ _ q[unfolded ov mult_1]]
    show ?thesis
      unfolding uint_two_limbs N_uints using lim True by (simp add: r scalar_n_num)
  next
    case False
    then have ov: "(ucast ov :: u64) = 0" by (simp add: assms flag_def)
    from add_chain_spec[OF _ _ _ q[unfolded ov mult_zero_left]]
    show ?thesis
      unfolding uint_two_limbs using lim False by (simp add: r)
  qed
  then have "scalar_val r + (if b then 2 ^ 256 - scalar_n else 0) = scalar_val q + 2 ^ 256 * uint t" by simp
  moreover have "0 \<le> scalar_val q" "scalar_val q < 2 ^ 256" using scalar_val_bounds[of q] by simp_all
  ultimately have "(scalar_val r + (if b then 2 ^ 256 - scalar_n else 0)) mod 2 ^ 256 = scalar_val q" by simp
  then show ?thesis by (simp add: r scalar_reduce_chain q)
qed

lemma subtract_once:
  assumes "v = r + t * 2 ^ 256" "0 \<le> v" "v < 2 * scalar_n"
  shows "(r + (if scalar_n \<le> v then 2 ^ 256 - scalar_n else 0)) mod 2 ^ 256 = v mod scalar_n"
proof (cases "scalar_n \<le> v")
  case True
  have "(r + (2 ^ 256 - scalar_n)) mod 2 ^ 256 = (v - scalar_n + (1 - t) * 2 ^ 256) mod 2 ^ 256"
    using assms(1) by (simp add: algebra_simps)
  also have "\<dots> = v - scalar_n"
    using True assms by (simp only: mod_mult_self1) (simp add: scalar_n_num)
  also have "\<dots> = (v - scalar_n) mod scalar_n" using True assms(3) by (intro mod_pos_pos_trivial[symmetric]) simp_all
  also have "\<dots> = v mod scalar_n" by (rule minus_mod_self2)
  finally show ?thesis using True by simp
next
  case False
  have "r mod 2 ^ 256 = (v + (- t) * 2 ^ 256) mod 2 ^ 256" using assms(1) by (simp add: algebra_simps)
  also have "\<dots> = v mod 2 ^ 256" by (rule mod_mult_self1)
  also have "\<dots> = v" using False assms(2) by (intro mod_pos_pos_trivial) (simp_all add: scalar_n_num)
  finally show ?thesis using False assms by simp
qed

text \<open>The last step of addition and of the reduction: one conditional subtraction of the order.\<close>

lemma final_reduce:
  assumes "scalar_val r + uint t * 2 ^ 256 = v" "0 \<le> v" "v < 2 * scalar_n"
  defines "ov \<equiv> (ucast (t + flag (scalar_check_overflow r)) :: u32)"
  shows "ov = flag (scalar_n \<le> v)" "scalar_val (scalar_reduce r ov) = v mod scalar_n"
proof -
  note rb = scalar_val_bounds[of r]
  have n2: "2 * scalar_n \<le> 2 ^ 257 - 2" "2 ^ 255 < scalar_n" by (simp_all add: scalar_n_num)
  have t01: "uint t = 0 \<or> uint t = 1"
  proof -
    have "scalar_val r + uint t * 115792089237316195423570985008687907853269984665640564039457584007913129639936 = v" "v < 231584178474632390847141970017375815705675128558149808765210326283036322988674"
      using assms(1,3) by (simp_all add: scalar_n_num)
    then show ?thesis using rb assms(2) uint_ge_0[of t] by linarith
  qed
  have no: "\<not> scalar_check_overflow r" if "uint t = 1"
    using that assms(1-3) by (simp add: check_overflow_iff scalar_n_num)
  have iff: "uint t = 1 \<or> scalar_check_overflow r \<longleftrightarrow> scalar_n \<le> v"
    using t01 assms(1) rb(1) by (auto simp: check_overflow_iff scalar_n_num)
  have "t = 0 \<or> t = 1" using t01 by (simp add: word_eq_uint)
  then show ov: "ov = flag (scalar_n \<le> v)" using no unfolding iff[symmetric] ov_def by (auto simp: flag_def)
  show "scalar_val (scalar_reduce r ov) = v mod scalar_n"
    using scalar_reduce_spec[OF ov, of r] subtract_once[of v "scalar_val r" "uint t"] assms(1-3) by simp
qed

lemma scalar_add_spec:
  assumes "scalar_val a < scalar_n" "scalar_val b < scalar_n"
  shows "scalar_val (fst (scalar_add a b)) = (scalar_val a + scalar_val b) mod scalar_n"
    "snd (scalar_add a b) = flag (scalar_n \<le> scalar_val a + scalar_val b)"
proof -
  obtain a0 a1 a2 a3 b0 b1 b2 b3 where ab: "a = Scalar a0 a1 a2 a3" "b = Scalar b0 b1 b2 b3" by (cases a; cases b) auto
  obtain r t where q: "add_chain (ucast a0 + ucast b0) (ucast a1 + ucast b1) (ucast a2 + ucast b2) (ucast a3 + ucast b3) = (r, t)"
    by fastforce
  have add: "scalar_add a b = (scalar_reduce r (ucast (t + flag (scalar_check_overflow r))),
      ucast (t + flag (scalar_check_overflow r)))"
    using q unfolding ab scalar_add_def add_chain_def Let_def prod.case scalar.case by auto
  note lim = u64_bounds[of a0] u64_bounds[of a1] u64_bounds[of a2] u64_bounds[of a3]
    u64_bounds[of b0] u64_bounds[of b1] u64_bounds[of b2] u64_bounds[of b3]
  have sum: "scalar_val r + uint t * 2 ^ 256 = scalar_val a + scalar_val b"
    using add_chain_spec[OF _ _ _ q] lim unfolding uint_two_limbs by (simp add: ab)
  show "scalar_val (fst (scalar_add a b)) = (scalar_val a + scalar_val b) mod scalar_n"
    "snd (scalar_add a b) = flag (scalar_n \<le> scalar_val a + scalar_val b)"
    using final_reduce[OF sum] scalar_val_bounds(1)[of a] scalar_val_bounds(1)[of b] assms by (simp_all add: add)
qed

section \<open>Negation, tests, bytes\<close>

lemma uint_not64: "uint (NOT (x :: u64)) = 18446744073709551615 - uint x"
proof -
  have "NOT x = - 1 - x" by (simp add: not_eq_complement)
  moreover have "uint (- 1 :: u64) = 18446744073709551615" by (simp add: unsigned_minus_1_eq_mask mask_eq_exp_minus_1)
  ultimately show ?thesis using u64_bounds(2)[of x] uint_sub_nowrap[of x "- 1"] by simp
qed

lemma is_zero_iff: "scalar_is_zero a \<longleftrightarrow> scalar_val a = 0"
proof -
  obtain d0 d1 d2 d3 where a: "a = Scalar d0 d1 d2 d3" by (cases a)
  have "scalar_is_zero a \<longleftrightarrow> uint d0 = 0 \<and> uint d1 = 0 \<and> uint d2 = 0 \<and> uint d3 = 0"
    unfolding a scalar_is_zero.simps or_zero by (simp add: word_eq_uint)
  then show ?thesis
    unfolding a scalar_val_num using u64_bounds[of d0] u64_bounds[of d1] u64_bounds[of d2] u64_bounds[of d3] by linarith
qed

lemma scalar_negate_chain:
  assumes "\<not> scalar_is_zero (Scalar d0 d1 d2 d3)"
  shows "scalar_negate (Scalar d0 d1 d2 d3) = fst (add_chain (ucast (NOT d0) + ucast N_0 + 1)
     (ucast (NOT d1) + ucast N_1) (ucast (NOT d2) + ucast N_2) (ucast (NOT d3) + ucast N_3))"
proof -
  have "(ucast (0xFFFFFFFFFFFFFFFF * flag (\<not> scalar_is_zero (Scalar d0 d1 d2 d3)) :: u64) :: u128) = u64_mask"
    using assms by (simp add: flag_def u64_mask_def)
  then show ?thesis unfolding scalar_negate_def add_chain_def Let_def scalar.case by simp
qed

lemma scalar_negate_zero: "scalar_is_zero a \<Longrightarrow> scalar_negate a = scalar_clear"
  by (cases a) (simp add: scalar_negate_def scalar_clear_def Let_def flag_def)

lemma scalar_negate_spec:
  assumes "scalar_val a < scalar_n"
  shows "scalar_val (scalar_negate a) = (- scalar_val a) mod scalar_n"
proof (cases "scalar_is_zero a")
  case True
  then show ?thesis by (simp add: scalar_negate_zero is_zero_iff scalar_clear_def)
next
  case False
  obtain d0 d1 d2 d3 where a: "a = Scalar d0 d1 d2 d3" by (cases a)
  note lim = u64_bounds[of d0] u64_bounds[of d1] u64_bounds[of d2] u64_bounds[of d3]
  obtain q t where q: "add_chain (ucast (NOT d0) + ucast N_0 + 1) (ucast (NOT d1) + ucast N_1) (ucast (NOT d2) + ucast N_2)
      (ucast (NOT d3) + ucast N_3) = (q, t)" by fastforce
  have s0: "uint (ucast (NOT d0) + ucast N_0 + 1 :: u128) = 18446744073709551615 - uint d0 + uint N_0 + 1"
    using uint_add128[of "ucast (NOT d0) + ucast N_0" 1] lim unfolding uint_two_limbs uint_not64 by (simp add: N_uints)
  have "scalar_val q + uint t * 2 ^ 256 = 2 ^ 256 + scalar_n - scalar_val a"
    using add_chain_spec[OF _ _ _ q] lim unfolding s0 uint_two_limbs uint_not64 N_uints by (simp add: a scalar_n_num)
  then have "scalar_n - scalar_val a = scalar_val q + (uint t - 1) * 2 ^ 256" by simp
  moreover have "0 \<le> scalar_val q" "scalar_val q < 2 ^ 256" using scalar_val_bounds[of q] by simp_all
  moreover have "0 \<le> scalar_n - scalar_val a" "scalar_n - scalar_val a < 2 ^ 256"
    using assms scalar_val_bounds[of a] by (simp_all add: scalar_n_num)
  ultimately have "scalar_val q = scalar_n - scalar_val a" by (metis mod_mult_self1 mod_pos_pos_trivial)
  moreover have "0 < scalar_val a" using False scalar_val_bounds[of a] by (simp add: is_zero_iff)
  then have "(- scalar_val a) mod scalar_n = scalar_n - scalar_val a"
    using assms by (simp add: zmod_zminus1_eq_if)
  ultimately show ?thesis using False by (simp add: a scalar_negate_chain q)
qed

lemma scalar_odd_iff: "odd (scalar_val (Scalar d0 d1 d2 d3)) \<longleftrightarrow> d0 AND 1 = 1"
proof -
  have "odd (scalar_val (Scalar d0 d1 d2 d3)) \<longleftrightarrow> odd (uint d0)" by simp
  moreover have "uint (d0 AND 1) = uint d0 mod 2" using uint_and_mask_mod[of d0 1] by simp
  moreover have "d0 AND 1 = 1 \<longleftrightarrow> uint (d0 AND 1) = 1" by (simp only: word_eq_uint unsigned_1)
  ultimately show ?thesis by (simp only: odd_iff_mod_2_eq_one)
qed

lemma wnaf_force_odd_eq:
  "scalar_wnaf_force_odd a = (if odd (scalar_val a) then (a, 1) else (scalar_negate a, - 1))"
proof -
  obtain d0 d1 d2 d3 where a: "a = Scalar d0 d1 d2 d3" by (cases a)
  have and1: "d0 AND 1 = 0 \<or> d0 AND 1 = 1"
    using uint_and_mask_mod[of d0 1] by (auto simp: word_eq_uint)
  have k: "(ucast (- 1 :: u64) :: u128) = u64_mask"
    by (rule word_uint_eqI) (simp add: u64_mask_def unsigned_minus_1_eq_mask mask_eq_exp_minus_1)
  show ?thesis
  proof (cases "odd (scalar_val a)")
    case True
    then have m: "d0 AND 1 = 1" unfolding a scalar_odd_iff .
    have nz: "\<not> scalar_is_zero (Scalar d0 d1 d2 d3)" using True is_zero_iff[of a] unfolding a[symmetric] by auto
    have id: "add_chain (ucast d0) (ucast d1) (ucast d2) (ucast d3) = (Scalar d0 d1 d2 d3, 0)"
    proof -
      obtain q t where q: "add_chain (ucast d0) (ucast d1) (ucast d2) (ucast d3) = (q, t)" by fastforce
      have "scalar_val q + uint t * 2 ^ 256 = scalar_val a"
        using add_chain_spec[OF _ _ _ q] u64_bounds[of d1] u64_bounds[of d2] u64_bounds[of d3] by (simp add: a)
      then have e: "scalar_val q + uint t * 115792089237316195423570985008687907853269984665640564039457584007913129639936 = scalar_val a"
        by simp
      have "uint t = 0"
        using e scalar_val_bounds(1)[of q] scalar_val_bounds(2)[of a] uint_ge_0[of t] by linarith
      then have "uint t = 0" "scalar_val q = scalar_val a" using e by simp_all
      then show ?thesis using scalar_val_inj[of q a] by (simp add: q a word_eq_uint)
    qed
    then show ?thesis using True nz m
      unfolding a scalar_wnaf_force_odd_def Let_def scalar.case add_chain_def by (simp add: flag_def k)
  next
    case False
    then have m: "d0 AND 1 = 0" using and1 unfolding a scalar_odd_iff by blast
    have n1: "(ucast (N_0 + 1) :: u128) = ucast N_0 + 1" by (simp add: N_0_def)
    show ?thesis using False m
      unfolding a scalar_wnaf_force_odd_def scalar_negate_def Let_def scalar.case
      by (simp add: flag_def n1 add.assoc k u64_mask_def)
  qed
qed

lemma uint_limb_of_bytes:
  "uint (limb_of_bytes b i) = be_val [b ! i, b ! (i + 1), b ! (i + 2), b ! (i + 3), b ! (i + 4), b ! (i + 5), b ! (i + 6), b ! (i + 7)]"
proof (rule bit_eqI)
  fix k :: nat
  define j where "j = k div 8"
  define q where "q = k mod 8"
  have k: "k = 8 * j + q" "q < 8" by (simp_all add: j_def q_def)
  have be: "bit (be_val bs) k \<longleftrightarrow> j < length bs \<and> bit (rev bs ! j) q" for bs by (simp add: bit_be_val j_def q_def)
  have hi: "bit w m \<Longrightarrow> m < 8" for w :: u8 and m using bit_imp_le_length[of w m] by simp
  show "bit (uint (limb_of_bytes b i)) k \<longleftrightarrow> bit (be_val [b ! i, b ! (i + 1), b ! (i + 2), b ! (i + 3), b ! (i + 4), b ! (i + 5),
      b ! (i + 6), b ! (i + 7)]) k"
  proof (cases "j < 8")
    case True
    then consider "j = 0" | "j = 1" | "j = 2" | "j = 3" | "j = 4" | "j = 5" | "j = 6" | "j = 7" by linarith
    then show ?thesis unfolding be
      using k(2) by cases (auto simp: bit_uint_iff k(1) limb_of_bytes_def bit_simps dest: hi)
  next
    case False
    then show ?thesis unfolding be using k(2) by (auto simp: bit_uint_iff k(1))
  qed
qed

lemma be_val_bytes_of_limb: "be_val (bytes_of_limb d) = uint d"
proof (rule bit_eqI)
  fix k :: nat
  define j where "j = k div 8"
  define q where "q = k mod 8"
  have k: "k = 8 * j + q" "q < 8" by (simp_all add: j_def q_def)
  have be: "bit (be_val bs) k \<longleftrightarrow> j < length bs \<and> bit (rev bs ! j) q" for bs by (simp add: bit_be_val j_def q_def)
  note be = be[of "bytes_of_limb d"]
  show "bit (be_val (bytes_of_limb d)) k \<longleftrightarrow> bit (uint d) k"
  proof (cases "j < 8")
    case True
    then consider "j = 0" | "j = 1" | "j = 2" | "j = 3" | "j = 4" | "j = 5" | "j = 6" | "j = 7" by linarith
    then show ?thesis unfolding be
      using k(2) by cases (auto simp: bit_uint_iff k(1) bytes_of_limb_def bit_simps)
  next
    case False
    then show ?thesis unfolding be using k(2) by (auto simp: bit_uint_iff k(1) bytes_of_limb_def)
  qed
qed

lemma be_val_append: "be_val (xs @ ys) = be_val xs * 256 ^ length ys + be_val ys"
  by (simp add: be_val_def horner_sum_append)

lemma scalar_get_b32_val: "length (scalar_get_b32 a) = 32" "be_val (scalar_get_b32 a) = scalar_val a"
  by (cases a; simp add: be_val_append be_val_bytes_of_limb; simp add: bytes_of_limb_def)+

lemma scalar_set_b32_spec:
  assumes "length b = 32"
  shows "scalar_val (fst (scalar_set_b32 b)) = be_val b mod scalar_n"
    "snd (scalar_set_b32 b) = flag (scalar_n \<le> be_val b)"
proof -
  define r where "r = Scalar (limb_of_bytes b 24) (limb_of_bytes b 16) (limb_of_bytes b 8) (limb_of_bytes b 0)"
  have set: "scalar_set_b32 b = (scalar_reduce r (flag (scalar_check_overflow r)), flag (scalar_check_overflow r))"
    by (simp add: scalar_set_b32_def r_def Let_def)
  have cut: "[xs ! i, xs ! (i + 1), xs ! (i + 2), xs ! (i + 3), xs ! (i + 4), xs ! (i + 5), xs ! (i + 6), xs ! (i + 7)]
      = take 8 (drop i xs)" if "i + 8 \<le> length xs" for i and xs :: "u8 list"
    using that by (intro nth_equalityI) (auto simp: less_Suc_eq numeral_eq_Suc)
  have b: "b = take 8 (drop 0 b) @ take 8 (drop 8 b) @ take 8 (drop 16 b) @ take 8 (drop 24 b)"
    using assms append_take_drop_id[of 8 b] append_take_drop_id[of 8 "drop 8 b"] append_take_drop_id[of 8 "drop 16 b"]
    by simp
  have "be_val b = scalar_val r"
    using cut[of 0 b] cut[of 8 b] cut[of 16 b] cut[of 24 b] assms
    by (subst b) (simp add: be_val_append r_def uint_limb_of_bytes)
  moreover have "scalar_val (scalar_reduce r (flag (scalar_check_overflow r))) = scalar_val r mod scalar_n"
    using scalar_reduce_spec[OF refl, of r "scalar_check_overflow r"] scalar_val_bounds[of r]
      subtract_once[of "scalar_val r" "scalar_val r" 0]
    by (simp add: check_overflow_iff scalar_n_num)
  ultimately show "scalar_val (fst (scalar_set_b32 b)) = be_val b mod scalar_n"
    "snd (scalar_set_b32 b) = flag (scalar_n \<le> be_val b)"
    by (simp_all add: set check_overflow_iff)
qed

end
