(* ===== verification/Scalar_Mul.thy ===== *)
theory Scalar_Mul
  imports Scalar_Spec
begin

text \<open>
  Products of scalars: the 160-bit accumulator, the 512-bit product and square built from its
  columns, and the reduction of 512 bits modulo the group order.
\<close>

section \<open>The 160-bit accumulator\<close>

fun acc_val :: "'a::len accum \<Rightarrow> int" where
  "acc_val (c0, c1, c2) = uint c0 + uint c1 * 18446744073709551616 + uint c2 * 2 ^ 128"

lemma acc_val_num: "acc_val (c0, c1, c2) = uint c0 + uint c1 * 18446744073709551616 + uint c2 * 340282366920938463463374607431768211456"
  by simp

lemma uint_flag: "uint (flag b :: 'a::len word) = (if b then 1 else 0)"
  by (simp add: flag_def)

lemma uint_add_flag:
  fixes c :: "'a::len word"
  assumes "(uint c + (if b then 1 else 0)) * 340282366920938463463374607431768211456 < 340282366920938463463374607431768211456 * 2 ^ LENGTH('a)"
  shows "uint (c + flag b) = uint c + (if b then 1 else 0)"
proof -
  have "uint c + (if b then 1 else 0) < 2 ^ LENGTH('a)"
    using assms by (simp only: mult.commute[of "340282366920938463463374607431768211456"] mult_less_cancel_right_pos zero_less_numeral)
  then show ?thesis by (subst uint_add_nowrap) (simp_all only: uint_flag)
qed

text \<open>A 64-bit addition and the carry that the comparison with an operand detects.\<close>

lemma add_carry64:
  fixes x y :: u64
  shows "uint x + uint y = uint (x + y) + 18446744073709551616 * (if x + y < y then 1 else 0)"
proof (cases "uint x + uint y < 2 ^ 64")
  case True
  then have "uint (x + y) = uint x + uint y" by (intro uint_add_nowrap) simp
  then show ?thesis by (simp add: word_less_def)
next
  case False
  have "uint (x + y) = (uint x + uint y) mod 2 ^ 64" by (simp add: uint_word_ariths take_bit_eq_mod)
  also have "\<dots> = (uint x + uint y - 2 ^ 64) mod 2 ^ 64" by (metis minus_mod_self2)
  also have "\<dots> = uint x + uint y - 2 ^ 64"
    using False u64_bounds(2)[of x] u64_bounds(2)[of y] by (intro mod_pos_pos_trivial) simp_all
  finally show ?thesis using u64_bounds(2)[of x] by (simp add: word_less_def)
qed

lemma product_halves:
  fixes a b :: u64
  defines "t \<equiv> ucast a * ucast b :: u128"
  shows "uint a * uint b = uint (ucast t :: u64) + 18446744073709551616 * uint (ucast (drop_bit 64 t) :: u64)"
    "uint (ucast (drop_bit 64 t) :: u64) \<le> 18446744073709551614"
proof -
  have t: "uint t = uint a * uint b" unfolding t_def by (rule uint_mul128[unfolded mul128_def])
  have hi: "uint (drop_bit 64 t) = uint t div 2 ^ 64" by (rule uint_drop_bit_div)
  have "uint a * uint b \<le> 18446744073709551615 * 18446744073709551615"
    using u64_bounds(2)[of a] u64_bounds(2)[of b] by (intro mult_mono) simp_all
  then have "uint t div 2 ^ 64 \<le> 18446744073709551614" by (simp add: t)
  moreover have "uint (ucast (drop_bit 64 t) :: u64) = uint (drop_bit 64 t) mod 2 ^ 64"
    by (simp add: unsigned_ucast_eq take_bit_eq_mod)
  ultimately have h: "uint (ucast (drop_bit 64 t) :: u64) = uint t div 2 ^ 64"
    unfolding hi using uint_ge_0[of t] by simp
  have "uint (ucast t :: u64) = uint t mod 2 ^ 64" by (simp add: unsigned_ucast_eq take_bit_eq_mod)
  then show "uint a * uint b = uint (ucast t :: u64) + 18446744073709551616 * uint (ucast (drop_bit 64 t) :: u64)"
    using h t mult_div_mod_eq[of "2 ^ 64" "uint t"] by simp
  show "uint (ucast (drop_bit 64 t) :: u64) \<le> 18446744073709551614"
    using h \<open>uint t div 2 ^ 64 \<le> 18446744073709551614\<close> by simp
qed

lemma muladd_spec:
  assumes "acc_val c + uint a * uint b < 340282366920938463463374607431768211456 * 2 ^ LENGTH('a::len)"
  shows "acc_val (muladd a b (c :: 'a accum)) = acc_val c + uint a * uint b"
proof -
  obtain c0 c1 c2 where c: "c = (c0, c1, c2)" by (cases c)
  define t where "t = (ucast a * ucast b :: u128)"
  define th where "th = (ucast (drop_bit 64 t) :: u64)"
  define tl where "tl = (ucast t :: u64)"
  define d0 where "d0 = c0 + tl"
  define th' where "th' = th + flag (d0 < tl)"
  define d1 where "d1 = c1 + th'"
  note p = product_halves[of a b, folded t_def, folded th_def tl_def]
  have th': "uint th' = uint th + (if d0 < tl then 1 else 0)"
    unfolding th'_def by (subst uint_add64) (use p(2) in \<open>simp_all add: uint_flag\<close>)
  note e = add_carry64[of c0 tl, folded d0_def] add_carry64[of c1 th', folded d1_def]
  have s: "uint c0 + uint c1 * 18446744073709551616 + uint a * uint b = uint d0 + uint d1 * 18446744073709551616 + (if d1 < th' then 1 else 0) * 340282366920938463463374607431768211456"
    using e th' p(1) by (cases "d0 < tl"; cases "d1 < th'"; simp)
  have "uint (c2 + flag (d1 < th') :: 'a word) = uint c2 + (if d1 < th' then 1 else 0)"
  proof (rule uint_add_flag)
    show "(uint c2 + (if d1 < th' then 1 else 0)) * 340282366920938463463374607431768211456 < 340282366920938463463374607431768211456 * 2 ^ LENGTH('a)"
      using assms s u64_bounds(1)[of d0] u64_bounds(1)[of d1] unfolding c acc_val_num distrib_right by linarith
  qed
  then show ?thesis
    using s unfolding c muladd_def prod.case Let_def t_def[symmetric] th_def[symmetric] tl_def[symmetric] d0_def[symmetric]
      th'_def[symmetric] d1_def[symmetric] by simp
qed

lemma muladd_fast_spec:
  assumes "uint c0 + uint c1 * 18446744073709551616 + uint a * uint b < 340282366920938463463374607431768211456"
  obtains d0 d1 where "muladd_fast a b (c0, c1, c2) = (d0, d1, c2)"
    "uint d0 + uint d1 * 18446744073709551616 = uint c0 + uint c1 * 18446744073709551616 + uint a * uint b"
proof -
  define t where "t = (ucast a * ucast b :: u128)"
  define th where "th = (ucast (drop_bit 64 t) :: u64)"
  define tl where "tl = (ucast t :: u64)"
  define d0 where "d0 = c0 + tl"
  define th' where "th' = th + flag (d0 < tl)"
  note p = product_halves[of a b, folded t_def, folded th_def tl_def]
  have th': "uint th' = uint th + (if d0 < tl then 1 else 0)"
    unfolding th'_def by (subst uint_add64) (use p(2) in \<open>simp_all add: uint_flag\<close>)
  have s: "uint c0 + uint c1 * 18446744073709551616 + uint a * uint b = uint d0 + (uint c1 + uint th') * 18446744073709551616"
    using add_carry64[of c0 tl, folded d0_def] th' p(1) by (cases "d0 < tl"; simp)
  have "uint c1 + uint th' \<le> 18446744073709551615" using s assms u64_bounds(1)[of d0] unfolding distrib_right by linarith
  then have "uint (c1 + th') = uint c1 + uint th'" by (rule uint_add64)
  then have "uint d0 + uint (c1 + th') * 18446744073709551616 = uint c0 + uint c1 * 18446744073709551616 + uint a * uint b" using s by simp
  moreover have "muladd_fast a b (c0, c1, c2) = (d0, c1 + th', c2)"
    unfolding muladd_fast_def prod.case Let_def t_def[symmetric] th_def[symmetric] tl_def[symmetric] d0_def[symmetric] th'_def[symmetric] ..
  ultimately show ?thesis by (rule that[rotated])
qed

lemma sumadd_spec:
  assumes "acc_val c + uint a < 340282366920938463463374607431768211456 * 2 ^ LENGTH('a::len)"
  shows "acc_val (sumadd a (c :: 'a accum)) = acc_val c + uint a"
proof -
  obtain c0 c1 c2 where c: "c = (c0, c1, c2)" by (cases c)
  define d0 where "d0 = c0 + a"
  define over where "over = (ucast (flag (d0 < a) :: u32) :: u64)"
  define d1 where "d1 = c1 + over"
  have o: "uint over = (if d0 < a then 1 else 0)" by (simp add: over_def flag_def)
  note e = add_carry64[of c0 a, folded d0_def] add_carry64[of c1 over, folded d1_def]
  have s: "uint c0 + uint c1 * 18446744073709551616 + uint a = uint d0 + uint d1 * 18446744073709551616 + (if d1 < over then 1 else 0) * 340282366920938463463374607431768211456"
    using e o by (cases "d0 < a"; cases "d1 < over"; simp)
  have "uint (c2 + flag (d1 < over) :: 'a word) = uint c2 + (if d1 < over then 1 else 0)"
  proof (rule uint_add_flag)
    show "(uint c2 + (if d1 < over then 1 else 0)) * 340282366920938463463374607431768211456 < 340282366920938463463374607431768211456 * 2 ^ LENGTH('a)"
      using assms s u64_bounds(1)[of d0] u64_bounds(1)[of d1] unfolding c acc_val_num distrib_right by linarith
  qed
  then show ?thesis
    using s unfolding c sumadd_def prod.case Let_def d0_def[symmetric] over_def[symmetric] d1_def[symmetric] by simp
qed

lemma sumadd_fast_spec:
  assumes "uint c0 + uint c1 * 18446744073709551616 + uint a < 340282366920938463463374607431768211456"
  obtains d0 d1 where "sumadd_fast a (c0, c1, c2) = (d0, d1, c2)" "uint d0 + uint d1 * 18446744073709551616 = uint c0 + uint c1 * 18446744073709551616 + uint a"
proof -
  define d0 where "d0 = c0 + a"
  define f :: int where "f = (if d0 < a then 1 else 0)"
  have s: "uint c0 + uint c1 * 18446744073709551616 + uint a = uint d0 + (uint c1 + f) * 18446744073709551616"
    using add_carry64[of c0 a, folded d0_def] by (simp add: f_def)
  have "uint c1 + f \<le> 18446744073709551615" using s assms u64_bounds(1)[of d0] unfolding distrib_right by linarith
  then have "uint (c1 + flag (d0 < a)) = uint c1 + f" by (subst uint_add64) (simp_all add: uint_flag f_def)
  then have "uint d0 + uint (c1 + flag (d0 < a)) * 18446744073709551616 = uint c0 + uint c1 * 18446744073709551616 + uint a" using s by simp
  moreover have "sumadd_fast a (c0, c1, c2) = (d0, c1 + flag (d0 < a), c2)"
    unfolding sumadd_fast_def Let_def prod.case d0_def[symmetric] ..
  ultimately show ?thesis by (rule that[rotated])
qed

lemma extract_limb_spec:
  assumes "LENGTH('a::len) \<le> 64"
  shows "acc_val (c :: 'a accum) = uint (fst (extract_limb c)) + 18446744073709551616 * acc_val (snd (extract_limb c))"
    "snd (snd (snd (extract_limb c))) = 0" "0 \<le> acc_val (snd (extract_limb c))"
  using assms by (cases c; simp add: extract_limb_def uint_ucast_up)+

section \<open>Columns\<close>

text \<open>
  An accumulator step adds a number as long as the accumulator has room; the \<open>_fast\<close> steps as long as
  the sum fits two limbs and \<open>c2\<close> is zero. Both compose, and extracting a limb ends a column.
\<close>

definition adds :: "int \<Rightarrow> ('a::len accum \<Rightarrow> 'a accum) \<Rightarrow> bool" where
  "adds v f \<longleftrightarrow> 0 \<le> v \<and> (\<forall>c. acc_val c + v < 340282366920938463463374607431768211456 * 2 ^ LENGTH('a) \<longrightarrow> acc_val (f c) = acc_val c + v)"

definition adds_fast :: "int \<Rightarrow> ('a::len accum \<Rightarrow> 'a accum) \<Rightarrow> bool" where
  "adds_fast v f \<longleftrightarrow> 0 \<le> v \<and> (\<forall>c. snd (snd c) = 0 \<and> acc_val c + v < 340282366920938463463374607431768211456 \<longrightarrow> snd (snd (f c)) = 0 \<and> acc_val (f c) = acc_val c + v)"

named_theorems adds_intro

lemma addsD:
  assumes "adds v f"
  shows "0 \<le> v" "acc_val c + v < 340282366920938463463374607431768211456 * 2 ^ LENGTH('a::len) \<Longrightarrow> acc_val (f c) = acc_val (c :: 'a accum) + v"
  using assms unfolding adds_def by blast+

lemma adds_fastD:
  assumes "adds_fast v f" "snd (snd c) = 0" "acc_val c + v < 340282366920938463463374607431768211456"
  shows "snd (snd (f c)) = 0" "acc_val (f c) = acc_val c + v"
  using assms unfolding adds_fast_def by blast+

lemma product_bound: "0 \<le> uint (a :: u64) * uint (b :: u64)" "uint a * uint b \<le> 340282366920938463426481119284349108225"
  using mult_mono[OF u64_bounds(2)[of a] u64_bounds(2)[of b]] by simp_all

lemma adds_muladd [adds_intro]: "adds (uint a * uint b) (muladd a b)"
  unfolding adds_def using muladd_spec product_bound(1) by blast

lemma adds_sumadd [adds_intro]: "adds (uint a) (sumadd a)"
  unfolding adds_def using sumadd_spec by (metis uint_ge_0)

lemma adds_comp [adds_intro]:
  assumes "adds v f" "adds w g"
  shows "adds (v + w) (\<lambda>c. g (f c))"
proof -
  have "acc_val (g (f c)) = acc_val c + (v + w)" if "acc_val c + (v + w) < 340282366920938463463374607431768211456 * 2 ^ LENGTH('a)" for c
  proof -
    have "acc_val (f c) = acc_val c + v" using addsD[OF assms(1)] addsD(1)[OF assms(2)] that by simp
    then show ?thesis using addsD(2)[OF assms(2), of "f c"] that by simp
  qed
  then show ?thesis unfolding adds_def using addsD(1)[OF assms(1)] addsD(1)[OF assms(2)] by (simp only: add_nonneg_nonneg) blast
qed

lemma adds_fast_muladd [adds_intro]: "adds_fast (uint a * uint b) (muladd_fast a b)"
proof -
  have "snd (snd (muladd_fast a b c)) = 0 \<and> acc_val (muladd_fast a b c) = acc_val c + uint a * uint b"
    if c: "snd (snd c) = 0" "acc_val c + uint a * uint b < 340282366920938463463374607431768211456" for c :: "'a accum"
  proof -
    obtain c0 c1 where e: "c = (c0, c1, 0)" using c(1) by (cases c) auto
    have "uint c0 + uint c1 * 18446744073709551616 + uint a * uint b < 340282366920938463463374607431768211456" using c(2) by (simp add: e)
    then show ?thesis by (rule muladd_fast_spec[of c0 c1 a b "0 :: 'a word"]) (simp add: e acc_val_num)
  qed
  then show ?thesis using product_bound(1) unfolding adds_fast_def by blast
qed

lemma adds_fast_sumadd [adds_intro]: "adds_fast (uint a) (sumadd_fast a)"
proof -
  have "snd (snd (sumadd_fast a c)) = 0 \<and> acc_val (sumadd_fast a c) = acc_val c + uint a"
    if c: "snd (snd c) = 0" "acc_val c + uint a < 340282366920938463463374607431768211456" for c :: "'a accum"
  proof -
    obtain c0 c1 where e: "c = (c0, c1, 0)" using c(1) by (cases c) auto
    have "uint c0 + uint c1 * 18446744073709551616 + uint a < 340282366920938463463374607431768211456" using c(2) by (simp add: e)
    then show ?thesis by (rule sumadd_fast_spec[of c0 c1 a "0 :: 'a word"]) (simp add: e acc_val_num)
  qed
  then show ?thesis unfolding adds_fast_def by (metis uint_ge_0)
qed

lemma column:
  assumes "LENGTH('a::len) \<le> 64" "adds v (f :: 'a accum \<Rightarrow> 'a accum)" "acc_val c + v < 340282366920938463463374607431768211456 * 2 ^ LENGTH('a)"
  shows "\<exists>l e. extract_limb (f c) = (l, e) \<and> acc_val c + v = uint l + 18446744073709551616 * acc_val e \<and> 0 \<le> acc_val e \<and> snd (snd e) = 0"
proof -
  have "acc_val (f c) = acc_val c + v" by (rule addsD(2)[OF assms(2,3)])
  then show ?thesis
    using extract_limb_spec[OF assms(1), of "f c"]
    by (intro exI[of _ "fst (extract_limb (f c))"] exI[of _ "snd (extract_limb (f c))"]) simp
qed

lemma column_fast:
  assumes "adds_fast v (f :: 'a::len accum \<Rightarrow> 'a accum)" "snd (snd c) = 0" "acc_val c + v < 340282366920938463463374607431768211456"
  shows "\<exists>l d. extract_limb_fast (f c) = (l, d, 0, 0) \<and> acc_val c + v = uint l + 18446744073709551616 * uint d"
proof -
  note d = adds_fastD[OF assms]
  obtain c0 c1 where f: "f c = (c0, c1, 0)" using d(1) by (cases "f c") simp
  note d(2)
  then show ?thesis using d(2) by (intro exI[of _ c0] exI[of _ c1]) (simp add: f extract_limb_fast_def)
qed

text \<open>The value of a list of limbs, least significant first.\<close>

fun limbs_val :: "u64 list \<Rightarrow> int" where
  "limbs_val [] = 0"
| "limbs_val (l # ls) = uint l + 18446744073709551616 * limbs_val ls"

lemma column32:
  fixes f :: "32 accum \<Rightarrow> 32 accum"
  assumes "adds v f" "acc_val c + v < 1461501637330902918203684832716283019655932542976"
  shows "\<exists>l e. extract_limb (f c) = (l, e) \<and> acc_val c + v = uint l + 18446744073709551616 * acc_val e \<and> 0 \<le> acc_val e \<and> snd (snd e) = 0"
  by (rule column[OF _ assms(1)]) (use assms(2) in simp_all)

lemma column64:
  fixes f :: "64 accum \<Rightarrow> 64 accum"
  assumes "adds v f" "acc_val c + v < 6277101735386680763835789423207666416102355444464034512896"
  shows "\<exists>l e. extract_limb (f c) = (l, e) \<and> acc_val c + v = uint l + 18446744073709551616 * acc_val e \<and> 0 \<le> acc_val e \<and> snd (snd e) = 0"
  by (rule column[OF _ assms(1)]) (use assms(2) in simp_all)


lemma scalar_mul_512_spec:
  "length (scalar_mul_512 a b) = 8 \<and> limbs_val (scalar_mul_512 a b) = scalar_val a * scalar_val b"
proof -
  obtain a0 a1 a2 a3 b0 b1 b2 b3 where ab: "a = Scalar a0 a1 a2 a3" "b = Scalar b0 b1 b2 b3" by (cases a; cases b) auto
  note P = product_bound[of a0 b0] product_bound[of a0 b1] product_bound[of a0 b2] product_bound[of a0 b3] product_bound[of a1 b0] product_bound[of a1 b1] product_bound[of a1 b2] product_bound[of a1 b3] product_bound[of a2 b0] product_bound[of a2 b1] product_bound[of a2 b2] product_bound[of a2 b3] product_bound[of a3 b0] product_bound[of a3 b1] product_bound[of a3 b2] product_bound[of a3 b3]
  have z: "acc_val (0, 0, 0 :: 32 word) = 0" by simp
  have "acc_val (0, 0, 0 :: 32 word) + uint a0 * uint b0 < 340282366920938463463374607431768211456" using P unfolding z by linarith
  from column_fast[OF adds_fast_muladd _ this] obtain l0 e0 where
    c0: "extract_limb_fast (muladd_fast a0 b0 (0, 0, 0)) = (l0, e0, 0, 0 :: 32 word)"
    "acc_val (0, 0, 0 :: 32 word) + uint a0 * uint b0 = uint l0 + 18446744073709551616 * uint e0" unfolding snd_conv by blast
  have v0: "acc_val (e0, 0, 0 :: 32 word) = uint e0" by simp
  have "acc_val (e0, 0, 0 :: 32 word) + (uint a0 * uint b1 + uint a1 * uint b0) < 1461501637330902918203684832716283019655932542976" using P v0 u64_bounds[of e0] by linarith
  from column32[OF adds_comp[OF adds_muladd[of a0 b1] adds_muladd[of a1 b0]] this] obtain l1 e1 where c1: "extract_limb (muladd a1 b0 (muladd a0 b1 (e0, 0, 0 :: 32 word))) = (l1, e1)"
    "acc_val (e0, 0, 0 :: 32 word) + (uint a0 * uint b1 + uint a1 * uint b0) = uint l1 + 18446744073709551616 * acc_val e1" "0 \<le> acc_val e1" "snd (snd e1) = 0" by blast
  have g1: "acc_val e1 \<le> 295147905179352825856" using c1(2) P v0 u64_bounds[of e0] u64_bounds(1)[of l1] by linarith
  have "acc_val e1 + (uint a0 * uint b2 + uint a1 * uint b1 + uint a2 * uint b0) < 1461501637330902918203684832716283019655932542976" using P g1 c1(3) by linarith
  from column32[OF adds_comp[OF adds_comp[OF adds_muladd[of a0 b2] adds_muladd[of a1 b1]] adds_muladd[of a2 b0]] this] obtain l2 e2 where c2: "extract_limb (muladd a2 b0 (muladd a1 b1 (muladd a0 b2 e1))) = (l2, e2)"
    "acc_val e1 + (uint a0 * uint b2 + uint a1 * uint b1 + uint a2 * uint b0) = uint l2 + 18446744073709551616 * acc_val e2" "0 \<le> acc_val e2" "snd (snd e2) = 0" by blast
  have g2: "acc_val e2 \<le> 295147905179352825856" using c2(2) P g1 c1(3) u64_bounds(1)[of l2] by linarith
  have "acc_val e2 + (uint a0 * uint b3 + uint a1 * uint b2 + uint a2 * uint b1 + uint a3 * uint b0) < 1461501637330902918203684832716283019655932542976" using P g2 c2(3) by linarith
  from column32[OF adds_comp[OF adds_comp[OF adds_comp[OF adds_muladd[of a0 b3] adds_muladd[of a1 b2]] adds_muladd[of a2 b1]] adds_muladd[of a3 b0]] this] obtain l3 e3 where c3: "extract_limb (muladd a3 b0 (muladd a2 b1 (muladd a1 b2 (muladd a0 b3 e2)))) = (l3, e3)"
    "acc_val e2 + (uint a0 * uint b3 + uint a1 * uint b2 + uint a2 * uint b1 + uint a3 * uint b0) = uint l3 + 18446744073709551616 * acc_val e3" "0 \<le> acc_val e3" "snd (snd e3) = 0" by blast
  have g3: "acc_val e3 \<le> 295147905179352825856" using c3(2) P g2 c2(3) u64_bounds(1)[of l3] by linarith
  have "acc_val e3 + (uint a1 * uint b3 + uint a2 * uint b2 + uint a3 * uint b1) < 1461501637330902918203684832716283019655932542976" using P g3 c3(3) by linarith
  from column32[OF adds_comp[OF adds_comp[OF adds_muladd[of a1 b3] adds_muladd[of a2 b2]] adds_muladd[of a3 b1]] this] obtain l4 e4 where c4: "extract_limb (muladd a3 b1 (muladd a2 b2 (muladd a1 b3 e3))) = (l4, e4)"
    "acc_val e3 + (uint a1 * uint b3 + uint a2 * uint b2 + uint a3 * uint b1) = uint l4 + 18446744073709551616 * acc_val e4" "0 \<le> acc_val e4" "snd (snd e4) = 0" by blast
  have g4: "acc_val e4 \<le> 295147905179352825856" using c4(2) P g3 c3(3) u64_bounds(1)[of l4] by linarith
  have "acc_val e4 + (uint a2 * uint b3 + uint a3 * uint b2) < 1461501637330902918203684832716283019655932542976" using P g4 c4(3) by linarith
  from column32[OF adds_comp[OF adds_muladd[of a2 b3] adds_muladd[of a3 b2]] this] obtain l5 e5 where c5: "extract_limb (muladd a3 b2 (muladd a2 b3 e4)) = (l5, e5)"
    "acc_val e4 + (uint a2 * uint b3 + uint a3 * uint b2) = uint l5 + 18446744073709551616 * acc_val e5" "0 \<le> acc_val e5" "snd (snd e5) = 0" by blast
  have g5: "acc_val e5 \<le> 295147905179352825856" using c5(2) P g4 c4(3) u64_bounds(1)[of l5] by linarith
  have b: "scalar_val a * scalar_val b \<le> 13407807929942597099574024998205846127479365820592393377723561443721764030073315392623399665776056285720014482370779510884422601683867654778417822746804225"
    using mult_mono[OF scalar_val_bounds(2)[of a] scalar_val_bounds(2)[of b]] scalar_val_bounds(1) by simp
  have prod: "scalar_val a * scalar_val b = uint l0 + uint l1 * 18446744073709551616 + uint l2 * 340282366920938463463374607431768211456 + uint l3 * 6277101735386680763835789423207666416102355444464034512896 + uint l4 * 115792089237316195423570985008687907853269984665640564039457584007913129639936 + uint l5 * 2135987035920910082395021706169552114602704522356652769947041607822219725780640550022962086936576
      + (acc_val e5 + uint a3 * uint b3) * 39402006196394479212279040100143613805079739270465446667948293404245721771497210611414266254884915640806627990306816"
  proof -
    have "scalar_val a * scalar_val b = uint a0 * uint b0 + (uint a0 * uint b1 + uint a1 * uint b0) * 18446744073709551616
       + (uint a0 * uint b2 + uint a1 * uint b1 + uint a2 * uint b0) * 340282366920938463463374607431768211456
       + (uint a0 * uint b3 + uint a1 * uint b2 + uint a2 * uint b1 + uint a3 * uint b0) * 6277101735386680763835789423207666416102355444464034512896
       + (uint a1 * uint b3 + uint a2 * uint b2 + uint a3 * uint b1) * 115792089237316195423570985008687907853269984665640564039457584007913129639936 + (uint a2 * uint b3 + uint a3 * uint b2) * 2135987035920910082395021706169552114602704522356652769947041607822219725780640550022962086936576
       + uint a3 * uint b3 * 39402006196394479212279040100143613805079739270465446667948293404245721771497210611414266254884915640806627990306816"
      unfolding ab scalar_val_num by (simp add: algebra_simps)
    then show ?thesis using c0(2) c1(2) c2(2) c3(2) c4(2) c5(2) unfolding z v0 distrib_right by linarith
  qed
  have "acc_val e5 + uint a3 * uint b3 < 340282366920938463463374607431768211456"
    using prod b u64_bounds(1)[of l0] u64_bounds(1)[of l1] u64_bounds(1)[of l2] u64_bounds(1)[of l3] u64_bounds(1)[of l4]
      u64_bounds(1)[of l5] unfolding distrib_right by linarith
  from column_fast[OF adds_fast_muladd c5(4) this] obtain l6 l7 where
    c6: "extract_limb_fast (muladd_fast a3 b3 e5) = (l6, l7, 0, 0 :: 32 word)"
    "acc_val e5 + uint a3 * uint b3 = uint l6 + 18446744073709551616 * uint l7" by blast
  have "scalar_mul_512 a b = [l0, l1, l2, l3, l4, l5, l6, l7]"
    by (simp only: ab scalar_mul_512_def Let_def prod.case scalar.case c0(1) c1(1) c2(1) c3(1) c4(1) c5(1) c6(1) fst_conv)
  then show ?thesis using prod c6(2) by (simp add: algebra_simps)
qed

section \<open>Squaring\<close>

text \<open>\<open>muladd2\<close> adds twice the product; the last carry out of \<open>th2\<close> shows as \<open>th2\<close> wrapping to zero.\<close>

lemma double_high:
  fixes th :: u64
  assumes "uint th \<le> 18446744073709551614"
  shows "uint (th + th + flag b) = uint (th + th) + (if b then 1 else 0)"
proof -
  have "uint (th + th) \<le> 18446744073709551614"
  proof -
    have e: "uint (th + th) = (2 * uint th) mod 18446744073709551616" by (simp add: uint_word_ariths take_bit_eq_mod)
    have "even (uint (th + th))" unfolding e by (intro dvd_mod) simp_all
    then have "uint (th + th) \<noteq> 18446744073709551615" by auto
    then show ?thesis using u64_bounds(2)[of "th + th"] by linarith
  qed
  then show ?thesis by (subst uint_add64) (simp_all add: uint_flag)
qed

lemma muladd2_spec:
  assumes "acc_val c + 2 * (uint a * uint b) < 340282366920938463463374607431768211456 * 2 ^ LENGTH('a::len)"
  shows "acc_val (muladd2 a b (c :: 'a accum)) = acc_val c + 2 * (uint a * uint b)"
proof -
  obtain c0 c1 c2 where c: "c = (c0, c1, c2)" by (cases c)
  define t where "t = (ucast a * ucast b :: u128)"
  define th where "th = (ucast (drop_bit 64 t) :: u64)"
  define tl where "tl = (ucast t :: u64)"
  define th2 where "th2 = th + th"
  define tl2 where "tl2 = tl + tl"
  define th3 where "th3 = th2 + flag (tl2 < tl)"
  define d0 where "d0 = c0 + tl2"
  define th4 where "th4 = th3 + flag (d0 < tl2)"
  define d1 where "d1 = c1 + th4"
  define f1 where "f1 \<longleftrightarrow> th2 < th"
  define f2 where "f2 \<longleftrightarrow> d0 < tl2 \<and> th4 = 0"
  define f3 where "f3 \<longleftrightarrow> d1 < th4"
  note p = product_halves[of a b, folded t_def, folded th_def tl_def]
  have h: "uint th + uint th = uint th2 + 18446744073709551616 * (if f1 then 1 else 0)"
    using add_carry64[of th th] by (simp add: th2_def f1_def)
  have l: "uint tl + uint tl = uint tl2 + 18446744073709551616 * (if tl2 < tl then 1 else 0)"
    using add_carry64[of tl tl] by (simp add: tl2_def)
  have th3: "uint th3 = uint th2 + (if tl2 < tl then 1 else 0)"
    unfolding th3_def th2_def by (rule double_high[OF p(2)])
  have d0: "uint c0 + uint tl2 = uint d0 + 18446744073709551616 * (if d0 < tl2 then 1 else 0)"
    using add_carry64[of c0 tl2] by (simp add: d0_def)
  have th4: "uint th3 + (if d0 < tl2 then 1 else 0) = uint th4 + 18446744073709551616 * (if f2 then 1 else 0)"
  proof (cases "d0 < tl2")
    case True
    then show ?thesis
      using add_carry64[of th3 1] by (auto simp: th4_def f2_def flag_def word_less_1)
  qed (simp add: th4_def f2_def flag_def)
  have d1: "uint c1 + uint th4 = uint d1 + 18446744073709551616 * (if f3 then 1 else 0)"
    using add_carry64[of c1 th4] by (simp add: d1_def f3_def)
  define g1 :: int where "g1 = (if f1 then 1 else 0)"
  define g2 :: int where "g2 = (if f2 then 1 else 0)"
  define g3 :: int where "g3 = (if f3 then 1 else 0)"
  define g4 :: int where "g4 = (if tl2 < tl then 1 else 0)"
  define g5 :: int where "g5 = (if d0 < tl2 then 1 else 0)"
  have g: "0 \<le> g1" "0 \<le> g2" "0 \<le> g3" by (simp_all add: g1_def g2_def g3_def)
  have s: "uint c0 + uint c1 * 18446744073709551616 + 2 * (uint a * uint b) = uint d0 + uint d1 * 18446744073709551616 + g1 * 340282366920938463463374607431768211456 + g2 * 340282366920938463463374607431768211456 + g3 * 340282366920938463463374607431768211456"
    using h l th3 d0 th4 d1 p(1) unfolding g1_def[symmetric] g2_def[symmetric] g3_def[symmetric] g4_def[symmetric] g5_def[symmetric]
    by (simp add: algebra_simps)
  have tot: "(uint c2 + g1 + g2 + g3) * 340282366920938463463374607431768211456 < 340282366920938463463374607431768211456 * 2 ^ LENGTH('a)"
    using assms s u64_bounds(1)[of d0] u64_bounds(1)[of d1] unfolding c acc_val_num distrib_right by linarith
  have 1: "uint (c2 + flag f1 :: 'a word) = uint c2 + g1"
    unfolding g1_def by (rule uint_add_flag) (use tot g in \<open>unfold g1_def[symmetric] distrib_right, linarith\<close>)
  have 2: "uint (c2 + flag f1 + flag f2 :: 'a word) = uint c2 + g1 + g2"
    unfolding g2_def 1[symmetric] by (rule uint_add_flag) (use tot g in \<open>unfold g2_def[symmetric] 1 distrib_right, linarith\<close>)
  have 3: "uint (c2 + flag f1 + flag f2 + flag f3 :: 'a word) = uint c2 + g1 + g2 + g3"
    unfolding g3_def 2[symmetric] by (rule uint_add_flag) (use tot g in \<open>unfold g3_def[symmetric] 2 distrib_right, linarith\<close>)
  have "muladd2 a b c = (d0, d1, c2 + flag f1 + flag f2 + flag f3)"
    unfolding c muladd2_def prod.case Let_def t_def[symmetric] th_def[symmetric] tl_def[symmetric] th2_def[symmetric]
      tl2_def[symmetric] th3_def[symmetric] d0_def[symmetric] th4_def[symmetric] d1_def[symmetric] f1_def f2_def f3_def ..
  then show ?thesis using s 3 by (simp add: c)
qed

lemma adds_muladd2 [adds_intro]: "adds (2 * (uint a * uint b)) (muladd2 a b)"
  unfolding adds_def using muladd2_spec product_bound(1)[of a b] by (metis mult_nonneg_nonneg zero_le_numeral)

lemma scalar_sqr_512_spec:
  "length (scalar_sqr_512 a) = 8 \<and> limbs_val (scalar_sqr_512 a) = scalar_val a * scalar_val a"
proof -
  obtain a0 a1 a2 a3 where a: "a = Scalar a0 a1 a2 a3" by (cases a)
  note P = product_bound[of a0 a0] product_bound[of a0 a1] product_bound[of a0 a2] product_bound[of a0 a3] product_bound[of a1 a1] product_bound[of a1 a2] product_bound[of a1 a3] product_bound[of a2 a2] product_bound[of a2 a3] product_bound[of a3 a3]
  have z: "acc_val (0, 0, 0 :: 32 word) = 0" by simp
  have "acc_val (0, 0, 0 :: 32 word) + uint a0 * uint a0 < 340282366920938463463374607431768211456" using P unfolding z by linarith
  from column_fast[OF adds_fast_muladd _ this] obtain l0 e0 where
    c0: "extract_limb_fast (muladd_fast a0 a0 (0, 0, 0)) = (l0, e0, 0, 0 :: 32 word)"
    "acc_val (0, 0, 0 :: 32 word) + uint a0 * uint a0 = uint l0 + 18446744073709551616 * uint e0" unfolding snd_conv by blast
  have v0: "acc_val (e0, 0, 0 :: 32 word) = uint e0" by simp
  have "acc_val (e0, 0, 0 :: 32 word) + (2 * (uint a0 * uint a1)) < 1461501637330902918203684832716283019655932542976" using P v0 u64_bounds[of e0] by linarith
  from column32[OF adds_muladd2[of a0 a1] this] obtain l1 e1 where c1: "extract_limb (muladd2 a0 a1 (e0, 0, 0 :: 32 word)) = (l1, e1)"
    "acc_val (e0, 0, 0 :: 32 word) + (2 * (uint a0 * uint a1)) = uint l1 + 18446744073709551616 * acc_val e1" "0 \<le> acc_val e1" "snd (snd e1) = 0" by blast
  have g1: "acc_val e1 \<le> 295147905179352825856" using c1(2) P v0 u64_bounds[of e0] u64_bounds(1)[of l1] by linarith
  have "acc_val e1 + (2 * (uint a0 * uint a2) + uint a1 * uint a1) < 1461501637330902918203684832716283019655932542976" using P g1 c1(3) by linarith
  from column32[OF adds_comp[OF adds_muladd2[of a0 a2] adds_muladd[of a1 a1]] this] obtain l2 e2 where c2: "extract_limb (muladd a1 a1 (muladd2 a0 a2 e1)) = (l2, e2)"
    "acc_val e1 + (2 * (uint a0 * uint a2) + uint a1 * uint a1) = uint l2 + 18446744073709551616 * acc_val e2" "0 \<le> acc_val e2" "snd (snd e2) = 0" by blast
  have g2: "acc_val e2 \<le> 295147905179352825856" using c2(2) P g1 c1(3) u64_bounds(1)[of l2] by linarith
  have "acc_val e2 + (2 * (uint a0 * uint a3) + 2 * (uint a1 * uint a2)) < 1461501637330902918203684832716283019655932542976" using P g2 c2(3) by linarith
  from column32[OF adds_comp[OF adds_muladd2[of a0 a3] adds_muladd2[of a1 a2]] this] obtain l3 e3 where c3: "extract_limb (muladd2 a1 a2 (muladd2 a0 a3 e2)) = (l3, e3)"
    "acc_val e2 + (2 * (uint a0 * uint a3) + 2 * (uint a1 * uint a2)) = uint l3 + 18446744073709551616 * acc_val e3" "0 \<le> acc_val e3" "snd (snd e3) = 0" by blast
  have g3: "acc_val e3 \<le> 295147905179352825856" using c3(2) P g2 c2(3) u64_bounds(1)[of l3] by linarith
  have "acc_val e3 + (2 * (uint a1 * uint a3) + uint a2 * uint a2) < 1461501637330902918203684832716283019655932542976" using P g3 c3(3) by linarith
  from column32[OF adds_comp[OF adds_muladd2[of a1 a3] adds_muladd[of a2 a2]] this] obtain l4 e4 where c4: "extract_limb (muladd a2 a2 (muladd2 a1 a3 e3)) = (l4, e4)"
    "acc_val e3 + (2 * (uint a1 * uint a3) + uint a2 * uint a2) = uint l4 + 18446744073709551616 * acc_val e4" "0 \<le> acc_val e4" "snd (snd e4) = 0" by blast
  have g4: "acc_val e4 \<le> 295147905179352825856" using c4(2) P g3 c3(3) u64_bounds(1)[of l4] by linarith
  have "acc_val e4 + (2 * (uint a2 * uint a3)) < 1461501637330902918203684832716283019655932542976" using P g4 c4(3) by linarith
  from column32[OF adds_muladd2[of a2 a3] this] obtain l5 e5 where c5: "extract_limb (muladd2 a2 a3 e4) = (l5, e5)"
    "acc_val e4 + (2 * (uint a2 * uint a3)) = uint l5 + 18446744073709551616 * acc_val e5" "0 \<le> acc_val e5" "snd (snd e5) = 0" by blast
  have g5: "acc_val e5 \<le> 295147905179352825856" using c5(2) P g4 c4(3) u64_bounds(1)[of l5] by linarith
  have b: "scalar_val a * scalar_val a \<le> 13407807929942597099574024998205846127479365820592393377723561443721764030073315392623399665776056285720014482370779510884422601683867654778417822746804225"
    using mult_mono[OF scalar_val_bounds(2)[of a] scalar_val_bounds(2)[of a]] scalar_val_bounds(1) by simp
  have prod: "scalar_val a * scalar_val a = uint l0 + uint l1 * 18446744073709551616 + uint l2 * 340282366920938463463374607431768211456 + uint l3 * 6277101735386680763835789423207666416102355444464034512896 + uint l4 * 115792089237316195423570985008687907853269984665640564039457584007913129639936 + uint l5 * 2135987035920910082395021706169552114602704522356652769947041607822219725780640550022962086936576
      + (acc_val e5 + uint a3 * uint a3) * 39402006196394479212279040100143613805079739270465446667948293404245721771497210611414266254884915640806627990306816"
  proof -
    have "scalar_val a * scalar_val a = uint a0 * uint a0 + 2 * (uint a0 * uint a1) * 18446744073709551616
       + (2 * (uint a0 * uint a2) + uint a1 * uint a1) * 340282366920938463463374607431768211456
       + (2 * (uint a0 * uint a3) + 2 * (uint a1 * uint a2)) * 6277101735386680763835789423207666416102355444464034512896
       + (2 * (uint a1 * uint a3) + uint a2 * uint a2) * 115792089237316195423570985008687907853269984665640564039457584007913129639936 + 2 * (uint a2 * uint a3) * 2135987035920910082395021706169552114602704522356652769947041607822219725780640550022962086936576
       + uint a3 * uint a3 * 39402006196394479212279040100143613805079739270465446667948293404245721771497210611414266254884915640806627990306816"
      unfolding a scalar_val_num by (simp add: algebra_simps)
    then show ?thesis using c0(2) c1(2) c2(2) c3(2) c4(2) c5(2) unfolding z v0 distrib_right by linarith
  qed
  have "acc_val e5 + uint a3 * uint a3 < 340282366920938463463374607431768211456"
    using prod b u64_bounds(1)[of l0] u64_bounds(1)[of l1] u64_bounds(1)[of l2] u64_bounds(1)[of l3] u64_bounds(1)[of l4]
      u64_bounds(1)[of l5] unfolding distrib_right by linarith
  from column_fast[OF adds_fast_muladd c5(4) this] obtain l6 l7 where
    c6: "extract_limb_fast (muladd_fast a3 a3 e5) = (l6, l7, 0, 0 :: 32 word)"
    "acc_val e5 + uint a3 * uint a3 = uint l6 + 18446744073709551616 * uint l7" by blast
  have "scalar_sqr_512 a = [l0, l1, l2, l3, l4, l5, l6, l7]"
    by (simp only: a scalar_sqr_512_def Let_def prod.case scalar.case c0(1) c1(1) c2(1) c3(1) c4(1) c5(1) c6(1) fst_conv)
  then show ?thesis using prod c6(2) by (simp add: algebra_simps)
qed

lemma limbs_val_inj: "length xs = length ys \<Longrightarrow> limbs_val xs = limbs_val ys \<Longrightarrow> xs = ys"
proof (induction xs ys rule: list_induct2)
  case (Cons x xs y ys)
  have lt: "uint w < 18446744073709551616" for w :: u64 using uint_lt2p[of w] by simp
  have "uint x = uint y \<and> limbs_val xs = limbs_val ys"
    using digit[of "uint x" "18446744073709551616" "uint y" "limbs_val xs" "limbs_val ys"] Cons.prems lt by simp
  then show ?case using Cons.IH by (simp add: word_eq_uint)
qed simp

lemma scalar_sqr_512_eq: "scalar_sqr_512 a = scalar_mul_512 a a"
  using scalar_sqr_512_spec[of a] scalar_mul_512_spec[of a a] by (intro limbs_val_inj) simp_all

section \<open>Reduction\<close>

lemma adds_fast_comp [adds_intro]:
  assumes "adds_fast v f" "adds_fast w g"
  shows "adds_fast (v + w) (\<lambda>c. g (f c))"
proof -
  have "snd (snd (g (f c))) = 0 \<and> acc_val (g (f c)) = acc_val c + (v + w)"
    if "snd (snd c) = 0" "acc_val c + (v + w) < 340282366920938463463374607431768211456" for c
  proof -
    have vw: "0 \<le> v" "0 \<le> w" using assms unfolding adds_fast_def by blast+
    note f = adds_fastD[OF assms(1), of c]
    have "snd (snd (f c)) = 0" "acc_val (f c) = acc_val c + v" using f that vw by simp_all
    then show ?thesis using adds_fastD[OF assms(2), of "f c"] that by simp
  qed
  then show ?thesis using assms unfolding adds_fast_def by (simp only: add_nonneg_nonneg) blast
qed

definition N_C :: int where
  "N_C = 2 ^ 256 - scalar_n"

lemma N_C_num: "N_C = 432420386565659656852420866394968145599" by (simp add: N_C_def scalar_n_def)

lemma nth8:
  "[a, b, c, d, e, f, g, h] ! 0 = a" "[a, b, c, d, e, f, g, h] ! 1 = b" "[a, b, c, d, e, f, g, h] ! 2 = c"
  "[a, b, c, d, e, f, g, h] ! 3 = d" "[a, b, c, d, e, f, g, h] ! 4 = e" "[a, b, c, d, e, f, g, h] ! 5 = f"
  "[a, b, c, d, e, f, g, h] ! 6 = g" "[a, b, c, d, e, f, g, h] ! 7 = h"
  by simp_all

text \<open>A column that starts with a fast addition to a single limb.\<close>

lemma column64_fast:
  fixes f :: "64 accum \<Rightarrow> 64 accum"
  assumes "adds v f" "uint d + uint x + v < 6277101735386680763835789423207666416102355444464034512896"
  shows "\<exists>l e. extract_limb (f (sumadd_fast x (d, 0, 0 :: 64 word))) = (l, e) \<and> uint d + uint x + v = uint l + 18446744073709551616 * acc_val e \<and>
    0 \<le> acc_val e \<and> snd (snd e) = 0"
proof -
  have c: "acc_val (sumadd_fast x (d, 0, 0 :: 64 word)) = uint d + uint x"
    using adds_fastD(2)[OF adds_fast_sumadd, of "(d, 0, 0 :: 64 word)" x] u64_bounds(2)[of d] u64_bounds(2)[of x] by simp
  show ?thesis using column64[OF assms(1), of "sumadd_fast x (d, 0, 0)"] assms(2) unfolding c by blast
qed

lemma reduce_385_spec:
  assumes "reduce_385 [l0, l1, l2, l3, n0, n1, n2, n3] = (m0, m1, m2, m3, m4, m5, m6)"
  shows "limbs_val [m0, m1, m2, m3, m4, m5] + uint m6 * 39402006196394479212279040100143613805079739270465446667948293404245721771497210611414266254884915640806627990306816 = limbs_val [l0, l1, l2, l3] + N_C * limbs_val [n0, n1, n2, n3]"
    "uint m6 \<le> 1"
proof -
  note B = u64_bounds[of l0] u64_bounds[of l1] u64_bounds[of l2] u64_bounds[of l3]
    u64_bounds[of n0] u64_bounds[of n1] u64_bounds[of n2] u64_bounds[of n3]
  note k = N_uints(5,6)
  have z: "acc_val (w, 0, 0 :: 64 word) = uint w" for w by simp
  have "acc_val (l0, 0, 0 :: 64 word) + uint n0 * uint N_C_0 < 340282366920938463463374607431768211456" unfolding z k using B by linarith
  from column_fast[OF adds_fast_muladd _ this] obtain r0 d0 where
    c0: "extract_limb_fast (muladd_fast n0 N_C_0 (l0, 0, 0)) = (r0, d0, 0, 0 :: 64 word)"
    "uint l0 + uint n0 * 4624529908474429119 = uint r0 + 18446744073709551616 * uint d0" unfolding snd_conv z k by blast
  note B = B u64_bounds[of r0] u64_bounds[of d0]
  have "uint d0 + uint l1 + (uint n1 * uint N_C_0 + uint n0 * uint N_C_1) < 6277101735386680763835789423207666416102355444464034512896" unfolding k using B by linarith
  from column64_fast[OF adds_comp[OF adds_muladd[of n1 N_C_0] adds_muladd[of n0 N_C_1]] this] obtain r1 e1 where
    c1: "extract_limb (muladd n0 N_C_1 (muladd n1 N_C_0 (sumadd_fast l1 (d0, 0, 0 :: 64 word)))) = (r1, e1)"
    "uint d0 + uint l1 + (uint n1 * 4624529908474429119 + uint n0 * 4994812053365940164) = uint r1 + 18446744073709551616 * acc_val e1"
    "0 \<le> acc_val e1" unfolding k by blast
  have g1: "acc_val e1 \<le> 295147905179352825856" using c1(2) B u64_bounds(1)[of r1] by linarith
  have "acc_val e1 + (uint l2 + uint n2 * uint N_C_0 + uint n1 * uint N_C_1 + uint n0) < 6277101735386680763835789423207666416102355444464034512896" unfolding k using B g1 by linarith
  from column64[OF adds_comp[OF adds_comp[OF adds_comp[OF adds_sumadd[of l2] adds_muladd[of n2 N_C_0]] adds_muladd[of n1 N_C_1]]
      adds_sumadd[of n0]] this] obtain r2 e2 where
    c2: "extract_limb (sumadd n0 (muladd n1 N_C_1 (muladd n2 N_C_0 (sumadd l2 e1)))) = (r2, e2)"
    "acc_val e1 + (uint l2 + uint n2 * 4624529908474429119 + uint n1 * 4994812053365940164 + uint n0) = uint r2 + 18446744073709551616 * acc_val e2"
    "0 \<le> acc_val e2" unfolding k by blast
  have g2: "acc_val e2 \<le> 295147905179352825856" using c2(2) B g1 u64_bounds(1)[of r2] by linarith
  have "acc_val e2 + (uint l3 + uint n3 * uint N_C_0 + uint n2 * uint N_C_1 + uint n1) < 6277101735386680763835789423207666416102355444464034512896" unfolding k using B g2 by linarith
  from column64[OF adds_comp[OF adds_comp[OF adds_comp[OF adds_sumadd[of l3] adds_muladd[of n3 N_C_0]] adds_muladd[of n2 N_C_1]]
      adds_sumadd[of n1]] this] obtain r3 e3 where
    c3: "extract_limb (sumadd n1 (muladd n2 N_C_1 (muladd n3 N_C_0 (sumadd l3 e2)))) = (r3, e3)"
    "acc_val e2 + (uint l3 + uint n3 * 4624529908474429119 + uint n2 * 4994812053365940164 + uint n1) = uint r3 + 18446744073709551616 * acc_val e3"
    "0 \<le> acc_val e3" unfolding k by blast
  have g3: "acc_val e3 \<le> 295147905179352825856" using c3(2) B g2 u64_bounds(1)[of r3] by linarith
  have "acc_val e3 + (uint n3 * uint N_C_1 + uint n2) < 6277101735386680763835789423207666416102355444464034512896" unfolding k using B g3 by linarith
  from column64[OF adds_comp[OF adds_muladd[of n3 N_C_1] adds_sumadd[of n2]] this] obtain r4 e4 where
    c4: "extract_limb (sumadd n2 (muladd n3 N_C_1 e3)) = (r4, e4)"
    "acc_val e3 + (uint n3 * 4994812053365940164 + uint n2) = uint r4 + 18446744073709551616 * acc_val e4"
    "0 \<le> acc_val e4" "snd (snd e4) = 0" unfolding k by blast
  have g4: "acc_val e4 \<le> 295147905179352825856" using c4(2) B g3 u64_bounds(1)[of r4] by linarith
  have "acc_val e4 + uint n3 < 340282366920938463463374607431768211456" using B g4 by linarith
  from column_fast[OF adds_fast_sumadd c4(4) this] obtain r5 d5 where
    c5: "extract_limb_fast (sumadd_fast n3 e4) = (r5, d5, 0, 0)" "acc_val e4 + uint n3 = uint r5 + 18446744073709551616 * uint d5" by blast
  note R = u64_bounds[of r0] u64_bounds[of r1] u64_bounds[of r2] u64_bounds[of r3] u64_bounds[of r4] u64_bounds[of r5]
  have tot: "uint r0 + uint r1 * 18446744073709551616 + uint r2 * 340282366920938463463374607431768211456 + uint r3 * 6277101735386680763835789423207666416102355444464034512896 + uint r4 * 115792089237316195423570985008687907853269984665640564039457584007913129639936 + uint r5 * 2135987035920910082395021706169552114602704522356652769947041607822219725780640550022962086936576 + uint d5 * 39402006196394479212279040100143613805079739270465446667948293404245721771497210611414266254884915640806627990306816
      = uint l0 + uint l1 * 18446744073709551616 + uint l2 * 340282366920938463463374607431768211456 + uint l3 * 6277101735386680763835789423207666416102355444464034512896
        + uint n0 * 432420386565659656852420866394968145599 + uint n1 * 7976748203231275684456616952498544216114824026705293737984 + uint n2 * 147145032645429848758506965077781541700282898488255597608584735296373227782144 + uint n3 * 2714346758927881568823212270579018849166691358719896723574739156050863772388617629944468371144704"
    using c0(2) c1(2) c2(2) c3(2) c4(2) c5(2) by linarith
  have d5: "uint d5 \<le> 1" using tot B R by linarith
  then have u5: "uint (ucast d5 :: u32) = uint d5" by (simp add: unsigned_ucast_eq take_bit_int_eq_self)
  have "reduce_385 [l0, l1, l2, l3, n0, n1, n2, n3] = (r0, r1, r2, r3, r4, r5, ucast d5)"
    by (simp only: reduce_385_def Let_def nth8 prod.case c0(1) c1(1) c2(1) c3(1) c4(1) c5(1) fst_conv)
  with assms have e: "r0 = m0" "r1 = m1" "r2 = m2" "r3 = m3" "r4 = m4" "r5 = m5" "ucast d5 = m6" by simp_all
  show "uint m6 \<le> 1" using d5 u5 e by simp
  show "limbs_val [m0, m1, m2, m3, m4, m5] + uint m6 * 39402006196394479212279040100143613805079739270465446667948293404245721771497210611414266254884915640806627990306816 = limbs_val [l0, l1, l2, l3] + N_C * limbs_val [n0, n1, n2, n3]"
    using tot unfolding e u5[unfolded e, symmetric] limbs_val.simps N_C_num by (simp add: algebra_simps)
qed

end
