(* ===== verification/Scalar_Order.thy ===== *)
theory Scalar_Order
  imports Scalar_Mul
begin

text \<open>
  Scalar arithmetic modulo the group order: the reduction from 512 bits completed, products,
  squares, the inverse's addition chain, and the properties of the scalar operations.
\<close>

section \<open>The rest of the reduction\<close>

lemma reduce_258_spec:
  assumes "reduce_258 (m0, m1, m2, m3, m4, m5, m6) = (p0, p1, p2, p3, p4)" "uint m6 \<le> 1"
    "uint m4 + uint m5 * 18446744073709551616 + uint m6 * 340282366920938463463374607431768211456 \<le> 432420386565659656852420866394968145599"
  shows "limbs_val [p0, p1, p2, p3] + uint p4 * 115792089237316195423570985008687907853269984665640564039457584007913129639936 = limbs_val [m0, m1, m2, m3] + N_C * (limbs_val [m4, m5] + uint m6 * 340282366920938463463374607431768211456)"
    "uint p4 \<le> 2"
proof -
  define w6 where "w6 = (ucast m6 :: u64)"
  have w6: "uint w6 = uint m6" by (simp add: w6_def uint_ucast_up)
  note B = u64_bounds[of m0] u64_bounds[of m1] u64_bounds[of m2] u64_bounds[of m3] u64_bounds[of m4] u64_bounds[of m5]
    assms(2) uint_ge_0[of m6] assms(3)
  note k = N_uints(5,6)
  have z: "acc_val (w, 0, 0 :: 64 word) = uint w" for w by simp
  have "acc_val (m0, 0, 0 :: 64 word) + uint m4 * uint N_C_0 < 340282366920938463463374607431768211456" unfolding z k using B by linarith
  from column_fast[OF adds_fast_muladd _ this] obtain r0 d0 where
    c0: "extract_limb_fast (muladd_fast m4 N_C_0 (m0, 0, 0)) = (r0, d0, 0, 0 :: 64 word)"
    "uint m0 + uint m4 * 4624529908474429119 = uint r0 + 18446744073709551616 * uint d0" unfolding snd_conv z k by blast
  note B = B u64_bounds[of r0] u64_bounds[of d0]
  have "uint d0 + uint m1 + (uint m5 * uint N_C_0 + uint m4 * uint N_C_1) < 6277101735386680763835789423207666416102355444464034512896" unfolding k using B by linarith
  from column64_fast[OF adds_comp[OF adds_muladd[of m5 N_C_0] adds_muladd[of m4 N_C_1]] this] obtain r1 e1 where
    c1: "extract_limb (muladd m4 N_C_1 (muladd m5 N_C_0 (sumadd_fast m1 (d0, 0, 0 :: 64 word)))) = (r1, e1)"
    "uint d0 + uint m1 + (uint m5 * 4624529908474429119 + uint m4 * 4994812053365940164) = uint r1 + 18446744073709551616 * acc_val e1"
    "0 \<le> acc_val e1" unfolding k by blast
  have g1: "acc_val e1 \<le> 295147905179352825856" using c1(2) B u64_bounds(1)[of r1] by linarith
  have "acc_val e1 + (uint m2 + uint w6 * uint N_C_0 + uint m5 * uint N_C_1 + uint m4) < 6277101735386680763835789423207666416102355444464034512896" unfolding k w6 using B g1 by linarith
  from column64[OF adds_comp[OF adds_comp[OF adds_comp[OF adds_sumadd[of m2] adds_muladd[of w6 N_C_0]] adds_muladd[of m5 N_C_1]]
      adds_sumadd[of m4]] this] obtain r2 e2 where
    c2: "extract_limb (sumadd m4 (muladd m5 N_C_1 (muladd w6 N_C_0 (sumadd m2 e1)))) = (r2, e2)"
    "acc_val e1 + (uint m2 + uint m6 * 4624529908474429119 + uint m5 * 4994812053365940164 + uint m4) = uint r2 + 18446744073709551616 * acc_val e2"
    "0 \<le> acc_val e2" "snd (snd e2) = 0" unfolding k w6 by blast
  have g2: "acc_val e2 \<le> 295147905179352825856" using c2(2) B g1 u64_bounds(1)[of r2] by linarith
  have "acc_val e2 + (uint m3 + uint w6 * uint N_C_1 + uint m5) < 340282366920938463463374607431768211456" unfolding k w6 using B g2 by linarith
  from column_fast[OF adds_fast_comp[OF adds_fast_comp[OF adds_fast_sumadd[of m3] adds_fast_muladd[of w6 N_C_1]] adds_fast_sumadd[of m5]]
      c2(4) this] obtain r3 d3 where
    c3: "extract_limb_fast (sumadd_fast m5 (muladd_fast w6 N_C_1 (sumadd_fast m3 e2))) = (r3, d3, 0, 0)"
    "acc_val e2 + (uint m3 + uint m6 * 4994812053365940164 + uint m5) = uint r3 + 18446744073709551616 * uint d3" unfolding k w6 by blast
  note R = u64_bounds[of r0] u64_bounds[of r1] u64_bounds[of r2] u64_bounds[of r3]
  have tot: "uint r0 + uint r1 * 18446744073709551616 + uint r2 * 340282366920938463463374607431768211456 + uint r3 * 6277101735386680763835789423207666416102355444464034512896 + (uint d3 + uint m6) * 115792089237316195423570985008687907853269984665640564039457584007913129639936
      = uint m0 + uint m1 * 18446744073709551616 + uint m2 * 340282366920938463463374607431768211456 + uint m3 * 6277101735386680763835789423207666416102355444464034512896 + uint m4 * 432420386565659656852420866394968145599 + uint m5 * 7976748203231275684456616952498544216114824026705293737984 + uint m6 * 147145032645429848758506965077781541700282898488255597608584735296373227782144"
    using c0(2) c1(2) c2(2) c3(2) unfolding distrib_right by linarith
  have le: "uint d3 + uint m6 \<le> 2" using tot B R unfolding distrib_right by linarith
  have sum: "uint (d3 + w6) = uint d3 + uint m6" using le w6 by (subst uint_add64) simp_all
  then have u4: "uint (ucast (d3 + w6) :: u32) = uint d3 + uint m6"
    using le uint_ge_0[of d3] uint_ge_0[of m6] by (simp add: unsigned_ucast_eq take_bit_int_eq_self)
  have "reduce_258 (m0, m1, m2, m3, m4, m5, m6) = (r0, r1, r2, r3, ucast (d3 + w6))"
    by (simp only: reduce_258_def Let_def prod.case w6_def[symmetric] c0(1) c1(1) c2(1) c3(1) fst_conv)
  with assms(1) have e: "r0 = p0" "r1 = p1" "r2 = p2" "r3 = p3" "ucast (d3 + w6) = p4" by simp_all
  show "uint p4 \<le> 2" using le u4 e by simp
  show "limbs_val [p0, p1, p2, p3] + uint p4 * 115792089237316195423570985008687907853269984665640564039457584007913129639936 = limbs_val [m0, m1, m2, m3] + N_C * (limbs_val [m4, m5] + uint m6 * 340282366920938463463374607431768211456)"
    using tot unfolding e(1-4) u4[unfolded e(5), symmetric] limbs_val.simps N_C_num by (simp add: algebra_simps)
qed

lemma reduce_256_spec:
  assumes "reduce_256 (p0, p1, p2, p3, p4) = (r, c)" "uint p4 \<le> 2"
  shows "scalar_val r + uint c * 2 ^ 256 = limbs_val [p0, p1, p2, p3] + N_C * uint p4"
proof -
  have p4: "uint (ucast p4 :: u128) = uint p4" by (simp add: uint_ucast_up)
  have N: "uint (ucast N_C_0 :: u128) = 4624529908474429119" "uint (ucast N_C_1 :: u128) = 4994812053365940164"
    by (simp_all add: N_uints)
  have "uint (ucast N_C_0 * ucast p4 :: u128) = 4624529908474429119 * uint p4"
    "uint (ucast N_C_1 * ucast p4 :: u128) = 4994812053365940164 * uint p4"
    using assms(2) by (subst uint_mult_nowrap; simp add: p4 N_uints)+
  then have s: "uint (ucast p0 + ucast N_C_0 * ucast p4 :: u128) = uint p0 + 4624529908474429119 * uint p4"
    "uint (ucast p1 + ucast N_C_1 * ucast p4 :: u128) = uint p1 + 4994812053365940164 * uint p4"
    "uint (ucast p2 + ucast p4 :: u128) = uint p2 + uint p4"
    using assms(2) u64_bounds(2)[of p0] u64_bounds(2)[of p1] u64_bounds(2)[of p2]
    by (subst uint_add128; simp add: p4)+
  have "add_chain (ucast p0 + ucast N_C_0 * ucast p4) (ucast p1 + ucast N_C_1 * ucast p4) (ucast p2 + ucast p4) (ucast p3) = (r, c)"
    using assms(1) by (simp only: reduce_256_def add_chain_def Let_def prod.case)
  from add_chain_spec[OF _ _ _ this]
  have "scalar_val r + uint c * 2 ^ 256 = uint p0 + 4624529908474429119 * uint p4 + (uint p1 + 4994812053365940164 * uint p4) * 2 ^ 64
      + (uint p2 + uint p4) * 2 ^ 128 + uint p3 * 2 ^ 192"
    unfolding s using assms(2) u64_bounds(2)[of p1] u64_bounds(2)[of p2] u64_bounds(2)[of p3] by simp
  then show ?thesis by (simp add: N_C_num algebra_simps)
qed

lemma scalar_reduce_512_spec:
  assumes "length l = 8"
  shows "scalar_val (scalar_reduce_512 l) = limbs_val l mod scalar_n"
proof -
  obtain l0 l1 l2 l3 n0 n1 n2 n3 where l: "l = [l0, l1, l2, l3, n0, n1, n2, n3]" by (rule length8E[OF assms])
  obtain m0 m1 m2 m3 m4 m5 m6 where m: "reduce_385 l = (m0, m1, m2, m3, m4, m5, m6)" by (cases "reduce_385 l") auto
  note M = reduce_385_spec[OF m[unfolded l]]
  obtain p0 p1 p2 p3 p4 where p: "reduce_258 (m0, m1, m2, m3, m4, m5, m6) = (p0, p1, p2, p3, p4)"
    by (cases "reduce_258 (m0, m1, m2, m3, m4, m5, m6)") auto
  obtain r c where r: "reduce_256 (p0, p1, p2, p3, p4) = (r, c)" by (cases "reduce_256 (p0, p1, p2, p3, p4)") auto
  note B = u64_bounds[of l0] u64_bounds[of l1] u64_bounds[of l2] u64_bounds[of l3]
    u64_bounds[of n0] u64_bounds[of n1] u64_bounds[of n2] u64_bounds[of n3]
    u64_bounds[of m0] u64_bounds[of m1] u64_bounds[of m2] u64_bounds[of m3]
    u64_bounds[of p0] u64_bounds[of p1] u64_bounds[of p2] u64_bounds[of p3]
  have "uint m4 + uint m5 * 18446744073709551616 + uint m6 * 340282366920938463463374607431768211456 \<le> 432420386565659656852420866394968145599"
  proof -
    have "uint m0 + uint m1 * 18446744073709551616 + uint m2 * 340282366920938463463374607431768211456 + uint m3 * 6277101735386680763835789423207666416102355444464034512896 + uint m4 * 115792089237316195423570985008687907853269984665640564039457584007913129639936 + uint m5 * 2135987035920910082395021706169552114602704522356652769947041607822219725780640550022962086936576 + uint m6 * 39402006196394479212279040100143613805079739270465446667948293404245721771497210611414266254884915640806627990306816
        = uint l0 + uint l1 * 18446744073709551616 + uint l2 * 340282366920938463463374607431768211456 + uint l3 * 6277101735386680763835789423207666416102355444464034512896 + uint n0 * 432420386565659656852420866394968145599 + uint n1 * 7976748203231275684456616952498544216114824026705293737984 + uint n2 * 147145032645429848758506965077781541700282898488255597608584735296373227782144 + uint n3 * 2714346758927881568823212270579018849166691358719896723574739156050863772388617629944468371144704"
      using M(1) unfolding limbs_val.simps N_C_num by (simp add: algebra_simps)
    then show ?thesis using B by linarith
  qed
  note P = reduce_258_spec[OF p M(2) this]
  define v where "v = limbs_val [p0, p1, p2, p3] + N_C * uint p4"
  have v: "0 \<le> v" "v < 2 * scalar_n"
  proof -
    have e: "v = uint p0 + uint p1 * 18446744073709551616 + uint p2 * 340282366920938463463374607431768211456 + uint p3 * 6277101735386680763835789423207666416102355444464034512896 + uint p4 * 432420386565659656852420866394968145599"
      unfolding v_def limbs_val.simps N_C_num by (simp add: algebra_simps)
    show "0 \<le> v" "v < 2 * scalar_n" unfolding e scalar_n_num using B P(2) uint_ge_0[of p4] by linarith+
  qed
  have "limbs_val l = v + scalar_n * (limbs_val [n0, n1, n2, n3] + (limbs_val [m4, m5] + uint m6 * 340282366920938463463374607431768211456) + uint p4)"
    using M(1) P(1) unfolding v_def l limbs_val.simps N_C_num scalar_n_num by (simp add: algebra_simps)
  then have "limbs_val l mod scalar_n = v mod scalar_n" by simp
  moreover have "scalar_reduce_512 l = scalar_reduce r (ucast (c + flag (scalar_check_overflow r)))"
    by (simp add: scalar_reduce_512_def m p r)
  ultimately show ?thesis using final_reduce(2)[OF reduce_256_spec[OF r P(2), folded v_def] v] by simp
qed

lemma scalar_mul_spec: "scalar_val (scalar_mul a b) = scalar_val a * scalar_val b mod scalar_n"
  using scalar_mul_512_spec[of a b] by (simp add: scalar_mul_def scalar_reduce_512_spec)

lemma scalar_sqr_eq_mul: "scalar_sqr a = scalar_mul a a"
  by (simp add: scalar_sqr_def scalar_mul_def scalar_sqr_512_eq)

section \<open>The addition chain of the inverse\<close>

definition scalar_power :: "int \<Rightarrow> nat \<Rightarrow> scalar \<Rightarrow> bool" where
  "scalar_power v e x \<longleftrightarrow> scalar_val x mod scalar_n = v ^ e mod scalar_n"

lemma scalar_power_mul:
  assumes "scalar_power v d x" "scalar_power v e y"
  shows "scalar_power v (d + e) (scalar_mul x y)"
proof -
  have "scalar_val x * scalar_val y mod scalar_n = v ^ d * v ^ e mod scalar_n"
    using assms by (intro mod_mult_cong) (simp_all add: scalar_power_def)
  then show ?thesis by (simp add: scalar_power_def scalar_mul_spec power_add)
qed

lemma scalar_power_sqr: "scalar_power v e x \<Longrightarrow> scalar_power v (2 * e) (scalar_sqr x)"
  using scalar_power_mul[of v e x e x] by (simp add: scalar_sqr_eq_mul mult_2)

lemma scalar_power_sqn: "scalar_power v e x \<Longrightarrow> scalar_power v (2 ^ n * e) (scalar_sqn n x)"
proof (induction n)
  case (Suc n)
  from scalar_power_sqr[OF Suc.IH[OF Suc.prems]] show ?case by (simp add: scalar_sqn_def mult.assoc)
qed (simp add: scalar_sqn_def)

lemma scalar_power_exp: "scalar_power v d x \<Longrightarrow> d = e \<Longrightarrow> scalar_power v e x"
  by simp

text \<open>The exponent after the steps of the second half of the chain.\<close>

lemma scalar_power_steps:
  assumes "list_all2 (\<lambda>s e. fst e = fst s \<and> scalar_power v (snd e) (snd s)) ss es" "scalar_power v d t"
  shows "scalar_power v (foldl (\<lambda>d e. 2 ^ fst e * d + snd e) d es) (foldl scalar_step t ss)"
  using assms
proof (induction ss es arbitrary: t d rule: list_all2_induct)
  case (Cons s ss e es)
  then have "scalar_power v (2 ^ fst e * d + snd e) (scalar_step t s)"
    using scalar_power_mul[OF scalar_power_sqn[OF Cons.prems, of "fst s"], of "snd e" "snd s"] by (simp add: scalar_step_def)
  from Cons.IH[OF this] show ?case by simp
qed simp

lemma scalar_inverse_power: "scalar_power (scalar_val x) (nat (scalar_n - 2)) (scalar_inverse x)"
proof -
  let ?v = "scalar_val x"
  note pow = scalar_power_mul[of ?v] and sq = scalar_power_sqr[of ?v] and sqn = scalar_power_sqn[of ?v]
  define x2 where "x2 = scalar_mul (scalar_sqr x) x"
  define x3 where "x3 = scalar_mul (scalar_sqr x2) x"
  define x4 where "x4 = scalar_mul (scalar_sqr x3) x"
  define x6 where "x6 = scalar_mul (scalar_sqr (scalar_sqr x4)) x2"
  define x7 where "x7 = scalar_mul (scalar_sqr x6) x"
  define x8 where "x8 = scalar_mul (scalar_sqr x7) x"
  define x15 where "x15 = scalar_mul (scalar_sqn 6 (scalar_sqr x8)) x7"
  define x30 where "x30 = scalar_mul (scalar_sqn 14 (scalar_sqr x15)) x15"
  define x60 where "x60 = scalar_mul (scalar_sqn 29 (scalar_sqr x30)) x30"
  define x120 where "x120 = scalar_mul (scalar_sqn 59 (scalar_sqr x60)) x60"
  define x127 where "x127 = scalar_mul (scalar_sqn 6 (scalar_sqr x120)) x7"
  have x: "scalar_power ?v 1 x" by (simp add: scalar_power_def)
  have x2: "scalar_power ?v 3 x2" unfolding x2_def by (rule scalar_power_exp[OF pow[OF sq[OF x] x]]) simp
  have x3: "scalar_power ?v 7 x3" unfolding x3_def by (rule scalar_power_exp[OF pow[OF sq[OF x2] x]]) simp
  have x4: "scalar_power ?v 15 x4" unfolding x4_def by (rule scalar_power_exp[OF pow[OF sq[OF x3] x]]) simp
  have x6: "scalar_power ?v 63 x6" unfolding x6_def by (rule scalar_power_exp[OF pow[OF sq[OF sq[OF x4]] x2]]) simp
  have x7: "scalar_power ?v 127 x7" unfolding x7_def by (rule scalar_power_exp[OF pow[OF sq[OF x6] x]]) simp
  have x8: "scalar_power ?v 255 x8" unfolding x8_def by (rule scalar_power_exp[OF pow[OF sq[OF x7] x]]) simp
  have x15: "scalar_power ?v (2 ^ 15 - 1) x15" unfolding x15_def by (rule scalar_power_exp[OF pow[OF sqn[OF sq[OF x8]] x7]]) simp
  have x30: "scalar_power ?v (2 ^ 30 - 1) x30" unfolding x30_def by (rule scalar_power_exp[OF pow[OF sqn[OF sq[OF x15]] x15]]) simp
  have x60: "scalar_power ?v (2 ^ 60 - 1) x60" unfolding x60_def by (rule scalar_power_exp[OF pow[OF sqn[OF sq[OF x30]] x30]]) simp
  have x120: "scalar_power ?v (2 ^ 120 - 1) x120" unfolding x120_def by (rule scalar_power_exp[OF pow[OF sqn[OF sq[OF x60]] x60]]) simp
  have x127: "scalar_power ?v (2 ^ 127 - 1) x127" unfolding x127_def by (rule scalar_power_exp[OF pow[OF sqn[OF sq[OF x120]] x7]]) simp
  let ?ss = "[(2, x), (4, x3), (2, x), (2, x), (2, x), (4, x3), (3, x2), (4, x3), (5, x3), (4, x2), (2, x), (2, x),
            (5, x4), (2, x), (3, x), (4, x), (2, x), (10, x3), (4, x3), (9, x8), (2, x), (3, x), (3, x), (5, x4),
            (2, x), (5, x2), (4, x2), (2, x), (8, x2), (3, x2), (3, x), (6, x), (8, x6)]"
  let ?es = "[(2, 1), (4, 7), (2, 1), (2, 1), (2, 1), (4, 7), (3, 3), (4, 7), (5, 7), (4, 3), (2, 1), (2, 1),
            (5, 15), (2, 1), (3, 1), (4, 1), (2, 1), (10, 7), (4, 7), (9, 255), (2, 1), (3, 1), (3, 1), (5, 15),
            (2, 1), (5, 3), (4, 3), (2, 1), (8, 3), (3, 3), (3, 1), (6, 1), (8, 63)]"
  have "list_all2 (\<lambda>s e. fst e = fst s \<and> scalar_power ?v (snd e) (snd s)) ?ss ?es"
    using x x2 x3 x4 x6 x8 by simp
  from scalar_power_steps[OF this x127]
  have "scalar_power ?v (foldl (\<lambda>d e. 2 ^ fst e * d + snd e) (2 ^ 127 - 1) ?es) (scalar_inverse x)"
    unfolding scalar_inverse_def Let_def x2_def x3_def x4_def x6_def x7_def x8_def x15_def x30_def x60_def x120_def x127_def .
  then show ?thesis by (rule scalar_power_exp) (simp add: scalar_n_def)
qed

lemma scalar_mul_reduced: "scalar_val (scalar_mul a b) < scalar_n"
  by (simp add: scalar_mul_spec scalar_n_num)

lemma scalar_set_get_b32:
  assumes a: "scalar_val a < scalar_n"
  shows "scalar_set_b32 (scalar_get_b32 a) = (a, 0)"
proof -
  note s = scalar_set_b32_spec[OF scalar_get_b32_val(1), of a, unfolded scalar_get_b32_val]
  have "fst (scalar_set_b32 (scalar_get_b32 a)) = a"
    by (rule scalar_val_inj) (use a scalar_val_bounds(1)[of a] in \<open>simp add: s(1)\<close>)
  moreover have "snd (scalar_set_b32 (scalar_get_b32 a)) = 0" using a by (simp add: s(2) flag_def)
  ultimately show "scalar_set_b32 (scalar_get_b32 a) = (a, 0)" by (metis prod.collapse)
qed

lemma scalar_get_set_b32:
  assumes "length bs = 32" "be_val bs < scalar_n"
  shows "scalar_get_b32 (fst (scalar_set_b32 bs)) = bs"
  using assms scalar_set_b32_spec(1)[of bs] be_val_bounds(1)[of bs]
  by (intro be_val_inj) (simp_all add: scalar_get_b32_val)

lemma scalar_inverse_mul:
  assumes f: "scalar_val x ^ nat (scalar_n - 1) mod scalar_n = 1"
  shows "scalar_val (scalar_mul x (scalar_inverse x)) = 1"
proof -
  have p: "scalar_val (scalar_inverse x) mod scalar_n = scalar_val x ^ nat (scalar_n - 2) mod scalar_n"
    using scalar_inverse_power by (simp add: scalar_power_def)
  have "scalar_val x * scalar_val (scalar_inverse x) mod scalar_n = scalar_val x * scalar_val x ^ nat (scalar_n - 2) mod scalar_n"
    using p by (intro mod_mult_cong) simp_all
  also have "scalar_val x * scalar_val x ^ nat (scalar_n - 2) = scalar_val x ^ nat (scalar_n - 1)"
  proof -
    have "nat (scalar_n - 1) = Suc (nat (scalar_n - 2))" by (simp add: scalar_n_num)
    then show ?thesis by (metis power_Suc)
  qed
  finally show "scalar_val (scalar_mul x (scalar_inverse x)) = 1" by (simp only: scalar_mul_spec f)
qed

section \<open>The properties\<close>

text \<open>
  C14. Scalar multiplication is multiplication modulo the group order for all operands, reduced or
  not: neither the 160-bit accumulator of the product nor the three stages of the reduction lose a
  carry. The separate squaring computes the same limbs.
\<close>
theorem scalar_mul_correct:
  "scalar_val (scalar_mul a b) = scalar_val a * scalar_val b mod scalar_n \<and> scalar_sqr a = scalar_mul a a"
  by (simp add: scalar_mul_spec scalar_sqr_eq_mul)

text \<open>
  Addition and negation of reduced scalars are those modulo the order; the result of
  \<open>scalar_add\<close> flags exactly the additions that passed the order, and \<open>scalar_is_high\<close> splits the
  scalars at half the order.
\<close>
theorem scalar_group_ops:
  assumes "scalar_val a < scalar_n" "scalar_val b < scalar_n"
  shows "scalar_val (fst (scalar_add a b)) = (scalar_val a + scalar_val b) mod scalar_n \<and>
    snd (scalar_add a b) = flag (scalar_n \<le> scalar_val a + scalar_val b) \<and>
    scalar_val (scalar_negate a) = (- scalar_val a) mod scalar_n \<and>
    (scalar_is_high a \<longleftrightarrow> scalar_n div 2 < scalar_val a)"
  using scalar_add_spec[OF assms] scalar_negate_spec[OF assms(1)] is_high_iff[of a] by simp

theorem scalar_group_ops_witness:
  "scalar_val (scalar_negate (Scalar 1 0 0 0)) = scalar_n - 1"
proof -
  have v: "scalar_val (Scalar 1 0 0 0) = 1" by simp
  then have "scalar_val (Scalar 1 0 0 0) < scalar_n" by (simp add: scalar_n_def)
  from scalar_group_ops[OF this this] show ?thesis unfolding v by (simp add: scalar_n_def)
qed

text \<open>
  Bytes round trip: 32 bytes read by \<open>scalar_set_b32\<close> are their big-endian number modulo the
  order, with the overflow reported; writing a scalar and reading it back gives it reduced.
\<close>
theorem scalar_b32_roundtrip:
  "(length bs = 32 \<longrightarrow> scalar_val (fst (scalar_set_b32 bs)) = be_val bs mod scalar_n \<and>
      snd (scalar_set_b32 bs) = flag (scalar_n \<le> be_val bs)) \<and>
   (scalar_val a < scalar_n \<longrightarrow> scalar_set_b32 (scalar_get_b32 a) = (a, 0)) \<and>
   (length bs = 32 \<and> be_val bs < scalar_n \<longrightarrow> scalar_get_b32 (fst (scalar_set_b32 bs)) = bs)"
  using scalar_set_b32_spec scalar_set_get_b32 scalar_get_set_b32 by blast

theorem scalar_b32_roundtrip_witness:
  "scalar_set_b32 (scalar_get_b32 (Scalar 1 2 3 4)) = (Scalar 1 2 3 4, 0) \<and>
   scalar_get_b32 (fst (scalar_set_b32 (replicate 32 7))) = replicate 32 7"
proof -
  have "be_val (replicate 32 7) = (256 ^ 32 - 1) div 255 * 7" by code_simp
  then show ?thesis using scalar_b32_roundtrip[of "replicate 32 7" "Scalar 1 2 3 4"] by (simp add: scalar_n_def)
qed

end
