(* ===== verification/Scalar_Bits.thy ===== *)
theory Scalar_Bits
  imports Scalar_Order
begin

text \<open>
  The scalar operations that read or move bits: windows of a scalar, shifts, splitting into halves,
  the rounded shift of a product and the split for the endomorphism.
\<close>

section \<open>Bits of limbs\<close>

lemma limbs_val_horner: "limbs_val ls = horner_sum uint (2 ^ 64) ls"
  by (induction ls) simp_all

lemma bit_limbs_val: "bit (limbs_val ls) k \<longleftrightarrow> k div 64 < length ls \<and> bit (ls ! (k div 64)) (k mod 64)"
  using bit_horner_sum_uint_exp_iff[of ls k] by (simp add: limbs_val_horner)

lemma scalar_val_limbs: "scalar_val a = limbs_val (d_list a)"
  by (cases a) simp

lemma length_d_list [simp]: "length (d_list a) = 4"
  by (cases a) simp

lemma bit_scalar_val: "bit (scalar_val a) k \<longleftrightarrow> k < 256 \<and> bit (d_list a ! (k div 64)) (k mod 64)"
  by (auto simp: scalar_val_limbs bit_limbs_val)

lemma unat_drop_bit_div: "unat (drop_bit n (w :: 'a::len word)) = unat w div 2 ^ n"
proof -
  have "int (unat (drop_bit n w)) = int (unat w div 2 ^ n)"
    by (simp add: uint_drop_bit_div zdiv_int)
  then show ?thesis by (simp only: of_nat_eq_iff)
qed

lemma index64: "i < 64 \<Longrightarrow> (64 * q + i) div 64 = (q :: nat) \<and> (64 * q + i) mod 64 = i"
  by simp

lemma unat_and_63: "unat ((w :: u32) AND 0x3F) = unat w mod 64"
proof -
  have "(0x3F :: u32) = mask 6" by (simp add: mask_eq_exp_minus_1)
  then have "uint (w AND 0x3F) = uint w mod 2 ^ 6" using uint_and_mask_mod[of w 6] by simp
  then have "int (unat (w AND 0x3F)) = int (unat w mod 64)" by (simp add: zmod_int)
  then show ?thesis by (simp only: of_nat_eq_iff)
qed

lemma bit_ones: "bit (2 ^ n - 1 :: u64) i \<longleftrightarrow> i < n \<and> i < 64"
  by (auto simp: bit_mask_iff simp flip: mask_eq_exp_minus_1)

section \<open>Windows\<close>

lemma get_bits_bit:
  assumes "unat count \<le> 32" "unat offset mod 64 + unat count \<le> 64" "unat offset < 256"
  shows "bit (scalar_get_bits a offset count) i \<longleftrightarrow> i < unat count \<and> bit (scalar_val a) (unat offset + i)"
proof (cases "i < unat count")
  case True
  define q where "q = unat offset div 64"
  define r where "r = unat offset mod 64"
  have o: "unat offset = 64 * q + r" by (simp add: q_def r_def)
  have "r + i < 64" using assms True by (simp add: r_def)
  then have e: "(unat offset + i) div 64 = q" "(unat offset + i) mod 64 = r + i" using index64[of "r + i" q] \<open>r + i < 64\<close> unfolding o add.assoc by blast+
  have "q < 4" using assms(3) by (simp add: q_def)
  then have "unat offset + i < 256" using \<open>r + i < 64\<close> unfolding o by linarith
  then show ?thesis using True assms(1) \<open>r + i < 64\<close>
    by (simp add: bit_scalar_val e scalar_get_bits_def unat_and_63 unat_drop_bit_div bit_simps bit_ones q_def[symmetric]
        r_def[symmetric])
next
  case False
  then show ?thesis by (auto simp: scalar_get_bits_def bit_simps bit_ones)
qed

lemma get_bits_var_bit:
  assumes "unat count < 32" "0 < unat count" "unat offset + unat count \<le> 256"
  shows "bit (scalar_get_bits_var a offset count) i \<longleftrightarrow> i < unat count \<and> bit (scalar_val a) (unat offset + i)"
proof -
  define q where "q = unat offset div 64"
  define r where "r = unat offset mod 64"
  have o: "unat offset = 64 * q + r" "r < 64" by (simp_all add: q_def r_def)
  have "int (unat offset + unat count) \<le> int 256" using assms(3) by (simp only: zle_int)
  then have io: "uint offset + uint count \<le> 256" by simp
  have "int 0 < int (unat count)" using assms(2) by (simp only: of_nat_less_iff)
  then have "0 < uint count" by simp
  then have le: "1 \<le> uint offset + uint count" using uint_ge_0[of offset] by linarith
  have last: "unat (offset + count - 1) = unat offset + unat count - 1"
  proof -
    have s: "uint (offset + count) = uint offset + uint count" by (rule uint_add_nowrap) (use io in simp)
    have "uint (offset + count - 1) = uint (offset + count) - 1" using le s by (subst uint_sub_nowrap) simp_all
    then have "int (unat (offset + count - 1)) = int (unat offset + unat count - 1)" using s assms by simp
    then show ?thesis by (simp only: of_nat_eq_iff)
  qed
  have same: "drop_bit 6 (offset + count - 1) = drop_bit 6 offset \<longleftrightarrow> (unat offset + unat count - 1) div 64 = q"
    unfolding word_unat_eq_iff unat_drop_bit_div last by (simp add: q_def)
  show ?thesis
  proof (cases "drop_bit 6 (offset + count - 1) = drop_bit 6 offset")
    case True
    then have "64 * q + (r + unat count - 1) < 64 * (q + 1)"
      using same o assms(2) div_less_iff_less_mult[of 64 "unat offset + unat count - 1" "q + 1"] by simp
    then have "r + unat count \<le> 64" by simp
    then show ?thesis using True get_bits_bit[of count offset a i] assms by (simp add: scalar_get_bits_var_def r_def)
  next
    case False
    then have n: "(unat offset + unat count - 1) div 64 \<noteq> q" using same by simp
    have "64 < r + unat count"
    proof (rule ccontr)
      assume "\<not> 64 < r + unat count"
      then have "unat offset + unat count - 1 = 64 * q + (r + unat count - 1)" "r + unat count - 1 < 64" using o assms(2) by linarith+
      then show False using n by simp
    qed
    then have r: "64 < r + unat count" "0 < r" using assms(1) by linarith+
    have q3: "q < 3" using assms(3) o r by linarith
    have "int (unat (64 - (offset AND 0x3F))) = 64 - int r"
    proof -
      have "uint (offset AND 0x3F) = int r" by (simp only: unat_and_63[symmetric] r_def) simp
      then show ?thesis using o(2) by (simp add: uint_sub_nowrap)
    qed
    then have sh: "unat (64 - (offset AND 0x3F)) = 64 - r" using o(2) by linarith
    have "uint (drop_bit 6 offset) = int q" by (simp add: uint_drop_bit_div q_def zdiv_int)
    then have "uint (drop_bit 6 offset + 1) = int (q + 1)" using q3 by (simp add: uint_add_nowrap)
    then have ix: "unat (drop_bit 6 offset + 1) = q + 1" "unat (drop_bit 6 offset) = q"
      by (simp_all add: unat_drop_bit_div q_def flip: of_nat_eq_iff[where 'a = int])
    have get: "scalar_get_bits_var a offset count = ucast ((drop_bit r (d_list a ! q) OR push_bit (64 - r) (d_list a ! (q + 1)))
        AND (push_bit (unat count) 1 - 1))"
      using False by (simp add: scalar_get_bits_var_def ix sh unat_and_63 r_def[symmetric])
    show ?thesis
    proof (cases "i < unat count")
      case True
      show ?thesis
      proof (cases "r + i < 64")
        case low: True
        then have "(unat offset + i) div 64 = q" "(unat offset + i) mod 64 = r + i"
          using index64[of "r + i" q] low unfolding o(1) add.assoc by blast+
        then show ?thesis using True low assms q3 o(1) by (auto simp: get bit_scalar_val bit_simps bit_ones)
      next
        case high: False
        have j: "unat offset + i = 64 * (q + 1) + (r + i - 64)" using high o(1) by simp
        have "r + i - 64 < 64" using o(2) assms(1) True by simp
        from index64[OF this, of "q + 1", folded j]
        have e: "(unat offset + i) div 64 = q + 1" "(unat offset + i) mod 64 = r + i - 64" by blast+
        have "unat offset + i < 256" using assms True by linarith
        moreover have "\<not> bit (d_list a ! q) (r + i)" using high bit_imp_le_length[of "d_list a ! q" "r + i"] by auto
        moreover have "i - (64 - r) = r + i - 64" "64 - r \<le> i" using high o(2) by linarith+
        ultimately show ?thesis using True high assms(1) e by (simp add: get bit_scalar_val bit_simps bit_ones)
      qed
    next
      case False
      then show ?thesis by (auto simp: get bit_simps bit_ones)
    qed
  qed
qed

lemma get_bits_var_spec:
  assumes "unat count < 32" "0 < unat count" "unat offset + unat count \<le> 256"
  shows "uint (scalar_get_bits_var a offset count) = scalar_val a div 2 ^ unat offset mod 2 ^ unat count"
proof -
  have "uint (scalar_get_bits_var a offset count) = take_bit (unat count) (drop_bit (unat offset) (scalar_val a))"
    by (rule bit_eqI) (auto simp: bit_uint_iff get_bits_var_bit[OF assms] bit_take_bit_iff bit_drop_bit_eq
        dest: less_trans[OF _ assms(1)])
  then show ?thesis by (simp only: take_bit_eq_mod drop_bit_eq_div)
qed

section \<open>Shifts and halves\<close>

text \<open>One limb of a list of limbs shifted right by less than a limb; limbs past the end are zero.\<close>

definition limb_at :: "u64 list \<Rightarrow> nat \<Rightarrow> u64" where
  "limb_at ls j = (if j < length ls then ls ! j else 0)"

definition shift_limb :: "u64 list \<Rightarrow> nat \<Rightarrow> nat \<Rightarrow> u64" where
  "shift_limb ls j n = drop_bit n (limb_at ls j) OR (if n = 0 then 0 else push_bit (64 - n) (limb_at ls (j + 1)))"

lemma bit_limb_at: "s < 64 \<Longrightarrow> bit (limb_at ls j) s \<longleftrightarrow> bit (limbs_val ls) (64 * j + s)"
  using index64[of s j] by (simp add: limb_at_def bit_limbs_val)

lemma bit_shift_limb:
  assumes "n < 64" "s < 64"
  shows "bit (shift_limb ls j n) s \<longleftrightarrow> bit (limbs_val ls) (64 * j + n + s)"
proof (cases "n + s < 64")
  case True
  then have "\<not> 64 - n \<le> s" by linarith
  then show ?thesis using True bit_limb_at[of "n + s" ls j] assms
    by (auto simp: shift_limb_def bit_simps add.assoc)
next
  case False
  then have "\<not> bit (limb_at ls j) (n + s)" using bit_imp_le_length[of "limb_at ls j" "n + s"] by auto
  moreover have "n \<noteq> 0" "64 - n \<le> s" "s - (64 - n) = n + s - 64" using False assms by linarith+
  moreover have "64 * (j + 1) + (n + s - 64) = 64 * j + n + s" using False by simp
  moreover have "n + s - 64 < 64" using assms by linarith
  ultimately show ?thesis using bit_limb_at[of "n + s - 64" ls "j + 1"] assms
    by (simp add: shift_limb_def bit_simps add.assoc)
qed

lemma shifted_value:
  assumes "\<And>j s. j < 4 \<Longrightarrow> s < 64 \<Longrightarrow> bit (d_list r ! j) s \<longleftrightarrow> bit v (64 * j + s + m)" "\<And>k. 256 + m \<le> k \<Longrightarrow> \<not> bit v k"
  shows "scalar_val r = drop_bit m (v :: int)"
proof (rule bit_eqI)
  fix k
  have "bit (scalar_val r) k \<longleftrightarrow> k < 256 \<and> bit v (k + m)"
    using assms(1)[of "k div 64" "k mod 64"] by (auto simp: bit_scalar_val less_mult_imp_div_less)
  also have "\<dots> \<longleftrightarrow> bit v (k + m)" using assms(2)[of "k + m"] by (cases "k < 256") auto
  finally show "bit (scalar_val r) k \<longleftrightarrow> bit (drop_bit m v) k" by (simp add: bit_drop_bit_eq add.commute)
qed

lemma less4_cases:
  assumes "j < (4 :: nat)" "P 0" "P 1" "P 2" "P 3"
  shows "P j"
proof -
  consider "j = 0" | "j = 1" | "j = 2" | "j = 3" using assms(1) by linarith
  then show ?thesis using assms by cases simp_all
qed

lemma scalar_shr_int_spec:
  assumes "0 < n" "n < 16"
  shows "scalar_val (fst (scalar_shr_int a n)) = scalar_val a div 2 ^ n" "snd (scalar_shr_int a n) = scalar_val a mod 2 ^ n"
proof -
  obtain d0 d1 d2 d3 where a: "a = Scalar d0 d1 d2 d3" by (cases a)
  have or: "drop_bit n x + push_bit (64 - n) y = drop_bit n x OR push_bit (64 - n) y" for x y :: u64
    using assms by (intro disjunctive_add_eq_or bit_word_eqI) (auto simp: bit_simps dest: bit_imp_le_length)
  have dl: "d_list (fst (scalar_shr_int a n)) ! j = shift_limb (d_list a) j n" if "j < 4" for j
    using that
  proof (rule less4_cases)
  qed (use assms in \<open>simp_all add: a or shift_limb_def limb_at_def numeral_3_eq_3\<close>)
  have "scalar_val (fst (scalar_shr_int a n)) = drop_bit n (scalar_val a)"
  proof (rule shifted_value)
    show "bit (d_list (fst (scalar_shr_int a n)) ! j) s \<longleftrightarrow> bit (scalar_val a) (64 * j + s + n)" if "j < 4" "s < 64" for j s
      using that assms bit_shift_limb[of n s "d_list a" j] by (simp add: dl scalar_val_limbs add.assoc add.commute[of s])
  qed (auto simp: bit_scalar_val)
  then show "scalar_val (fst (scalar_shr_int a n)) = scalar_val a div 2 ^ n" by (simp add: drop_bit_eq_div)
  have "push_bit n 1 - 1 = (mask n :: u64)" by (simp add: mask_eq_exp_minus_1)
  then have "snd (scalar_shr_int a n) = uint d0 mod 2 ^ n" by (simp only: a scalar_shr_int.simps snd_conv uint_and_mask_mod)
  also have "\<dots> = scalar_val a mod 2 ^ n"
  proof (rule bit_eqI)
    fix k
    show "bit (uint d0 mod 2 ^ n) k \<longleftrightarrow> bit (scalar_val a mod 2 ^ n) k"
      using assms by (auto simp: bit_scalar_val a bit_uint_iff simp flip: take_bit_eq_mod simp: bit_take_bit_iff simp del: scalar_val.simps)
  qed
  finally show "snd (scalar_shr_int a n) = scalar_val a mod 2 ^ n" .
qed

lemma scalar_split_128_spec:
  "scalar_val a = scalar_val (fst (scalar_split_128 a)) + 2 ^ 128 * scalar_val (snd (scalar_split_128 a))"
  by (cases a) simp

section \<open>Adding a bit\<close>

lemma scalar_add_bit0_spec:
  assumes "scalar_val a + 1 < 2 ^ 256"
  shows "scalar_val (scalar_add_bit a 0) = scalar_val a + 1"
proof -
  obtain d0 d1 d2 d3 where a: "a = Scalar d0 d1 d2 d3" by (cases a)
  note lim = u64_bounds[of d0] u64_bounds[of d1] u64_bounds[of d2] u64_bounds[of d3]
  obtain r t where q: "add_chain (ucast d0 + ucast (1 :: u64)) (ucast d1 + ucast (0 :: u64)) (ucast d2 + ucast (0 :: u64))
      (ucast d3 + ucast (0 :: u64)) = (r, t)" by fastforce
  have "scalar_add_bit a 0 = r"
    using q unfolding a scalar_add_bit_def add_chain_def Let_def scalar.case by (simp add: bit_limb64_def flag_def)
  moreover have "scalar_val r + uint t * 2 ^ 256 = scalar_val a + 1"
    using add_chain_spec[OF _ _ _ q] lim unfolding uint_two_limbs by (simp add: a)
  moreover have "uint t = 0"
  proof -
    have "scalar_val r + uint t * 115792089237316195423570985008687907853269984665640564039457584007913129639936 = scalar_val a + 1"
      "scalar_val a + 1 < 115792089237316195423570985008687907853269984665640564039457584007913129639936"
      using \<open>scalar_val r + uint t * 2 ^ 256 = scalar_val a + 1\<close> assms by simp_all
    then show ?thesis using scalar_val_bounds(1)[of r] uint_ge_0[of t] by linarith
  qed
  ultimately show ?thesis by simp
qed

section \<open>The rounded product\<close>

lemma test_bit_and1: "drop_bit k (w :: u64) AND 1 \<noteq> 0 \<longleftrightarrow> bit w k"
proof -
  have "drop_bit k w AND 1 = (if bit w k then 1 else 0)"
    by (rule bit_word_eqI) (auto simp: bit_simps bit_1_iff intro: gr0I)
  then show ?thesis by simp
qed

lemma mul_shift_limbs:
  fixes a b :: scalar
  assumes "256 \<le> shift" "shift < 512" and l: "l = scalar_mul_512 a b"
    and r: "r = Scalar (shift_limb l (0 + shift div 64) (shift mod 64)) (shift_limb l (1 + shift div 64) (shift mod 64))
       (shift_limb l (2 + shift div 64) (shift mod 64)) (shift_limb l (3 + shift div 64) (shift mod 64))"
  shows "scalar_mul_shift_var a b shift = (if bit (limbs_val l) (shift - 1) then scalar_add_bit r 0 else r)"
proof -
  have len: "length l = 8" using scalar_mul_512_spec[of a b] by (simp add: l)
  define q where "q = shift div 64"
  define m where "m = shift mod 64"
  have sq: "shift = 64 * q + m" "m < 64" by (simp_all add: q_def m_def)
  then have q: "4 \<le> q" "q < 8" using assms(1,2) by linarith+
  have lt: "shift < 448 \<longleftrightarrow> q < 7" "shift < 384 \<longleftrightarrow> q < 6" "shift < 320 \<longleftrightarrow> q < 5" using sq by auto
  have "drop_bit ((shift - 1) mod 64) (l ! ((shift - 1) div 64)) AND 1 \<noteq> 0 \<longleftrightarrow> bit (limbs_val l) (shift - 1)"
  proof -
    have "(shift - 1) div 64 < 8" using assms(2) by (simp add: less_mult_imp_div_less)
    then show ?thesis unfolding test_bit_and1 bit_limbs_val len by simp
  qed
  moreover have "Scalar (if shift < 512 then drop_bit m (l ! (0 + q)) OR (if shift < 448 \<and> m \<noteq> 0 then push_bit (64 - m) (l ! (1 + q)) else 0) else 0)
      (if shift < 448 then drop_bit m (l ! (1 + q)) OR (if shift < 384 \<and> m \<noteq> 0 then push_bit (64 - m) (l ! (2 + q)) else 0) else 0)
      (if shift < 384 then drop_bit m (l ! (2 + q)) OR (if shift < 320 \<and> m \<noteq> 0 then push_bit (64 - m) (l ! (3 + q)) else 0) else 0)
      (if shift < 320 then drop_bit m (l ! (3 + q)) else 0) = r"
    using q assms(2) unfolding r lt q_def[symmetric] m_def[symmetric]
    by (auto simp: shift_limb_def limb_at_def len numeral_3_eq_3)
  ultimately show ?thesis
    unfolding scalar_mul_shift_var_def Let_def l[symmetric] q_def[symmetric] m_def[symmetric] by simp
qed

lemma scalar_mul_shift_var_spec:
  assumes "256 \<le> shift" "shift < 512"
  shows "scalar_val (scalar_mul_shift_var a b shift) = (scalar_val a * scalar_val b + 2 ^ (shift - 1)) div 2 ^ shift"
proof -
  define l where "l = scalar_mul_512 a b"
  define r where "r = Scalar (shift_limb l (0 + shift div 64) (shift mod 64)) (shift_limb l (1 + shift div 64) (shift mod 64))
       (shift_limb l (2 + shift div 64) (shift mod 64)) (shift_limb l (3 + shift div 64) (shift mod 64))"
  let ?v = "scalar_val a * scalar_val b"
  have lv: "limbs_val l = ?v" "length l = 8" using scalar_mul_512_spec[of a b] by (simp_all add: l_def)
  have sh: "shift = 64 * (shift div 64) + shift mod 64" by simp
  have r: "scalar_val r = drop_bit shift ?v"
  proof (rule shifted_value)
    show "bit (d_list r ! j) s \<longleftrightarrow> bit ?v (64 * j + s + shift)" if "j < 4" "s < 64" for j s
    proof -
      have "d_list r ! j = shift_limb l (j + shift div 64) (shift mod 64)"
        using that(1) by (rule less4_cases) (simp_all add: r_def numeral_3_eq_3)
      moreover have "64 * (j + shift div 64) + shift mod 64 + s = 64 * j + s + shift" by (subst (3) sh) (simp only: distrib_left ac_simps)
      ultimately show ?thesis using bit_shift_limb[OF _ that(2), of "shift mod 64" l "j + shift div 64"]
        by (simp add: lv ac_simps)
    qed
    show "\<not> bit ?v k" if "256 + shift \<le> k" for k
      using that assms bit_limbs_val[of l k] by (auto simp: lv)
  qed
  have le: "?v \<le> (2 ^ 256 - 1) * (2 ^ 256 - 1)"
    using scalar_val_bounds[of a] scalar_val_bounds[of b] by (intro mult_mono) simp_all
  have "?v div 2 ^ shift \<le> (2 ^ 256 - 1) * (2 ^ 256 - 1) div 2 ^ shift" using le by (intro zdiv_mono1) simp_all
  also have "\<dots> \<le> (2 ^ 256 - 1) * (2 ^ 256 - 1) div 2 ^ 256"
    using power_increasing[OF assms(1), of "2 :: int"] by (intro zdiv_mono2) simp_all
  also have "\<dots> < 2 ^ 256 - 1" by simp
  finally have room: "scalar_val r + 1 < 2 ^ 256" by (simp add: r drop_bit_eq_div)
  have half: "(?v + 2 ^ (shift - 1)) div 2 ^ shift = ?v div 2 ^ shift + (if bit ?v (shift - 1) then 1 else 0)"
  proof -
    define h :: int where "h = 2 ^ (shift - 1)"
    have h: "2 ^ shift = h * 2" "0 < h" using assms(1) by (simp_all add: h_def flip: power_Suc2)
    have "(?v + h) div (h * 2) = (?v + h) div h div 2" using h(2) by (simp add: zdiv_zmult2_eq)
    also have "(?v + h) div h = ?v div h + 1" using h(2) by (intro div_add_self2) simp
    also have "(?v div h + 1) div 2 = ?v div h div 2 + (if odd (?v div h) then 1 else 0)" by (auto elim!: oddE evenE)
    also have "?v div h div 2 = ?v div (h * 2)" using h(2) by (simp add: zdiv_zmult2_eq)
    finally show ?thesis unfolding h(1) h_def[symmetric] bit_iff_odd .
  qed
  have "scalar_mul_shift_var a b shift = (if bit ?v (shift - 1) then scalar_add_bit r 0 else r)"
    using mul_shift_limbs[OF assms l_def r_def] by (simp only: lv)
  then show ?thesis using scalar_add_bit0_spec[OF room] r unfolding half by (simp add: drop_bit_eq_div)
qed

section \<open>The endomorphism split\<close>

definition lambda :: int where
  "lambda = 0x5363ad4cc05c30e0a5261c028812645a122e22ea20816678df02967c1b23bd72"

lemma scalar_split_lambda_var_spec:
  assumes "scalar_val a < scalar_n"
  shows "(scalar_val (fst (scalar_split_lambda_var a)) + lambda * scalar_val (snd (scalar_split_lambda_var a))) mod scalar_n
    = scalar_val a"
proof -
  define c1 where "c1 = scalar_mul (scalar_mul_shift_var a split_g1 272) minus_b1"
  define c2 where "c2 = scalar_mul (scalar_mul_shift_var a split_g2 272) minus_b2"
  define r2 where "r2 = fst (scalar_add c1 c2)"
  have split: "scalar_split_lambda_var a = (fst (scalar_add (scalar_mul r2 minus_lambda) a), r2)"
    unfolding scalar_split_lambda_var_def Let_def c1_def c2_def r2_def ..
  have ml: "scalar_val minus_lambda = scalar_n - lambda" by (simp add: minus_lambda_def scalar_const_def scalar_n_def lambda_def)
  have r1: "scalar_val (fst (scalar_add (scalar_mul r2 minus_lambda) a))
      = (scalar_val r2 * (scalar_n - lambda) mod scalar_n + scalar_val a) mod scalar_n"
    using scalar_add_spec(1)[OF scalar_mul_reduced assms] by (simp add: scalar_mul_spec ml)
  have "(scalar_val (fst (scalar_split_lambda_var a)) + lambda * scalar_val (snd (scalar_split_lambda_var a))) mod scalar_n
      = (scalar_val r2 * (scalar_n - lambda) + scalar_val a + lambda * scalar_val r2) mod scalar_n"
    unfolding split fst_conv snd_conv r1 by (simp only: mod_add_left_eq)
  also have "\<dots> = (scalar_val a + scalar_val r2 * scalar_n) mod scalar_n" by (simp add: algebra_simps)
  also have "\<dots> = scalar_val a" using assms scalar_val_bounds(1)[of a] by simp
  finally show ?thesis .
qed

section \<open>The properties\<close>

text \<open>
  Windows: for at most 31 bits inside the scalar, \<open>scalar_get_bits_var\<close> returns exactly those
  bits of the value, also when they straddle two limbs; \<open>scalar_shr_int\<close> divides by a small power of
  two and returns the remainder; \<open>scalar_split_128\<close> cuts the value in two halves.
\<close>
theorem scalar_windows_correct:
  assumes "unat count < 32" "0 < unat count" "unat offset + unat count \<le> 256" "0 < n" "n < 16"
  shows "uint (scalar_get_bits_var a offset count) = scalar_val a div 2 ^ unat offset mod 2 ^ unat count \<and>
    scalar_val (fst (scalar_shr_int a n)) = scalar_val a div 2 ^ n \<and> snd (scalar_shr_int a n) = scalar_val a mod 2 ^ n \<and>
    scalar_val a = scalar_val (fst (scalar_split_128 a)) + 2 ^ 128 * scalar_val (snd (scalar_split_128 a))"
  using get_bits_var_spec[OF assms(1-3)] scalar_shr_int_spec[OF assms(4,5)] scalar_split_128_spec by blast

theorem scalar_windows_correct_witness:
  "uint (scalar_get_bits_var (Scalar 0 0xF000000000000000 0x5 0) 124 8) = 0x5F"
proof -
  have "unat (8 :: u32) < 32" "0 < unat (8 :: u32)" "unat (124 :: u32) + unat (8 :: u32) \<le> 256" by simp_all
  from scalar_windows_correct[OF this, of 1 "Scalar 0 0xF000000000000000 0x5 0"] show ?thesis by simp
qed

text \<open>
  \<open>scalar_mul_shift_var\<close> is the product divided by a power of two, rounded to the nearest
  integer, for shifts from 256 to 511; with it, \<open>scalar_split_lambda_var\<close> splits a reduced scalar
  \<open>a\<close> into \<open>r1 + lambda * r2\<close> modulo the order.
\<close>
theorem scalar_split_correct:
  assumes "256 \<le> shift" "shift < 512" "scalar_val a < scalar_n"
  shows "scalar_val (scalar_mul_shift_var a b shift) = (scalar_val a * scalar_val b + 2 ^ (shift - 1)) div 2 ^ shift \<and>
    (scalar_val (fst (scalar_split_lambda_var a)) + lambda * scalar_val (snd (scalar_split_lambda_var a))) mod scalar_n
      = scalar_val a"
  using scalar_mul_shift_var_spec[OF assms(1,2)] scalar_split_lambda_var_spec[OF assms(3)] by blast

theorem scalar_split_correct_witness:
  "scalar_val (scalar_mul_shift_var (Scalar 0 0 0 1) (Scalar 0 0x8000000000000000 2 0) 320) = 3"
proof -
  have "scalar_val (Scalar 0 0 0 1) < scalar_n" by (simp add: scalar_n_def)
  then show ?thesis using scalar_split_correct[of 320 "Scalar 0 0 0 1" "Scalar 0 0x8000000000000000 2 0"] by simp
qed

end
