(* ===== verification/Num_Gmp.thy ===== *)
theory Num_Gmp
  imports Field_Pow Scalar_Bits
begin

text \<open>
  Big numbers over GMP (num.h, num_gmp.h, num_gmp_impl.h) and the inverses that libsecp256k1-config.h
  selects: it defines \<open>USE_NUM_GMP\<close>, \<open>USE_FIELD_INV_NUM\<close> and \<open>USE_SCALAR_INV_NUM\<close>, so the library
  inverts with \<open>mpn_gcdext\<close> and not with the addition chains. GMP is not part of the repository:
  \<open>gmp_ops\<close> holds the four functions that this path calls, the locale \<open>gmp\<close> what the manual of GMP
  documents of them for the operands that the code passes, and \<open>reference_gmp\<close> is an instance.
  \<open>fe_inv_var_num\<close> and \<open>scalar_inverse_var_num\<close> are the branches that are built; they are proved to
  return the inverses that \<open>fe_inv_var\<close> and \<open>scalar_inverse_var\<close>, the branches \<open>USE_FIELD_INV_BUILTIN\<close>
  and \<open>USE_SCALAR_INV_BUILTIN\<close>, compute, wherever there is an inverse. At zero \<open>mpn_gcdext\<close> is undefined.
\<close>

section \<open>The functions of GMP\<close>

text \<open>
  A list of limbs stands for an array and its length. \<open>mpn_set_str\<close> and \<open>mpn_get_str\<close> are taken at
  base 256; the three results of \<open>mpn_gcdext\<close> are \<open>{gp, gn}\<close>, \<open>{sp, |sn|}\<close> and \<open>sn < 0\<close>; \<open>mpn_sub\<close>
  returns the difference, its borrow is not read.
\<close>

record gmp_ops =
  mpn_set_str :: "u8 list \<Rightarrow> u64 list"
  mpn_get_str :: "u64 list \<Rightarrow> u8 list"
  mpn_gcdext :: "u64 list \<Rightarrow> u64 list \<Rightarrow> u64 list \<times> u64 list \<times> bool"
  mpn_sub :: "u64 list \<Rightarrow> u64 list \<Rightarrow> u64 list"

section \<open>The numbers of the library\<close>

text \<open>\<open>data\<close> with \<open>limbs\<close> limbs, and \<open>neg\<close>.\<close>

record num =
  num_data :: "u64 list"
  num_neg :: bool

text \<open>\<open>while (r->limbs > 1 && r->data[r->limbs-1]==0) r->limbs--;\<close>\<close>

function trim_limbs :: "u64 list \<Rightarrow> u64 list" where
  "trim_limbs ls = (if 1 < length ls \<and> ls ! (length ls - 1) = 0 then trim_limbs (butlast ls) else ls)"
  by pat_completeness auto
termination by (relation "measure length") auto

declare trim_limbs.simps [simp del]

definition num_set_bin :: "gmp_ops \<Rightarrow> u8 list \<Rightarrow> num" where
  "num_set_bin G a =
     (let data = mpn_set_str G a;
          data = (if length data = 0 then [0] else data)
      in \<lparr>num_data = trim_limbs data, num_neg = False\<rparr>)"

definition num_get_bin :: "gmp_ops \<Rightarrow> nat \<Rightarrow> num \<Rightarrow> u8 list" where
  "num_get_bin G rlen a =
     (let tmp = (if 1 < length (num_data a) \<or> num_data a ! 0 \<noteq> 0 then mpn_get_str G (num_data a) else []);
          digits = dropWhile (\<lambda>b. b = 0) tmp
      in replicate (rlen - length digits) 0 @ digits)"

definition num_mod_inverse :: "gmp_ops \<Rightarrow> num \<Rightarrow> num \<Rightarrow> num" where
  "num_mod_inverse G a m =
     (let u = map (\<lambda>i. if i < length (num_data a) then num_data a ! i else 0) [0..<length (num_data m)];
          (g, s, sneg) = mpn_gcdext G u (num_data m)
      in \<lparr>num_data = (if sneg then trim_limbs (mpn_sub G (num_data m) s) else s),
          num_neg = (num_neg a \<noteq> num_neg m)\<rparr>)"

section \<open>The inverses as built\<close>

definition field_prime_bytes :: "u8 list" where
  "field_prime_bytes =
     [0xFF, 0xFF, 0xFF, 0xFF, 0xFF, 0xFF, 0xFF, 0xFF, 0xFF, 0xFF, 0xFF, 0xFF, 0xFF, 0xFF, 0xFF, 0xFF,
      0xFF, 0xFF, 0xFF, 0xFF, 0xFF, 0xFF, 0xFF, 0xFF, 0xFF, 0xFF, 0xFF, 0xFE, 0xFF, 0xFF, 0xFC, 0x2F]"

definition fe_inv_var_num :: "gmp_ops \<Rightarrow> fe \<Rightarrow> fe" where
  "fe_inv_var_num G a =
     (let c = fe_normalize_var a;
          n = num_set_bin G (fe_get_b32 c);
          m = num_set_bin G field_prime_bytes;
          n = num_mod_inverse G n m
      in fst (fe_set_b32 (num_get_bin G 32 n)))"

definition scalar_order_get_num :: "gmp_ops \<Rightarrow> num" where
  "scalar_order_get_num G = num_set_bin G
     [0xFF, 0xFF, 0xFF, 0xFF, 0xFF, 0xFF, 0xFF, 0xFF, 0xFF, 0xFF, 0xFF, 0xFF, 0xFF, 0xFF, 0xFF, 0xFE,
      0xBA, 0xAE, 0xDC, 0xE6, 0xAF, 0x48, 0xA0, 0x3B, 0xBF, 0xD2, 0x5E, 0x8C, 0xD0, 0x36, 0x41, 0x41]"

definition scalar_inverse_var_num :: "gmp_ops \<Rightarrow> scalar \<Rightarrow> scalar" where
  "scalar_inverse_var_num G x =
     (let n = num_set_bin G (scalar_get_b32 x);
          m = scalar_order_get_num G;
          n = num_mod_inverse G n m
      in fst (scalar_set_b32 (num_get_bin G 32 n)))"

section \<open>What GMP documents\<close>

text \<open>
  \<open>mpn_set_str\<close> wants at least one byte. \<open>mpn_get_str\<close> wants a most significant limb that is not zero.
  \<open>mpn_gcdext\<close> wants \<open>un >= vn > 0\<close>, a most significant limb of \<open>V\<close> that is not zero, and operands
  that are not zero; then \<open>G = U S + V T\<close> for some \<open>T\<close>, and \<open>S = 1\<close> or \<open>|S| < V / (2 G)\<close>, with \<open>S\<close>
  in as many limbs as it needs. \<open>mpn_sub\<close> wants \<open>s1n >= s2n > 0\<close>.
\<close>

locale gmp =
  fixes G :: gmp_ops
  assumes set_str: "bs \<noteq> [] \<Longrightarrow> limbs_val (mpn_set_str G bs) = be_val bs"
    and get_str: "ls \<noteq> [] \<Longrightarrow> last ls \<noteq> 0 \<Longrightarrow> be_val (mpn_get_str G ls) = limbs_val ls"
    and gcdext_divisor: "0 < length v \<Longrightarrow> length v \<le> length u \<Longrightarrow> last v \<noteq> 0 \<Longrightarrow> 0 < limbs_val u \<Longrightarrow>
      mpn_gcdext G u v = (g, s, neg) \<Longrightarrow> limbs_val g = gcd (limbs_val u) (limbs_val v)"
    and gcdext_cofactor: "0 < length v \<Longrightarrow> length v \<le> length u \<Longrightarrow> last v \<noteq> 0 \<Longrightarrow> 0 < limbs_val u \<Longrightarrow>
      mpn_gcdext G u v = (g, s, neg) \<Longrightarrow> S = (if neg then - limbs_val s else limbs_val s) \<Longrightarrow>
      (\<exists>T. limbs_val g = limbs_val u * S + limbs_val v * T) \<and> (S = 1 \<or> 2 * \<bar>S\<bar> * limbs_val g < limbs_val v)"
    and gcdext_limbs: "0 < length v \<Longrightarrow> length v \<le> length u \<Longrightarrow> last v \<noteq> 0 \<Longrightarrow> 0 < limbs_val u \<Longrightarrow>
      mpn_gcdext G u v = (g, s, neg) \<Longrightarrow> (s = [] \<or> last s \<noteq> 0) \<and> (neg \<longrightarrow> s \<noteq> [])"
    and sub: "0 < length ys \<Longrightarrow> length ys \<le> length xs \<Longrightarrow> limbs_val ys \<le> limbs_val xs \<Longrightarrow>
      limbs_val (mpn_sub G xs ys) = limbs_val xs - limbs_val ys \<and> length (mpn_sub G xs ys) = length xs"

section \<open>Limbs\<close>

lemma limbs_val_nonneg [simp]: "0 \<le> limbs_val ls"
  by (induction ls) simp_all

lemma limbs_val_less: "limbs_val ls < 2 ^ (64 * length ls)"
proof (induction ls)
  case (Cons l ls)
  have "limbs_val ls + 1 \<le> 2 ^ (64 * length ls)" using Cons by simp
  then have "18446744073709551616 * (limbs_val ls + 1) \<le> 18446744073709551616 * 2 ^ (64 * length ls)" by (rule mult_left_mono) simp
  moreover have "uint l < 18446744073709551616" using uint_lt2p[of l] by simp
  moreover have "(2 :: int) ^ (64 * length (l # ls)) = 18446744073709551616 * 2 ^ (64 * length ls)" by (simp add: power_add)
  ultimately show ?case by simp
qed simp

lemma limbs_val_append: "limbs_val (xs @ ys) = limbs_val xs + 2 ^ (64 * length xs) * limbs_val ys"
  by (induction xs) (simp_all add: power_add algebra_simps)

lemma limbs_val_at_least:
  assumes "ls \<noteq> []" "last ls \<noteq> 0"
  shows "2 ^ (64 * (length ls - 1)) \<le> limbs_val ls"
proof -
  have "limbs_val ls = limbs_val (butlast ls) + 2 ^ (64 * (length ls - 1)) * uint (last ls)"
    using limbs_val_append[of "butlast ls" "[last ls]"] assms(1) by simp
  moreover have "1 \<le> uint (last ls)" using assms(2) by (metis uint_0_iff uint_ge_0 int_one_le_iff_zero_less order_le_less)
  then have "(2 :: int) ^ (64 * (length ls - 1)) * 1 \<le> 2 ^ (64 * (length ls - 1)) * uint (last ls)" by (rule mult_left_mono) simp
  ultimately show ?thesis using limbs_val_nonneg[of "butlast ls"] by linarith
qed

text \<open>The condition that \<open>num_sanity\<close> checks.\<close>

definition limbs_sane :: "u64 list \<Rightarrow> bool" where
  "limbs_sane ls \<longleftrightarrow> length ls = 1 \<or> 1 < length ls \<and> ls ! (length ls - 1) \<noteq> 0"

lemma trim_limbs_spec:
  "ls \<noteq> [] \<Longrightarrow> limbs_val (trim_limbs ls) = limbs_val ls \<and> limbs_sane (trim_limbs ls)"
proof (induction ls rule: trim_limbs.induct)
  case (1 ls)
  show ?case
  proof (cases "1 < length ls \<and> ls ! (length ls - 1) = 0")
    case True
    then have "butlast ls \<noteq> []" by (cases ls) auto
    moreover have "limbs_val ls = limbs_val (butlast ls)"
    proof -
      have "ls = butlast ls @ [0]" using True "1.prems" by (metis append_butlast_last_id last_conv_nth)
      then show ?thesis using limbs_val_append[of "butlast ls" "[0]"] by simp
    qed
    ultimately show ?thesis using "1.IH"[OF True] True by (simp add: trim_limbs.simps[of ls])
  next
    case False
    moreover have "length ls = 1 \<or> 1 < length ls" using "1.prems" by (cases ls) auto
    ultimately show ?thesis by (auto simp: trim_limbs.simps[of ls] limbs_sane_def)
  qed
qed

lemma limbs_sane_last:
  assumes "limbs_sane ls" "0 < limbs_val ls"
  shows "ls \<noteq> []" "last ls \<noteq> 0"
proof -
  show "ls \<noteq> []" using assms(2) by auto
  then show "last ls \<noteq> 0" using assms by (cases ls) (auto simp: limbs_sane_def last_conv_nth)
qed

lemma limbs_sane_length:
  assumes "limbs_sane xs" "0 < limbs_val xs" "limbs_val xs \<le> limbs_val ys"
  shows "length xs \<le> length ys"
proof -
  have "(2 :: int) ^ (64 * (length xs - 1)) < 2 ^ (64 * length ys)"
    using limbs_val_at_least[OF limbs_sane_last[OF assms(1,2)]] assms(3) limbs_val_less[of ys] by linarith
  then show ?thesis by simp
qed

lemma limbs_val_padded:
  assumes "length xs \<le> n"
  shows "limbs_val (map (\<lambda>i. if i < length xs then xs ! i else 0) [0..<n]) = limbs_val xs"
proof -
  have z: "limbs_val (replicate k 0) = 0" for k by (induction k) simp_all
  have "map (\<lambda>i. if i < length xs then xs ! i else 0) [0..<n] = xs @ replicate (n - length xs) 0"
    using assms by (auto intro!: nth_equalityI simp: nth_append)
  then show ?thesis by (simp add: limbs_val_append z)
qed


section \<open>Bytes with leading zeros\<close>

lemma be_val_Cons: "be_val (b # bs) = uint b * 256 ^ length bs + be_val bs"
  using be_val_append[of "[b]" bs] by (simp add: be_val_def)

lemma be_val_zeros: "be_val (replicate k 0 @ bs) = be_val bs"
  by (induction k) (simp_all add: be_val_Cons)

lemma be_val_dropWhile: "be_val (dropWhile (\<lambda>b. b = 0) bs) = be_val bs"
  by (induction bs) (simp_all add: be_val_Cons)

lemma be_val_short:
  assumes "be_val bs < 256 ^ n"
  shows "length (dropWhile (\<lambda>b. b = 0) bs) \<le> n"
proof (cases "dropWhile (\<lambda>b. b = 0) bs")
  case (Cons d ds)
  then have "d \<noteq> 0" by (metis (full_types) dropWhile_eq_Cons_conv)
  then have "1 \<le> uint d" by (metis uint_0_iff uint_ge_0 int_one_le_iff_zero_less order_le_less)
  then have "(256 :: int) ^ length ds * 1 \<le> 256 ^ length ds * uint d" by (rule mult_left_mono) simp
  moreover have "be_val bs = uint d * 256 ^ length ds + be_val ds"
    using be_val_dropWhile[of bs] by (simp only: Cons be_val_Cons)
  moreover have "uint d * 256 ^ length ds = 256 ^ length ds * uint d" by (rule mult.commute)
  ultimately have "(256 :: int) ^ length ds < 256 ^ n"
    using assms be_val_bounds(1)[of ds] by linarith
  then show ?thesis using Cons by simp
next
  case Nil
  then show ?thesis by (simp only: list.size(3) le0)
qed

section \<open>The operations under the laws\<close>

context gmp begin

lemma num_set_bin_spec:
  assumes "bs \<noteq> []"
  shows "limbs_val (num_data (num_set_bin G bs)) = be_val bs" "limbs_sane (num_data (num_set_bin G bs))"
    "\<not> num_neg (num_set_bin G bs)"
proof -
  let ?d = "if length (mpn_set_str G bs) = 0 then [0] else mpn_set_str G bs"
  have v: "limbs_val ?d = be_val bs" using set_str[OF assms] by auto
  have "?d \<noteq> []" by simp
  note t = trim_limbs_spec[OF this]
  have "num_data (num_set_bin G bs) = trim_limbs ?d" by (simp add: num_set_bin_def)
  then show "limbs_val (num_data (num_set_bin G bs)) = be_val bs" "limbs_sane (num_data (num_set_bin G bs))"
    using t v by (simp_all only:)
  show "\<not> num_neg (num_set_bin G bs)" by (simp add: num_set_bin_def Let_def)
qed

lemma num_get_bin_spec:
  assumes "limbs_sane (num_data a)" "limbs_val (num_data a) < 256 ^ rlen"
  shows "length (num_get_bin G rlen a) = rlen" "be_val (num_get_bin G rlen a) = limbs_val (num_data a)"
proof -
  define tmp where "tmp = (if 1 < length (num_data a) \<or> num_data a ! 0 \<noteq> 0 then mpn_get_str G (num_data a) else [])"
  have e: "num_get_bin G rlen a = replicate (rlen - length (dropWhile (\<lambda>b. b = 0) tmp)) 0 @ dropWhile (\<lambda>b. b = 0) tmp"
    by (simp only: num_get_bin_def tmp_def Let_def)
  have v: "be_val tmp = limbs_val (num_data a)"
  proof (cases "1 < length (num_data a) \<or> num_data a ! 0 \<noteq> 0")
    case True
    have ne: "num_data a \<noteq> []" using assms(1) by (auto simp: limbs_sane_def)
    moreover have "last (num_data a) \<noteq> 0"
      using assms(1) True unfolding last_conv_nth[OF ne] by (auto simp: limbs_sane_def)
    ultimately show ?thesis using True by (simp add: tmp_def get_str)
  next
    case False
    then have "num_data a = [0]" using assms(1) by (cases "num_data a") (auto simp: limbs_sane_def)
    then show ?thesis using False by (simp add: tmp_def be_val_def)
  qed
  have "length (dropWhile (\<lambda>b. b = 0) tmp) \<le> rlen" using assms(2) by (intro be_val_short) (simp add: v)
  then show "length (num_get_bin G rlen a) = rlen" by (simp add: e)
  show "be_val (num_get_bin G rlen a) = limbs_val (num_data a)" by (simp only: e be_val_zeros be_val_dropWhile v)
qed

lemma num_mod_inverse_spec:
  assumes "limbs_sane (num_data a)" "limbs_sane (num_data m)"
    and "0 < limbs_val (num_data a)" "limbs_val (num_data a) < limbs_val (num_data m)"
    and "coprime (limbs_val (num_data a)) (limbs_val (num_data m))"
  defines "r \<equiv> limbs_val (num_data (num_mod_inverse G a m))"
  shows "limbs_sane (num_data (num_mod_inverse G a m))" "r < limbs_val (num_data m)"
    "r * limbs_val (num_data a) mod limbs_val (num_data m) = 1"
proof -
  define A where "A = limbs_val (num_data a)"
  define M where "M = limbs_val (num_data m)"
  define u where "u = map (\<lambda>i. if i < length (num_data a) then num_data a ! i else 0) [0..<length (num_data m)]"
  obtain g s neg where ext: "mpn_gcdext G u (num_data m) = (g, s, neg)" by (cases "mpn_gcdext G u (num_data m)") auto
  define S where "S = (if neg then - limbs_val s else limbs_val s)"
  have len: "length (num_data a) \<le> length (num_data m)" using limbs_sane_length assms(1,3,4) by (intro limbs_sane_length) simp_all
  have m: "num_data m \<noteq> []" "last (num_data m) \<noteq> 0" using limbs_sane_last[OF assms(2)] assms(3,4) by simp_all
  have u: "limbs_val u = A" unfolding u_def A_def by (rule limbs_val_padded[OF len])
  have pre: "0 < length (num_data m)" "length (num_data m) \<le> length u" "0 < limbs_val u"
    using m(1) assms(3) u by (simp_all add: u_def A_def)
  note laws = gcdext_divisor[OF pre(1,2) m(2) pre(3) ext] gcdext_cofactor[OF pre(1,2) m(2) pre(3) ext S_def]
    gcdext_limbs[OF pre(1,2) m(2) pre(3) ext]
  have one: "limbs_val g = 1" using laws(1) assms(5) by (simp add: u A_def)
  obtain T where T: "1 = A * S + M * T" using laws(2) unfolding one u M_def[symmetric] by blast
  have bound: "S = 1 \<or> 2 * \<bar>S\<bar> < M" using laws(2) by (simp add: one M_def)
  have A: "0 < A" "A < M" using assms(3,4) by (simp_all add: A_def M_def)
  have SA: "S * A mod M = 1"
  proof -
    have "S * A = 1 + M * (- T)" using T by (simp add: algebra_simps)
    then show ?thesis using A by (simp only: mod_mult_self2) simp
  qed
  then have "S \<noteq> 0" by auto
  then have s: "s \<noteq> []" "last s \<noteq> 0" using laws(3) by (auto simp: S_def)
  then have "0 < limbs_val s" using limbs_val_at_least[OF s] zero_less_power[of "2 :: int"] by (metis order_less_le_trans zero_less_numeral)
  have goal: "limbs_sane (num_data (num_mod_inverse G a m)) \<and> r < M \<and> r * A mod M = 1"
  proof (cases neg)
    case True
    then have S: "S = - limbs_val s" by (simp add: S_def)
    have lt: "limbs_val s < M" using bound \<open>0 < limbs_val s\<close> unfolding S by linarith
    have "limbs_sane s" using s by (cases s rule: rev_cases) (auto simp: limbs_sane_def)
    then have "length s \<le> length (num_data m)" using \<open>0 < limbs_val s\<close> lt by (intro limbs_sane_length) (simp_all add: M_def)
    then have d: "limbs_val (mpn_sub G (num_data m) s) = M - limbs_val s" "length (mpn_sub G (num_data m) s) = length (num_data m)"
      using sub[of s "num_data m"] s(1) lt by (simp_all add: M_def)
    then have "mpn_sub G (num_data m) s \<noteq> []" using m(1) by auto
    note t = trim_limbs_spec[OF this]
    have "num_data (num_mod_inverse G a m) = trim_limbs (mpn_sub G (num_data m) s)"
      using ext True by (simp add: num_mod_inverse_def u_def)
    moreover from this have "r = S + M" using t d(1) by (simp add: r_def S)
    moreover have "(S + M) * A mod M = 1" using SA by (simp only: distrib_right mod_mult_self3 add.commute[of _ "M * A"] mod_mult_self4)
    ultimately show ?thesis using t \<open>0 < limbs_val s\<close> by (simp add: S)
  next
    case False
    then have S: "S = limbs_val s" by (simp add: S_def)
    have "num_data (num_mod_inverse G a m) = s"
      using ext False by (simp add: num_mod_inverse_def u_def)
    moreover have "limbs_sane s" using s by (cases s rule: rev_cases) (auto simp: limbs_sane_def)
    moreover have "S < M" using bound A \<open>0 < limbs_val s\<close> unfolding S by linarith
    ultimately show ?thesis using SA by (simp add: r_def S)
  qed
  then show "limbs_sane (num_data (num_mod_inverse G a m))" "r < limbs_val (num_data m)"
    "r * limbs_val (num_data a) mod limbs_val (num_data m) = 1" by (simp_all add: A_def M_def)
qed

lemma fe_inv_var_num_spec:
  assumes "fe_verify_magnitude 8 a" "coprime (fe_val a) fe_p"
  shows "fe_verify_normalized (fe_inv_var_num G a)" "fe_val (fe_inv_var_num G a) * fe_val a mod fe_p = 1"
proof -
  define c where "c = fe_normalize_var a"
  have c: "fe_verify_normalized c" "fe_val c = fe_val a mod fe_p"
    using fe_normalize_spec[OF assms(1)] by (simp_all add: c_def)
  note g = fe_get_b32_spec[of c] c(1)[unfolded fe_verify_normalized_iff]
  have ne: "fe_get_b32 c \<noteq> []" "field_prime_bytes \<noteq> []" using g by (auto simp: field_prime_bytes_def)
  note n = num_set_bin_spec[OF ne(1)] and m = num_set_bin_spec[OF ne(2)]
  have vm: "limbs_val (num_data (num_set_bin G field_prime_bytes)) = fe_p"
    unfolding m(1) by (simp add: field_prime_bytes_def be_val_def fe_p_def)
  have vn: "limbs_val (num_data (num_set_bin G (fe_get_b32 c))) = fe_val a mod fe_p"
    unfolding n(1) using g c(2) by simp
  have cop: "coprime (fe_val a mod fe_p) fe_p" using assms(2) by (simp add: coprime_mod_left_iff fe_p_def)
  have pos: "0 < fe_val a mod fe_p" "fe_val a mod fe_p < fe_p"
  proof -
    show "fe_val a mod fe_p < fe_p" by (simp add: fe_p_def)
    have "fe_val a mod fe_p \<noteq> 0" using cop by (auto simp: fe_p_def)
    moreover have "0 \<le> fe_val a mod fe_p" by (simp add: fe_p_def)
    ultimately show "0 < fe_val a mod fe_p" by simp
  qed
  define r where "r = num_mod_inverse G (num_set_bin G (fe_get_b32 c)) (num_set_bin G field_prime_bytes)"
  note inv = num_mod_inverse_spec[OF n(2) m(2), unfolded vm vn, OF pos cop, folded r_def]
  have "limbs_val (num_data r) < 256 ^ 32" using inv(2) by (simp add: fe_p_def)
  note b = num_get_bin_spec[OF inv(1) this]
  have e: "fe_inv_var_num G a = fst (fe_set_b32 (num_get_bin G 32 r))"
    by (simp add: fe_inv_var_num_def c_def r_def Let_def)
  note set = fe_set_b32_spec[OF b(1)]
  show "fe_verify_normalized (fe_inv_var_num G a)" using set inv(2) b(2) by (simp add: e fe_verify_normalized_iff)
  show "fe_val (fe_inv_var_num G a) * fe_val a mod fe_p = 1"
    using inv(3) by (simp only: e set(2) b(2) mod_mult_right_eq)
qed

lemma scalar_inverse_var_num_spec:
  assumes "coprime (scalar_val x) scalar_n" "scalar_val x < scalar_n"
  shows "scalar_val (scalar_inverse_var_num G x) < scalar_n" "scalar_val (scalar_inverse_var_num G x) * scalar_val x mod scalar_n = 1"
proof -
  have ne: "scalar_get_b32 x \<noteq> []" using scalar_get_b32_val(1)[of x] by auto
  note n = num_set_bin_spec[OF ne]
  have vm: "limbs_val (num_data (scalar_order_get_num G)) = scalar_n"
    unfolding scalar_order_get_num_def by (subst num_set_bin_spec(1)) (simp_all add: be_val_def scalar_n_def)
  have m: "limbs_sane (num_data (scalar_order_get_num G))"
    unfolding scalar_order_get_num_def by (rule num_set_bin_spec(2)) simp
  have vn: "limbs_val (num_data (num_set_bin G (scalar_get_b32 x))) = scalar_val x"
    unfolding n(1) by (rule scalar_get_b32_val(2))
  have "scalar_val x \<noteq> 0" using assms(1) by (auto simp: scalar_n_def)
  then have pos: "0 < scalar_val x" using scalar_val_bounds(1)[of x] by simp
  define r where "r = num_mod_inverse G (num_set_bin G (scalar_get_b32 x)) (scalar_order_get_num G)"
  note inv = num_mod_inverse_spec[OF n(2) m, unfolded vm vn, OF pos assms(2,1), folded r_def]
  have "limbs_val (num_data r) < 256 ^ 32" using inv(2) by (simp add: scalar_n_def)
  note b = num_get_bin_spec[OF inv(1) this]
  have "scalar_val (fst (scalar_set_b32 (num_get_bin G 32 r))) = limbs_val (num_data r)"
    using scalar_set_b32_spec(1)[OF b(1)] inv(2) by (simp add: b(2))
  moreover have "scalar_inverse_var_num G x = fst (scalar_set_b32 (num_get_bin G 32 r))"
    by (simp add: scalar_inverse_var_num_def r_def Let_def)
  ultimately show "scalar_val (scalar_inverse_var_num G x) < scalar_n" "scalar_val (scalar_inverse_var_num G x) * scalar_val x mod scalar_n = 1"
    using inv(2,3) by simp_all
qed

end

section \<open>A reference instance\<close>

text \<open>The functions computed from the numbers, to show that the laws can hold and to run the definitions.\<close>

fun limbs_of :: "nat \<Rightarrow> int \<Rightarrow> u64 list" where
  "limbs_of 0 x = []"
| "limbs_of (Suc k) x = word_of_int x # limbs_of k (x div 18446744073709551616)"

fun strip_limbs :: "u64 list \<Rightarrow> u64 list" where
  "strip_limbs [] = []"
| "strip_limbs (l # ls) = (let r = strip_limbs ls in if r = [] \<and> l = 0 then [] else l # r)"

definition centred_cofactor :: "int \<Rightarrow> int \<Rightarrow> int" where
  "centred_cofactor U V =
     (let W = V div gcd U V; s = fst (bezw (nat U) (nat V)) mod W in if W < 2 * s then s - W else s)"

definition reference_gmp :: gmp_ops where
  "reference_gmp =
     \<lparr>mpn_set_str = (\<lambda>bs. limbs_of (length bs) (be_val bs)),
      mpn_get_str = (\<lambda>ls. concat (map bytes_of_limb (rev ls))),
      mpn_gcdext = (\<lambda>u v. let S = centred_cofactor (limbs_val u) (limbs_val v) in
        (limbs_of (length v) (gcd (limbs_val u) (limbs_val v)), strip_limbs (limbs_of (length v) \<bar>S\<bar>), S < 0)),
      mpn_sub = (\<lambda>xs ys. limbs_of (length xs) (limbs_val xs - limbs_val ys))\<rparr>"

lemma limbs_of_val: "0 \<le> x \<Longrightarrow> x < 2 ^ (64 * k) \<Longrightarrow> limbs_val (limbs_of k x) = x"
proof (induction k arbitrary: x)
  case (Suc k)
  have "(2 :: int) ^ (64 * Suc k) = 2 ^ (64 * k) * 18446744073709551616" by (simp add: power_add)
  then have "x div 18446744073709551616 < 2 ^ (64 * k)" using Suc.prems(2) by (simp add: div_less_iff_less_mult)
  moreover have "uint (word_of_int x :: u64) = x mod 18446744073709551616" by (simp add: uint_word_of_int)
  ultimately show ?case using Suc by (simp add: pos_imp_zdiv_nonneg_iff)
qed simp

lemma length_limbs_of [simp]: "length (limbs_of k x) = k"
  by (induction k arbitrary: x) simp_all

lemma strip_limbs_spec: "limbs_val (strip_limbs ls) = limbs_val ls \<and> (strip_limbs ls = [] \<or> last (strip_limbs ls) \<noteq> 0)"
  by (induction ls) (auto simp: Let_def)

lemma get_str_reference: "be_val (concat (map bytes_of_limb (rev ls))) = limbs_val ls"
proof (induction ls)
  case (Cons l ls)
  have "length (bytes_of_limb l) = 8" by (simp add: bytes_of_limb_def)
  then show ?case using Cons by (simp add: be_val_append be_val_bytes_of_limb)
qed (simp add: be_val_def)

lemma centred_cofactor_spec:
  assumes "0 < U" "0 < V"
  shows "\<exists>T. gcd U V = U * centred_cofactor U V + V * T"
    "centred_cofactor U V = 1 \<or> 2 * \<bar>centred_cofactor U V\<bar> * gcd U V < V"
proof -
  define g where "g = gcd U V"
  define W where "W = V div g"
  define b where "b = fst (bezw (nat U) (nat V))"
  define s where "s = b mod W"
  define S where "S = centred_cofactor U V"
  have g: "0 < g" "U = U div g * g" "V = W * g" using assms by (simp_all add: g_def W_def)
  have W: "0 < W" using g(1,3) assms(2) by (metis zero_less_mult_pos2)
  have S: "S = (if W < 2 * s then s - W else s)"
    by (simp add: S_def centred_cofactor_def g_def W_def s_def b_def Let_def)
  have s: "0 \<le> s" "s < W" using W by (simp_all add: s_def)
  obtain t where "b * int (nat U) + t * int (nat V) = int (gcd (nat U) (nat V))"
    unfolding b_def using bezw_aux[of "nat U" "nat V"] by (metis add.commute)
  then have "b * U + t * V = g" using assms by (simp add: g_def flip: gcd_int_int_eq)
  then have b: "b * (U div g) + t * W = 1"
  proof -
    have "(b * (U div g) + t * W) * g = b * (U div g * g) + t * (W * g)" by (simp add: algebra_simps)
    also have "\<dots> = 1 * g" using g \<open>b * U + t * V = g\<close> by simp
    finally show ?thesis using g(1) by simp
  qed
  have "S = b + (if W < 2 * s then - (b div W) - 1 else - (b div W)) * W"
    using div_mult_mod_eq[of b W] by (simp add: S s_def algebra_simps)
  then obtain k where k: "S = b + k * W" by blast
  have one: "S * (U div g) + (t - k * (U div g)) * W = 1" using b by (simp add: k algebra_simps)
  have "(S * (U div g) + (t - k * (U div g)) * W) * g = U * S + V * (t - k * (U div g))"
  proof -
    have "U * S + V * (t - k * (U div g)) = (U div g * g) * S + (W * g) * (t - k * (U div g))"
      using g(2,3) by simp
    then show ?thesis by (simp add: algebra_simps)
  qed
  then have "g = U * S + V * (t - k * (U div g))" by (simp only: one mult_1)
  then show "\<exists>T. gcd U V = U * centred_cofactor U V + V * T" by (auto simp: g_def S_def)
  have "S = 1 \<or> 2 * \<bar>S\<bar> < W"
  proof (cases "W = 2 * s")
    case True
    then have "s * ((U div g) + (t - k * (U div g)) * 2) = 1" using one by (simp add: S algebra_simps)
    then have "s dvd 1" by (metis dvd_triv_left)
    then show ?thesis using s(1) True by (simp add: S)
  next
    case False
    then show ?thesis using s by (auto simp: S)
  qed
  then have "S = 1 \<or> 2 * \<bar>S\<bar> * g < W * g" using g(1) by simp
  then show "centred_cofactor U V = 1 \<or> 2 * \<bar>centred_cofactor U V\<bar> * gcd U V < V"
    by (simp only: S_def g_def[symmetric] g(3)[symmetric])
qed

interpretation ref_gmp: gmp reference_gmp
proof unfold_locales
  fix bs :: "u8 list" assume "bs \<noteq> []"
  have "(2 :: int) ^ (8 * length bs) \<le> 2 ^ (64 * length bs)" by (rule power_increasing) simp_all
  then have "be_val bs < 2 ^ (64 * length bs)" using be_val_bounds(2)[of bs] by linarith
  then show "limbs_val (mpn_set_str reference_gmp bs) = be_val bs"
    by (simp add: reference_gmp_def limbs_of_val be_val_bounds(1))
next
  fix ls :: "u64 list"
  show "be_val (mpn_get_str reference_gmp ls) = limbs_val ls" by (simp add: reference_gmp_def get_str_reference)
next
  fix u v g s :: "u64 list" and neg
  assume v: "0 < length v" "last v \<noteq> 0" and len: "length v \<le> length u" and u: "0 < limbs_val u"
    and e: "mpn_gcdext reference_gmp u v = (g, s, neg)"
  let ?S = "centred_cofactor (limbs_val u) (limbs_val v)"
  have pos: "0 < limbs_val v" using limbs_val_at_least[of v] v zero_less_power[of "2 :: int"]
    by (metis length_greater_0_conv order_less_le_trans zero_less_numeral)
  note c = centred_cofactor_spec[OF u pos]
  have gs: "g = limbs_of (length v) (gcd (limbs_val u) (limbs_val v))" "s = strip_limbs (limbs_of (length v) \<bar>?S\<bar>)" "neg = (?S < 0)"
    using e by (simp_all add: reference_gmp_def Let_def)
  have le: "gcd (limbs_val u) (limbs_val v) \<le> limbs_val v" using pos by (intro zdvd_imp_le) simp_all
  moreover have gpos: "0 < gcd (limbs_val u) (limbs_val v)" using pos by simp
  ultimately show g: "limbs_val g = gcd (limbs_val u) (limbs_val v)"
    using limbs_val_less[of v] by (simp add: gs limbs_of_val)
  have "\<bar>?S\<bar> \<le> limbs_val v"
  proof -
    have "1 \<le> gcd (limbs_val u) (limbs_val v)" using gpos by linarith
    then have "\<bar>?S\<bar> * 1 \<le> \<bar>?S\<bar> * gcd (limbs_val u) (limbs_val v)" by (rule mult_left_mono) simp
    then show ?thesis using c(2) pos by linarith
  qed
  then have sv: "limbs_val s = \<bar>?S\<bar>"
    using limbs_val_less[of v] strip_limbs_spec[of "limbs_of (length v) \<bar>?S\<bar>"] by (simp add: gs limbs_of_val)
  have "(if neg then - limbs_val s else limbs_val s) = ?S" by (simp add: sv gs(3))
  then show "(\<exists>T. limbs_val g = limbs_val u * S + limbs_val v * T) \<and> (S = 1 \<or> 2 * \<bar>S\<bar> * limbs_val g < limbs_val v)"
    if "S = (if neg then - limbs_val s else limbs_val s)" for S using c that by (simp only: g)
  have "neg \<longrightarrow> s \<noteq> []" using sv gs(3) by auto
  then show "(s = [] \<or> last s \<noteq> 0) \<and> (neg \<longrightarrow> s \<noteq> [])"
    using strip_limbs_spec[of "limbs_of (length v) \<bar>?S\<bar>"] by (simp add: gs(2))
next
  fix xs ys :: "u64 list" assume "limbs_val ys \<le> limbs_val xs"
  moreover have "limbs_val xs - limbs_val ys < 2 ^ (64 * length xs)"
    using limbs_val_less[of xs] limbs_val_nonneg[of ys] by linarith
  ultimately show "limbs_val (mpn_sub reference_gmp xs ys) = limbs_val xs - limbs_val ys \<and> length (mpn_sub reference_gmp xs ys) = length xs"
    by (simp add: reference_gmp_def limbs_of_val)
qed

section \<open>Both inverses\<close>

lemma inverse_unique:
  assumes "r * x mod m = 1" "s * x mod m = (1 :: int)"
  shows "r mod m = s mod m"
proof -
  have "r * (s * x) mod m = r mod m" using assms(2) by (metis mod_mult_right_eq mult.right_neutral)
  moreover have "r * (s * x) = s * (r * x)" by simp
  moreover have "s * (r * x) mod m = s mod m" using assms(1) by (metis mod_mult_right_eq mult.right_neutral)
  ultimately show ?thesis by simp
qed

text \<open>Fermat's congruence gives an inverse.\<close>

lemma fermat_coprime:
  assumes "x ^ n mod m = (1 :: int)" "0 < n"
  shows "coprime x m"
proof (rule coprimeI)
  fix c assume c: "c dvd x" "c dvd m"
  then have "c dvd x ^ n" using assms(2) by (metis dvd_power dvd_trans)
  then have "c dvd x ^ n mod m" using c(2) by (simp add: dvd_mod_iff)
  then show "is_unit c" by (simp only: assms(1))
qed

lemma scalar_inverse_reduced: "scalar_val (scalar_inverse x) < scalar_n"
proof -
  have "\<exists>a b. scalar_inverse x = scalar_mul a b"
    unfolding scalar_inverse_def Let_def foldl.simps scalar_step_def by blast
  then show ?thesis using scalar_mul_reduced by auto
qed

text \<open>
  C22. The inverses of a field element. \<open>fe_inv\<close> computes the power \<open>p - 2\<close> with a result of magnitude 1;
  \<open>fe_inv_var_num\<close>, the branch of \<open>secp256k1_fe_inv_var\<close> that the configuration builds, returns the
  normalised inverse of every value that is coprime to \<open>p\<close>. Where Fermat's congruence holds, the first is
  an inverse too, and the two branches of \<open>secp256k1_fe_inv_var\<close> return the same value modulo \<open>p\<close>.
\<close>
theorem fe_inverses_correct:
  assumes "gmp G" "fe_verify_magnitude 8 a"
  shows "fe_val (fe_inv a) mod fe_p = fe_val a ^ nat (fe_p - 2) mod fe_p \<and> fe_verify_magnitude 1 (fe_inv a) \<and>
    (coprime (fe_val a) fe_p \<longrightarrow> fe_verify_normalized (fe_inv_var_num G a) \<and> fe_val (fe_inv_var_num G a) * fe_val a mod fe_p = 1) \<and>
    (fe_val a ^ nat (fe_p - 1) mod fe_p = 1 \<longrightarrow> fe_val (fe_inv a) * fe_val a mod fe_p = 1 \<and>
       fe_verify_normalized (fe_inv_var_num G a) \<and> fe_val (fe_inv_var_num G a) = fe_val (fe_inv_var a) mod fe_p)"
proof (intro conjI impI)
  show "fe_val (fe_inv a) mod fe_p = fe_val a ^ nat (fe_p - 2) mod fe_p" "fe_verify_magnitude 1 (fe_inv a)"
    using fe_inv_power[OF assms(2)] by (simp_all add: fe_power_def)
  note num = gmp.fe_inv_var_num_spec[OF assms]
  show "fe_verify_normalized (fe_inv_var_num G a)" "fe_val (fe_inv_var_num G a) * fe_val a mod fe_p = 1"
    if "coprime (fe_val a) fe_p" using num[OF that] by simp_all
  assume f: "fe_val a ^ nat (fe_p - 1) mod fe_p = 1"
  show inv: "fe_val (fe_inv a) * fe_val a mod fe_p = 1" by (rule fe_inv_inverse[OF assms(2) f])
  have "0 < nat (fe_p - 1)" by (simp add: fe_p_def)
  note n = num[OF fermat_coprime[OF f this]]
  show "fe_verify_normalized (fe_inv_var_num G a)" by (rule n(1))
  then have "fe_val (fe_inv_var_num G a) mod fe_p = fe_val (fe_inv_var_num G a)"
    using fe_val_256(1)[of "fe_inv_var_num G a"] by (simp add: fe_verify_normalized_iff)
  then show "fe_val (fe_inv_var_num G a) = fe_val (fe_inv_var a) mod fe_p"
    using inverse_unique[OF n(2) inv] by (simp add: fe_inv_var_def)
qed

theorem fe_inverses_correct_witness:
  "fe_val (fe_inv (Fe 0xFFFFEFFFFFC2E 0xFFFFFFFFFFFFF 0xFFFFFFFFFFFFF 0xFFFFFFFFFFFFF 0x0FFFFFFFFFFFF)) * (fe_p - 1) mod fe_p = 1 \<and>
   fe_val (fe_inv_var_num reference_gmp (Fe 0xFFFFEFFFFFC2E 0xFFFFFFFFFFFFF 0xFFFFFFFFFFFFF 0xFFFFFFFFFFFFF 0x0FFFFFFFFFFFF)) * (fe_p - 1) mod fe_p = 1"
proof -
  let ?a = "Fe 0xFFFFEFFFFFC2E 0xFFFFFFFFFFFFF 0xFFFFFFFFFFFFF 0xFFFFFFFFFFFFF 0x0FFFFFFFFFFFF"
  have m: "fe_verify_magnitude 8 ?a" by simp
  have v: "fe_val ?a = fe_p - 1" by (simp add: fe_p_def)
  have e: "nat (fe_p - 1) = 2 * nat ((fe_p - 1) div 2)" by (simp add: fe_p_def)
  have "(fe_p - 1) ^ 2 mod fe_p = 1" by (simp add: fe_p_def)
  then have "((fe_p - 1) ^ 2) ^ nat ((fe_p - 1) div 2) mod fe_p = 1 mod fe_p"
    by (metis power_mod power_one)
  moreover have "1 mod fe_p = 1" by (simp add: fe_p_def)
  ultimately have f: "fe_val ?a ^ nat (fe_p - 1) mod fe_p = 1" by (simp only: v e power_mult)
  moreover have "coprime (fe_val ?a) fe_p" by (rule fermat_coprime[OF f]) (simp add: fe_p_def)
  ultimately have "fe_val (fe_inv ?a) * fe_val ?a mod fe_p = 1 \<and> fe_val (fe_inv_var_num reference_gmp ?a) * fe_val ?a mod fe_p = 1"
    using fe_inverses_correct[OF ref_gmp.gmp_axioms m] by blast
  then show ?thesis by (simp only: v)
qed

text \<open>
  C27. The inverses of a scalar. \<open>scalar_inverse\<close> computes the power \<open>n - 2\<close>; \<open>scalar_inverse_var_num\<close>, the
  branch of \<open>secp256k1_scalar_inverse_var\<close> that the configuration builds, returns the reduced inverse of every
  reduced scalar that is coprime to the order. Where Fermat's congruence holds, the first is an inverse too, and
  the two branches of \<open>secp256k1_scalar_inverse_var\<close> return the same scalar.
\<close>
theorem scalar_inverses_correct:
  assumes "gmp G" "scalar_val x < scalar_n"
  shows "scalar_val (scalar_inverse x) mod scalar_n = scalar_val x ^ nat (scalar_n - 2) mod scalar_n \<and>
    (coprime (scalar_val x) scalar_n \<longrightarrow> scalar_val (scalar_inverse_var_num G x) < scalar_n \<and>
       scalar_val (scalar_inverse_var_num G x) * scalar_val x mod scalar_n = 1) \<and>
    (scalar_val x ^ nat (scalar_n - 1) mod scalar_n = 1 \<longrightarrow>
       scalar_val (scalar_mul x (scalar_inverse x)) = 1 \<and> scalar_inverse_var_num G x = scalar_inverse_var x)"
proof (intro conjI impI)
  show "scalar_val (scalar_inverse x) mod scalar_n = scalar_val x ^ nat (scalar_n - 2) mod scalar_n"
    using scalar_inverse_power by (simp add: scalar_power_def)
  note num = gmp.scalar_inverse_var_num_spec[OF assms(1) _ assms(2)]
  show "scalar_val (scalar_inverse_var_num G x) < scalar_n" "scalar_val (scalar_inverse_var_num G x) * scalar_val x mod scalar_n = 1"
    if "coprime (scalar_val x) scalar_n" using num[OF that] by simp_all
  assume f: "scalar_val x ^ nat (scalar_n - 1) mod scalar_n = 1"
  show m: "scalar_val (scalar_mul x (scalar_inverse x)) = 1" by (rule scalar_inverse_mul[OF f])
  have "0 < nat (scalar_n - 1)" by (simp add: scalar_n_def)
  note n = num[OF fermat_coprime[OF f this]]
  have "scalar_val (scalar_inverse x) * scalar_val x mod scalar_n = 1" using m by (simp only: scalar_mul_spec mult.commute)
  from inverse_unique[OF n(2) this] have "scalar_val (scalar_inverse_var_num G x) = scalar_val (scalar_inverse x)"
    using n(1) scalar_inverse_reduced[of x] scalar_val_bounds(1)[of x]
      scalar_val_bounds(1)[of "scalar_inverse x"] scalar_val_bounds(1)[of "scalar_inverse_var_num G x"] by simp
  then show "scalar_inverse_var_num G x = scalar_inverse_var x"
    unfolding scalar_inverse_var_def by (rule scalar_val_inj)
qed

theorem scalar_inverses_correct_witness:
  "scalar_val (scalar_mul (Scalar 1 0 0 0) (scalar_inverse (Scalar 1 0 0 0))) = 1 \<and>
   scalar_val (scalar_inverse_var_num reference_gmp (Scalar 2 0 0 0)) * 2 mod scalar_n = 1"
proof -
  have v: "scalar_val (Scalar 1 0 0 0) = 1" "scalar_val (Scalar 2 0 0 0) = 2" by simp_all
  then have lt: "scalar_val (Scalar 1 0 0 0) < scalar_n" "scalar_val (Scalar 2 0 0 0) < scalar_n" by (simp_all add: scalar_n_def)
  have "scalar_val (Scalar 1 0 0 0) ^ nat (scalar_n - 1) mod scalar_n = 1"
    unfolding v power_one by (simp add: scalar_n_def)
  then have one: "scalar_val (scalar_mul (Scalar 1 0 0 0) (scalar_inverse (Scalar 1 0 0 0))) = 1"
    using scalar_inverses_correct[OF ref_gmp.gmp_axioms lt(1)] by blast
  have "odd scalar_n" by (simp add: scalar_n_def)
  then have "coprime (scalar_val (Scalar 2 0 0 0)) scalar_n" unfolding v by (simp add: coprime_left_2_iff_odd)
  then have "scalar_val (scalar_inverse_var_num reference_gmp (Scalar 2 0 0 0)) * scalar_val (Scalar 2 0 0 0) mod scalar_n = 1"
    using scalar_inverses_correct[OF ref_gmp.gmp_axioms lt(2)] by blast
  with one show ?thesis by (simp only: v)
qed

end
