(* ===== verification/Group.thy ===== *)
theory Group
  imports Scalar_Bits Field_Pow
begin

text \<open>
  The group of secp256k1: group.h and group_impl.h. Affine points are \<open>ge\<close>, points in jacobian
  coordinates are \<open>gej\<close>; \<open>infinity\<close> is an int that only ever holds 0 and 1 and is a bool here.

  An operation takes the old contents of its output \<open>r\<close> where some path leaves a field of \<open>r\<close> as
  it was. The C code calls the operations with \<open>r\<close> the same object as an input; each field of the
  input is read for the last time before the same field of \<open>r\<close> is written, so that passing the
  inputs by value is the same. An optional output \<open>rzr\<close> is an option, NULL being None.
\<close>

section \<open>Representation\<close>

record ge =
  ge_x :: fe
  ge_y :: fe
  ge_infinity :: bool

record gej =
  gej_x :: fe
  gej_y :: fe
  gej_z :: fe
  gej_infinity :: bool

record ge_storage =
  st_x :: fe_storage
  st_y :: fe_storage

text \<open>The constant macro of field_5x52.h, its arguments the 32-bit digits from the highest.\<close>

definition fe_const :: "u64 \<Rightarrow> u64 \<Rightarrow> u64 \<Rightarrow> u64 \<Rightarrow> u64 \<Rightarrow> u64 \<Rightarrow> u64 \<Rightarrow> u64 \<Rightarrow> fe" where
  "fe_const d7 d6 d5 d4 d3 d2 d1 d0 =
     Fe (d0 OR push_bit 32 (d1 AND 0xFFFFF))
        (drop_bit 20 d1 OR push_bit 12 d2 OR push_bit 44 (d3 AND 0xFF))
        (drop_bit 8 d3 OR push_bit 24 (d4 AND 0xFFFFFFF))
        (drop_bit 28 d4 OR push_bit 4 d5 OR push_bit 36 (d6 AND 0xFFFF))
        (drop_bit 16 d6 OR push_bit 16 d7)"

definition ge_const_g :: ge where
  "ge_const_g = \<lparr>
     ge_x = fe_const 0x79BE667E 0xF9DCBBAC 0x55A06295 0xCE870B07 0x029BFCDB 0x2DCE28D9 0x59F2815B 0x16F81798,
     ge_y = fe_const 0x483ADA77 0x26A3C465 0x5DA4FBFC 0x0E1108A8 0xFD17B448 0xA6855419 0x9C47D08F 0xFB10D4B8,
     ge_infinity = False \<rparr>"

definition ge_const_g2 :: ge where
  "ge_const_g2 = \<lparr>
     ge_x = fe_const 0x50929b74 0xc1a04954 0xb78b4b60 0x35e97a5e 0x078a5a0f 0x28ec96d5 0x47bfee9a 0xce803ac0,
     ge_y = fe_const 0x31d3c686 0x3973926e 0x049e637c 0xb1b5f40a 0x36dac28a 0xf1766968 0xc30c2313 0xf3a38904,
     ge_infinity = False \<rparr>"

section \<open>Conversions and simple operations\<close>

definition ge_set_gej_zinv :: "gej \<Rightarrow> fe \<Rightarrow> ge" where
  "ge_set_gej_zinv a zi =
     (let zi2 = fe_sqr zi;
          zi3 = fe_mul zi2 zi
      in \<lparr> ge_x = fe_mul (gej_x a) zi2, ge_y = fe_mul (gej_y a) zi3, ge_infinity = gej_infinity a \<rparr>)"

definition ge_set_infinity :: "ge \<Rightarrow> ge" where
  "ge_set_infinity r = r\<lparr> ge_infinity := True \<rparr>"

definition ge_set_xy :: "fe \<Rightarrow> fe \<Rightarrow> ge" where
  "ge_set_xy x y = \<lparr> ge_x = x, ge_y = y, ge_infinity = False \<rparr>"

definition ge_is_infinity :: "ge \<Rightarrow> bool" where
  "ge_is_infinity a = ge_infinity a"

definition ge_neg :: "ge \<Rightarrow> ge" where
  "ge_neg a = a\<lparr> ge_y := fe_negate (fe_normalize_weak (ge_y a)) 1 \<rparr>"

text \<open>The conversions to affine coordinates also normalise their input to \<open>z = 1\<close>.\<close>

definition ge_set_gej :: "gej \<Rightarrow> ge \<times> gej" where
  "ge_set_gej a =
     (let z = fe_inv (gej_z a);
          z2 = fe_sqr z;
          z3 = fe_mul z z2;
          x = fe_mul (gej_x a) z2;
          y = fe_mul (gej_y a) z3
      in (\<lparr> ge_x = x, ge_y = y, ge_infinity = gej_infinity a \<rparr>,
          a\<lparr> gej_x := x, gej_y := y, gej_z := fe_set_int 1 \<rparr>))"

definition ge_set_gej_var :: "ge \<Rightarrow> gej \<Rightarrow> ge \<times> gej" where
  "ge_set_gej_var r a =
     (if gej_infinity a then (r\<lparr> ge_infinity := True \<rparr>, a)
      else
        (let z = fe_inv_var (gej_z a);
             z2 = fe_sqr z;
             z3 = fe_mul z z2;
             x = fe_mul (gej_x a) z2;
             y = fe_mul (gej_y a) z3
         in (\<lparr> ge_x = x, ge_y = y, ge_infinity = gej_infinity a \<rparr>,
             a\<lparr> gej_x := x, gej_y := y, gej_z := fe_set_int 1 \<rparr>)))"

text \<open>
  \<open>ge_set_all_gej_var\<close>: one batch inversion of the z coordinates of the finite points. The array
  the inverses go to comes from malloc; all its entries are written before they are read.
\<close>

fun set_all_loop :: "ge list \<Rightarrow> gej list \<Rightarrow> fe list \<Rightarrow> ge list" where
  "set_all_loop (r # rs) (a # as) azi =
     (if gej_infinity a then r\<lparr> ge_infinity := True \<rparr> # set_all_loop rs as azi
      else ge_set_gej_zinv a (hd azi) # set_all_loop rs as (tl azi))"
| "set_all_loop rs as azi = rs"

definition ge_set_all_gej_var :: "ge list \<Rightarrow> gej list \<Rightarrow> ge list" where
  "ge_set_all_gej_var r a =
     (let az = map gej_z (filter (\<lambda>p. \<not> gej_infinity p) a);
          azi = fe_inv_all_var (replicate (length az) fe_clear) az
      in set_all_loop r a azi)"

fun set_table_loop :: "gej list \<Rightarrow> fe list \<Rightarrow> ge list \<Rightarrow> fe \<Rightarrow> nat \<Rightarrow> ge list" where
  "set_table_loop a zr r zi 0 = r"
| "set_table_loop a zr r zi (Suc i) =
     (let zi = fe_mul zi (zr ! Suc i)
      in set_table_loop a zr (r[i := ge_set_gej_zinv (a ! i) zi]) zi i)"

definition ge_set_table_gej_var :: "ge list \<Rightarrow> gej list \<Rightarrow> fe list \<Rightarrow> ge list" where
  "ge_set_table_gej_var r a zr =
     (let len = length a
      in if len < 1 then r
         else
           (let i = len - 1;
                zi = fe_inv (gej_z (a ! i))
            in set_table_loop a zr (r[i := ge_set_gej_zinv (a ! i) zi]) zi i))"

text \<open>The first step of this loop leaves \<open>zs\<close> alone: \<open>hi\<close> is \<open>len - 1\<close>.\<close>

fun globalz_loop :: "gej list \<Rightarrow> fe list \<Rightarrow> nat \<Rightarrow> ge list \<Rightarrow> fe \<Rightarrow> nat \<Rightarrow> ge list" where
  "globalz_loop a zr hi r zs 0 = r"
| "globalz_loop a zr hi r zs (Suc i) =
     (let zs = (if Suc i \<noteq> hi then fe_mul zs (zr ! Suc i) else zs)
      in globalz_loop a zr hi (r[i := ge_set_gej_zinv (a ! i) zs]) zs i)"

definition ge_globalz_set_table_gej :: "ge list \<Rightarrow> fe \<Rightarrow> gej list \<Rightarrow> fe list \<Rightarrow> ge list \<times> fe" where
  "ge_globalz_set_table_gej r globalz a zr =
     (let len = length a
      in if len < 1 then (r, globalz)
         else
           (let i = len - 1;
                r = r[i := \<lparr> ge_x = gej_x (a ! i), ge_y = gej_y (a ! i), ge_infinity = False \<rparr>];
                globalz = gej_z (a ! i);
                zs = zr ! i
            in (globalz_loop a zr i r zs i, globalz)))"

definition gej_set_infinity :: gej where
  "gej_set_infinity = \<lparr> gej_x = fe_set_int 0, gej_y = fe_set_int 0, gej_z = fe_set_int 0, gej_infinity = True \<rparr>"

definition gej_set_xy :: "fe \<Rightarrow> fe \<Rightarrow> gej" where
  "gej_set_xy x y = \<lparr> gej_x = x, gej_y = y, gej_z = fe_set_int 1, gej_infinity = False \<rparr>"

definition gej_clear :: gej where
  "gej_clear = \<lparr> gej_x = fe_clear, gej_y = fe_clear, gej_z = fe_clear, gej_infinity = False \<rparr>"

definition ge_clear :: ge where
  "ge_clear = \<lparr> ge_x = fe_clear, ge_y = fe_clear, ge_infinity = False \<rparr>"

definition ge_set_xo_var :: "fe \<Rightarrow> bool \<Rightarrow> ge \<times> bool" where
  "ge_set_xo_var x odd_y =
     (let x2 = fe_sqr x;
          x3 = fe_mul x x2;
          c = fe_set_int 7;
          c = fe_add c x3;
          (y, ok) = fe_sqrt_var c
      in if \<not> ok then (\<lparr> ge_x = x, ge_y = y, ge_infinity = False \<rparr>, False)
         else
           (let y = fe_normalize_var y;
                y = (if fe_is_odd y \<noteq> odd_y then fe_negate y 1 else y)
            in (\<lparr> ge_x = x, ge_y = y, ge_infinity = False \<rparr>, True)))"

definition gej_set_ge :: "ge \<Rightarrow> gej" where
  "gej_set_ge a = \<lparr> gej_x = ge_x a, gej_y = ge_y a, gej_z = fe_set_int 1, gej_infinity = ge_infinity a \<rparr>"

definition gej_eq_x_var :: "fe \<Rightarrow> gej \<Rightarrow> bool" where
  "gej_eq_x_var x a =
     (let r = fe_sqr (gej_z a); r = fe_mul r x;
          r2 = gej_x a; r2 = fe_normalize_weak r2
      in fe_equal_var r r2)"

definition gej_neg :: "gej \<Rightarrow> gej" where
  "gej_neg a = a\<lparr> gej_y := fe_negate (fe_normalize_weak (gej_y a)) 1 \<rparr>"

definition gej_is_infinity :: "gej \<Rightarrow> bool" where
  "gej_is_infinity a = gej_infinity a"

definition gej_is_valid_var :: "gej \<Rightarrow> bool" where
  "gej_is_valid_var a =
     (if gej_infinity a then False
      else
        (let y2 = fe_sqr (gej_y a);
             x3 = fe_sqr (gej_x a); x3 = fe_mul x3 (gej_x a);
             z2 = fe_sqr (gej_z a);
             z6 = fe_sqr z2; z6 = fe_mul z6 z2;
             z6 = fe_mul_int z6 7;
             x3 = fe_add x3 z6;
             x3 = fe_normalize_weak x3
         in fe_equal_var y2 x3))"

definition ge_is_valid_var :: "ge \<Rightarrow> bool" where
  "ge_is_valid_var a =
     (if ge_infinity a then False
      else
        (let y2 = fe_sqr (ge_y a);
             x3 = fe_sqr (ge_x a); x3 = fe_mul x3 (ge_x a);
             c = fe_set_int 7;
             x3 = fe_add x3 c;
             x3 = fe_normalize_weak x3
         in fe_equal_var y2 x3))"

section \<open>Doubling and addition\<close>

definition gej_double_var :: "gej \<Rightarrow> gej \<Rightarrow> fe option \<Rightarrow> gej \<times> fe option" where
  "gej_double_var r a rzr =
     (if gej_infinity a then
        (r\<lparr> gej_infinity := True \<rparr>, map_option (\<lambda>_. fe_set_int 1) rzr)
      else
        (let rzr = map_option (\<lambda>_. fe_mul_int (fe_normalize_weak (gej_y a)) 2) rzr;
             rz = fe_mul (gej_z a) (gej_y a);
             rz = fe_mul_int rz 2;
             t1 = fe_sqr (gej_x a);
             t1 = fe_mul_int t1 3;
             t2 = fe_sqr t1;
             t3 = fe_sqr (gej_y a);
             t3 = fe_mul_int t3 2;
             t4 = fe_sqr t3;
             t4 = fe_mul_int t4 2;
             t3 = fe_mul t3 (gej_x a);
             rx = t3;
             rx = fe_mul_int rx 4;
             rx = fe_negate rx 4;
             rx = fe_add rx t2;
             t2 = fe_negate t2 1;
             t3 = fe_mul_int t3 6;
             t3 = fe_add t3 t2;
             ry = fe_mul t1 t3;
             t2 = fe_negate t4 2;
             ry = fe_add ry t2
         in (\<lparr> gej_x = rx, gej_y = ry, gej_z = rz, gej_infinity = False \<rparr>, rzr)))"

text \<open>
  The end of the three additions, from the differences \<open>h = u2 - u1\<close> and \<open>i = s2 - s1\<close>: the
  coordinates x and y of the sum.
\<close>

definition gej_add_xy :: "fe \<Rightarrow> fe \<Rightarrow> fe \<Rightarrow> fe \<Rightarrow> fe \<times> fe" where
  "gej_add_xy u1 s1 h i =
     (let i2 = fe_sqr i;
          h2 = fe_sqr h;
          h3 = fe_mul h h2;
          t = fe_mul u1 h2;
          rx = t; rx = fe_mul_int rx 2; rx = fe_add rx h3; rx = fe_negate rx 3; rx = fe_add rx i2;
          ry = fe_negate rx 5; ry = fe_add ry t; ry = fe_mul ry i;
          h3 = fe_mul h3 s1; h3 = fe_negate h3 1;
          ry = fe_add ry h3
      in (rx, ry))"

definition gej_add_var :: "gej \<Rightarrow> gej \<Rightarrow> gej \<Rightarrow> fe option \<Rightarrow> gej \<times> fe option" where
  "gej_add_var r a b rzr =
     (if gej_infinity a then (b, rzr)
      else if gej_infinity b then (a, map_option (\<lambda>_. fe_set_int 1) rzr)
      else
        (let r = r\<lparr> gej_infinity := False \<rparr>;
             z22 = fe_sqr (gej_z b);
             z12 = fe_sqr (gej_z a);
             u1 = fe_mul (gej_x a) z22;
             u2 = fe_mul (gej_x b) z12;
             s1 = fe_mul (gej_y a) z22; s1 = fe_mul s1 (gej_z b);
             s2 = fe_mul (gej_y b) z12; s2 = fe_mul s2 (gej_z a);
             h = fe_negate u1 1; h = fe_add h u2;
             i = fe_negate s1 1; i = fe_add i s2
         in if fe_normalizes_to_zero_var h then
              (if fe_normalizes_to_zero_var i then gej_double_var r a rzr
               else (r\<lparr> gej_infinity := True \<rparr>, map_option (\<lambda>_. fe_set_int 0) rzr))
            else
              (let hz = fe_mul h (gej_z b);
                   rzr = map_option (\<lambda>_. hz) rzr;
                   rz = fe_mul (gej_z a) hz;
                   (rx, ry) = gej_add_xy u1 s1 h i
               in (\<lparr> gej_x = rx, gej_y = ry, gej_z = rz, gej_infinity = False \<rparr>, rzr))))"

definition gej_add_ge_var :: "gej \<Rightarrow> gej \<Rightarrow> ge \<Rightarrow> fe option \<Rightarrow> gej \<times> fe option" where
  "gej_add_ge_var r a b rzr =
     (if gej_infinity a then (gej_set_ge b, rzr)
      else if ge_infinity b then (a, map_option (\<lambda>_. fe_set_int 1) rzr)
      else
        (let r = r\<lparr> gej_infinity := False \<rparr>;
             z12 = fe_sqr (gej_z a);
             u1 = gej_x a; u1 = fe_normalize_weak u1;
             u2 = fe_mul (ge_x b) z12;
             s1 = gej_y a; s1 = fe_normalize_weak s1;
             s2 = fe_mul (ge_y b) z12; s2 = fe_mul s2 (gej_z a);
             h = fe_negate u1 1; h = fe_add h u2;
             i = fe_negate s1 1; i = fe_add i s2
         in if fe_normalizes_to_zero_var h then
              (if fe_normalizes_to_zero_var i then gej_double_var r a rzr
               else (r\<lparr> gej_infinity := True \<rparr>, map_option (\<lambda>_. fe_set_int 0) rzr))
            else
              (let rzr = map_option (\<lambda>_. h) rzr;
                   rz = fe_mul (gej_z a) h;
                   (rx, ry) = gej_add_xy u1 s1 h i
               in (\<lparr> gej_x = rx, gej_y = ry, gej_z = rz, gej_infinity = False \<rparr>, rzr))))"

definition gej_add_zinv_var :: "gej \<Rightarrow> gej \<Rightarrow> ge \<Rightarrow> fe \<Rightarrow> gej" where
  "gej_add_zinv_var r a b bzinv =
     (if ge_infinity b then a
      else if gej_infinity a then
        (let bzinv2 = fe_sqr bzinv;
             bzinv3 = fe_mul bzinv2 bzinv
         in \<lparr> gej_x = fe_mul (ge_x b) bzinv2, gej_y = fe_mul (ge_y b) bzinv3, gej_z = fe_set_int 1,
              gej_infinity = ge_infinity b \<rparr>)
      else
        (let r = r\<lparr> gej_infinity := False \<rparr>;
             az = fe_mul (gej_z a) bzinv;
             z12 = fe_sqr az;
             u1 = gej_x a; u1 = fe_normalize_weak u1;
             u2 = fe_mul (ge_x b) z12;
             s1 = gej_y a; s1 = fe_normalize_weak s1;
             s2 = fe_mul (ge_y b) z12; s2 = fe_mul s2 az;
             h = fe_negate u1 1; h = fe_add h u2;
             i = fe_negate s1 1; i = fe_add i s2
         in if fe_normalizes_to_zero_var h then
              (if fe_normalizes_to_zero_var i then fst (gej_double_var r a None)
               else r\<lparr> gej_infinity := True \<rparr>)
            else
              (let rz = gej_z a; rz = fe_mul rz h;
                   (rx, ry) = gej_add_xy u1 s1 h i
               in \<lparr> gej_x = rx, gej_y = ry, gej_z = rz, gej_infinity = False \<rparr>)))"

text \<open>\<open>1 - a->infinity\<close>, the factor that clears the coordinates when \<open>a\<close> is infinity.\<close>

definition gej_add_ge :: "gej \<Rightarrow> ge \<Rightarrow> gej" where
  "gej_add_ge a b =
     (let fe_1 = fe_const 0 0 0 0 0 0 0 1;
          zz = fe_sqr (gej_z a);
          u1 = gej_x a; u1 = fe_normalize_weak u1;
          u2 = fe_mul (ge_x b) zz;
          s1 = gej_y a; s1 = fe_normalize_weak s1;
          s2 = fe_mul (ge_y b) zz;
          s2 = fe_mul s2 (gej_z a);
          z = gej_z a;
          t = u1; t = fe_add t u2;
          m = s1; m = fe_add m s2;
          n = fe_sqr m;
          q = fe_mul n t;
          n = fe_sqr n;
          rr = fe_sqr t;
          t = fe_mul u1 u2; t = fe_negate t 1;
          rr = fe_add rr t;
          t = fe_sqr rr;
          rz = fe_mul m z;
          infinity = (fe_normalizes_to_zero rz \<and> \<not> gej_infinity a);
          rz = fe_mul_int rz (2 * (1 - flag (gej_infinity a)));
          rx = t;
          q = fe_negate q 1;
          rx = fe_add rx q;
          rx = fe_normalize rx;
          q = fe_mul_int q 3;
          t = fe_mul_int t 2;
          t = fe_add t q;
          t = fe_mul t rr;
          t = fe_add t n;
          ry = fe_negate t 2;
          ry = fe_normalize_weak ry;
          rx = fe_mul_int rx (4 * (1 - flag (gej_infinity a)));
          ry = fe_mul_int ry (4 * (1 - flag (gej_infinity a)));
          rx = fe_cmov rx (ge_x b) (gej_infinity a);
          ry = fe_cmov ry (ge_y b) (gej_infinity a);
          rz = fe_cmov rz fe_1 (gej_infinity a)
      in \<lparr> gej_x = rx, gej_y = ry, gej_z = rz, gej_infinity = infinity \<rparr>)"

section \<open>Rescaling, storage and the endomorphism\<close>

definition gej_rescale :: "gej \<Rightarrow> fe \<Rightarrow> gej" where
  "gej_rescale r s =
     (let zz = fe_sqr s;
          rx = fe_mul (gej_x r) zz;
          ry = fe_mul (gej_y r) zz;
          ry = fe_mul ry s;
          rz = fe_mul (gej_z r) s
      in r\<lparr> gej_x := rx, gej_y := ry, gej_z := rz \<rparr>)"

definition ge_to_storage :: "ge \<Rightarrow> ge_storage" where
  "ge_to_storage a =
     (let x = ge_x a;
          x = fe_normalize x;
          y = ge_y a;
          y = fe_normalize y
      in \<lparr> st_x = fe_to_storage x, st_y = fe_to_storage y \<rparr>)"

definition ge_from_storage :: "ge_storage \<Rightarrow> ge" where
  "ge_from_storage a = \<lparr> ge_x = fe_from_storage (st_x a), ge_y = fe_from_storage (st_y a), ge_infinity = False \<rparr>"

definition ge_storage_cmov :: "ge_storage \<Rightarrow> ge_storage \<Rightarrow> bool \<Rightarrow> ge_storage" where
  "ge_storage_cmov r a fl = \<lparr> st_x = fe_storage_cmov (st_x r) (st_x a) fl, st_y = fe_storage_cmov (st_y r) (st_y a) fl \<rparr>"

definition beta :: fe where
  "beta = fe_const 0x7ae96a2b 0x657c0710 0x6e64479e 0xac3434e9 0x9cf04975 0x12f58995 0xc1396c28 0x719501ee"

definition ge_mul_lambda :: "ge \<Rightarrow> ge" where
  "ge_mul_lambda a = a\<lparr> ge_x := fe_mul (ge_x a) beta \<rparr>"

end
