(* ===== verification/Curve.thy ===== *)
theory Curve
  imports Field_Spec
begin

text \<open>
  The specification of the group of secp256k1 (SEC 1, section 2.2.1, with a = 0 and b = 7): points
  with integer coordinates modulo p, and addition as a relation given by the slope of the chord or
  the tangent. Differences in a denominator are required to be coprime to p, which for the prime p
  is the same as not being 0 modulo p.
\<close>

datatype point = Infinity | Affine int int

primrec on_curve :: "point \<Rightarrow> bool" where
  "on_curve Infinity = True"
| "on_curve (Affine x y) = (y * y mod fe_p = (x * x * x + 7) mod fe_p)"

text \<open>The third point of the curve on the line through \<open>(x1, y1)\<close> with slope \<open>l\<close>, reflected.\<close>

definition third_point :: "int \<Rightarrow> int \<Rightarrow> int \<Rightarrow> int \<Rightarrow> point" where
  "third_point l x1 y1 x2 = (let x3 = l * l - x1 - x2 in Affine x3 (l * (x1 - x3) - y1))"

inductive ec_add :: "point \<Rightarrow> point \<Rightarrow> point \<Rightarrow> bool" where
  zero_left: "ec_add Infinity Q Q"
| zero_right: "ec_add P Infinity P"
| opposite: "x1 mod fe_p = x2 mod fe_p \<Longrightarrow> (y1 + y2) mod fe_p = 0 \<Longrightarrow> coprime (2 * y1) fe_p \<Longrightarrow>
    ec_add (Affine x1 y1) (Affine x2 y2) Infinity"
| tangent: "x1 mod fe_p = x2 mod fe_p \<Longrightarrow> y1 mod fe_p = y2 mod fe_p \<Longrightarrow> coprime (2 * y1) fe_p \<Longrightarrow>
    l * (2 * y1) mod fe_p = 3 * x1 * x1 mod fe_p \<Longrightarrow>
    ec_add (Affine x1 y1) (Affine x2 y2) (third_point l x1 y1 x1)"
| chord: "coprime (x2 - x1) fe_p \<Longrightarrow> l * (x2 - x1) mod fe_p = (y2 - y1) mod fe_p \<Longrightarrow>
    ec_add (Affine x1 y1) (Affine x2 y2) (third_point l x1 y1 x2)"

inductive_cases ec_add_infinityE: "ec_add Infinity Q R" "ec_add P Infinity R"

lemma ec_add_infinity [simp]: "ec_add Infinity Q R \<longleftrightarrow> R = Q" "ec_add P Infinity R \<longleftrightarrow> R = P"
  by (auto elim: ec_add_infinityE intro: ec_add.intros)

section \<open>Closure\<close>

text \<open>
  A line of slope \<open>l\<close> through \<open>(x1, y1)\<close> meets the curve where \<open>x\<close> is a root of a cubic. Once the
  quadratic that is left after dividing by \<open>x - x1\<close> vanishes at \<open>x2\<close>, the third root is on the curve.
\<close>

lemma third_point_on_curve:
  assumes "on_curve (Affine x1 y1)" "fe_p dvd x2 * x2 + x2 * x1 + x1 * x1 - l * l * (x2 - x1) - 2 * l * y1"
  shows "on_curve (third_point l x1 y1 x2)"
proof -
  define x3 where "x3 = l * l - x1 - x2"
  define g where "g = x2 * x2 + x2 * x1 + x1 * x1 - l * l * (x2 - x1) - 2 * l * y1"
  have c: "fe_p dvd y1 * y1 - (x1 * x1 * x1 + 7)" using assms(1) by (simp add: mod_eq_dvd_iff)
  have "(l * (x1 - x3) - y1) * (l * (x1 - x3) - y1) - (x3 * x3 * x3 + 7) = (y1 * y1 - (x1 * x1 * x1 + 7)) - (x3 - x1) * g"
    unfolding g_def x3_def by algebra
  moreover have "fe_p dvd (x3 - x1) * g" using assms(2) by (simp add: g_def)
  ultimately have "fe_p dvd (l * (x1 - x3) - y1) * (l * (x1 - x3) - y1) - (x3 * x3 * x3 + 7)"
    using c by (simp only: dvd_diff)
  then show ?thesis by (simp add: third_point_def x3_def Let_def mod_eq_dvd_iff)
qed

lemma ec_add_on_curve:
  assumes "ec_add P Q R" "on_curve P" "on_curve Q"
  shows "on_curve R"
  using assms
proof cases
  case (tangent x1 x2 y1 y2 l)
  have "fe_p dvd 3 * x1 * x1 - l * (2 * y1)" using tangent(7)[symmetric] by (simp only: mod_eq_dvd_iff)
  moreover have "3 * x1 * x1 - l * (2 * y1) = x1 * x1 + x1 * x1 + x1 * x1 - l * l * (x1 - x1) - 2 * l * y1" by algebra
  ultimately have "on_curve (third_point l x1 y1 x1)"
    using assms(2) tangent(1) by (intro third_point_on_curve) simp_all
  then show ?thesis by (simp add: tangent(3))
next
  case (chord x2 x1 l y2 y1)
  define d where "d = x2 - x1"
  define g where "g = x2 * x2 + x2 * x1 + x1 * x1 - l * l * (x2 - x1) - 2 * l * y1"
  have 1: "fe_p dvd y1 * y1 - (x1 * x1 * x1 + 7)" "fe_p dvd y2 * y2 - (x2 * x2 * x2 + 7)"
    using assms(2,3) chord(1,2) by (simp_all add: mod_eq_dvd_iff)
  have 2: "fe_p dvd l * d - (y2 - y1)" using chord(5) by (simp add: mod_eq_dvd_iff d_def)
  have "g * d = (y1 * y1 - (x1 * x1 * x1 + 7)) - (y2 * y2 - (x2 * x2 * x2 + 7)) - (l * d - (y2 - y1)) * (l * d + y1 + y2)"
    unfolding g_def d_def by algebra
  moreover have "fe_p dvd \<dots>" using 1 2 by (simp only: dvd_diff dvd_mult2)
  ultimately have "fe_p dvd g * d" by simp
  moreover have "coprime fe_p d" using chord(4) by (simp add: d_def coprime_commute)
  ultimately have "fe_p dvd g" by (simp add: coprime_dvd_mult_left_iff)
  with chord(1,3) assms(2) show ?thesis by (auto intro: third_point_on_curve simp: g_def)
qed simp_all

text \<open>
  On the curve, the slope of the chord also is the quotient that the unified formula of the
  constant-time addition uses, \<open>((x1 + x2)^2 - x1 x2) / (y1 + y2)\<close>.
\<close>

lemma unified_slope:
  assumes "on_curve (Affine x1 y1)" "on_curve (Affine x2 y2)" "coprime (x2 - x1) fe_p"
    "l * (x2 - x1) mod fe_p = (y2 - y1) mod fe_p"
  shows "l * (y1 + y2) mod fe_p = ((x1 + x2) * (x1 + x2) - x1 * x2) mod fe_p"
proof -
  define d where "d = x2 - x1"
  have 1: "fe_p dvd y1 * y1 - (x1 * x1 * x1 + 7)" "fe_p dvd y2 * y2 - (x2 * x2 * x2 + 7)"
    using assms(1,2) by (simp_all add: mod_eq_dvd_iff)
  have 2: "fe_p dvd l * d - (y2 - y1)" using assms(4) by (simp add: mod_eq_dvd_iff d_def)
  have "(l * (y1 + y2) - ((x1 + x2) * (x1 + x2) - x1 * x2)) * d
    = (l * d - (y2 - y1)) * (y1 + y2) + (y2 * y2 - (x2 * x2 * x2 + 7)) - (y1 * y1 - (x1 * x1 * x1 + 7))"
    unfolding d_def by algebra
  moreover have "fe_p dvd \<dots>" using 1 2 by (simp only: dvd_diff dvd_add dvd_mult2)
  ultimately have "fe_p dvd (l * (y1 + y2) - ((x1 + x2) * (x1 + x2) - x1 * x2)) * d" by simp
  moreover have "coprime fe_p d" using assms(3) by (simp add: d_def coprime_commute)
  ultimately show ?thesis by (simp add: coprime_dvd_mult_left_iff mod_eq_dvd_iff)
qed

text \<open>A slope exists as soon as its denominator is invertible.\<close>

lemma slope_exists:
  assumes "coprime d fe_p"
  shows "\<exists>l. l * d mod fe_p = e mod fe_p"
proof -
  obtain u v where "u * d + v * fe_p = 1"
    using assms by (metis bezout_int coprime_iff_gcd_eq_1)
  then have "e * u * d + e * v * fe_p = e" by algebra
  then have "e * u * d mod fe_p = e mod fe_p" by (metis mod_mult_self1)
  then show ?thesis by blast
qed

end
