(* ===== verification/Group_Spec.thy ===== *)
theory Group_Spec
  imports Group Curve
begin

text \<open>
  What the group operations compute. \<open>fe_is m x v\<close> says that the element \<open>x\<close> has magnitude at most
  \<open>m\<close> and stands for the integer \<open>v\<close> modulo p; the collection \<open>fe_calc\<close> holds one rule per field
  operation, so that the values and magnitudes of a whole formula are found by resolution.
\<close>

named_theorems fe_calc

section \<open>Calculating with magnitudes and values\<close>

definition fe_is :: "nat \<Rightarrow> fe \<Rightarrow> int \<Rightarrow> bool" where
  "fe_is m x v \<longleftrightarrow> fe_verify_magnitude m x \<and> fe_val x mod fe_p = v mod fe_p"

lemma fe_is_weaken: "fe_is m x v \<Longrightarrow> m \<le> n \<Longrightarrow> n \<le> 2048 \<Longrightarrow> v mod fe_p = w mod fe_p \<Longrightarrow> fe_is n x w"
  unfolding fe_is_def using fe_magnitude_mono by metis

lemma fe_is_eq: "fe_is m x v \<Longrightarrow> m = n \<Longrightarrow> v = w \<Longrightarrow> fe_is n x w"
  by simp

lemma fe_is_self: "fe_verify_magnitude m x \<Longrightarrow> fe_is m x (fe_val x)"
  by (simp add: fe_is_def)

lemma fe_is_magnitude: "fe_is m x v \<Longrightarrow> fe_verify_magnitude m x"
  by (simp add: fe_is_def)

lemma fe_is_mod: "fe_is m x v \<Longrightarrow> fe_val x mod fe_p = v mod fe_p"
  by (simp add: fe_is_def)

lemma fe_is_mul [fe_calc]:
  assumes "fe_is m a v" "fe_is n b w" "m \<le> 8" "n \<le> 8"
  shows "fe_is 1 (fe_mul a b) (v * w)"
proof -
  have "fe_verify_magnitude 8 a" "fe_verify_magnitude 8 b"
    using assms by (auto intro: fe_magnitude_mono fe_is_magnitude)
  note s = fe_mul_spec[OF this]
  have "fe_val a * fe_val b mod fe_p = v * w mod fe_p"
    using assms(1,2) by (intro mod_mult_cong) (simp_all add: fe_is_def)
  with s show ?thesis by (simp add: fe_is_def)
qed

lemma fe_is_sqr [fe_calc]: "fe_is m a v \<Longrightarrow> m \<le> 8 \<Longrightarrow> fe_is 1 (fe_sqr a) (v * v)"
proof -
  assume a: "fe_is m a v" "m \<le> 8"
  then have m: "fe_verify_magnitude 8 a" by (auto intro: fe_magnitude_mono fe_is_magnitude)
  have "fe_val a * fe_val a mod fe_p = v * v mod fe_p"
    using a(1) by (intro mod_mult_cong) (simp_all add: fe_is_def)
  with fe_sqr_spec[OF m] show ?thesis by (simp add: fe_is_def)
qed

lemma fe_is_add [fe_calc]:
  assumes "fe_is m a v" "fe_is n b w" "m + n \<le> 2048"
  shows "fe_is (m + n) (fe_add a b) (v + w)"
proof -
  note s = fe_add_spec[OF fe_is_magnitude[OF assms(1)] fe_is_magnitude[OF assms(2)] assms(3)]
  have "(fe_val a + fe_val b) mod fe_p = (v + w) mod fe_p"
    using assms(1,2) by (intro mod_add_cong) (simp_all add: fe_is_def)
  with s show ?thesis by (simp add: fe_is_def)
qed

lemma fe_is_negate [fe_calc]:
  assumes "fe_is m a v" "int m \<le> uint n" "uint n \<le> 2046"
  shows "fe_is (unat n + 1) (fe_negate a n) (- v)"
proof -
  note s = fe_negate_spec[OF fe_is_magnitude[OF assms(1)] assms(2,3)]
  have "fe_val (fe_negate a n) mod fe_p = (- fe_val a) mod fe_p" unfolding s(2)
    by (metis diff_conv_add_uminus add.commute mod_mult_self1)
  also have "\<dots> = (- v) mod fe_p" using fe_is_mod[OF assms(1)] by (metis mod_minus_eq)
  finally show ?thesis using s(1) by (simp add: fe_is_def)
qed

lemma fe_is_mul_int [fe_calc]:
  assumes "fe_is m a v" "int m * uint n \<le> 2048" "uint n \<le> 2048" "uint n = k"
  shows "fe_is (m * unat n) (fe_mul_int a n) (v * k)"
proof -
  note s = fe_mul_int_spec[OF fe_is_magnitude[OF assms(1)] assms(2,3)]
  have "fe_val a * uint n mod fe_p = v * uint n mod fe_p"
    using assms(1) by (intro mod_mult_cong) (simp_all add: fe_is_def)
  with s assms(4) show ?thesis by (simp add: fe_is_def)
qed

lemma fe_is_normalize_weak [fe_calc]:
  assumes "fe_is m a v" "m \<le> 2047"
  shows "fe_is 1 (fe_normalize_weak a) v"
proof -
  from fe_first_pass_spec[OF fe_is_magnitude[OF assms(1)] assms(2)] obtain r0 r1 r2 r3 r4 k where
    r: "fe_first_pass a = Fe r0 r1 r2 r3 r4" "uint r0 \<le> 4503599627370495" "uint r1 \<le> 4503599627370495"
    "uint r2 \<le> 4503599627370495" "uint r3 \<le> 4503599627370495" "uint r4 \<le> 281474976714750"
    "fe_val a = fe_val (Fe r0 r1 r2 r3 r4) + fe_p * k" by blast
  then have "fe_verify_magnitude 1 (fe_normalize_weak a)"
    by (simp add: fe_normalize_weak_def fe_verify_magnitude_within)
  moreover have "fe_val (fe_normalize_weak a) mod fe_p = fe_val a mod fe_p"
    unfolding fe_normalize_weak_def r(7) r(1) mod_mult_self2 ..
  ultimately show ?thesis using assms(1) by (simp add: fe_is_def)
qed

lemma fe_verify_normalized_magnitude: "fe_verify_normalized a \<Longrightarrow> fe_verify_magnitude 1 a"
  by (cases a) (auto simp: fe_verify_magnitude_within fe_verify_normalized_iff)

lemma fe_is_normalize [fe_calc]:
  assumes "fe_is m a v" "m \<le> 2047"
  shows "fe_is 1 (fe_normalize a) v"
  using fe_verify_normalized_magnitude[OF fe_normalize_spec(1)[OF fe_is_magnitude[OF assms(1)] assms(2)]]
    fe_normalize_spec(2)[OF fe_is_magnitude[OF assms(1)] assms(2)] fe_is_mod[OF assms(1)]
  by (simp only: fe_is_def mod_mod_trivial)

lemma fe_is_set_int [fe_calc]: "uint n < 2 ^ 31 \<Longrightarrow> fe_is 1 (fe_set_int n) (uint n)"
  by (simp add: fe_is_def fe_set_int_def fe_verify_magnitude_within scast_small)

lemma fe_is_zero_var: "fe_is m a v \<Longrightarrow> m \<le> 2047 \<Longrightarrow> fe_normalizes_to_zero_var a \<longleftrightarrow> v mod fe_p = 0"
  unfolding fe_normalizes_to_zero_var_eq fe_is_def using fe_normalizes_to_zero_iff by metis

lemma fe_is_equal_var:
  assumes "fe_is 1 a v" "fe_is n b w" "n \<le> 2045"
  shows "fe_equal_var a b \<longleftrightarrow> v mod fe_p = w mod fe_p"
  using fe_sub_zero_iff[of a n b] assms by (simp add: fe_is_def fe_equal_var_def)

text \<open>
  The formulas of the code, as polynomials in the coordinates of the inputs; no equation of the
  curve is needed.
\<close>

lemma gej_double_values:
  assumes "fe_is 8 (gej_x a) X" "fe_is 8 (gej_y a) Y" "fe_is 8 (gej_z a) Z" "\<not> gej_infinity a"
  shows "fe_is 6 (gej_x (fst (gej_double_var r a rzr))) (9 * (X * X) * (X * X) - 8 * X * (Y * Y))"
    "fe_is 4 (gej_y (fst (gej_double_var r a rzr)))
       (36 * (X * X * X) * (Y * Y) - 27 * (X * X * X) * (X * X * X) - 8 * (Y * Y) * (Y * Y))"
    "fe_is 2 (gej_z (fst (gej_double_var r a rzr))) (2 * Y * Z)"
    "\<not> gej_infinity (fst (gej_double_var r a rzr))"
  using assms(4) unfolding gej_double_var_def
     apply (simp_all add: Let_def)
    apply (rule fe_is_eq, (rule fe_calc assms | (simp; fail))+, (simp add: algebra_simps)?)+
  done

lemma gej_add_xy_values:
  assumes "fe_is 1 u1 U" "fe_is 1 s1 S" "fe_is 3 h H" "fe_is 3 i I"
  shows "fe_is 5 (fst (gej_add_xy u1 s1 h i)) (I * I - H * H * H - 2 * U * (H * H))"
    "fe_is 3 (snd (gej_add_xy u1 s1 h i)) (I * (U * (H * H) - (I * I - H * H * H - 2 * U * (H * H))) - S * (H * H * H))"
  unfolding gej_add_xy_def
   apply (simp_all add: Let_def)
   apply (rule fe_is_eq, (rule fe_calc assms | (simp; fail))+, (simp add: algebra_simps)?)+
  done

section \<open>Points in jacobian coordinates\<close>

text \<open>
  \<open>gej_at a x y z\<close>: the coordinates of \<open>a\<close> have magnitude at most 8, the largest the field
  multiplication allows, and stand for \<open>x z^2\<close>, \<open>y z^3\<close> and an invertible \<open>z\<close>.
\<close>

definition gej_at :: "gej \<Rightarrow> int \<Rightarrow> int \<Rightarrow> int \<Rightarrow> bool" where
  "gej_at a x y z \<longleftrightarrow> \<not> gej_infinity a \<and> coprime z fe_p \<and>
     fe_is 8 (gej_x a) (x * (z * z)) \<and> fe_is 8 (gej_y a) (y * (z * z * z)) \<and> fe_is 8 (gej_z a) z"

primrec gej_represents :: "gej \<Rightarrow> point \<Rightarrow> bool" where
  "gej_represents a Infinity = gej_infinity a"
| "gej_represents a (Affine x y) = (\<exists>z. gej_at a x y z)"

primrec ge_represents :: "ge \<Rightarrow> point \<Rightarrow> bool" where
  "ge_represents a Infinity = ge_infinity a"
| "ge_represents a (Affine x y) = (\<not> ge_infinity a \<and> fe_is 8 (ge_x a) x \<and> fe_is 8 (ge_y a) y)"

lemma gej_atI:
  assumes "fe_is k (gej_x a) X" "fe_is m (gej_y a) Y" "fe_is n (gej_z a) z" "k \<le> 8" "m \<le> 8" "n \<le> 8"
    "fe_p dvd X - x * (z * z)" "fe_p dvd Y - y * (z * z * z)" "\<not> gej_infinity a" "coprime z fe_p"
  shows "gej_at a x y z"
  unfolding gej_at_def using assms by (auto simp: mod_eq_dvd_iff elim!: fe_is_weaken)

lemma gej_at_fields:
  assumes "gej_at a x y z"
  shows "fe_is 8 (gej_x a) (x * (z * z))" "fe_is 8 (gej_y a) (y * (z * z * z))" "fe_is 8 (gej_z a) z"
    "\<not> gej_infinity a" "coprime z fe_p" "coprime fe_p z"
  using assms by (simp_all add: gej_at_def coprime_commute)

lemma gej_double_at:
  assumes "gej_at a x y z" "l * (2 * y) mod fe_p = 3 * x * x mod fe_p" "coprime (2 * y) fe_p"
  shows "gej_represents (fst (gej_double_var r a rzr)) (third_point l x y x)"
proof -
  note a = gej_at_fields[OF assms(1)]
  note v = gej_double_values[OF a(1,2,3,4), of r rzr]
  define x3 where "x3 = l * l - x - x"
  define y3 where "y3 = l * (x - x3) - y"
  define Z where "Z = 2 * (y * (z * z * z)) * z"
  define w where "w = l * (2 * y) - 3 * x * x"
  have w: "fe_p dvd w" using assms(2) by (simp only: mod_eq_dvd_iff w_def)
  have "9 * (x * (z * z) * (x * (z * z))) * (x * (z * z) * (x * (z * z))) - 8 * (x * (z * z)) * (y * (z * z * z) * (y * (z * z * z)))
      - x3 * (Z * Z) = w * (- (z * z * z * z * z * z * z * z) * (l * (2 * y) + 3 * x * x))"
    unfolding x3_def Z_def w_def by algebra
  moreover have "36 * (x * (z * z) * (x * (z * z)) * (x * (z * z))) * (y * (z * z * z) * (y * (z * z * z)))
      - 27 * (x * (z * z) * (x * (z * z)) * (x * (z * z))) * (x * (z * z) * (x * (z * z)) * (x * (z * z)))
      - 8 * (y * (z * z * z) * (y * (z * z * z))) * (y * (z * z * z) * (y * (z * z * z)))
      - y3 * (Z * Z * Z)
    = w * ((z * z * z * z) * (z * z * z * z) * (z * z * z * z)
        * ((3 * x * x) * (3 * x * x) + (3 * x * x) * (l * (2 * y)) + (l * (2 * y)) * (l * (2 * y)) - 12 * x * y * y))"
    unfolding y3_def x3_def Z_def w_def by algebra
  moreover have "coprime Z fe_p" using a(5) assms(3) by (simp add: Z_def)
  ultimately have "gej_at (fst (gej_double_var r a rzr)) x3 y3 Z"
    using v(1,2,3,4) w by (intro gej_atI[OF v(1) v(2) v(3)[folded Z_def]]) (simp_all only: dvd_mult2, simp_all)
  then show ?thesis by (auto simp: third_point_def Let_def x3_def y3_def)
qed

lemma gej_add_xy_chord:
  assumes "fe_is 1 u1 (x1 * (Z * Z))" "fe_is 1 s1 (y1 * (Z * Z * Z))" "fe_is 3 h ((x2 - x1) * (Z * Z))"
    "fe_is 3 i ((y2 - y1) * (Z * Z * Z))" "l * (x2 - x1) mod fe_p = (y2 - y1) mod fe_p"
  defines "Z3 \<equiv> (x2 - x1) * (Z * Z) * Z"
  shows "fe_is 5 (fst (gej_add_xy u1 s1 h i)) ((l * l - x1 - x2) * (Z3 * Z3))"
    "fe_is 3 (snd (gej_add_xy u1 s1 h i)) ((l * (x1 - (l * l - x1 - x2)) - y1) * (Z3 * Z3 * Z3))"
proof -
  have "(y2 - y1) * (Z * Z * Z) mod fe_p = l * (x2 - x1) * (Z * Z * Z) mod fe_p"
    using assms(5) by (intro mod_mult_cong) simp_all
  then have i: "fe_is 3 i (l * (x2 - x1) * (Z * Z * Z))" by (intro fe_is_weaken[OF assms(4)]) simp_all
  note v = gej_add_xy_values[OF assms(1-3) i]
  show "fe_is 5 (fst (gej_add_xy u1 s1 h i)) ((l * l - x1 - x2) * (Z3 * Z3))"
    by (rule fe_is_eq[OF v(1)]) (simp, unfold Z3_def, algebra)
  show "fe_is 3 (snd (gej_add_xy u1 s1 h i)) ((l * (x1 - (l * l - x1 - x2)) - y1) * (Z3 * Z3 * Z3))"
    by (rule fe_is_eq[OF v(2)]) (simp, unfold Z3_def, algebra)
qed

section \<open>The branches of the additions\<close>

text \<open>
  The code compares by \<open>h = u2 - u1\<close> and \<open>i = s2 - s1\<close>; scaled by an invertible \<open>Z\<close>, they vanish
  exactly when the coordinates agree.
\<close>

lemma unit_mult_zero:
  assumes "coprime Z fe_p"
  shows "d * (Z * Z) mod fe_p = 0 \<longleftrightarrow> d mod fe_p = 0" "d * (Z * Z * Z) mod fe_p = 0 \<longleftrightarrow> d mod fe_p = 0"
proof -
  have "coprime fe_p (Z * Z)" "coprime fe_p (Z * Z * Z)" using assms by (simp_all add: coprime_commute)
  then show "d * (Z * Z) mod fe_p = 0 \<longleftrightarrow> d mod fe_p = 0" "d * (Z * Z * Z) mod fe_p = 0 \<longleftrightarrow> d mod fe_p = 0"
    by (simp_all only: mod_0_imp_dvd coprime_dvd_mult_left_iff flip: dvd_eq_mod_eq_0)
qed

lemma diff_mod_zero: "(b - a) mod fe_p = 0 \<longleftrightarrow> a mod fe_p = b mod fe_p" for a b :: int
  by (metis mod_eq_dvd_iff dvd_eq_mod_eq_0)

lemma coprime_mod_zero: "coprime d fe_p \<Longrightarrow> d mod fe_p \<noteq> 0"
proof
  assume "coprime d fe_p" "d mod fe_p = 0"
  then have "is_unit fe_p" by (metis coprime_common_divisor dvd_eq_mod_eq_0 dvd_refl)
  then show False by (simp add: fe_p_def)
qed

text \<open>
  The part that the additions of two finite points share: \<open>h\<close> and \<open>i\<close> are the scaled differences,
  \<open>dbl\<close> is the doubling, \<open>cancelled\<close> the point at infinity and \<open>general\<close> the result from the formula.
\<close>

lemma add_branches:
  assumes "ec_add (Affine x1 y1) (Affine x2 y2) R" "coprime Z fe_p"
    "fe_is 3 h ((x2 - x1) * (Z * Z))" "fe_is 3 i ((y2 - y1) * (Z * Z * Z))"
    and tangent: "\<And>l. x1 mod fe_p = x2 mod fe_p \<Longrightarrow> y1 mod fe_p = y2 mod fe_p \<Longrightarrow> coprime (2 * y1) fe_p \<Longrightarrow>
      l * (2 * y1) mod fe_p = 3 * x1 * x1 mod fe_p \<Longrightarrow> gej_represents dbl (third_point l x1 y1 x1)"
    and opposite: "gej_infinity cancelled"
    and chord: "\<And>l. coprime (x2 - x1) fe_p \<Longrightarrow> l * (x2 - x1) mod fe_p = (y2 - y1) mod fe_p \<Longrightarrow>
      gej_represents general (third_point l x1 y1 x2)"
  shows "gej_represents (if fe_normalizes_to_zero_var h then (if fe_normalizes_to_zero_var i then dbl else cancelled) else general) R"
proof -
  have h: "fe_normalizes_to_zero_var h \<longleftrightarrow> x1 mod fe_p = x2 mod fe_p"
    using fe_is_zero_var[OF assms(3)] by (simp add: unit_mult_zero[OF assms(2)] diff_mod_zero)
  have i: "fe_normalizes_to_zero_var i \<longleftrightarrow> y1 mod fe_p = y2 mod fe_p"
    using fe_is_zero_var[OF assms(4)] by (simp add: unit_mult_zero[OF assms(2)] diff_mod_zero)
  from assms(1) show ?thesis
  proof cases
    case opposite
    have "(2 * y1) mod fe_p \<noteq> 0" using opposite by (intro coprime_mod_zero) simp_all
    moreover have "2 * y1 = (y1 + y2) - (y2 - y1)" by simp
    ultimately have "(y2 - y1) mod fe_p \<noteq> 0" using opposite by (metis dvd_diff dvd_eq_mod_eq_0)
    then have "y1 mod fe_p \<noteq> y2 mod fe_p" by (simp add: diff_mod_zero)
    then show ?thesis using h i opposite assms(6) by simp
  next
    case (tangent l)
    then show ?thesis using h i assms(5) by simp
  next
    case (chord l)
    have "x1 mod fe_p \<noteq> x2 mod fe_p" using chord coprime_mod_zero[of "x2 - x1"] by (simp add: diff_mod_zero)
    then show ?thesis using h chord assms(7) by simp
  qed
qed

section \<open>Membership in the curve\<close>

lemma ge_is_valid_var_iff:
  assumes "ge_represents a P"
  shows "ge_is_valid_var a \<longleftrightarrow> P \<noteq> Infinity \<and> on_curve P"
proof (cases P)
  case (Affine x y)
  then have a: "\<not> ge_infinity a" "fe_is 8 (ge_x a) x" "fe_is 8 (ge_y a) y" using assms by simp_all
  have "fe_is 1 (fe_sqr (ge_y a)) (y * y)" by (rule fe_is_eq, (rule a fe_calc | (simp; fail))+)
  moreover have "fe_is 1 (fe_normalize_weak (fe_add (fe_mul (fe_sqr (ge_x a)) (ge_x a)) (fe_set_int 7))) (x * x * x + 7)"
    by (rule fe_is_eq, (rule a fe_calc | (simp; fail))+)
  ultimately show ?thesis
    using a(1) Affine by (simp add: ge_is_valid_var_def Let_def fe_is_equal_var)
qed (use assms in \<open>simp add: ge_is_valid_var_def\<close>)

lemma gej_is_valid_var_iff:
  assumes "gej_represents a P"
  shows "gej_is_valid_var a \<longleftrightarrow> P \<noteq> Infinity \<and> on_curve P"
proof (cases P)
  case (Affine x y)
  from assms Affine obtain z where "gej_at a x y z" by auto
  note a = gej_at_fields[OF this]
  define u where "u = z * z * z * (z * z * z)"
  have y2: "fe_is 1 (fe_sqr (gej_y a)) (y * y * u)"
    by (rule fe_is_eq, (rule a fe_calc | (simp; fail))+) (simp add: u_def algebra_simps)
  have z6: "fe_is 7 (fe_mul_int (fe_mul (fe_sqr (fe_sqr (gej_z a))) (fe_sqr (gej_z a))) 7) (7 * u)"
    by (rule fe_is_eq, (rule a fe_calc | (simp; fail))+) (simp add: u_def algebra_simps)
  have x3: "fe_is 1 (fe_normalize_weak (fe_add (fe_mul (fe_sqr (gej_x a)) (gej_x a))
      (fe_mul_int (fe_mul (fe_sqr (fe_sqr (gej_z a))) (fe_sqr (gej_z a))) 7))) ((x * x * x + 7) * u)"
    by (rule fe_is_eq, (rule z6 a fe_calc | (simp; fail))+) (simp add: u_def algebra_simps)
  have "gej_is_valid_var a \<longleftrightarrow> y * y * u mod fe_p = (x * x * x + 7) * u mod fe_p"
    using a(4) fe_is_equal_var[OF y2 x3] by (simp add: gej_is_valid_var_def Let_def)
  also have "\<dots> \<longleftrightarrow> on_curve P"
  proof -
    have "coprime fe_p u" using a(6) by (simp add: u_def)
    then show ?thesis unfolding Affine on_curve.simps mod_eq_dvd_iff left_diff_distrib[symmetric]
      by (simp add: coprime_dvd_mult_left_iff)
  qed
  finally show ?thesis using Affine by simp
qed (use assms in \<open>simp add: gej_is_valid_var_def\<close>)

end
