(* ===== verification/Group_Add.thy ===== *)
theory Group_Add
  imports Group_Spec
begin

text \<open>
  The additions of group_impl.h refine the addition of points: \<open>gej_add_var\<close> (jacobian and
  jacobian), \<open>gej_add_ge_var\<close> (jacobian and affine), \<open>gej_add_zinv_var\<close> (an affine point whose z
  coordinate is given by its inverse) and the constant-time \<open>gej_add_ge\<close>.
\<close>

lemma gej_set_ge_represents:
  assumes "ge_represents b Q"
  shows "gej_represents (gej_set_ge b) Q"
proof (cases Q)
  case (Affine x y)
  have "gej_at (gej_set_ge b) x y 1"
    using assms by (auto simp: Affine gej_at_def gej_set_ge_def intro: fe_is_weaken[OF fe_is_set_int])
  then show ?thesis by (auto simp: Affine)
qed (use assms in \<open>simp add: gej_set_ge_def\<close>)

lemma gej_add_xy_represents:
  assumes "fe_is 1 u1 (x1 * (Z * Z))" "fe_is 1 s1 (y1 * (Z * Z * Z))" "fe_is 3 h ((x2 - x1) * (Z * Z))"
    "fe_is 3 i ((y2 - y1) * (Z * Z * Z))" "fe_is 1 rz ((x2 - x1) * (Z * Z) * Z)" "coprime Z fe_p"
    "coprime (x2 - x1) fe_p" "l * (x2 - x1) mod fe_p = (y2 - y1) mod fe_p"
  shows "gej_represents \<lparr> gej_x = fst (gej_add_xy u1 s1 h i), gej_y = snd (gej_add_xy u1 s1 h i), gej_z = rz,
    gej_infinity = False \<rparr> (third_point l x1 y1 x2)"
proof -
  have "coprime ((x2 - x1) * (Z * Z) * Z) fe_p" using assms(6,7) by simp
  then show ?thesis using gej_add_xy_chord[OF assms(1-4,8)] assms(5)
    by (auto simp: third_point_def Let_def intro!: exI gej_atI)
qed

section \<open>Addition of jacobian points\<close>

lemma gej_add_var_branches:
  assumes "\<not> gej_infinity a" "\<not> gej_infinity b"
  defines "u1 \<equiv> fe_mul (gej_x a) (fe_sqr (gej_z b))" and "s1 \<equiv> fe_mul (fe_mul (gej_y a) (fe_sqr (gej_z b))) (gej_z b)"
  defines "h \<equiv> fe_add (fe_negate u1 1) (fe_mul (gej_x b) (fe_sqr (gej_z a)))"
    and "i \<equiv> fe_add (fe_negate s1 1) (fe_mul (fe_mul (gej_y b) (fe_sqr (gej_z a))) (gej_z a))"
  shows "fst (gej_add_var r a b rzr) =
    (if fe_normalizes_to_zero_var h then
       (if fe_normalizes_to_zero_var i then fst (gej_double_var (r\<lparr> gej_infinity := False \<rparr>) a rzr)
        else r\<lparr> gej_infinity := True \<rparr>)
     else \<lparr> gej_x = fst (gej_add_xy u1 s1 h i), gej_y = snd (gej_add_xy u1 s1 h i),
            gej_z = fe_mul (gej_z a) (fe_mul h (gej_z b)), gej_infinity = False \<rparr>)"
  using assms(1,2) by (simp add: gej_add_var_def Let_def u1_def s1_def h_def i_def split: prod.split)

lemma gej_add_var_represents:
  assumes "gej_represents a P" "gej_represents b Q" "ec_add P Q R"
  shows "gej_represents (fst (gej_add_var r a b rzr)) R"
proof -
  have "?thesis" if "P = Infinity \<or> Q = Infinity"
    using that assms by (cases P; cases Q) (auto simp: gej_add_var_def gej_at_def)
  moreover have "?thesis" if P: "P = Affine x1 y1" and Q: "Q = Affine x2 y2" for x1 y1 x2 y2
  proof -
    from assms P Q obtain z1 z2 where "gej_at a x1 y1 z1" "gej_at b x2 y2 z2" by auto
    note a = gej_at_fields[OF this(1)] gej_double_at[OF this(1)] and b = gej_at_fields[OF this(2)]
    define Z where "Z = z1 * z2"
    let ?u1 = "fe_mul (gej_x a) (fe_sqr (gej_z b))" and ?s1 = "fe_mul (fe_mul (gej_y a) (fe_sqr (gej_z b))) (gej_z b)"
    let ?h = "fe_add (fe_negate ?u1 1) (fe_mul (gej_x b) (fe_sqr (gej_z a)))"
    let ?i = "fe_add (fe_negate ?s1 1) (fe_mul (fe_mul (gej_y b) (fe_sqr (gej_z a))) (gej_z a))"
    have u1: "fe_is 1 ?u1 (x1 * (Z * Z))"
      by (rule fe_is_eq, (rule a b fe_calc | (simp; fail))+) (simp add: Z_def algebra_simps)
    have s1: "fe_is 1 ?s1 (y1 * (Z * Z * Z))"
      by (rule fe_is_eq, (rule a b fe_calc | (simp; fail))+) (simp add: Z_def algebra_simps)
    have h: "fe_is 3 ?h ((x2 - x1) * (Z * Z))"
      by (rule fe_is_eq, (rule u1 a b fe_calc | (simp; fail))+) (simp add: Z_def algebra_simps)
    have i: "fe_is 3 ?i ((y2 - y1) * (Z * Z * Z))"
      by (rule fe_is_eq, (rule s1 a b fe_calc | (simp; fail))+) (simp add: Z_def algebra_simps)
    have z: "fe_is 1 (fe_mul (gej_z a) (fe_mul ?h (gej_z b))) ((x2 - x1) * (Z * Z) * Z)"
      by (rule fe_is_eq, (rule h a b fe_calc | (simp; fail))+) (simp add: Z_def algebra_simps)
    have Z: "coprime Z fe_p" using a(5) b(5) by (simp add: Z_def)
    have e: "ec_add (Affine x1 y1) (Affine x2 y2) R" using assms(3) P Q by simp
    show ?thesis unfolding gej_add_var_branches[OF a(4) b(4)]
      by (rule add_branches[OF e Z h i]) (use a(7) gej_add_xy_represents[OF u1 s1 h i z Z] in auto)
  qed
  ultimately show ?thesis by (cases P; cases Q) auto
qed

section \<open>Addition of an affine point\<close>

lemma gej_add_ge_var_branches:
  assumes "\<not> gej_infinity a" "\<not> ge_infinity b"
  defines "u1 \<equiv> fe_normalize_weak (gej_x a)" and "s1 \<equiv> fe_normalize_weak (gej_y a)"
  defines "h \<equiv> fe_add (fe_negate u1 1) (fe_mul (ge_x b) (fe_sqr (gej_z a)))"
    and "i \<equiv> fe_add (fe_negate s1 1) (fe_mul (fe_mul (ge_y b) (fe_sqr (gej_z a))) (gej_z a))"
  shows "fst (gej_add_ge_var r a b rzr) =
    (if fe_normalizes_to_zero_var h then
       (if fe_normalizes_to_zero_var i then fst (gej_double_var (r\<lparr> gej_infinity := False \<rparr>) a rzr)
        else r\<lparr> gej_infinity := True \<rparr>)
     else \<lparr> gej_x = fst (gej_add_xy u1 s1 h i), gej_y = snd (gej_add_xy u1 s1 h i),
            gej_z = fe_mul (gej_z a) h, gej_infinity = False \<rparr>)"
  using assms(1,2) by (simp add: gej_add_ge_var_def Let_def u1_def s1_def h_def i_def split: prod.split)

lemma gej_add_ge_var_represents:
  assumes "gej_represents a P" "ge_represents b Q" "ec_add P Q R"
  shows "gej_represents (fst (gej_add_ge_var r a b rzr)) R"
proof -
  have "?thesis" if "P = Infinity \<or> Q = Infinity"
    using that assms gej_set_ge_represents[OF assms(2)]
    by (cases P; cases Q) (auto simp: gej_add_ge_var_def gej_at_def)
  moreover have "?thesis" if P: "P = Affine x1 y1" and Q: "Q = Affine x2 y2" for x1 y1 x2 y2
  proof -
    from assms P obtain Z where "gej_at a x1 y1 Z" by auto
    note a = gej_at_fields[OF this(1)] gej_double_at[OF this(1)]
    have b: "fe_is 8 (ge_x b) x2" "fe_is 8 (ge_y b) y2" "\<not> ge_infinity b" using assms(2) Q by simp_all
    let ?u1 = "fe_normalize_weak (gej_x a)" and ?s1 = "fe_normalize_weak (gej_y a)"
    let ?h = "fe_add (fe_negate ?u1 1) (fe_mul (ge_x b) (fe_sqr (gej_z a)))"
    let ?i = "fe_add (fe_negate ?s1 1) (fe_mul (fe_mul (ge_y b) (fe_sqr (gej_z a))) (gej_z a))"
    have u1: "fe_is 1 ?u1 (x1 * (Z * Z))" and s1: "fe_is 1 ?s1 (y1 * (Z * Z * Z))"
      using fe_is_normalize_weak[OF a(1)] fe_is_normalize_weak[OF a(2)] by simp_all
    have h: "fe_is 3 ?h ((x2 - x1) * (Z * Z))"
      by (rule fe_is_eq, (rule u1 a b fe_calc | (simp; fail))+) (simp add: algebra_simps)
    have i: "fe_is 3 ?i ((y2 - y1) * (Z * Z * Z))"
      by (rule fe_is_eq, (rule s1 a b fe_calc | (simp; fail))+) (simp add: algebra_simps)
    have z: "fe_is 1 (fe_mul (gej_z a) ?h) ((x2 - x1) * (Z * Z) * Z)"
      by (rule fe_is_eq, (rule h a b fe_calc | (simp; fail))+) (simp add: algebra_simps)
    have e: "ec_add (Affine x1 y1) (Affine x2 y2) R" using assms(3) P Q by simp
    show ?thesis unfolding gej_add_ge_var_branches[OF a(4) b(3)]
      by (rule add_branches[OF e a(5) h i]) (use a(7) gej_add_xy_represents[OF u1 s1 h i z a(5)] in auto)
  qed
  ultimately show ?thesis by (cases P; cases Q) auto
qed

section \<open>Addition of a point given with the inverse of its z coordinate\<close>

lemma gej_add_zinv_var_branches:
  fixes bzinv :: fe
  assumes "\<not> gej_infinity a" "\<not> ge_infinity b"
  defines "az \<equiv> fe_mul (gej_z a) bzinv"
  defines "u1 \<equiv> fe_normalize_weak (gej_x a)" and "s1 \<equiv> fe_normalize_weak (gej_y a)"
  defines "h \<equiv> fe_add (fe_negate u1 1) (fe_mul (ge_x b) (fe_sqr az))"
    and "i \<equiv> fe_add (fe_negate s1 1) (fe_mul (fe_mul (ge_y b) (fe_sqr az)) az)"
  shows "gej_add_zinv_var r a b bzinv =
    (if fe_normalizes_to_zero_var h then
       (if fe_normalizes_to_zero_var i then fst (gej_double_var (r\<lparr> gej_infinity := False \<rparr>) a None)
        else r\<lparr> gej_infinity := True \<rparr>)
     else \<lparr> gej_x = fst (gej_add_xy u1 s1 h i), gej_y = snd (gej_add_xy u1 s1 h i),
            gej_z = fe_mul (gej_z a) h, gej_infinity = False \<rparr>)"
  using assms(1,2) by (simp add: gej_add_zinv_var_def Let_def az_def u1_def s1_def h_def i_def split: prod.split)

lemma inverse_cancels:
  assumes "zb * w mod fe_p = (1 :: int)"
  shows "fe_p dvd v * (zb * zb) * (w * w) - v" "fe_p dvd v * (zb * zb * zb) * (w * w * w) - v"
proof -
  have d: "fe_p dvd zb * w - 1" using assms by (simp add: mod_eq_dvd_iff[symmetric] fe_p_def)
  have "v * (zb * zb) * (w * w) - v = (zb * w - 1) * (v * (zb * w + 1))"
    "v * (zb * zb * zb) * (w * w * w) - v = (zb * w - 1) * (v * (zb * w * (zb * w) + zb * w + 1))" by algebra+
  then show "fe_p dvd v * (zb * zb) * (w * w) - v" "fe_p dvd v * (zb * zb * zb) * (w * w * w) - v"
    using d by (simp_all only: dvd_mult2)
qed

lemma gej_add_zinv_var_represents:
  assumes "gej_represents a P" "gej_represents \<lparr> gej_x = ge_x b, gej_y = ge_y b, gej_z = bz, gej_infinity = ge_infinity b \<rparr> Q"
    "ec_add P Q R" "fe_verify_magnitude 8 bzinv" "fe_val bz * fe_val bzinv mod fe_p = 1"
  shows "gej_represents (gej_add_zinv_var r a b bzinv) R"
proof -
  define w where "w = fe_val bzinv"
  have w: "fe_is 8 bzinv w" using assms(4) by (simp add: w_def fe_is_self)
  have zbw: "zb * w mod fe_p = 1" if "gej_at \<lparr> gej_x = ge_x b, gej_y = ge_y b, gej_z = bz, gej_infinity = ge_infinity b \<rparr> x y zb" for x y zb
  proof -
    have "fe_val bz mod fe_p = zb mod fe_p" using that by (auto simp: gej_at_def intro: fe_is_mod)
    then have "fe_val bz * w mod fe_p = zb * w mod fe_p" by (rule mod_mult_cong) simp
    then show ?thesis using assms(5) by (simp add: w_def)
  qed
  consider (right) "Q = Infinity" | (left) x2 y2 where "P = Infinity" "Q = Affine x2 y2"
    | (finite) x1 y1 x2 y2 where "P = Affine x1 y1" "Q = Affine x2 y2"
    by (cases P; cases Q) auto
  then show ?thesis
  proof cases
    case right
    then show ?thesis using assms by (simp add: gej_add_zinv_var_def)
  next
    case (left x2 y2)
    with assms(2) obtain zb where g: "gej_at \<lparr> gej_x = ge_x b, gej_y = ge_y b, gej_z = bz, gej_infinity = ge_infinity b \<rparr> x2 y2 zb" by auto
    then have b: "fe_is 8 (ge_x b) (x2 * (zb * zb))" "fe_is 8 (ge_y b) (y2 * (zb * zb * zb))" "\<not> ge_infinity b"
      by (simp_all add: gej_at_def)
    have "fe_is 1 (fe_mul (ge_x b) (fe_sqr bzinv)) (x2 * (zb * zb) * (w * w))"
      "fe_is 1 (fe_mul (ge_y b) (fe_mul (fe_sqr bzinv) bzinv)) (y2 * (zb * zb * zb) * (w * w * w))"
      by (rule fe_is_eq, (rule w b fe_calc | (simp; fail))+)+
    moreover have "fe_is 1 (fe_set_int 1) 1" using fe_is_set_int[of 1] by simp
    ultimately have "gej_at (gej_add_zinv_var r a b bzinv) x2 y2 1"
      using left b(3) assms(1) inverse_cancels[OF zbw[OF g]]
      by (auto simp: gej_add_zinv_var_def Let_def intro!: gej_atI)
    then show ?thesis using left assms(3) by auto
  next
    case (finite x1 y1 x2 y2)
    from finite assms(1,2) obtain Z zb where "gej_at a x1 y1 Z"
      and g: "gej_at \<lparr> gej_x = ge_x b, gej_y = ge_y b, gej_z = bz, gej_infinity = ge_infinity b \<rparr> x2 y2 zb" by auto
    note a = gej_at_fields[OF this(1)] gej_double_at[OF this(1)]
    from g have b: "fe_is 8 (ge_x b) (x2 * (zb * zb))" "fe_is 8 (ge_y b) (y2 * (zb * zb * zb))" "\<not> ge_infinity b"
      by (simp_all add: gej_at_def)
    let ?az = "fe_mul (gej_z a) bzinv"
    let ?u1 = "fe_normalize_weak (gej_x a)" and ?s1 = "fe_normalize_weak (gej_y a)"
    let ?u2 = "fe_mul (ge_x b) (fe_sqr ?az)" and ?s2 = "fe_mul (fe_mul (ge_y b) (fe_sqr ?az)) ?az"
    let ?h = "fe_add (fe_negate ?u1 1) ?u2" and ?i = "fe_add (fe_negate ?s1 1) ?s2"
    have u1: "fe_is 1 ?u1 (x1 * (Z * Z))" and s1: "fe_is 1 ?s1 (y1 * (Z * Z * Z))"
      using fe_is_normalize_weak[OF a(1)] fe_is_normalize_weak[OF a(2)] by simp_all
    have "fe_is 1 ?u2 (x2 * (Z * Z) * (zb * zb) * (w * w))"
      by (rule fe_is_eq, (rule a b w fe_calc | (simp; fail))+)
    moreover have "fe_is 1 ?s2 (y2 * (Z * Z * Z) * (zb * zb * zb) * (w * w * w))"
      by (rule fe_is_eq, (rule a b w fe_calc | (simp; fail))+)
    ultimately have u2: "fe_is 1 ?u2 (x2 * (Z * Z))" and s2: "fe_is 1 ?s2 (y2 * (Z * Z * Z))"
      using inverse_cancels[OF zbw[OF g]] by (auto elim!: fe_is_weaken simp: mod_eq_dvd_iff)
    have h: "fe_is 3 ?h ((x2 - x1) * (Z * Z))"
      by (rule fe_is_eq, (rule u1 u2 fe_calc | (simp; fail))+) (simp add: algebra_simps)
    have i: "fe_is 3 ?i ((y2 - y1) * (Z * Z * Z))"
      by (rule fe_is_eq, (rule s1 s2 fe_calc | (simp; fail))+) (simp add: algebra_simps)
    have z: "fe_is 1 (fe_mul (gej_z a) ?h) ((x2 - x1) * (Z * Z) * Z)"
      by (rule fe_is_eq, (rule h a fe_calc | (simp; fail))+)
    have e: "ec_add (Affine x1 y1) (Affine x2 y2) R" using assms(3) finite by simp
    show ?thesis unfolding gej_add_zinv_var_branches[OF a(4) b(3)]
      by (rule add_branches[OF e a(5) h i]) (use a(7) gej_add_xy_represents[OF u1 s1 h i z a(5)] in auto)
  qed
qed

section \<open>The constant-time addition\<close>

lemma gej_add_ge_infinity:
  "gej_infinity a \<Longrightarrow> gej_add_ge a b = \<lparr> gej_x = ge_x b, gej_y = ge_y b, gej_z = fe_const 0 0 0 0 0 0 0 1, gej_infinity = False \<rparr>"
  by (simp add: gej_add_ge_def Let_def fe_cmov_eq)

lemma gej_add_ge_values:
  assumes "\<not> gej_infinity a" "fe_is 8 (gej_x a) U1" "fe_is 8 (gej_y a) S1" "fe_is 8 (gej_z a) Z"
    "fe_is 8 (ge_x b) x2" "fe_is 8 (ge_y b) y2"
  defines "U2 \<equiv> x2 * (Z * Z)" and "S2 \<equiv> y2 * (Z * Z) * Z"
  defines "T \<equiv> U1 + U2" and "M \<equiv> S1 + S2"
  defines "Q \<equiv> M * M * T" and "R \<equiv> T * T - U1 * U2"
  shows "fe_is 4 (gej_x (gej_add_ge a b)) (4 * (R * R - Q))"
    "fe_is 4 (gej_y (gej_add_ge a b)) (4 * (R * (3 * Q - 2 * (R * R)) - M * M * (M * M)))"
    "fe_is 2 (gej_z (gej_add_ge a b)) (2 * M * Z)"
    "gej_infinity (gej_add_ge a b) \<longleftrightarrow> M * Z mod fe_p = 0"
proof -
  have m: "fe_is 1 (fe_mul (fe_add (fe_normalize_weak (gej_y a)) (fe_mul (fe_mul (ge_y b) (fe_sqr (gej_z a))) (gej_z a))) (gej_z a)) (M * Z)"
    unfolding M_def S2_def by (rule fe_is_eq, (rule fe_calc assms | (simp; fail))+)
  show "gej_infinity (gej_add_ge a b) \<longleftrightarrow> M * Z mod fe_p = 0"
    using fe_is_zero_var[OF m] assms(1) by (simp add: gej_add_ge_def Let_def fe_normalizes_to_zero_var_eq)
  show "fe_is 4 (gej_x (gej_add_ge a b)) (4 * (R * R - Q))"
    "fe_is 4 (gej_y (gej_add_ge a b)) (4 * (R * (3 * Q - 2 * (R * R)) - M * M * (M * M)))"
    "fe_is 2 (gej_z (gej_add_ge a b)) (2 * M * Z)"
    using assms(1) unfolding gej_add_ge_def T_def M_def Q_def R_def U2_def S2_def
    apply (simp_all add: Let_def fe_cmov_eq flag_def)
    apply (rule fe_is_eq, (rule fe_calc assms | (simp; fail))+, (simp add: algebra_simps)?)+
    done
qed

text \<open>
  With the slope of the unified formula, \<open>l (y1 + y2) = (x1 + x2)^2 - x1 x2\<close>, for a chord as for a
  tangent.
\<close>

lemma gej_add_ge_at:
  assumes "gej_at a x1 y1 Z" "ge_represents b (Affine x2 y2)" "coprime (y1 + y2) fe_p"
    "l * (y1 + y2) mod fe_p = ((x1 + x2) * (x1 + x2) - x1 * x2) mod fe_p" "l * (x2 - x1) mod fe_p = (y2 - y1) mod fe_p"
  shows "gej_represents (gej_add_ge a b) (third_point l x1 y1 x2)"
proof -
  note a = gej_at_fields[OF assms(1)]
  have b: "fe_is 8 (ge_x b) x2" "fe_is 8 (ge_y b) y2" using assms(2) by simp_all
  note v = gej_add_ge_values[OF a(4) a(1) a(2) a(3) b]
  define M where "M = y1 * (Z * Z * Z) + y2 * (Z * Z) * Z"
  define T where "T = x1 * (Z * Z) + x2 * (Z * Z)"
  define R where "R = T * T - x1 * (Z * Z) * (x2 * (Z * Z))"
  note v' = v[folded M_def T_def, folded R_def]
  define x3 where "x3 = l * l - x1 - x2"
  define y3 where "y3 = l * (x1 - x3) - y1"
  define w where "w = (x1 + x2) * (x1 + x2) - x1 * x2 - l * (y1 + y2)"
  define u where "u = l * (x2 - x1) - (y2 - y1)"
  have w: "fe_p dvd w" unfolding w_def using assms(4) by (metis mod_eq_dvd_iff)
  have u: "fe_p dvd u" unfolding u_def using assms(5) by (metis mod_eq_dvd_iff)
  have R: "R = l * M * Z + w * (Z * Z * Z * Z)" unfolding R_def T_def M_def w_def by algebra
  define k where "k = w * (Z * Z * Z * Z)"
  have "4 * (R * R - M * M * T) - x3 * (2 * M * Z * (2 * M * Z)) = w * (4 * (Z * Z * Z * Z) * (2 * l * M * Z + k))"
    unfolding R x3_def T_def k_def by algebra
  moreover have "4 * (R * (3 * (M * M * T) - 2 * (R * R)) - M * M * (M * M)) - y3 * (2 * M * Z * (2 * M * Z) * (2 * M * Z))
    = w * ((Z * Z * Z * Z) * (12 * (M * M * T) - 8 * (R * R + R * (l * M * Z) + (l * M * Z) * (l * M * Z))))
      + u * (4 * M * M * M * Z * Z * Z)"
  proof -
    have "4 * (R * (3 * (M * M * T) - 2 * (R * R)) - M * M * (M * M)) - y3 * (2 * M * Z * (2 * M * Z) * (2 * M * Z))
      = (R - l * M * Z) * (12 * (M * M * T) - 8 * (R * R + R * (l * M * Z) + (l * M * Z) * (l * M * Z)))
      + 4 * (l * M * Z * (3 * (M * M * T) - 2 * (l * M * Z) * (l * M * Z)) - M * M * M * M) - y3 * (8 * M * M * M * Z * Z * Z)"
      by algebra
    moreover have "4 * (l * M * Z * (3 * (M * M * T) - 2 * (l * M * Z) * (l * M * Z)) - M * M * M * M) - y3 * (8 * M * M * M * Z * Z * Z)
      = 4 * M * M * M * (l * Z * 3 * T - 2 * l * l * l * Z * Z * Z - M - 2 * y3 * Z * Z * Z)" by algebra
    moreover have "l * Z * 3 * T - 2 * l * l * l * Z * Z * Z - M - 2 * y3 * Z * Z * Z = u * (Z * Z * Z)"
      unfolding y3_def x3_def T_def M_def u_def by algebra
    moreover have "R - l * M * Z = w * (Z * Z * Z * Z)" using R by simp
    ultimately show ?thesis by algebra
  qed
  moreover have "coprime (2 * M * Z) fe_p"
  proof -
    have "M = (y1 + y2) * (Z * Z * Z)" unfolding M_def by algebra
    moreover have "coprime 2 fe_p" by (simp add: fe_p_def)
    ultimately show ?thesis using a(5) assms(3) by simp
  qed
  moreover have "M * Z mod fe_p \<noteq> 0"
    using coprime_mod_zero[OF \<open>coprime (2 * M * Z) fe_p\<close>] by (metis mod_mult_right_eq mult.assoc mult_zero_right mod_0)
  ultimately have "gej_at (gej_add_ge a b) x3 y3 (2 * M * Z)"
    using w u v'(4) by (intro gej_atI[OF v'(1,2,3)]) (simp_all add: mult.assoc)
  then show ?thesis by (auto simp: third_point_def Let_def x3_def y3_def)
qed

lemma ge_represents_mod:
  "ge_represents b (Affine x y) \<Longrightarrow> x mod fe_p = x' mod fe_p \<Longrightarrow> y mod fe_p = y' mod fe_p \<Longrightarrow> ge_represents b (Affine x' y')"
  by (simp add: fe_is_def)

lemma gej_add_ge_represents:
  assumes "gej_represents a P" "ge_represents b Q" "Q \<noteq> Infinity" "ec_add P Q R" "on_curve P" "on_curve Q"
    and generic: "\<And>x1 y1 x2 y2. P = Affine x1 y1 \<Longrightarrow> Q = Affine x2 y2 \<Longrightarrow> x1 mod fe_p \<noteq> x2 mod fe_p \<Longrightarrow> coprime (y1 + y2) fe_p"
  shows "gej_represents (gej_add_ge a b) R"
proof -
  obtain x2 y2 where Q: "Q = Affine x2 y2" using assms(3) by (cases Q) auto
  show ?thesis
  proof (cases P)
    case Infinity
    have "fe_is 8 (fe_const 0 0 0 0 0 0 0 1) 1" by (simp add: fe_const_def fe_is_def)
    then have "gej_at (gej_add_ge a b) x2 y2 1"
      using assms(1,2) Q Infinity by (simp add: gej_add_ge_infinity gej_at_def)
    then show ?thesis using assms(4) Q Infinity by auto
  next
    case (Affine x1 y1)
    from assms(1) Affine obtain Z where at: "gej_at a x1 y1 Z" by auto
    note a = gej_at_fields[OF this]
    have b: "ge_represents b (Affine x2 y2)" using assms(2) Q by simp
    have "ec_add (Affine x1 y1) (Affine x2 y2) R" using assms(4) Affine Q by simp
    then show ?thesis
    proof cases
      case opposite
      have "y1 * (Z * Z * Z) + y2 * (Z * Z) * Z = (y1 + y2) * (Z * Z * Z)" by algebra
      then have "(y1 * (Z * Z * Z) + y2 * (Z * Z) * Z) * Z mod fe_p = 0"
        using opposite by (metis mod_mult_left_eq mult_zero_left mod_0)
      then show ?thesis using gej_add_ge_values(4)[OF a(4,1,2,3), of b x2 y2] b opposite by simp
    next
      case (tangent l)
      have "ge_represents b (Affine x1 y1)" using b tangent by (intro ge_represents_mod[OF b]) simp_all
      moreover have "l * (y1 + y1) mod fe_p = ((x1 + x1) * (x1 + x1) - x1 * x1) mod fe_p"
        using tangent by (simp add: algebra_simps flip: mult_2)
      moreover have "coprime (y1 + y1) fe_p" using tangent by (simp flip: mult_2)
      ultimately show ?thesis unfolding tangent(1) by (intro gej_add_ge_at[OF at, of b x1 y1 l]) simp_all
    next
      case (chord l)
      have "x1 mod fe_p \<noteq> x2 mod fe_p" using chord coprime_mod_zero[of "x2 - x1"] by (simp add: diff_mod_zero)
      then have "coprime (y1 + y2) fe_p" using generic Affine Q by blast
      moreover have "l * (y1 + y2) mod fe_p = ((x1 + x2) * (x1 + x2) - x1 * x2) mod fe_p"
        using chord assms(5,6) Affine Q by (intro unified_slope) simp_all
      ultimately show ?thesis using at b chord unfolding chord(1) by (intro gej_add_ge_at) simp_all
    qed
  qed
qed

section \<open>The properties\<close>

text \<open>
  C7. The variable-time additions refine the addition of points: when the inputs represent \<open>P\<close> and \<open>Q\<close>
  (in jacobian coordinates, or the second one in affine ones), the result represents \<open>P + Q\<close>, through every
  branch: a point at infinity on either side, a doubling, opposite points and the general formula.
\<close>
theorem gej_additions_refine:
  assumes "gej_represents a P" "ec_add P Q R"
  shows "(gej_represents b Q \<longrightarrow> gej_represents (fst (gej_add_var r a b rzr)) R) \<and>
    (ge_represents c Q \<longrightarrow> gej_represents (fst (gej_add_ge_var r a c rzr)) R)"
  using gej_add_var_represents gej_add_ge_var_represents assms by blast

lemma coprime_by_inverse: "u * d = 1 + fe_p * k \<Longrightarrow> coprime d fe_p"
  by (rule coprimeI) (metis dvd_add_left_iff dvd_mult dvd_mult2)

text \<open>The generator and its double, for the witnesses.\<close>

definition g_x :: int where "g_x = 55066263022277343669578718895168534326250603453777594175500187360389116729240"
definition g_y :: int where "g_y = 32670510020758816978083085130507043184471273380659243275938904335757337482424"
definition g2_x :: int where "g2_x = 89565891926547004231252920425935692360644145829622209833684329913297188986597"
definition g2_y :: int where "g2_y = 12158399299693830322967808612713398636155367887041628176798871954788371653930"
definition double_g :: ge where
  "double_g = \<lparr> ge_x = Fe 0xc09b95c709ee5 0x4b8cef3ca7aba 0x5c07cd85c778e 0x7d6d3045406e9 0xc6047f9441ed,
     ge_y = Fe 0x431a950cfe52a 0x653266d0e1236 0x66ceaeef7f632 0xc339a3c584194 0x1ae168fea63d, ge_infinity = False \<rparr>"
definition chord_slope :: int where
  "chord_slope = 23578750110654438173404407907450265080473019639451825850605815020978465167024"

lemma generator_represents: "ge_represents ge_const_g (Affine g_x g_y)" "ge_represents double_g (Affine g2_x g2_y)"
  by (simp_all add: ge_const_g_def double_g_def fe_const_def g_x_def g_y_def g2_x_def g2_y_def fe_is_def)

lemma generator_chord: "ec_add (Affine g_x g_y) (Affine g2_x g2_y) (third_point chord_slope g_x g_y g2_x)"
proof (rule chord)
  have "78060072781723966975414539546189491444417828441135743216757131184955262264836 * (g2_x - g_x) = 1 + fe_p *
    23257577965368235644983786216295292081265744696826743929568635377684556450877"
    by (simp add: g_x_def g2_x_def fe_p_num)
  then show "coprime (g2_x - g_x) fe_p" by (rule coprime_by_inverse)
  have "chord_slope * (g2_x - g_x) = g2_y - g_y + fe_p *
    7025161513209254822326948581114517018638624006934852376150416616774795567074"
    by (simp add: g_x_def g2_x_def g_y_def g2_y_def chord_slope_def fe_p_num)
  then show "chord_slope * (g2_x - g_x) mod fe_p = (g2_y - g_y) mod fe_p" by (simp only: mod_mult_self2)
qed

theorem gej_additions_refine_witness:
  "gej_represents (fst (gej_add_ge_var gej_clear (gej_set_ge ge_const_g) double_g None)) (third_point chord_slope g_x g_y g2_x)"
  using gej_additions_refine[OF gej_set_ge_represents[OF generator_represents(1)] generator_chord] generator_represents(2)
  by blast

text \<open>
  The addition in \<open>ecmult\<close> of an affine point whose coordinates belong to another \<open>z\<close>, known by its
  inverse \<open>bzinv\<close>, refines the addition of points too.
\<close>
theorem gej_add_zinv_refines:
  assumes "gej_represents a P" "gej_represents \<lparr> gej_x = ge_x b, gej_y = ge_y b, gej_z = bz, gej_infinity = ge_infinity b \<rparr> Q"
    "ec_add P Q R" "fe_verify_magnitude 8 bzinv" "fe_val bz * fe_val bzinv mod fe_p = 1"
  shows "gej_represents (gej_add_zinv_var r a b bzinv) R"
  using assms by (rule gej_add_zinv_var_represents)

theorem gej_add_zinv_refines_witness:
  "gej_represents (gej_add_zinv_var gej_clear (gej_set_ge ge_const_g) double_g (fe_set_int 1)) (third_point chord_slope g_x g_y g2_x)"
proof (rule gej_add_zinv_refines[OF gej_set_ge_represents[OF generator_represents(1)] _ generator_chord])
  show "gej_represents \<lparr> gej_x = ge_x double_g, gej_y = ge_y double_g, gej_z = fe_set_int 1, gej_infinity = ge_infinity double_g \<rparr> (Affine g2_x g2_y)"
    using gej_set_ge_represents[OF generator_represents(2)] by (simp only: gej_set_ge_def)
qed (simp_all add: fe_set_int_def fe_p_def)

text \<open>
  C32. The constant-time addition computes the sum of two points on the curve, except where the
  numerator and the denominator of its unified slope both vanish: it is right when \<open>a\<close> is infinity,
  for a doubling, for opposite points, and for all other points whose y coordinates are not opposite.
\<close>
theorem gej_add_ge_refines:
  assumes "gej_represents a P" "ge_represents b Q" "Q \<noteq> Infinity" "ec_add P Q R" "on_curve P" "on_curve Q"
    "\<And>x1 y1 x2 y2. P = Affine x1 y1 \<Longrightarrow> Q = Affine x2 y2 \<Longrightarrow> x1 mod fe_p \<noteq> x2 mod fe_p \<Longrightarrow> coprime (y1 + y2) fe_p"
  shows "gej_represents (gej_add_ge a b) R"
  using assms by (rule gej_add_ge_represents)

lemma generator_on_curve: "on_curve (Affine g_x g_y)" "on_curve (Affine g2_x g2_y)"
proof -
  have "g_y * g_y = g_x * g_x * g_x + 7 + fe_p * (-1442042049659660869506300006036683750029629333882594701370927246876626245108435922902327776681700708714008192087431130951749952236093997894375239788520937)" "g2_y * g2_y = g2_x * g2_x * g2_x + 7 + fe_p * (-6205104149957778589487396235541193951393828196855248032031163416175182021243218040470110748669501390267283622362861913779948971576605354293720525423994560)"
    by (simp_all add: g_x_def g_y_def g2_x_def g2_y_def fe_p_num)
  then show "on_curve (Affine g_x g_y)" "on_curve (Affine g2_x g2_y)" by (simp_all only: on_curve.simps mod_mult_self2)
qed

theorem gej_add_ge_refines_witness:
  "gej_represents (gej_add_ge (gej_set_ge ge_const_g) double_g) (third_point chord_slope g_x g_y g2_x)"
proof (rule gej_add_ge_refines[OF gej_set_ge_represents[OF generator_represents(1)] generator_represents(2) _
    generator_chord generator_on_curve])
  have "20878556513771188441901786483998703319673514684168283749740152220423799163817 * (g_y + g2_y) = 1 + fe_p * (8083133509919974485229819441513256242653406208389686142221413461353063097759)" by (simp add: g_y_def g2_y_def fe_p_num)
  then have "coprime (g_y + g2_y) fe_p" by (rule coprime_by_inverse)
  then show "coprime (y1 + y2) fe_p" if "Affine g_x g_y = Affine x1 y1" "Affine g2_x g2_y = Affine x2 y2" for x1 y1 x2 y2
    using that by simp
qed simp

text \<open>
  Where the y coordinates are opposite and the x coordinates differ (points of the form \<open>(x, y)\<close> and
  \<open>(\<beta> x, -y)\<close>, which the curve has), the sum is a finite point, which \<open>gej_add_ge_var\<close> computes, but the
  constant-time \<open>gej_add_ge\<close> returns infinity.
\<close>
theorem gej_add_ge_degenerate:
  assumes "gej_represents a (Affine x1 y1)" "ge_represents b (Affine x2 y2)" "coprime (x2 - x1) fe_p" "(y1 + y2) mod fe_p = 0"
  shows "gej_infinity (gej_add_ge a b) \<and> \<not> gej_infinity (fst (gej_add_ge_var r a b rzr))"
proof
  from assms(1) obtain Z where at: "gej_at a x1 y1 Z" by auto
  note a = gej_at_fields[OF this]
  have "y1 * (Z * Z * Z) + y2 * (Z * Z) * Z = (y1 + y2) * (Z * Z * Z)" by algebra
  then have "(y1 * (Z * Z * Z) + y2 * (Z * Z) * Z) * Z mod fe_p = 0"
    using assms(4) by (metis mod_mult_left_eq mult_zero_left mod_0)
  then show "gej_infinity (gej_add_ge a b)" using gej_add_ge_values(4)[OF a(4,1,2,3), of b x2 y2] assms(2) by simp
  obtain l where "l * (x2 - x1) mod fe_p = (y2 - y1) mod fe_p" using slope_exists[OF assms(3)] by blast
  from gej_add_ge_var_represents[OF assms(1,2) chord[OF assms(3) this]]
  show "\<not> gej_infinity (fst (gej_add_ge_var r a b rzr))" by (auto simp: third_point_def Let_def gej_at_def)
qed

definition beta_opposite_g :: ge where
  "beta_opposite_g = \<lparr> ge_x = Fe 0xba04400b88fcb 0x67f15e98da7b 0x6902325872844 0x1887ab0102b69 0xbcace2e99da0, ge_y = Fe 0x82f6f04ef2777 0xb7597aabe663b 0x1eef75702e84b 0x3b9aa25b0403f 0xb7c52588d95c, ge_infinity = False \<rparr>"

theorem gej_add_ge_degenerate_witness:
  "ge_is_valid_var beta_opposite_g \<and> gej_infinity (gej_add_ge (gej_set_ge ge_const_g) beta_opposite_g) \<and>
    \<not> gej_infinity (fst (gej_add_ge_var gej_clear (gej_set_ge ge_const_g) beta_opposite_g None))"
proof
  have b: "ge_represents beta_opposite_g (Affine 85340279321737800624759429340272274763154997815782306132637707972559913914315 (- g_y))"
    by (simp add: beta_opposite_g_def fe_is_def g_y_def fe_p_num)
  have "78257801608792925463717418057867172596481814835824113882724414068800111464852 * (85340279321737800624759429340272274763154997815782306132637707972559913914315 - g_x) = 1 + fe_p * (20460620212222816460985152356789663566558094741909599793946718079030236467573)"
    by (simp add: g_x_def fe_p_num)
  then have "coprime (85340279321737800624759429340272274763154997815782306132637707972559913914315 - g_x) fe_p" by (rule coprime_by_inverse)
  from gej_add_ge_degenerate[OF gej_set_ge_represents[OF generator_represents(1)] b this]
  show "gej_infinity (gej_add_ge (gej_set_ge ge_const_g) beta_opposite_g) \<and>
    \<not> gej_infinity (fst (gej_add_ge_var gej_clear (gej_set_ge ge_const_g) beta_opposite_g None))" by simp
  have "(- g_y) * (- g_y) = 85340279321737800624759429340272274763154997815782306132637707972559913914315 * 85340279321737800624759429340272274763154997815782306132637707972559913914315 * 85340279321737800624759429340272274763154997815782306132637707972559913914315 + 7 + fe_p *
    (-5367638879717181445823050458089846093657102133909765561445336741870814262312568290054736354913820741799477019972403824977655131540433394218960576773369062)"
    by (simp add: g_y_def fe_p_num)
  then have "on_curve (Affine 85340279321737800624759429340272274763154997815782306132637707972559913914315 (- g_y))" by (simp only: on_curve.simps mod_mult_self2)
  then show "ge_is_valid_var beta_opposite_g" using ge_is_valid_var_iff[OF b] by simp
qed

end
