(* ===== verification/Group_Ops.thy ===== *)
theory Group_Ops
  imports Group_Add
begin

text \<open>
  The other operations of group_impl.h: membership in the curve, decompression, negation, the
  conversions between jacobian and affine coordinates (one by one, in a batch and for a table with
  known ratios of the z coordinates), rescaling, storage and the endomorphism.
\<close>

section \<open>Magnitudes\<close>

text \<open>The type invariant: every coordinate has magnitude at most 8.\<close>

definition gej_ok :: "gej \<Rightarrow> bool" where
  "gej_ok a \<longleftrightarrow> fe_verify_magnitude 8 (gej_x a) \<and> fe_verify_magnitude 8 (gej_y a) \<and> fe_verify_magnitude 8 (gej_z a)"

definition ge_ok :: "ge \<Rightarrow> bool" where
  "ge_ok a \<longleftrightarrow> fe_verify_magnitude 8 (ge_x a) \<and> fe_verify_magnitude 8 (ge_y a)"

lemma gej_okI:
  "fe_is k (gej_x a) X \<Longrightarrow> fe_is m (gej_y a) Y \<Longrightarrow> fe_is n (gej_z a) Z \<Longrightarrow> k \<le> 8 \<Longrightarrow> m \<le> 8 \<Longrightarrow> n \<le> 8 \<Longrightarrow> gej_ok a"
  unfolding gej_ok_def by (auto intro: fe_magnitude_mono fe_is_magnitude)

lemma gej_ok_fields:
  assumes "gej_ok a"
  shows "fe_is 8 (gej_x a) (fe_val (gej_x a))" "fe_is 8 (gej_y a) (fe_val (gej_y a))" "fe_is 8 (gej_z a) (fe_val (gej_z a))"
  using assms by (simp_all add: gej_ok_def fe_is_self)

lemma ge_ok_fields:
  assumes "ge_ok a"
  shows "fe_is 8 (ge_x a) (fe_val (ge_x a))" "fe_is 8 (ge_y a) (fe_val (ge_y a))"
  using assms by (simp_all add: ge_ok_def fe_is_self)

lemma fe_set_int_1: "fe_is 1 (fe_set_int 1) 1"
  using fe_is_set_int[of 1] by simp

lemma gej_ok_set_ge: "ge_ok b \<Longrightarrow> gej_ok (gej_set_ge b)"
  using gej_okI[of 8 "gej_set_ge b" _ 8 _ 1] ge_ok_fields[of b] fe_set_int_1 by (simp add: gej_set_ge_def)

lemma gej_ok_infinity: "gej_ok r \<Longrightarrow> gej_ok (r\<lparr> gej_infinity := b \<rparr>)"
  by (simp add: gej_ok_def)

lemma gej_double_ok: "gej_ok a \<Longrightarrow> gej_ok r \<Longrightarrow> gej_ok (fst (gej_double_var r a rzr))"
proof (cases "gej_infinity a")
  case False
  assume "gej_ok a"
  from gej_okI[OF gej_double_values(1-3)[OF gej_ok_fields[OF this] False]] show ?thesis by simp
qed (simp add: gej_double_var_def gej_ok_infinity)

lemma gej_add_xy_ok:
  assumes "fe_is 1 u1 U" "fe_is 1 s1 S" "fe_is 3 h H" "fe_is 3 i I" "fe_is 1 rz Z"
  shows "gej_ok \<lparr> gej_x = fst (gej_add_xy u1 s1 h i), gej_y = snd (gej_add_xy u1 s1 h i), gej_z = rz, gej_infinity = b \<rparr>"
proof (rule gej_okI)
  show "fe_is 5 (gej_x \<lparr> gej_x = fst (gej_add_xy u1 s1 h i), gej_y = snd (gej_add_xy u1 s1 h i), gej_z = rz, gej_infinity = b \<rparr>)
     (I * I - H * H * H - 2 * U * (H * H))" using gej_add_xy_values(1)[OF assms(1-4)] by simp
qed (use gej_add_xy_values(2)[OF assms(1-4)] assms(5) in \<open>simp_all only: gej.simps\<close>, simp_all)

lemma if_cases: "(c \<Longrightarrow> P x) \<Longrightarrow> (\<not> c \<Longrightarrow> P y) \<Longrightarrow> P (if c then x else y)"
  by simp

lemma gej_add_var_ok:
  assumes "gej_ok a" "gej_ok b" "gej_ok r"
  shows "gej_ok (fst (gej_add_var r a b rzr))"
proof (cases "gej_infinity a \<or> gej_infinity b")
  case True
  then show ?thesis using assms by (auto simp: gej_add_var_def)
next
  case False
  then have f: "\<not> gej_infinity a" "\<not> gej_infinity b" by simp_all
  note ab = gej_ok_fields[OF assms(1)] gej_ok_fields[OF assms(2)]
  show ?thesis unfolding gej_add_var_branches[OF f]
    apply (rule if_cases, rule if_cases)
      apply (rule gej_double_ok[OF assms(1) gej_ok_infinity[OF assms(3)]])
     apply (rule gej_ok_infinity[OF assms(3)])
    apply (rule gej_add_xy_ok; rule fe_is_eq, (rule ab fe_calc | (simp; fail))+)
    done
qed

lemma gej_add_ge_var_ok:
  assumes "gej_ok a" "ge_ok b" "gej_ok r"
  shows "gej_ok (fst (gej_add_ge_var r a b rzr))"
proof (cases "gej_infinity a \<or> ge_infinity b")
  case True
  then show ?thesis using assms by (auto simp: gej_add_ge_var_def gej_ok_set_ge)
next
  case False
  then have f: "\<not> gej_infinity a" "\<not> ge_infinity b" by simp_all
  note ab = gej_ok_fields[OF assms(1)] ge_ok_fields[OF assms(2)]
  show ?thesis unfolding gej_add_ge_var_branches[OF f]
    apply (rule if_cases, rule if_cases)
      apply (rule gej_double_ok[OF assms(1) gej_ok_infinity[OF assms(3)]])
     apply (rule gej_ok_infinity[OF assms(3)])
    apply (rule gej_add_xy_ok; rule fe_is_eq, (rule ab fe_calc | (simp; fail))+)
    done
qed

lemma gej_add_ge_ok:
  assumes "gej_ok a" "ge_ok b"
  shows "gej_ok (gej_add_ge a b)"
proof (cases "gej_infinity a")
  case True
  have "fe_verify_magnitude 8 (fe_const 0 0 0 0 0 0 0 1)" by (simp add: fe_const_def)
  then show ?thesis using True assms(2) by (simp add: gej_add_ge_infinity gej_ok_def ge_ok_def)
next
  case False
  show ?thesis by (rule gej_okI, (rule gej_add_ge_values[OF False] gej_ok_fields[OF assms(1)] ge_ok_fields[OF assms(2)] | simp)+)
qed

lemma gej_add_zinv_var_ok:
  assumes "gej_ok a" "ge_ok b" "gej_ok r" "fe_verify_magnitude 8 bzinv"
  shows "gej_ok (gej_add_zinv_var r a b bzinv)"
proof -
  note ab = gej_ok_fields[OF assms(1)] ge_ok_fields[OF assms(2)] fe_is_self[OF assms(4)]
  consider "ge_infinity b" | "\<not> ge_infinity b" "gej_infinity a" | "\<not> gej_infinity a" "\<not> ge_infinity b" by blast
  then show ?thesis
  proof cases
    case 2
    have "fe_is 1 (fe_mul (ge_x b) (fe_sqr bzinv)) (fe_val (ge_x b) * (fe_val bzinv * fe_val bzinv))"
      by (rule fe_is_eq, (rule ab fe_calc | (simp; fail))+)
    moreover have "fe_is 1 (fe_mul (ge_y b) (fe_mul (fe_sqr bzinv) bzinv)) (fe_val (ge_y b) * (fe_val bzinv * fe_val bzinv * fe_val bzinv))"
      by (rule fe_is_eq, (rule ab fe_calc | (simp; fail))+)
    ultimately have "gej_ok \<lparr> gej_x = fe_mul (ge_x b) (fe_sqr bzinv), gej_y = fe_mul (ge_y b) (fe_mul (fe_sqr bzinv) bzinv),
      gej_z = fe_set_int 1, gej_infinity = ge_infinity b \<rparr>"
      using gej_okI[of 1 _ _ 1 _ 1] fe_set_int_1 by simp
    then show ?thesis using 2 by (simp add: gej_add_zinv_var_def Let_def)
  next
    case 3
    show ?thesis unfolding gej_add_zinv_var_branches[OF 3]
      apply (rule if_cases, rule if_cases)
        apply (rule gej_double_ok[OF assms(1) gej_ok_infinity[OF assms(3)]])
       apply (rule gej_ok_infinity[OF assms(3)])
      apply (rule gej_add_xy_ok; rule fe_is_eq, (rule ab fe_calc | (simp; fail))+)
      done
  qed (use assms(1) in \<open>simp add: gej_add_zinv_var_def\<close>)
qed

section \<open>Negation, rescaling, conversion with a known inverse\<close>

primrec ec_neg :: "point \<Rightarrow> point" where
  "ec_neg Infinity = Infinity"
| "ec_neg (Affine x y) = Affine x (- y)"

lemma ge_neg_represents: "ge_represents a P \<Longrightarrow> ge_represents (ge_neg a) (ec_neg P)"
proof (cases P)
  case (Affine x y)
  assume "ge_represents a P"
  with Affine have a: "\<not> ge_infinity a" "fe_is 8 (ge_x a) x" "fe_is 8 (ge_y a) y" by simp_all
  have "fe_is 2 (fe_negate (fe_normalize_weak (ge_y a)) 1) (- y)" by (rule fe_is_eq, (rule a fe_calc | (simp; fail))+)
  then have "fe_is 8 (fe_negate (fe_normalize_weak (ge_y a)) 1) (- y)" by (rule fe_is_weaken) simp_all
  then show ?thesis using a Affine by (simp add: ge_neg_def)
qed (simp add: ge_neg_def)

lemma gej_neg_represents: "gej_represents a P \<Longrightarrow> gej_represents (gej_neg a) (ec_neg P)"
proof (cases P)
  case (Affine x y)
  assume "gej_represents a P"
  with Affine obtain z where g: "gej_at a x y z" by auto
  note a = gej_at_fields[OF g]
  have "fe_is 2 (fe_negate (fe_normalize_weak (gej_y a)) 1) (- (y * (z * z * z)))"
    by (rule fe_is_eq, (rule a fe_calc | (simp; fail))+)
  then have "fe_is 8 (fe_negate (fe_normalize_weak (gej_y a)) 1) (- y * (z * z * z))" by (rule fe_is_weaken) simp_all
  then have "gej_at (gej_neg a) x (- y) z" using g by (simp add: gej_neg_def gej_at_def)
  then show ?thesis using Affine by auto
qed (simp add: gej_neg_def)

lemma gej_rescale_represents:
  assumes "gej_represents a P" "fe_is 8 s v" "coprime v fe_p"
  shows "gej_represents (gej_rescale a s) P"
proof (cases P)
  case (Affine x y)
  with assms(1) obtain z where g: "gej_at a x y z" by auto
  note a = gej_at_fields[OF g]
  have "fe_is 1 (fe_mul (gej_x a) (fe_sqr s)) (x * (z * v * (z * v)))"
    by (rule fe_is_eq, (rule a assms(2) fe_calc | (simp; fail))+, (simp add: algebra_simps)?)
  moreover have "fe_is 1 (fe_mul (fe_mul (gej_y a) (fe_sqr s)) s) (y * (z * v * (z * v) * (z * v)))"
    by (rule fe_is_eq, (rule a assms(2) fe_calc | (simp; fail))+, (simp add: algebra_simps)?)
  moreover have "fe_is 1 (fe_mul (gej_z a) s) (z * v)" by (rule fe_is_eq, (rule a assms(2) fe_calc | (simp; fail))+)
  moreover have "coprime (z * v) fe_p" using a(5) assms(3) by simp
  ultimately have "gej_at (gej_rescale a s) x y (z * v)"
    using a(4) by (auto simp: gej_rescale_def Let_def intro!: gej_atI)
  then show ?thesis using Affine by auto
qed (use assms in \<open>simp add: gej_rescale_def Let_def\<close>)

text \<open>
  \<open>ge_set_gej_zinv a zi\<close> multiplies the coordinates by powers of \<open>zi\<close>: it moves \<open>a\<close> to the z
  coordinate \<open>z zi\<close>, that is to affine coordinates when \<open>zi\<close> is the inverse of \<open>z\<close>.
\<close>

lemma ge_set_gej_zinv_at:
  assumes "gej_at a x y z" "fe_is 8 zi w" "z * w mod fe_p = g mod fe_p"
  shows "fe_is 1 (ge_x (ge_set_gej_zinv a zi)) (x * (g * g))" "fe_is 1 (ge_y (ge_set_gej_zinv a zi)) (y * (g * g * g))"
    "\<not> ge_infinity (ge_set_gej_zinv a zi)"
proof -
  note a = gej_at_fields[OF assms(1)]
  note c = mod_mult_cong[OF assms(3) assms(3)]
  have "fe_is 1 (ge_x (ge_set_gej_zinv a zi)) (x * (z * w * (z * w)))" unfolding ge_set_gej_zinv_def Let_def ge.simps
    by (rule fe_is_eq, (rule a assms(2) fe_calc | (simp; fail))+, (simp add: algebra_simps)?)
  moreover have "fe_is 1 (ge_y (ge_set_gej_zinv a zi)) (y * (z * w * (z * w) * (z * w)))" unfolding ge_set_gej_zinv_def Let_def ge.simps
    by (rule fe_is_eq, (rule a assms(2) fe_calc | (simp; fail))+, (simp add: algebra_simps)?)
  moreover have "x * (z * w * (z * w)) mod fe_p = x * (g * g) mod fe_p" by (rule mod_mult_cong[OF refl c])
  moreover have "y * (z * w * (z * w) * (z * w)) mod fe_p = y * (g * g * g) mod fe_p"
    by (rule mod_mult_cong[OF refl mod_mult_cong[OF c assms(3)]])
  ultimately show "fe_is 1 (ge_x (ge_set_gej_zinv a zi)) (x * (g * g))" "fe_is 1 (ge_y (ge_set_gej_zinv a zi)) (y * (g * g * g))"
    by (auto elim: fe_is_weaken)
  show "\<not> ge_infinity (ge_set_gej_zinv a zi)" using a(4) by (simp add: ge_set_gej_zinv_def Let_def)
qed

lemma ge_set_gej_zinv_affine:
  assumes "gej_at a x y z" "fe_is 8 zi w" "z * w mod fe_p = 1"
  shows "ge_represents (ge_set_gej_zinv a zi) (Affine x y)"
proof -
  have "z * w mod fe_p = 1 mod fe_p" using assms(3) by (simp add: fe_p_def)
  from ge_set_gej_zinv_at[OF assms(1,2) this] show ?thesis by (auto elim: fe_is_weaken)
qed

section \<open>Comparison of the x coordinate, the endomorphism\<close>

lemma gej_eq_x_var_iff:
  assumes "gej_represents a (Affine x y)" "fe_is 8 v w"
  shows "gej_eq_x_var v a \<longleftrightarrow> w mod fe_p = x mod fe_p"
proof -
  from assms(1) obtain z where g: "gej_at a x y z" by auto
  note a = gej_at_fields[OF g]
  have "fe_is 1 (fe_mul (fe_sqr (gej_z a)) v) (w * (z * z))"
    by (rule fe_is_eq, (rule a assms(2) fe_calc | (simp; fail))+, (simp add: algebra_simps)?)
  moreover have "fe_is 1 (fe_normalize_weak (gej_x a)) (x * (z * z))" using a(1) by (rule fe_is_normalize_weak) simp
  ultimately have "gej_eq_x_var v a \<longleftrightarrow> w * (z * z) mod fe_p = x * (z * z) mod fe_p"
    by (simp add: gej_eq_x_var_def Let_def fe_is_equal_var)
  moreover have "coprime fe_p (z * z)" using a(6) by simp
  ultimately show ?thesis unfolding mod_eq_dvd_iff left_diff_distrib[symmetric]
    by (simp add: coprime_dvd_mult_left_iff)
qed

text \<open>\<open>beta\<close> is a cube root of 1, hence \<open>ge_mul_lambda\<close> stays on the curve.\<close>

definition beta_val :: int where
  "beta_val = 55594575648329892869085402983802832744385952214688224221778511981742606582254"

lemma beta_is: "fe_is 1 beta beta_val"
  by (simp add: beta_def fe_const_def fe_is_def beta_val_def)

lemma beta_cubed: "beta_val * beta_val * beta_val mod fe_p = 1"
proof -
  have "beta_val * beta_val = 60197513588986302554485582024885075108884032450952339817679072026166228089408 + fe_p * (26692297046159697023221301508138409497602950309272737873543598905544192531516)" "60197513588986302554485582024885075108884032450952339817679072026166228089408 * beta_val = 1 + fe_p * (28902278602170195845864101475664423246783001905415486348234913076198414050737)"
    by (simp_all add: beta_val_def fe_p_num)
  then have "beta_val * beta_val * beta_val = 1 + fe_p * (28902278602170195845864101475664423246783001905415486348234913076198414050737 + 26692297046159697023221301508138409497602950309272737873543598905544192531516 * beta_val)" by algebra
  then have "beta_val * beta_val * beta_val mod fe_p = 1 mod fe_p" by (simp only: mod_mult_self2)
  then show ?thesis by (simp add: fe_p_def)
qed

lemma ge_mul_lambda_represents:
  assumes "ge_represents a (Affine x y)"
  shows "ge_represents (ge_mul_lambda a) (Affine (beta_val * x) y)"
proof -
  have a: "\<not> ge_infinity a" "fe_is 8 (ge_x a) x" "fe_is 8 (ge_y a) y" using assms by simp_all
  have "fe_is 1 (fe_mul (ge_x a) beta) (beta_val * x)"
    by (rule fe_is_eq, (rule a beta_is fe_calc | (simp; fail))+, (simp add: algebra_simps)?)
  then have "fe_is 8 (fe_mul (ge_x a) beta) (beta_val * x)" by (rule fe_is_weaken) simp_all
  then show ?thesis using a by (simp add: ge_mul_lambda_def)
qed

lemma mul_lambda_on_curve: "on_curve (Affine (beta_val * x) y) \<longleftrightarrow> on_curve (Affine x y)"
proof -
  have "beta_val * x * (beta_val * x) * (beta_val * x) = beta_val * beta_val * beta_val * (x * x * x)" by algebra
  then have "(beta_val * x * (beta_val * x) * (beta_val * x) + 7) mod fe_p = (x * x * x + 7) mod fe_p"
    using beta_cubed by (metis mod_add_left_eq mod_mult_left_eq mult_1)
  then show ?thesis by simp
qed

section \<open>Affine coordinates\<close>

lemma ge_set_gej_represents:
  assumes "gej_at a x y z" "z ^ nat (fe_p - 1) mod fe_p = 1"
  shows "ge_represents (fst (ge_set_gej a)) (Affine x y)" "gej_represents (snd (ge_set_gej a)) (Affine x y)"
    "ge_set_gej_var r a = ge_set_gej a"
proof -
  note a = gej_at_fields[OF assms(1)]
  have m: "fe_verify_magnitude 8 (gej_z a)" using a(3) by (rule fe_is_magnitude)
  have "fe_val (gej_z a) ^ nat (fe_p - 1) mod fe_p = 1"
    using assms(2) fe_is_mod[OF a(3)] by (metis power_mod)
  from fe_inv_inverse[OF m this] have "fe_val (fe_inv (gej_z a)) * fe_val (gej_z a) mod fe_p = 1" .
  then have w: "z * fe_val (fe_inv (gej_z a)) mod fe_p = 1"
    using fe_is_mod[OF a(3)] by (metis mod_mult_right_eq mult.commute)
  have i: "fe_is 8 (fe_inv (gej_z a)) (fe_val (fe_inv (gej_z a)))"
    by (rule fe_is_self) (rule fe_magnitude_mono[OF fe_inv_power(2)[OF m]], simp_all)
  define w where "w = fe_val (fe_inv (gej_z a))"
  note i = i[folded w_def] and w = w[folded w_def]
  have "fe_is 1 (ge_x (fst (ge_set_gej a))) (x * (z * w * (z * w)))" unfolding ge_set_gej_def Let_def fst_conv ge.simps
    by (rule fe_is_eq, (rule a i fe_calc | (simp; fail))+, (simp add: algebra_simps)?)
  moreover have "fe_is 1 (ge_y (fst (ge_set_gej a))) (y * (z * w * (z * w) * (z * w)))" unfolding ge_set_gej_def Let_def fst_conv ge.simps
    by (rule fe_is_eq, (rule a i fe_calc | (simp; fail))+, (simp add: algebra_simps)?)
  moreover have "x * (z * w * (z * w)) mod fe_p = x mod fe_p" "y * (z * w * (z * w) * (z * w)) mod fe_p = y mod fe_p"
    using w by (metis mod_mult_right_eq mult.right_neutral)+
  moreover have "\<not> ge_infinity (fst (ge_set_gej a))" using a(4) by (simp add: ge_set_gej_def Let_def)
  ultimately show "ge_represents (fst (ge_set_gej a)) (Affine x y)" by (auto elim: fe_is_weaken)
  moreover have "snd (ge_set_gej a) = gej_set_ge (fst (ge_set_gej a))" by (simp add: ge_set_gej_def gej_set_ge_def Let_def)
  ultimately show "gej_represents (snd (ge_set_gej a)) (Affine x y)" by (simp only: gej_set_ge_represents)
  show "ge_set_gej_var r a = ge_set_gej a"
    using a(4) by (simp add: ge_set_gej_var_def ge_set_gej_def fe_inv_var_def)
qed

section \<open>Tables\<close>

text \<open>
  A table of jacobian points with the ratios of their z coordinates: \<open>zr ! i\<close> is the factor from the
  z coordinate of entry \<open>i - 1\<close> to the one of entry \<open>i\<close>.
\<close>

definition z_ratios :: "gej list \<Rightarrow> fe list \<Rightarrow> (nat \<Rightarrow> int) \<Rightarrow> (nat \<Rightarrow> int) \<Rightarrow> (nat \<Rightarrow> int) \<Rightarrow> bool" where
  "z_ratios a zr x y z \<longleftrightarrow> (\<forall>i < length a. gej_at (a ! i) (x i) (y i) (z i)) \<and>
     (\<forall>i < length a. 0 < i \<longrightarrow> fe_verify_magnitude 8 (zr ! i) \<and> z (i - 1) * fe_val (zr ! i) mod fe_p = z i mod fe_p)"

lemma z_ratiosD:
  assumes "z_ratios a zr x y z" "i < length a"
  shows "gej_at (a ! i) (x i) (y i) (z i)" "0 < i \<Longrightarrow> fe_is 8 (zr ! i) (fe_val (zr ! i))"
    "0 < i \<Longrightarrow> z (i - 1) * fe_val (zr ! i) mod fe_p = z i mod fe_p"
  using assms by (auto simp: z_ratios_def intro: fe_is_self)

text \<open>Walking down the table with \<open>s\<close>, the factor from the z coordinate of entry \<open>n\<close> to \<open>g\<close>.\<close>

lemma ratio_step:
  assumes "z_ratios a zr x y z" "Suc n < length a" "fe_is 8 s w" "z (Suc n) * w mod fe_p = g mod fe_p"
  shows "fe_is 1 (fe_mul s (zr ! Suc n)) (w * fe_val (zr ! Suc n))"
    "z n * (w * fe_val (zr ! Suc n)) mod fe_p = g mod fe_p"
proof -
  note r = z_ratiosD[OF assms(1,2)]
  show "fe_is 1 (fe_mul s (zr ! Suc n)) (w * fe_val (zr ! Suc n))"
    by (rule fe_is_mul[OF assms(3) r(2)]) simp_all
  have "z n * fe_val (zr ! Suc n) * w mod fe_p = z (Suc n) * w mod fe_p"
    using r(3) by (intro mod_mult_cong) simp_all
  then show "z n * (w * fe_val (zr ! Suc n)) mod fe_p = g mod fe_p" using assms(4) by (simp add: ac_simps)
qed

definition table_entry :: "ge \<Rightarrow> int \<Rightarrow> int \<Rightarrow> int \<Rightarrow> bool" where
  "table_entry e x y g \<longleftrightarrow> \<not> ge_infinity e \<and> fe_is 8 (ge_x e) (x * (g * g)) \<and> fe_is 8 (ge_y e) (y * (g * g * g))"

lemma table_entry_zinv:
  "gej_at a x y z \<Longrightarrow> fe_is 8 zi w \<Longrightarrow> z * w mod fe_p = g mod fe_p \<Longrightarrow> table_entry (ge_set_gej_zinv a zi) x y g"
  using ge_set_gej_zinv_at[of a x y z zi w g] by (auto simp: table_entry_def elim: fe_is_weaken)

lemma set_table_loop_spec:
  assumes "z_ratios a zr x y z" "n < length a" "length r = length a" "fe_is 8 zi w" "z n * w mod fe_p = g mod fe_p"
  shows "length (set_table_loop a zr r zi n) = length a \<and>
    (\<forall>i. n \<le> i \<longrightarrow> set_table_loop a zr r zi n ! i = r ! i) \<and>
    (\<forall>i < n. table_entry (set_table_loop a zr r zi n ! i) (x i) (y i) g)"
  using assms(2-5)
proof (induction n arbitrary: r zi w)
  case (Suc n)
  let ?zi = "fe_mul zi (zr ! Suc n)" and ?w = "w * fe_val (zr ! Suc n)"
  note s = ratio_step[OF assms(1) Suc.prems(1,3,4)]
  have zi: "fe_is 8 ?zi ?w" using s(1) by (rule fe_is_weaken) simp_all
  have n: "n < length a" using Suc.prems(1) by simp
  have e: "table_entry (ge_set_gej_zinv (a ! n) ?zi) (x n) (y n) g"
    using table_entry_zinv[OF z_ratiosD(1)[OF assms(1) n] zi s(2)] .
  from Suc.IH[OF n _ zi s(2), of "r[n := ge_set_gej_zinv (a ! n) ?zi]"] Suc.prems(2)
  show ?case using e n by (auto simp: Let_def less_Suc_eq)
qed simp

lemma globalz_loop_spec:
  assumes "z_ratios a zr x y z" "n < length a" "length r = length a" "fe_is 8 zs w" "n \<le> hi"
    "if n = hi then 0 < n \<longrightarrow> z (n - 1) * w mod fe_p = g mod fe_p else z n * w mod fe_p = g mod fe_p"
  shows "length (globalz_loop a zr hi r zs n) = length a \<and>
    (\<forall>i. n \<le> i \<longrightarrow> globalz_loop a zr hi r zs n ! i = r ! i) \<and>
    (\<forall>i < n. table_entry (globalz_loop a zr hi r zs n ! i) (x i) (y i) g)"
  using assms(2-6)
proof (induction n arbitrary: r zs w)
  case (Suc n)
  define zs' where "zs' = (if Suc n \<noteq> hi then fe_mul zs (zr ! Suc n) else zs)"
  have "\<exists>w'. fe_is 8 zs' w' \<and> z n * w' mod fe_p = g mod fe_p"
  proof (cases "Suc n = hi")
    case False
    then have "z (Suc n) * w mod fe_p = g mod fe_p" using Suc.prems(5) by simp
    from ratio_step[OF assms(1) Suc.prems(1,3) this] False show ?thesis
      by (auto simp: zs'_def intro!: exI elim: fe_is_weaken)
  qed (use Suc.prems in \<open>auto simp: zs'_def\<close>)
  then obtain w' where w': "fe_is 8 zs' w'" "z n * w' mod fe_p = g mod fe_p" by blast
  have n: "n < length a" "n \<le> hi" "n \<noteq> hi" using Suc.prems by simp_all
  have e: "table_entry (ge_set_gej_zinv (a ! n) zs') (x n) (y n) g"
    using table_entry_zinv[OF z_ratiosD(1)[OF assms(1) n(1)] w'] .
  from Suc.IH[OF n(1) _ w'(1) n(2), of "r[n := ge_set_gej_zinv (a ! n) zs']"] Suc.prems(2) w'(2) n
  show ?case using e by (auto simp: Let_def less_Suc_eq simp flip: zs'_def)
qed simp

lemma ge_globalz_set_table_gej_spec:
  assumes "z_ratios a zr x y z" "a \<noteq> []" "length r = length a" "ge_globalz_set_table_gej r g0 a zr = (pre, g)"
    "fe_verify_magnitude 8 (zr ! 0)"
  shows "length pre = length a" "g = gej_z (last a)"
    "\<forall>i < length a. table_entry (pre ! i) (x i) (y i) (z (length a - 1))"
proof -
  define n where "n = length a - 1"
  have n: "n < length a" "length a = Suc n" using assms(2) by (simp_all add: n_def)
  let ?r = "r[n := \<lparr> ge_x = gej_x (a ! n), ge_y = gej_y (a ! n), ge_infinity = False \<rparr>]"
  have d: "pre = globalz_loop a zr n ?r (zr ! n) n" "g = gej_z (a ! n)"
    using assms(2,4) by (auto simp: ge_globalz_set_table_gej_def Let_def n_def)
  have zr: "fe_is 8 (zr ! n) (fe_val (zr ! n))"
    using assms(5) z_ratiosD(2)[OF assms(1) n(1)] by (cases "n = 0") (auto intro: fe_is_self)
  have L: "length pre = length a \<and> (\<forall>i. n \<le> i \<longrightarrow> pre ! i = ?r ! i) \<and> (\<forall>i < n. table_entry (pre ! i) (x i) (y i) (z n))"
    unfolding d by (rule globalz_loop_spec[OF assms(1) n(1) _ zr]) (use assms(3) z_ratiosD(3)[OF assms(1) n(1)] in auto)
  then show "length pre = length a" by simp
  show "g = gej_z (last a)" using assms(2) d by (simp add: last_conv_nth n_def)
  have "table_entry (pre ! n) (x n) (y n) (z n)"
    using L z_ratiosD(1)[OF assms(1) n(1)] n assms(3) by (simp add: table_entry_def gej_at_def)
  with L n show "\<forall>i < length a. table_entry (pre ! i) (x i) (y i) (z (length a - 1))"
    by (auto simp: less_Suc_eq)
qed

lemma table_entry_affine: "table_entry e x y 1 \<longleftrightarrow> ge_represents e (Affine x y)"
  by (simp add: table_entry_def)

lemma ge_set_table_gej_var_spec:
  assumes "z_ratios a zr x y z" "a \<noteq> []" "length r = length a" "z (length a - 1) ^ nat (fe_p - 1) mod fe_p = 1"
  shows "length (ge_set_table_gej_var r a zr) = length a"
    "\<forall>i < length a. ge_represents (ge_set_table_gej_var r a zr ! i) (Affine (x i) (y i))"
proof -
  define n where "n = length a - 1"
  have n: "n < length a" "length a = Suc n" using assms(2) by (simp_all add: n_def)
  note at = z_ratiosD(1)[OF assms(1) n(1)]
  note a = gej_at_fields[OF at]
  define zi where "zi = fe_inv (gej_z (a ! n))"
  have m: "fe_verify_magnitude 8 (gej_z (a ! n))" using a(3) by (rule fe_is_magnitude)
  have "fe_val (gej_z (a ! n)) ^ nat (fe_p - 1) mod fe_p = 1"
    using assms(4) fe_is_mod[OF a(3)] unfolding n_def[symmetric] by (metis power_mod)
  from fe_inv_inverse[OF m this] have "z n * fe_val zi mod fe_p = 1"
    unfolding zi_def using fe_is_mod[OF a(3)] by (metis mod_mult_right_eq mult.commute)
  then have w: "z n * fe_val zi mod fe_p = 1 mod fe_p" by (simp add: fe_p_def)
  have zi: "fe_is 8 zi (fe_val zi)"
    unfolding zi_def by (rule fe_is_self) (rule fe_magnitude_mono[OF fe_inv_power(2)[OF m]], simp_all)
  let ?r = "r[n := ge_set_gej_zinv (a ! n) zi]"
  have d: "ge_set_table_gej_var r a zr = set_table_loop a zr ?r zi n"
    using n by (simp add: ge_set_table_gej_var_def Let_def zi_def)
  have L: "length (set_table_loop a zr ?r zi n) = length a \<and>
    (\<forall>i. n \<le> i \<longrightarrow> set_table_loop a zr ?r zi n ! i = ?r ! i) \<and>
    (\<forall>i < n. table_entry (set_table_loop a zr ?r zi n ! i) (x i) (y i) 1)"
    by (rule set_table_loop_spec[OF assms(1) n(1) _ zi w]) (simp add: assms(3))
  then show "length (ge_set_table_gej_var r a zr) = length a" by (simp add: d)
  have "table_entry (set_table_loop a zr ?r zi n ! n) (x n) (y n) 1"
    using L table_entry_zinv[OF at zi w] assms(3) n by simp
  then have "\<forall>i < length a. table_entry (set_table_loop a zr ?r zi n ! i) (x i) (y i) 1"
    using L n by (auto simp: less_Suc_eq)
  then show "\<forall>i < length a. ge_represents (ge_set_table_gej_var r a zr ! i) (Affine (x i) (y i))"
    by (simp only: d table_entry_affine)
qed

section \<open>Decompression and storage\<close>

lemma odd_negation:
  assumes "0 < v" "v < fe_p"
  shows "odd ((- v) mod fe_p) \<longleftrightarrow> even v"
proof -
  have "(- v) mod fe_p = fe_p - v" using assms by (simp add: zmod_zminus1_eq_if)
  moreover have "odd fe_p" by (simp add: fe_p_def)
  ultimately show ?thesis by simp
qed

lemma ge_set_xo_var_radicand:
  assumes "fe_is 8 x v"
  defines "c \<equiv> fe_add (fe_set_int 7) (fe_mul x (fe_sqr x))"
  shows "fe_verify_magnitude 8 c" "fe_val c mod fe_p = (v * v * v + 7) mod fe_p"
proof -
  have "fe_is 2 c (7 + v * (v * v))" unfolding c_def by (rule fe_is_eq, (rule assms(1) fe_calc | (simp; fail))+)
  then show "fe_verify_magnitude 8 c" "fe_val c mod fe_p = (v * v * v + 7) mod fe_p"
    by (auto dest: fe_is_weaken[of 2 c _ 8] intro: fe_magnitude_mono fe_is_magnitude simp: fe_is_def algebra_simps)
qed

lemma ge_set_xo_var_spec:
  assumes "fe_is 8 x v" "ge_set_xo_var x od = (g, True)"
  shows "\<exists>y. ge_represents g (Affine v y) \<and> on_curve (Affine v y) \<and> 0 \<le> y \<and> y < fe_p \<and> (y \<noteq> 0 \<longrightarrow> odd y = od)"
proof -
  define c where "c = fe_add (fe_set_int 7) (fe_mul x (fe_sqr x))"
  note c = ge_set_xo_var_radicand[OF assms(1), folded c_def]
  obtain s ok where s: "fe_sqrt_var c = (s, ok)" by fastforce
  define n where "n = fe_normalize_var s"
  have d: "ok" "g = \<lparr> ge_x = x, ge_y = (if fe_is_odd n \<noteq> od then fe_negate n 1 else n), ge_infinity = False \<rparr>"
    using assms(2) by (simp_all add: ge_set_xo_var_def Let_def s n_def flip: c_def split: if_splits)
  have sm: "fe_verify_magnitude 1 s" using fe_sqrt_var_power(2)[OF c(1)] s by simp
  have sq: "fe_val s ^ 2 mod fe_p = fe_val c mod fe_p" using fe_sqrt_var_power(3)[OF c(1)] s d(1) by simp
  have nv: "fe_verify_normalized n" "fe_val n = fe_val s mod fe_p"
    using fe_normalize_spec[OF sm] by (simp_all add: n_def)
  have b: "0 \<le> fe_val n" "fe_val n < fe_p" unfolding nv(2) by (simp_all add: fe_p_def)
  have nm: "fe_is 1 n (fe_val n)" using nv(1) by (intro fe_is_self fe_verify_normalized_magnitude)
  have "fe_val n * fe_val n mod fe_p = fe_val s ^ 2 mod fe_p" unfolding nv(2) by (simp add: power2_eq_square mod_mult_eq)
  then have curve: "fe_val n * fe_val n mod fe_p = (v * v * v + 7) mod fe_p" using sq c(2) by simp
  show ?thesis
  proof (cases "fe_is_odd n = od")
    case True
    then have "ge_represents g (Affine v (fe_val n))" using d(2) assms(1) nm by (auto elim: fe_is_weaken)
    then show ?thesis using True curve b by (auto simp: fe_is_odd_iff)
  next
    case False
    define y where "y = (- fe_val n) mod fe_p"
    have "fe_is 2 (fe_negate n 1) (- fe_val n)" by (rule fe_is_eq, (rule nm fe_calc | (simp; fail))+)
    then have "fe_is 8 (fe_negate n 1) y" unfolding y_def by (rule fe_is_weaken) simp_all
    then have "ge_represents g (Affine v y)" using False d(2) assms(1) by simp
    moreover have "y * y mod fe_p = fe_val n * fe_val n mod fe_p"
      unfolding y_def by (metis mod_mult_eq minus_mult_minus)
    then have "on_curve (Affine v y)" by (simp only: on_curve.simps curve)
    moreover have "odd y = od" if "y \<noteq> 0"
    proof -
      have "fe_val n \<noteq> 0" using that unfolding y_def by (metis minus_zero mod_0)
      then have "0 < fe_val n" using b(1) by linarith
      from odd_negation[OF this b(2)] False[unfolded fe_is_odd_iff]
      show ?thesis unfolding y_def by (cases od; cases "odd (fe_val n)") simp_all
    qed
    moreover have "0 \<le> y" "y < fe_p" unfolding y_def by (rule pos_mod_sign pos_mod_bound, simp add: fe_p_def)+
    ultimately show ?thesis by blast
  qed
qed

lemma ge_storage_represents:
  assumes "ge_represents a (Affine x y)"
  shows "ge_represents (ge_from_storage (ge_to_storage a)) (Affine x y)"
proof -
  have a: "fe_is 8 (ge_x a) x" "fe_is 8 (ge_y a) y" using assms by simp_all
  have n: "fe_verify_normalized (fe_normalize (ge_x a))" "fe_verify_normalized (fe_normalize (ge_y a))"
    using fe_normalize_spec(1)[OF fe_is_magnitude[OF a(1)]] fe_normalize_spec(1)[OF fe_is_magnitude[OF a(2)]] by simp_all
  have "fe_is 8 (fe_normalize (ge_x a)) x" "fe_is 8 (fe_normalize (ge_y a)) y"
    using fe_is_normalize[OF a(1)] fe_is_normalize[OF a(2)] by (auto elim: fe_is_weaken)
  then show ?thesis by (simp add: ge_from_storage_def ge_to_storage_def fe_from_to_storage[OF n(1)] fe_from_to_storage[OF n(2)])
qed

section \<open>Batch conversion\<close>

lemma set_all_loop_spec:
  assumes "length r = length a" "length azi = length (filter (\<lambda>p. \<not> gej_infinity p) a)"
    "\<forall>j < length azi. fe_verify_magnitude 8 (azi ! j) \<and>
      fe_val (azi ! j) * fe_val (map gej_z (filter (\<lambda>p. \<not> gej_infinity p) a) ! j) mod fe_p = 1"
  shows "length (set_all_loop r a azi) = length a \<and>
    (\<forall>i < length a. \<forall>P. gej_represents (a ! i) P \<longrightarrow> ge_represents (set_all_loop r a azi ! i) P)"
  using assms
proof (induction r a azi rule: set_all_loop.induct)
  case (1 r rs p as azi)
  show ?case
  proof (cases "gej_infinity p")
    case True
    have "ge_represents (r\<lparr> ge_infinity := True \<rparr>) P" if "gej_represents p P" for P
      using that True by (cases P) (auto simp: gej_at_def)
    with 1(1)[OF True] 1(3-5) True show ?thesis by (auto simp: nth_Cons split: nat.splits)
  next
    case False
    then obtain zi zs where azi: "azi = zi # zs" using 1(4) by (cases azi) auto
    have z0: "fe_verify_magnitude 8 zi" "fe_val zi * fe_val (gej_z p) mod fe_p = 1"
      using 1(5) azi False by auto
    have rest: "\<forall>j < length zs. fe_verify_magnitude 8 (zs ! j) \<and>
      fe_val (zs ! j) * fe_val (map gej_z (filter (\<lambda>p. \<not> gej_infinity p) as) ! j) mod fe_p = 1"
      using 1(5) azi False by auto
    have "ge_represents (ge_set_gej_zinv p zi) P" if P: "gej_represents p P" for P
    proof (cases P)
      case (Affine x y)
      with P obtain z where g: "gej_at p x y z" by auto
      have "z * fe_val zi mod fe_p = 1"
        using z0(2) fe_is_mod[OF gej_at_fields(3)[OF g]] by (metis mod_mult_right_eq mult.commute)
      with ge_set_gej_zinv_affine[OF g fe_is_self[OF z0(1)]] show ?thesis by (simp add: Affine)
    qed (use P False in simp)
    with 1(2)[OF False] 1(3,4) rest azi False show ?thesis by (auto simp: nth_Cons split: nat.splits)
  qed
qed auto

section \<open>Magnitudes of the other operations\<close>

lemma fe_ops_ok:
  assumes "fe_verify_magnitude 8 a"
  shows "fe_verify_magnitude 8 (fe_sqr a)" "fe_verify_magnitude 8 b \<Longrightarrow> fe_verify_magnitude 8 (fe_mul a b)"
    "fe_verify_magnitude 8 (fe_negate (fe_normalize_weak a) 1)" "fe_verify_magnitude 8 (fe_normalize a)"
    "fe_verify_magnitude 8 (fe_inv a)" "fe_verify_magnitude 8 (fe_inv_var a)"
proof -
  note a = fe_is_self[OF assms]
  show "fe_verify_magnitude 8 (fe_sqr a)"
    by (rule fe_magnitude_mono[OF fe_is_magnitude[OF fe_is_sqr[OF a]]]) simp_all
  show "fe_verify_magnitude 8 (fe_mul a b)" if "fe_verify_magnitude 8 b"
    by (rule fe_magnitude_mono[OF fe_mul_spec(2)[OF assms that]]) simp_all
  have "fe_is 2 (fe_negate (fe_normalize_weak a) 1) (- fe_val a)"
    by (rule fe_is_eq, (rule fe_calc a | (simp; fail))+)
  from fe_magnitude_mono[OF fe_is_magnitude[OF this]] show "fe_verify_magnitude 8 (fe_negate (fe_normalize_weak a) 1)" by simp
  show "fe_verify_magnitude 8 (fe_normalize a)"
    by (rule fe_magnitude_mono[OF fe_is_magnitude[OF fe_is_normalize[OF a]]]) simp_all
  show "fe_verify_magnitude 8 (fe_inv a)" "fe_verify_magnitude 8 (fe_inv_var a)"
    using fe_magnitude_mono[OF fe_inv_power(2)[OF assms]] by (simp_all add: fe_inv_var_def)
qed

lemma small_fe_ok: "fe_verify_magnitude 8 (fe_set_int 1)" "fe_verify_magnitude 8 (fe_set_int 0)" "fe_verify_magnitude 8 beta"
proof -
  show "fe_verify_magnitude 8 (fe_set_int 1)" "fe_verify_magnitude 8 (fe_set_int 0)"
    using fe_magnitude_mono[OF fe_is_magnitude[OF fe_is_set_int], of 1 8] fe_magnitude_mono[OF fe_is_magnitude[OF fe_is_set_int], of 0 8] by simp_all
  show "fe_verify_magnitude 8 beta" by (simp add: beta_def fe_const_def)
qed

lemma negations_ok: "gej_ok a \<Longrightarrow> gej_ok (gej_neg a)" "ge_ok c \<Longrightarrow> ge_ok (ge_neg c)"
  using fe_ops_ok(3) by (simp_all add: gej_ok_def ge_ok_def gej_neg_def ge_neg_def)

lemma rescale_ok: "gej_ok a \<Longrightarrow> fe_verify_magnitude 8 s \<Longrightarrow> gej_ok (gej_rescale a s)"
  by (simp add: gej_ok_def gej_rescale_def Let_def fe_ops_ok)

lemma mul_lambda_ok: "ge_ok c \<Longrightarrow> ge_ok (ge_mul_lambda c)"
  by (simp add: ge_ok_def ge_mul_lambda_def fe_ops_ok small_fe_ok)

lemma set_gej_zinv_ok: "gej_ok a \<Longrightarrow> fe_verify_magnitude 8 zi \<Longrightarrow> ge_ok (ge_set_gej_zinv a zi)"
  by (simp add: gej_ok_def ge_ok_def ge_set_gej_zinv_def Let_def fe_ops_ok)

lemma set_gej_ok:
  assumes "gej_ok a"
  shows "ge_ok (fst (ge_set_gej a))" "gej_ok (snd (ge_set_gej a))"
    "ge_ok r \<Longrightarrow> ge_ok (fst (ge_set_gej_var r a))" "gej_ok (snd (ge_set_gej_var r a))"
  using assms by (simp_all add: gej_ok_def ge_ok_def ge_set_gej_def ge_set_gej_var_def Let_def fe_ops_ok small_fe_ok)

lemma set_xo_var_ok:
  assumes "fe_verify_magnitude 8 x"
  shows "ge_ok (fst (ge_set_xo_var x od))"
proof -
  define c where "c = fe_add (fe_set_int 7) (fe_mul x (fe_sqr x))"
  have c: "fe_verify_magnitude 8 c" unfolding c_def by (rule ge_set_xo_var_radicand(1)[OF fe_is_self[OF assms]])
  note s = fe_sqrt_var_power(2)[OF c]
  have n: "fe_verify_magnitude 1 (fe_normalize (fst (fe_sqrt_var c)))" "fe_normalize_var (fst (fe_sqrt_var c)) = fe_normalize (fst (fe_sqrt_var c))"
    using fe_verify_normalized_magnitude[OF fe_normalize_spec(1)[OF s]] fe_normalize_spec(3)[OF s] by simp_all
  have "fe_verify_magnitude 2 (fe_negate (fe_normalize (fst (fe_sqrt_var c))) 1)"
    using fe_is_magnitude[OF fe_is_negate[OF fe_is_self[OF n(1)]], of 1] by (simp add: numeral_2_eq_2)
  then show ?thesis using assms n fe_magnitude_mono[OF s, of 8] fe_magnitude_mono[OF n(1), of 8] fe_magnitude_mono[of 2 _ 8]
    by (auto simp: ge_set_xo_var_def ge_ok_def Let_def c_def[symmetric] split: prod.splits)
qed

lemma storage_ok:
  assumes "ge_ok c"
  shows "ge_ok (ge_from_storage (ge_to_storage c))"
proof -
  have "fe_verify_normalized (fe_normalize (ge_x c))" "fe_verify_normalized (fe_normalize (ge_y c))"
    using fe_normalize_spec(1) assms by (force simp: ge_ok_def)+
  then show ?thesis using assms
    by (simp add: ge_ok_def ge_from_storage_def ge_to_storage_def fe_from_to_storage fe_ops_ok)
qed

section \<open>The properties\<close>

text \<open>
  C28. The type invariant of the group operations: points whose coordinates have magnitude at most 8 (what the
  field multiplication needs) stay so through the doubling, the four additions, both negations, rescaling, the
  multiplication by lambda, the conversions between affine, jacobian and stored points, and decompression.
\<close>
theorem gej_operations_keep_magnitudes:
  assumes "gej_ok r" "gej_ok a" "gej_ok b" "ge_ok c" "fe_verify_magnitude 8 s"
  shows "gej_ok (fst (gej_double_var r a rzr)) \<and> gej_ok (fst (gej_add_var r a b rzr)) \<and>
    gej_ok (fst (gej_add_ge_var r a c rzr)) \<and> gej_ok (gej_add_zinv_var r a c s) \<and> gej_ok (gej_add_ge a c) \<and>
    gej_ok (gej_neg a) \<and> ge_ok (ge_neg c) \<and> gej_ok (gej_rescale a s) \<and> ge_ok (ge_mul_lambda c) \<and>
    gej_ok (gej_set_ge c) \<and> ge_ok (ge_set_gej_zinv a s) \<and> ge_ok (fst (ge_set_gej a)) \<and> gej_ok (snd (ge_set_gej a)) \<and>
    ge_ok (fst (ge_set_gej_var c a)) \<and> gej_ok (snd (ge_set_gej_var c a)) \<and>
    ge_ok (ge_from_storage (ge_to_storage c)) \<and> ge_ok (fst (ge_set_xo_var s od))"
  using assms by (intro conjI gej_double_ok gej_add_var_ok gej_add_ge_var_ok gej_add_zinv_var_ok gej_add_ge_ok negations_ok
      rescale_ok mul_lambda_ok gej_ok_set_ge set_gej_zinv_ok set_gej_ok storage_ok set_xo_var_ok)

lemma generator_ok: "ge_ok ge_const_g" "ge_ok double_g"
  by (simp_all add: ge_ok_def ge_const_g_def double_g_def fe_const_def)

theorem gej_operations_keep_magnitudes_witness:
  "gej_ok (fst (gej_add_ge_var gej_clear (gej_set_ge ge_const_g) double_g None))"
proof -
  have "gej_ok gej_clear" by (simp add: gej_ok_def gej_clear_def fe_clear_def)
  from gej_operations_keep_magnitudes[OF this gej_ok_set_ge[OF generator_ok(1)] this generator_ok(2), of fe_clear]
  show ?thesis by (simp add: fe_clear_def)
qed

text \<open>
  Adding points of the curve stays on the curve, as the code itself checks it: when the operands are
  infinity or pass \<open>is_valid_var\<close>, so does the result of the additions.
\<close>
theorem gej_additions_stay_on_curve:
  assumes "gej_represents a P" "ec_add P Q R" "gej_infinity a \<or> gej_is_valid_var a"
  shows "(gej_represents b Q \<and> (gej_infinity b \<or> gej_is_valid_var b) \<longrightarrow>
      gej_infinity (fst (gej_add_var r a b rzr)) \<or> gej_is_valid_var (fst (gej_add_var r a b rzr))) \<and>
    (ge_represents c Q \<and> (ge_infinity c \<or> ge_is_valid_var c) \<longrightarrow>
      gej_infinity (fst (gej_add_ge_var r a c rzr)) \<or> gej_is_valid_var (fst (gej_add_ge_var r a c rzr)))"
proof (intro conjI impI)
  have jac: "on_curve S \<longleftrightarrow> gej_infinity g \<or> gej_is_valid_var g" if "gej_represents g S" for g S
    using that gej_is_valid_var_iff[OF that] by (cases S) (auto simp: gej_at_def)
  have aff: "on_curve S \<longleftrightarrow> ge_infinity g \<or> ge_is_valid_var g" if "ge_represents g S" for g S
    using that ge_is_valid_var_iff[OF that] by (cases S) auto
  have P: "on_curve P" using assms(1,3) jac by blast
  show "gej_infinity (fst (gej_add_var r a b rzr)) \<or> gej_is_valid_var (fst (gej_add_var r a b rzr))"
    if "gej_represents b Q \<and> (gej_infinity b \<or> gej_is_valid_var b)"
    using that jac P ec_add_on_curve[OF assms(2)] gej_add_var_represents[OF assms(1) _ assms(2)] by blast
  show "gej_infinity (fst (gej_add_ge_var r a c rzr)) \<or> gej_is_valid_var (fst (gej_add_ge_var r a c rzr))"
    if "ge_represents c Q \<and> (ge_infinity c \<or> ge_is_valid_var c)"
    using that jac aff P ec_add_on_curve[OF assms(2)] gej_add_ge_var_represents[OF assms(1) _ assms(2)] by blast
qed

theorem gej_additions_stay_on_curve_witness:
  "gej_infinity (fst (gej_add_ge_var gej_clear (gej_set_ge ge_const_g) double_g None)) \<or>
    gej_is_valid_var (fst (gej_add_ge_var gej_clear (gej_set_ge ge_const_g) double_g None))"
proof -
  note g = gej_set_ge_represents[OF generator_represents(1)]
  have "gej_is_valid_var (gej_set_ge ge_const_g)" using gej_is_valid_var_iff[OF g] generator_on_curve by simp
  moreover have "ge_is_valid_var double_g" using ge_is_valid_var_iff[OF generator_represents(2)] generator_on_curve by simp
  ultimately show ?thesis
    using gej_additions_stay_on_curve[OF g generator_chord, where c = double_g] generator_represents(2) by blast
qed

text \<open>
  Decompression: when \<open>ge_set_xo_var\<close> succeeds, the point has the given x coordinate, is on the curve and
  its y coordinate is reduced and of the requested parity (unless it is 0); and it succeeds whenever
  \<open>x^3 + 7\<close> is the square of some \<open>y\<close> for which Fermat's congruence holds.
\<close>
theorem ge_set_xo_var_correct:
  assumes "fe_verify_magnitude 8 x" "fe_val x mod fe_p = v mod fe_p"
  shows "(\<forall>g. ge_set_xo_var x od = (g, True) \<longrightarrow>
      ge_is_valid_var g \<and> (\<exists>y. ge_represents g (Affine v y) \<and> 0 \<le> y \<and> y < fe_p \<and> (y \<noteq> 0 \<longrightarrow> odd y = od))) \<and>
    (\<forall>y. y ^ nat (fe_p - 1) mod fe_p = 1 \<and> (v * v * v + 7) mod fe_p = y ^ 2 mod fe_p \<longrightarrow> snd (ge_set_xo_var x od))"
proof (intro conjI allI impI)
  have x: "fe_is 8 x v" using assms by (simp add: fe_is_def)
  fix g assume "ge_set_xo_var x od = (g, True)"
  from ge_set_xo_var_spec[OF x this] obtain y where y: "ge_represents g (Affine v y)" "on_curve (Affine v y)"
    "0 \<le> y" "y < fe_p" "y \<noteq> 0 \<longrightarrow> odd y = od" by blast
  show "ge_is_valid_var g" using ge_is_valid_var_iff[OF y(1)] y(2) by simp
  show "\<exists>y. ge_represents g (Affine v y) \<and> 0 \<le> y \<and> y < fe_p \<and> (y \<noteq> 0 \<longrightarrow> odd y = od)" using y by blast
next
  have x: "fe_is 8 x v" using assms by (simp add: fe_is_def)
  fix y assume y: "y ^ nat (fe_p - 1) mod fe_p = 1 \<and> (v * v * v + 7) mod fe_p = y ^ 2 mod fe_p"
  define c where "c = fe_add (fe_set_int 7) (fe_mul x (fe_sqr x))"
  note c = ge_set_xo_var_radicand[OF x, folded c_def]
  have "snd (fe_sqrt_var c)" using fe_sqrt_var_spec[OF c(1)] c(2) y by metis
  then show "snd (ge_set_xo_var x od)" by (auto simp: ge_set_xo_var_def Let_def simp flip: c_def split: prod.split)
qed

text \<open>A cube root of -6: the x coordinate of the points whose y coordinate is 1 or -1.\<close>

definition unit_x :: fe where
  "unit_x = Fe 0xbcbcfaaaff507 0x167653f6b2b24 0x33ce5a6e80d68 0xb5c135ab77413 0x1fe1e5ef3fce"

lemma unit_x_cube: "(fe_val unit_x * fe_val unit_x * fe_val unit_x + 7) mod fe_p = 1 ^ 2 mod fe_p"
proof -
  have "fe_val unit_x = 14420825845716772930243294451304383010336953996540286189290595400563546912007" by (simp add: unit_x_def)
  then have "fe_val unit_x * fe_val unit_x * fe_val unit_x + 7 = 1 ^ 2 + fe_p * 25899507534701520581795134778160311015495504093523267263232233975490419224647606583316828070306725531077228335006842549734466553100443339289797036604723"
    by (simp add: fe_p_num)
  then show ?thesis by (simp only: mod_mult_self2)
qed

theorem ge_set_xo_var_correct_witness:
  "\<exists>g. ge_set_xo_var unit_x True = (g, True) \<and> ge_is_valid_var g"
proof -
  have m: "fe_verify_magnitude 8 unit_x" by (simp add: unit_x_def)
  have f: "(1 :: int) ^ nat (fe_p - 1) mod fe_p = 1" by (simp add: fe_p_def)
  note c = ge_set_xo_var_correct[OF m refl, of True]
  have "snd (ge_set_xo_var unit_x True)" using c unit_x_cube f by blast
  moreover obtain g b where "ge_set_xo_var unit_x True = (g, b)" by fastforce
  ultimately show ?thesis using c by auto
qed

text \<open>
  Conversion to affine coordinates: \<open>ge_set_gej\<close> (and \<open>ge_set_gej_var\<close>, and the batch
  \<open>ge_set_all_gej_var\<close> with its single inversion) give the affine point that the jacobian point represents,
  for z coordinates that satisfy Fermat's congruence.
\<close>
theorem ge_set_gej_correct:
  assumes "\<forall>p \<in> set (a # as). \<not> gej_infinity p \<longrightarrow> fe_val (gej_z p) ^ nat (fe_p - 1) mod fe_p = 1"
    "gej_represents a P" "\<forall>p \<in> set as. \<exists>P. gej_represents p P" "length r = length as"
  shows "ge_represents (fst (ge_set_gej a)) P \<and> ge_represents (fst (ge_set_gej_var r0 a)) P \<and>
    (\<forall>i < length as. \<forall>Q. gej_represents (as ! i) Q \<longrightarrow> ge_represents (ge_set_all_gej_var r as ! i) Q)"
proof (intro conjI)
  show 1: "ge_represents (fst (ge_set_gej a)) P"
  proof (cases P)
    case (Affine x y)
    with assms(2) obtain z where g: "gej_at a x y z" by auto
    then have "z ^ nat (fe_p - 1) mod fe_p = 1"
      using assms(1) gej_at_fields(3,4)[OF g] by (metis fe_is_mod list.set_intros(1) power_mod)
    from ge_set_gej_represents(1)[OF g this] Affine show ?thesis by simp
  qed (use assms(2) in \<open>simp add: ge_set_gej_def Let_def\<close>)
  show "ge_represents (fst (ge_set_gej_var r0 a)) P"
  proof (cases P)
    case (Affine x y)
    with assms(2) have "\<not> gej_infinity a" by (auto simp: gej_at_def)
    then have "ge_set_gej_var r0 a = ge_set_gej a" by (simp add: ge_set_gej_var_def ge_set_gej_def fe_inv_var_def)
    with 1 show ?thesis by simp
  qed (use assms(2) in \<open>simp add: ge_set_gej_var_def\<close>)
  define az where "az = map gej_z (filter (\<lambda>p. \<not> gej_infinity p) as)"
  have "fe_verify_magnitude 8 z \<and> fe_val z ^ nat (fe_p - 1) mod fe_p = 1" if z: "z \<in> set az" for z
  proof -
    from z obtain p where p: "p \<in> set as" "\<not> gej_infinity p" "z = gej_z p" by (auto simp: az_def)
    with assms(3) obtain P where "gej_represents p P" by blast
    with p(2) have "fe_verify_magnitude 8 (gej_z p)" by (cases P) (auto simp: gej_at_def intro: fe_is_magnitude)
    then show ?thesis using assms(1) p by auto
  qed
  then have "\<forall>i < length az. fe_verify_magnitude 8 (az ! i) \<and> fe_val (az ! i) ^ nat (fe_p - 1) mod fe_p = 1" by simp
  from fe_inv_all_var_spec[OF _ this, of "replicate (length az) fe_clear"]
  have "length (set_all_loop r as (fe_inv_all_var (replicate (length az) fe_clear) az)) = length as \<and>
    (\<forall>i < length as. \<forall>P. gej_represents (as ! i) P \<longrightarrow> ge_represents (set_all_loop r as (fe_inv_all_var (replicate (length az) fe_clear) az) ! i) P)"
    by (intro set_all_loop_spec[OF assms(4)]) (simp_all add: az_def)
  then show "\<forall>i < length as. \<forall>Q. gej_represents (as ! i) Q \<longrightarrow> ge_represents (ge_set_all_gej_var r as ! i) Q"
    by (simp add: ge_set_all_gej_var_def Let_def az_def)
qed

theorem ge_set_gej_correct_witness:
  "ge_represents (ge_set_all_gej_var [ge_clear] [gej_set_ge ge_const_g] ! 0) (Affine g_x g_y)"
proof -
  define p where "p = gej_set_ge ge_const_g"
  have g: "gej_represents p (Affine g_x g_y)" unfolding p_def by (rule gej_set_ge_represents[OF generator_represents(1)])
  have "fe_val (gej_z p) = 1" by (simp add: p_def gej_set_ge_def fe_set_int_def)
  then have "fe_val (gej_z p) ^ nat (fe_p - 1) mod fe_p = 1" by (simp add: fe_p_def)
  then have z: "\<forall>q \<in> set [p, p]. \<not> gej_infinity q \<longrightarrow> fe_val (gej_z q) ^ nat (fe_p - 1) mod fe_p = 1" by simp
  have e: "\<forall>q \<in> set [p]. \<exists>P. gej_represents q P" using g by (metis empty_iff list.set(1) set_ConsD)
  have "length [ge_clear] = length [p]" by simp
  from ge_set_gej_correct[OF z g e this, of ge_clear] g have "ge_represents (ge_set_all_gej_var [ge_clear] [p] ! 0) (Affine g_x g_y)"
    by (metis length_Cons nth_Cons_0 zero_less_Suc)
  then show ?thesis by (simp only: p_def)
qed

text \<open>
  Tables of multiples: with the known ratios of the z coordinates, \<open>ge_globalz_set_table_gej\<close> brings
  every entry to the z coordinate of the last one without an inversion, and \<open>ge_set_table_gej_var\<close> makes
  every entry affine with one inversion.
\<close>
theorem ge_tables_correct:
  assumes "z_ratios a zr x y z" "a \<noteq> []" "length r = length a" "fe_verify_magnitude 8 (zr ! 0)"
    "i < length a"
  shows "table_entry (fst (ge_globalz_set_table_gej r g0 a zr) ! i) (x i) (y i) (z (length a - 1)) \<and>
    snd (ge_globalz_set_table_gej r g0 a zr) = gej_z (last a) \<and>
    (z (length a - 1) ^ nat (fe_p - 1) mod fe_p = 1 \<longrightarrow> ge_represents (ge_set_table_gej_var r a zr ! i) (Affine (x i) (y i)))"
  using ge_globalz_set_table_gej_spec[OF assms(1,2,3) surjective_pairing assms(4)]
    ge_set_table_gej_var_spec[OF assms(1,2,3)] assms(5) by blast

theorem ge_tables_correct_witness:
  "ge_represents (ge_set_table_gej_var [ge_clear, ge_clear] [gej_set_ge ge_const_g, gej_set_ge double_g] [fe_set_int 1, fe_set_int 1] ! 0) (Affine g_x g_y)"
proof -
  let ?a = "[gej_set_ge ge_const_g, gej_set_ge double_g]" and ?zr = "[fe_set_int 1, fe_set_int 1]"
  have "gej_at (gej_set_ge ge_const_g) g_x g_y 1" "gej_at (gej_set_ge double_g) g2_x g2_y 1"
    using generator_represents fe_is_weaken[OF fe_set_int_1, of 8 1] by (simp_all add: gej_at_def gej_set_ge_def)
  then have "z_ratios ?a ?zr (\<lambda>i. if i = 0 then g_x else g2_x) (\<lambda>i. if i = 0 then g_y else g2_y) (\<lambda>i. 1)"
    by (auto simp: z_ratios_def less_Suc_eq nth_Cons' fe_set_int_def fe_p_def)
  from ge_tables_correct[OF this, of "[ge_clear, ge_clear]" 0] show ?thesis
    by (auto simp: fe_set_int_def fe_p_def)
qed

end
