(* ===== verification/Ecmult.thy ===== *)
theory Ecmult
  imports Group_Ops
begin

text \<open>
  Multiplication of points by scalars: ecmult.h and ecmult_impl.h in the configuration without the
  endomorphism (libsecp256k1-config.h does not define USE_ENDOMORPHISM), and ecdh_impl.h.

  The C functions write their results into arrays of the caller. Arrays are lists here; the local
  arrays, whose contents are not initialised, start as zeros, and every entry is written before it
  is read. A wNAF array is written from index 0 upwards, so it is the list of the entries written
  so far and the count \<open>set_bits\<close> is its length. The two wNAF loops are partial functions: None is
  a loop that does not end.
\<close>

definition WINDOW_A :: nat where "WINDOW_A = 5"

definition WINDOW_G :: nat where "WINDOW_G = 16"

definition ECMULT_TABLE_SIZE :: "nat \<Rightarrow> nat" where
  "ECMULT_TABLE_SIZE w = 2 ^ (w - 2)"

section \<open>Tables of odd multiples\<close>

text \<open>
  The sum is computed on an isomorphic curve where the double of \<open>a\<close> is affine; \<open>d\<close> is only left
  uninitialised when \<open>a\<close> is infinity, which the function excludes by a VERIFY_CHECK.
\<close>

definition odd_multiples_step :: "ge \<Rightarrow> nat \<Rightarrow> gej list \<times> fe list \<Rightarrow> gej list \<times> fe list" where
  "odd_multiples_step d_ge i st = (case st of (prej, zr) \<Rightarrow>
     (let (p, z) = gej_add_ge_var (prej ! i) (prej ! (i - 1)) d_ge (Some (zr ! i))
      in (prej[i := p], zr[i := the z])))"

definition ecmult_odd_multiples_table :: "nat \<Rightarrow> gej list \<Rightarrow> fe list \<Rightarrow> gej \<Rightarrow> gej list \<times> fe list" where
  "ecmult_odd_multiples_table n prej zr a =
     (let d = fst (gej_double_var gej_clear a None);
          d_ge = \<lparr> ge_x = gej_x d, ge_y = gej_y d, ge_infinity = False \<rparr>;
          a_ge = ge_set_gej_zinv a (gej_z d);
          prej = prej[0 := \<lparr> gej_x = ge_x a_ge, gej_y = ge_y a_ge, gej_z = gej_z a, gej_infinity = False \<rparr>];
          zr = zr[0 := gej_z d];
          (prej, zr) = fold (odd_multiples_step d_ge) [1..<n] (prej, zr)
      in (prej[n - 1 := (prej ! (n - 1))\<lparr> gej_z := fe_mul (gej_z (prej ! (n - 1))) (gej_z d) \<rparr>], zr))"

definition ecmult_odd_multiples_table_globalz_windowa :: "gej \<Rightarrow> ge list \<times> fe" where
  "ecmult_odd_multiples_table_globalz_windowa a =
     (let n = ECMULT_TABLE_SIZE WINDOW_A;
          (prej, zr) = ecmult_odd_multiples_table n (replicate n gej_clear) (replicate n fe_clear) a
      in ge_globalz_set_table_gej (replicate n ge_clear) fe_clear prej zr)"

definition ecmult_odd_multiples_table_storage_var :: "nat \<Rightarrow> gej \<Rightarrow> ge_storage list" where
  "ecmult_odd_multiples_table_storage_var n a =
     (let (prej, zr) = ecmult_odd_multiples_table n (replicate n gej_clear) (replicate n fe_clear) a;
          prea = ge_set_table_gej_var (replicate n ge_clear) prej zr
      in map ge_to_storage prea)"

definition table_get_ge :: "ge list \<Rightarrow> int \<Rightarrow> ge" where
  "table_get_ge pre n = (if n > 0 then pre ! nat ((n - 1) div 2) else ge_neg (pre ! nat ((- n - 1) div 2)))"

definition table_get_ge_storage :: "ge_storage list \<Rightarrow> int \<Rightarrow> ge" where
  "table_get_ge_storage pre n =
     (if n > 0 then ge_from_storage (pre ! nat ((n - 1) div 2))
      else ge_neg (ge_from_storage (pre ! nat ((- n - 1) div 2))))"

section \<open>The verification context\<close>

record ecmult_context =
  pre_g :: "ge_storage list option"

definition ecmult_context_init :: ecmult_context where
  "ecmult_context_init = \<lparr> pre_g = None \<rparr>"

definition ecmult_context_build :: "ecmult_context \<Rightarrow> ecmult_context" where
  "ecmult_context_build ctx =
     (if pre_g ctx \<noteq> None then ctx
      else
        (let gj = gej_set_ge ge_const_g
         in ctx\<lparr> pre_g := Some (ecmult_odd_multiples_table_storage_var (ECMULT_TABLE_SIZE WINDOW_G) gj) \<rparr>))"

definition ecmult_context_clone :: "ecmult_context \<Rightarrow> ecmult_context" where
  "ecmult_context_clone src =
     (case pre_g src of None \<Rightarrow> \<lparr> pre_g = None \<rparr>
      | Some t \<Rightarrow> \<lparr> pre_g = Some (take (ECMULT_TABLE_SIZE WINDOW_G) t) \<rparr>)"

definition ecmult_context_is_built :: "ecmult_context \<Rightarrow> bool" where
  "ecmult_context_is_built ctx = (pre_g ctx \<noteq> None)"

definition ecmult_context_clear :: "ecmult_context \<Rightarrow> ecmult_context" where
  "ecmult_context_clear ctx = ecmult_context_init"

section \<open>The windowed non-adjacent form\<close>

text \<open>
  The digits are C ints in the source and integers here. For windows up to 30 the source computes the same: \<open>1 << w\<close>, the
  words and the digits are below 2^31 in absolute value. At \<open>w = 31\<close>, which the VERIFY_CHECK admits and no caller uses (the
  windows are 5 and 16), \<open>1 << w\<close> overflows the int of the source; the definition has the intended value there.
\<close>

partial_function (option) wnaf_loop :: "nat \<Rightarrow> int \<Rightarrow> scalar \<Rightarrow> int list \<Rightarrow> nat \<Rightarrow> int list option" where
  "wnaf_loop w sign s wnaf pos =
     (if pos < 256 then
        (if scalar_get_bits s (word_of_nat pos) 1 = 0 then wnaf_loop w sign s wnaf (pos + 1)
         else
           (let wnaf = wnaf @ replicate (pos - length wnaf) 0;
                now = (if pos + w > 256 then 256 - pos else w);
                wrd = scalar_get_bits_var s (word_of_nat pos) (word_of_nat now)
            in if wrd AND push_bit (w - 1) 1 \<noteq> 0
               then wnaf_loop w sign (scalar_add_bit s (word_of_nat (pos + w))) (wnaf @ [sign * (uint wrd - 2 ^ w)]) (pos + now)
               else wnaf_loop w sign s (wnaf @ [sign * uint wrd]) (pos + now)))
      else Some wnaf)"

definition ecmult_wnaf :: "scalar \<Rightarrow> nat \<Rightarrow> int list option" where
  "ecmult_wnaf a w =
     (if scalar_get_bits a 255 1 \<noteq> 0 then wnaf_loop w (- 1) (scalar_negate a) [] 0
      else wnaf_loop w 1 a [] 0)"

section \<open>The double multiplication\<close>

text \<open>One turn of the main loop: \<open>r\<close> is doubled, then the entries of the two forms at \<open>i\<close> are added.\<close>

definition ecmult_step :: "ge list \<Rightarrow> int list \<Rightarrow> ge_storage list \<Rightarrow> int list \<Rightarrow> fe \<Rightarrow> nat \<Rightarrow> gej \<Rightarrow> gej" where
  "ecmult_step pre_a wnaf_na pre wnaf_ng Z i r =
     (let r = fst (gej_double_var r r None);
          r = (if i < length wnaf_na \<and> wnaf_na ! i \<noteq> 0
               then fst (gej_add_ge_var r r (table_get_ge pre_a (wnaf_na ! i)) None) else r);
          r = (if i < length wnaf_ng \<and> wnaf_ng ! i \<noteq> 0
               then gej_add_zinv_var r r (table_get_ge_storage pre (wnaf_ng ! i)) Z else r)
      in r)"

definition ecmult :: "ecmult_context \<Rightarrow> gej \<Rightarrow> scalar \<Rightarrow> scalar \<Rightarrow> gej option" where
  "ecmult ctx a na ng =
     (case (ecmult_wnaf na WINDOW_A, ecmult_wnaf ng WINDOW_G) of
        (Some wnaf_na, Some wnaf_ng) \<Rightarrow>
          (let bits = length wnaf_na;
               (pre_a, Z) = ecmult_odd_multiples_table_globalz_windowa a;
               bits = (if length wnaf_ng > bits then length wnaf_ng else bits);
               r = gej_set_infinity;
               r = fold (ecmult_step pre_a wnaf_na (the (pre_g ctx)) wnaf_ng Z) (rev [0..<bits]) r
           in Some (if \<not> gej_infinity r then r\<lparr> gej_z := fe_mul (gej_z r) Z \<rparr> else r))
      | _ \<Rightarrow> None)"

section \<open>The multiplication for ECDH\<close>

partial_function (option) ecdh_wnaf_loop :: "nat \<Rightarrow> int \<Rightarrow> scalar \<Rightarrow> int \<Rightarrow> int \<Rightarrow> int list \<Rightarrow> nat \<Rightarrow> (int list \<times> nat) option" where
  "ecdh_wnaf_loop w global_sign s u u_last wnaf pos =
     (if pos * w < 256 then
        (let (s, u) = scalar_shr_int s w;
             even_u = (if u mod 2 = 0 then 1 else 0);
             sign = 2 * (if u_last > 0 then 1 else 0) - 1;
             u = u + sign * even_u;
             u_last = u_last - sign * even_u * 2 ^ w
         in ecdh_wnaf_loop w global_sign s u u (wnaf @ [u_last * global_sign]) (pos + 1))
      else Some (wnaf @ [u * global_sign], pos))"

definition ecdh_wnaf :: "scalar \<Rightarrow> nat \<Rightarrow> (int list \<times> nat) option" where
  "ecdh_wnaf a w =
     (let (s, global_sign) = scalar_wnaf_force_odd a;
          (s, u_last) = scalar_shr_int s w
      in ecdh_wnaf_loop w global_sign s 0 u_last [] 0)"

definition ecdh_step :: "ge list \<Rightarrow> int list \<Rightarrow> nat \<Rightarrow> gej \<Rightarrow> gej" where
  "ecdh_step pre_a wnaf i r =
     (let r = ((\<lambda>r. fst (gej_double_var r r None)) ^^ (WINDOW_A - 1)) r
      in gej_add_ge r (table_get_ge pre_a (wnaf ! i)))"

fun scalar_bump_low :: "scalar \<Rightarrow> bool \<Rightarrow> scalar" where
  "scalar_bump_low (Scalar d0 d1 d2 d3) b = Scalar (d0 + flag b) d1 d2 d3"

definition ecdh_point_multiply :: "ge \<Rightarrow> scalar \<Rightarrow> gej option" where
  "ecdh_point_multiply a scal =
     (let is_zero = scalar_is_zero scal;
          sc = scalar_bump_low scal is_zero
      in case ecdh_wnaf sc (WINDOW_A - 1) of None \<Rightarrow> None
         | Some (wnaf, n_words) \<Rightarrow>
           (let r = gej_set_ge a;
                (pre_a, Z) = ecmult_odd_multiples_table_globalz_windowa r;
                r = gej_set_infinity;
                r = fold (ecdh_step pre_a wnaf) (rev [0..<n_words + 1]) r;
                r = (if \<not> gej_infinity r then r\<lparr> gej_z := fe_mul (gej_z r) Z \<rparr> else r)
            in Some (r\<lparr> gej_infinity := gej_infinity r \<or> is_zero \<rparr>)))"

end
