(* ===== verification/Wnaf.thy ===== *)
theory Wnaf
  imports Ecmult
begin

text \<open>
  The windowed non-adjacent form of ecmult_impl.h: the loop ends, the digits are zero or odd and
  below half the window, nonzero digits are at least a window apart, and they sum up to the scalar
  modulo the order of the group.
\<close>

section \<open>Bits of scalars\<close>

lemma unat_of_nat32: "n < 2 ^ 32 \<Longrightarrow> unat (word_of_nat n :: u32) = n"
  by (simp add: unsigned_of_nat take_bit_nat_eq_self)

lemma get_bits_var_value:
  assumes "0 < c" "c < 32" "p + c \<le> 256"
  shows "uint (scalar_get_bits_var a (word_of_nat p) (word_of_nat c)) = scalar_val a div 2 ^ p mod 2 ^ c"
proof -
  have u: "unat (word_of_nat p :: u32) = p" "unat (word_of_nat c :: u32) = c"
    using assms by (auto intro!: unat_of_nat32)
  show ?thesis using get_bits_var_spec[of "word_of_nat c" "word_of_nat p" a] assms by (simp add: u)
qed

lemma get_bits_one:
  assumes "p < 256"
  shows "scalar_get_bits a (word_of_nat p) 1 = 0 \<longleftrightarrow> even (scalar_val a div 2 ^ p)"
proof -
  have u: "unat (word_of_nat p :: u32) = p" using assms by (intro unat_of_nat32) simp
  have "p mod 64 + 1 \<le> 64" by simp
  then have b: "bit (scalar_get_bits a (word_of_nat p) 1) i \<longleftrightarrow> i = 0 \<and> bit (scalar_val a) p" for i
    using get_bits_bit[of 1 "word_of_nat p" a i] assms by (auto simp: u)
  have "scalar_get_bits a (word_of_nat p) 1 = 0 \<longleftrightarrow> \<not> bit (scalar_val a) p"
    using b by (metis bit_0_eq bit_eqI bot_apply bot_bool_def)
  then show ?thesis by (simp add: bit_iff_odd)
qed

lemma bit_limb64_value:
  assumes "k < 256"
  shows "uint (bit_limb64 j (word_of_nat k)) = (if k div 64 = unat j then 2 ^ (k mod 64) else 0)"
proof -
  have u: "unat (word_of_nat k :: u32) = k" using assms by (intro unat_of_nat32) simp
  have "drop_bit 6 (word_of_nat k) = j \<longleftrightarrow> k div 64 = unat j"
    by (simp add: word_unat_eq_iff unat_drop_bit_div u)
  moreover have "uint (push_bit (k mod 64) 1 :: u64) = 2 ^ (k mod 64)"
  proof -
    have "(2 :: nat) ^ (k mod 64) < 2 ^ 64" by (rule power_strict_increasing) simp_all
    then have "uint (word_of_nat (2 ^ (k mod 64)) :: u64) = int (2 ^ (k mod 64))" by (intro uint_of_nat_nowrap) simp
    then show ?thesis by (simp add: push_bit_eq_mult)
  qed
  ultimately show ?thesis by (simp add: bit_limb64_def flag_def unat_and_63 u)
qed

lemma scalar_add_bit_spec:
  assumes "k < 256" "scalar_val a + 2 ^ k < 2 ^ 256"
  shows "scalar_val (scalar_add_bit a (word_of_nat k)) = scalar_val a + 2 ^ k"
proof -
  obtain d0 d1 d2 d3 where a: "a = Scalar d0 d1 d2 d3" by (cases a)
  note lim = u64_bounds[of d0] u64_bounds[of d1] u64_bounds[of d2] u64_bounds[of d3]
  define m where "m j = bit_limb64 j (word_of_nat k)" for j :: u32
  obtain r t where q: "add_chain (ucast d0 + ucast (m 0)) (ucast d1 + ucast (m 1)) (ucast d2 + ucast (m 2))
      (ucast d3 + ucast (m 3)) = (r, t)" by fastforce
  have r: "scalar_add_bit a (word_of_nat k) = r"
    using q unfolding a scalar_add_bit_def add_chain_def Let_def scalar.case m_def by simp
  note b = u64_bounds[of "m 0"] u64_bounds[of "m 1"] u64_bounds[of "m 2"] u64_bounds[of "m 3"]
  have "scalar_val r + uint t * 2 ^ 256 = uint (ucast d0 + ucast (m 0) :: u128) + uint (ucast d1 + ucast (m 1) :: u128) * 2 ^ 64
      + uint (ucast d2 + ucast (m 2) :: u128) * 2 ^ 128 + uint (ucast d3 + ucast (m 3) :: u128) * 2 ^ 192"
    by (rule add_chain_spec[OF _ _ _ q]) (unfold uint_two_limbs, (use lim b in linarith)+)
  also have "\<dots> = scalar_val a + (uint (m 0) + uint (m 1) * 2 ^ 64 + uint (m 2) * 2 ^ 128 + uint (m 3) * 2 ^ 192)"
    by (simp only: uint_two_limbs a scalar_val.simps) (simp add: algebra_simps)
  also have "uint (m 0) + uint (m 1) * 2 ^ 64 + uint (m 2) * 2 ^ 128 + uint (m 3) * 2 ^ 192 = 2 ^ k"
  proof -
    have "k div 64 < 4" using assms(1) by simp
    then consider "k div 64 = 0" | "k div 64 = 1" | "k div 64 = 2" | "k div 64 = 3" by linarith
    moreover have "(2 :: int) ^ k = 2 ^ (k mod 64) * 2 ^ (64 * (k div 64))" by (simp flip: power_add)
    ultimately show ?thesis by cases (simp_all add: m_def bit_limb64_value[OF assms(1)])
  qed
  finally have s: "scalar_val r + uint t * 2 ^ 256 = scalar_val a + 2 ^ k" .
  have "uint t = 0"
  proof -
    have "uint t * 2 ^ 256 < 1 * 2 ^ 256" using s assms(2) scalar_val_bounds(1)[of r] by linarith
    then have "uint t < 1" by (simp only: mult_less_cancel_right) simp
    then show ?thesis using uint_ge_0[of t] by linarith
  qed
  then show ?thesis using s r by simp
qed

section \<open>The loop\<close>

text \<open>The integer that a list of digits stands for, lowest first.\<close>

fun digits_val :: "int list \<Rightarrow> int" where
  "digits_val [] = 0"
| "digits_val (d # ds) = d + 2 * digits_val ds"

lemma digits_val_append: "digits_val (xs @ ys) = digits_val xs + 2 ^ length xs * digits_val ys"
  by (induction xs) (simp_all add: algebra_simps)

lemma digits_val_zeros [simp]: "digits_val (replicate n 0) = 0"
  by (induction n) simp_all

text \<open>The shape: a digit is 0, or odd and smaller than half the window; after a nonzero digit come zeros.\<close>

definition wnaf_digit :: "nat \<Rightarrow> int \<Rightarrow> bool" where
  "wnaf_digit w d \<longleftrightarrow> d = 0 \<or> odd d \<and> \<bar>d\<bar> < 2 ^ (w - 1)"

definition wnaf_ok :: "nat \<Rightarrow> int list \<Rightarrow> bool" where
  "wnaf_ok w ds \<longleftrightarrow> (\<forall>d \<in> set ds. wnaf_digit w d) \<and>
     (\<forall>i j. i < j \<and> j < length ds \<and> ds ! i \<noteq> 0 \<and> ds ! j \<noteq> 0 \<longrightarrow> i + w \<le> j)"

text \<open>The last digit of the list, if there is one, is nonzero, and the next one is at \<open>pos\<close> or later.\<close>

definition wnaf_room :: "nat \<Rightarrow> int list \<Rightarrow> nat \<Rightarrow> bool" where
  "wnaf_room w ds pos \<longleftrightarrow> length ds \<le> pos \<and> (\<forall>i < length ds. ds ! i \<noteq> 0 \<longrightarrow> i + w \<le> pos \<or> 256 \<le> pos)"

lemma wnaf_ok_snoc:
  assumes "wnaf_ok w ds" "wnaf_room w ds pos" "pos < 256" "wnaf_digit w d"
  shows "wnaf_ok w (ds @ replicate (pos - length ds) 0 @ [d])"
  unfolding wnaf_ok_def
proof (intro conjI allI impI ballI)
  fix x assume "x \<in> set (ds @ replicate (pos - length ds) 0 @ [d])"
  then show "wnaf_digit w x" using assms(1,4) by (auto simp: wnaf_ok_def wnaf_digit_def)
next
  fix i j let ?l = "ds @ replicate (pos - length ds) 0 @ [d]"
  assume ij: "i < j \<and> j < length ?l \<and> ?l ! i \<noteq> 0 \<and> ?l ! j \<noteq> 0"
  have len: "length ds \<le> pos" using assms(2) by (simp add: wnaf_room_def)
  have nth: "?l ! k = (if k < length ds then ds ! k else if k < pos then 0 else d)" if "k \<le> pos" for k
    using that len by (auto simp: nth_append)
  have "j \<le> pos" using ij len by simp
  then have "i < length ds" using ij nth[of i] by (auto split: if_splits)
  then have i: "ds ! i \<noteq> 0" using ij nth[of i] \<open>j \<le> pos\<close> by auto
  show "i + w \<le> j"
  proof (cases "j < length ds")
    case True
    then show ?thesis using ij nth[of j] \<open>j \<le> pos\<close> i assms(1) by (auto simp: wnaf_ok_def)
  next
    case False
    then have "j = pos" using ij nth[of j] \<open>j \<le> pos\<close> by (auto split: if_splits)
    then show ?thesis using assms(2,3) \<open>i < length ds\<close> i by (auto simp: wnaf_room_def)
  qed
qed

lemma window_test:
  assumes "k < 32" "uint (x :: u32) < 2 ^ Suc k"
  shows "x AND push_bit k 1 \<noteq> 0 \<longleftrightarrow> 2 ^ k \<le> uint x"
proof -
  have "x AND push_bit k 1 \<noteq> 0 \<longleftrightarrow> bit x k"
  proof -
    have "bit (x AND push_bit k 1) i \<longleftrightarrow> i = k \<and> bit x k" for i
      using assms(1) by (auto simp: bit_simps bit_1_iff)
    then show ?thesis by (metis bit_0_eq bit_eqI bot_apply bot_bool_def)
  qed
  also have "\<dots> \<longleftrightarrow> odd (uint x div 2 ^ k)"
    using assms(1) by (simp add: bit_uint_iff flip: bit_iff_odd)
  also have "\<dots> \<longleftrightarrow> 2 ^ k \<le> uint x"
  proof (cases "2 ^ k \<le> uint x")
    case True
    then have "uint x div 2 ^ k = (uint x - 2 ^ k) div 2 ^ k + 1" by (simp add: div_add_self2[symmetric])
    also have "(uint x - 2 ^ k) div 2 ^ k = 0" using True assms(2) by (simp add: div_pos_pos_trivial)
    finally show ?thesis using True by simp
  qed (simp add: div_pos_pos_trivial)
  finally show ?thesis .
qed

text \<open>The bound on the rest: it never exceeds what is left below bit 255.\<close>

lemma odd_rest_bound:
  fixes u :: int
  assumes "odd u" "0 \<le> u" "u * 2 ^ pos \<le> 2 ^ 255" "pos < 255"
  shows "u + 1 \<le> 2 ^ (255 - pos)"
proof -
  have e: "(2 :: int) ^ 255 = 2 ^ (255 - pos) * 2 ^ pos" using assms(4) by (simp flip: power_add)
  then have "u \<le> 2 ^ (255 - pos)" using assms(3) by (metis mult_le_cancel_right zero_less_numeral zero_less_power not_less)
  moreover have "u \<noteq> 2 ^ (255 - pos)" using assms(1,4) by auto
  ultimately show ?thesis by linarith
qed

lemma div_below_quotient:
  fixes v :: int
  assumes "v < k * m" "0 < m"
  shows "v div m < k"
proof (rule ccontr)
  assume "\<not> v div m < k"
  then have "k * m \<le> v div m * m" using assms(2) by (intro mult_right_mono) simp_all
  moreover have "0 \<le> v mod m" using assms(2) by simp
  ultimately show False using assms(1) div_mult_mod_eq[of v m] by linarith
qed

lemma wnaf_carry:
  fixes v :: int
  assumes "2 \<le> w" "pos < 256" "odd (v div 2 ^ pos)" "v div 2 ^ pos * 2 ^ pos \<le> 2 ^ 255" "0 \<le> v"
    "now = (if pos + w > 256 then 256 - pos else w)" "wrd = v div 2 ^ pos mod 2 ^ now" "2 ^ (w - 1) \<le> wrd"
  shows "now = w" "pos + w < 256" "v + 2 ^ (pos + w) < 2 ^ 256"
    "(v + 2 ^ (pos + w)) div 2 ^ (pos + w) * 2 ^ (pos + w) \<le> 2 ^ 255"
proof -
  define u where "u = v div 2 ^ pos"
  have u: "odd u" "0 \<le> u" "u * 2 ^ pos \<le> 2 ^ 255" using assms(3-5) by (simp_all add: u_def pos_imp_zdiv_nonneg_iff)
  have wu: "wrd \<le> u" unfolding assms(7) u_def[symmetric] using u(2) by (simp add: zmod_le_nonneg_dividend)
  have half: "(2 :: int) ^ 1 \<le> 2 ^ (w - 1)" using assms(1) by (intro power_increasing) simp_all
  have "pos \<noteq> 255"
  proof
    assume "pos = 255"
    then have "u * 2 ^ 255 \<le> 1 * 2 ^ 255" using u(3) by simp
    then have "u \<le> 1" by (simp only: mult_le_cancel_right) simp
    then show False using wu half assms(8) by simp
  qed
  then have p: "pos < 255" using assms(2) by simp
  note b = odd_rest_bound[OF u p]
  show 1: "pos + w < 256"
  proof (rule ccontr)
    assume "\<not> pos + w < 256"
    then have "255 - pos \<le> w - 1" by simp
    then have "(2 :: int) ^ (255 - pos) \<le> 2 ^ (w - 1)" by (intro power_increasing) simp_all
    then show False using b wu assms(8) by linarith
  qed
  then show 2: "now = w" using assms(6) by simp
  have e: "(2 :: int) ^ 255 = 2 ^ (255 - pos) * 2 ^ pos" using p by (simp flip: power_add)
  have v: "v < (u + 1) * 2 ^ pos" 
  proof -
    have "v mod 2 ^ pos < 2 ^ pos" by simp
    then show ?thesis using div_mult_mod_eq[of v "2 ^ pos"] unfolding u_def distrib_right by linarith
  qed
  also have "\<dots> \<le> 2 ^ (255 - pos) * 2 ^ pos" using b by (intro mult_right_mono) simp_all
  finally have v255: "v < 2 ^ 255" using e by simp
  have "(2 :: int) ^ (pos + w) \<le> 2 ^ 255" using 1 by (intro power_increasing) simp_all
  then show "v + 2 ^ (pos + w) < 2 ^ 256" using v255 by simp
  have "v div 2 ^ (pos + w) < 2 ^ (255 - (pos + w))"
  proof -
    have "(2 :: int) ^ 255 = 2 ^ (255 - (pos + w)) * 2 ^ (pos + w)" using 1 by (simp flip: power_add)
    then have "v < 2 ^ (255 - (pos + w)) * 2 ^ (pos + w)" using v255 by (simp only:)
    then show ?thesis by (intro div_below_quotient) simp_all
  qed
  then have "(v div 2 ^ (pos + w) + 1) * 2 ^ (pos + w) \<le> 2 ^ (255 - (pos + w)) * 2 ^ (pos + w)"
    by (intro mult_right_mono) simp_all
  also have "\<dots> = 2 ^ 255" using 1 by (simp flip: power_add)
  finally show "(v + 2 ^ (pos + w)) div 2 ^ (pos + w) * 2 ^ (pos + w) \<le> 2 ^ 255"
    by (subst div_add_self2) simp_all
qed

lemma wnaf_room_snoc:
  assumes "wnaf_room w ds pos" "pos < 256" "pos' \<le> 256" "pos + w \<le> pos' \<or> pos' = 256" "pos < pos'"
  shows "wnaf_room w (ds @ replicate (pos - length ds) 0 @ [d]) pos'"
  unfolding wnaf_room_def
proof (intro conjI allI impI)
  have len: "length ds \<le> pos" using assms(1) by (simp add: wnaf_room_def)
  then show "length (ds @ replicate (pos - length ds) 0 @ [d]) \<le> pos'" using assms(5) by simp
  fix i assume i: "i < length (ds @ replicate (pos - length ds) 0 @ [d])" "(ds @ replicate (pos - length ds) 0 @ [d]) ! i \<noteq> 0"
  then consider "i < length ds" "ds ! i \<noteq> 0" | "i = pos"
    using len by (force simp: nth_append split: if_splits)
  then show "i + w \<le> pos' \<or> 256 \<le> pos'"
    using assms by cases (auto simp: wnaf_room_def)
qed

lemma digits_val_snoc:
  "length ds \<le> pos \<Longrightarrow> digits_val (ds @ replicate (pos - length ds) 0 @ [d]) = digits_val ds + 2 ^ pos * d"
  by (simp add: digits_val_append flip: power_add)

lemma digit_identity:
  fixes sg :: int
  assumes "u = d + q * m"
  shows "P * (sg * d) + sg * (q * (P * m)) = sg * (u * P)"
  by (simp add: assms algebra_simps)

lemma wnaf_loop_spec:
  assumes "2 \<le> w" "w < 32" "\<bar>sign\<bar> = 1" "pos \<le> 256" "scalar_val sc div 2 ^ pos * 2 ^ pos \<le> 2 ^ 255"
    "wnaf_ok w ds" "wnaf_room w ds pos"
  shows "\<exists>ds'. wnaf_loop w sign sc ds pos = Some ds' \<and> wnaf_ok w ds' \<and> length ds' \<le> 256 \<and>
    digits_val ds' = digits_val ds + sign * (scalar_val sc div 2 ^ pos * 2 ^ pos)"
  using assms(4-7)
proof (induction "256 - pos" arbitrary: pos sc ds rule: less_induct)
  case less
  define v where "v = scalar_val sc"
  define u where "u = v div 2 ^ pos"
  have v: "0 \<le> v" "v < 2 ^ 256" using scalar_val_bounds[of sc] by (simp_all add: v_def)
  have len: "length ds \<le> pos" using less.prems(4) by (simp add: wnaf_room_def)
  show ?case
  proof (cases "pos < 256")
    case False
    then have "pos = 256" using less.prems(1) by simp
    moreover have "v div 2 ^ 256 = 0" using v by (simp add: div_pos_pos_trivial)
    ultimately show ?thesis using less.prems len by (subst wnaf_loop.simps) (simp add: v_def)
  next
    case pos: True
    show ?thesis
    proof (cases "even u")
      case True
      then have z: "scalar_get_bits sc (word_of_nat pos) 1 = 0" using get_bits_one[OF pos] by (simp add: u_def v_def)
      have u2: "v div 2 ^ (pos + 1) = u div 2"
        using zdiv_zmult2_eq[of 2 v "2 ^ pos"] by (simp add: u_def power_add mult.commute)
      have e: "v div 2 ^ (pos + 1) * 2 ^ (pos + 1) = u * 2 ^ pos" unfolding u2 using True by (simp add: mult.assoc[symmetric])
      have "wnaf_room w ds (pos + 1)" using less.prems(4) pos by (auto simp: wnaf_room_def)
      then have "\<exists>ds'. wnaf_loop w sign sc ds (pos + 1) = Some ds' \<and> wnaf_ok w ds' \<and> length ds' \<le> 256 \<and>
          digits_val ds' = digits_val ds + sign * (scalar_val sc div 2 ^ (pos + 1) * 2 ^ (pos + 1))"
        using less.prems(2,3) pos e unfolding v_def u_def
        by (intro less.hyps) (simp_all only: diff_less_mono2 less_add_one Suc_leI add.commute)
      moreover have "wnaf_loop w sign sc ds pos = wnaf_loop w sign sc ds (pos + 1)"
        using pos z by (subst wnaf_loop.simps) simp
      ultimately show ?thesis unfolding e[unfolded v_def u_def] by (simp only:)
    next
      case odd: False
      then have z: "scalar_get_bits sc (word_of_nat pos) 1 \<noteq> 0" using get_bits_one[OF pos] by (simp add: u_def v_def)
      define now where "now = (if pos + w > 256 then 256 - pos else w)"
      have now: "0 < now" "now \<le> w" "pos + now \<le> 256" "pos + w \<le> pos + now \<or> pos + now = 256" using assms(1) pos by (auto simp: now_def)
      define wrd where "wrd = scalar_get_bits_var sc (word_of_nat pos) (word_of_nat now)"
      have wrd: "uint wrd = u mod 2 ^ now"
        unfolding wrd_def using get_bits_var_value[of now pos sc] now assms(2) by (simp add: u_def v_def)
      have oddw: "odd (uint wrd)" using odd now(1) unfolding wrd by (simp add: dvd_mod_iff)
      have lt: "uint wrd < 2 ^ now" unfolding wrd by simp
      also have "(2 :: int) ^ now \<le> 2 ^ w" using now(2) by (intro power_increasing) simp_all
      finally have lw: "uint wrd < 2 ^ w" .
      have w1: "Suc (w - 1) = w" using assms(1) by simp
      have test: "wrd AND push_bit (w - 1) 1 \<noteq> 0 \<longleftrightarrow> 2 ^ (w - 1) \<le> uint wrd"
        by (rule window_test) (use assms(2) lw in \<open>simp_all only: w1 less_imp_diff_less\<close>)
      have step: "wnaf_loop w sign sc ds pos = (if 2 ^ (w - 1) \<le> uint wrd
          then wnaf_loop w sign (scalar_add_bit sc (word_of_nat (pos + w))) (ds @ replicate (pos - length ds) 0 @ [sign * (uint wrd - 2 ^ w)]) (pos + now)
          else wnaf_loop w sign sc (ds @ replicate (pos - length ds) 0 @ [sign * uint wrd]) (pos + now))"
        using pos z by (subst wnaf_loop.simps) (simp add: Let_def test[simplified] flip: now_def wrd_def)
      have u_now: "v div 2 ^ (pos + now) = u div 2 ^ now" by (simp add: u_def power_add zdiv_zmult2_eq)
      have split: "u = u div 2 ^ now * 2 ^ now + uint wrd" unfolding wrd by (rule div_mult_mod_eq[symmetric])
      have uv: "v div 2 ^ pos * 2 ^ pos = u * 2 ^ pos" by (simp add: u_def)
      have dec: "256 - (pos + now) < 256 - pos" using pos now(1) by simp
      show ?thesis
      proof (cases "2 ^ (w - 1) \<le> uint wrd")
        case True
        have odd': "odd (v div 2 ^ pos)" and le: "v div 2 ^ pos * 2 ^ pos \<le> 2 ^ 255"
          using odd less.prems(2) by (simp_all add: u_def v_def)
        note c = wnaf_carry[OF assms(1) pos odd' le v(1) now_def wrd[unfolded u_def] True]
        have k: "pos + now = pos + w" using c(1) by simp
        let ?d = "sign * (uint wrd - 2 ^ w)"
        define sc' where "sc' = scalar_add_bit sc (word_of_nat (pos + w))"
        have s': "scalar_val sc' = v + 2 ^ (pos + w)"
          unfolding sc'_def v_def by (rule scalar_add_bit_spec) (use c(2,3) in \<open>simp_all only: v_def\<close>)
        have step': "wnaf_loop w sign sc ds pos = wnaf_loop w sign sc' (ds @ replicate (pos - length ds) 0 @ [?d]) (pos + now)"
          using step True by (simp only: sc'_def if_True)
        have d: "wnaf_digit w ?d"
        proof -
          have "odd (uint wrd - 2 ^ w)" using oddw assms(1) by simp
          moreover have "\<bar>uint wrd - 2 ^ w\<bar> < 2 ^ (w - 1)"
          proof -
            have "(2 :: int) ^ w = 2 * 2 ^ (w - 1)" by (subst w1[symmetric]) simp
            moreover have "uint wrd \<noteq> 2 ^ (w - 1)"
            proof
              assume "uint wrd = 2 ^ (w - 1)"
              moreover have "even ((2 :: int) ^ (w - 1))" using assms(1) by simp
              ultimately show False using oddw by simp
            qed
            ultimately show ?thesis using True lw by linarith
          qed
          ultimately show ?thesis using assms(3) by (auto simp: wnaf_digit_def abs_mult)
        qed
        have "\<exists>ds'. wnaf_loop w sign sc' (ds @ replicate (pos - length ds) 0 @ [?d]) (pos + now) = Some ds' \<and>
            wnaf_ok w ds' \<and> length ds' \<le> 256 \<and> digits_val ds' = digits_val (ds @ replicate (pos - length ds) 0 @ [?d])
              + sign * (scalar_val sc' div 2 ^ (pos + now) * 2 ^ (pos + now))"
          using dec c(4) now less.prems(3,4) pos d
          by (intro less.hyps) (simp_all add: s' k wnaf_ok_snoc wnaf_room_snoc)
        moreover have "(v + 2 ^ (pos + w)) div 2 ^ (pos + w) = u div 2 ^ now + 1"
          using u_now unfolding k by (subst div_add_self2) simp_all
        moreover have "2 ^ pos * (sign * (uint wrd - 2 ^ w)) + sign * ((u div 2 ^ now + 1) * 2 ^ (pos + w)) = sign * (u * 2 ^ pos)"
          unfolding power_add using split[unfolded c(1)] by (intro digit_identity) (simp add: c(1) distrib_right)
        ultimately show ?thesis using step' by (auto simp: digits_val_snoc[OF len] s' k simp flip: v_def u_def)
      next
        case False
        have d: "wnaf_digit w (sign * uint wrd)"
          using False oddw assms(3) by (auto simp: wnaf_digit_def abs_mult)
        have le: "v div 2 ^ (pos + now) * 2 ^ (pos + now) \<le> 2 ^ 255"
        proof -
          have "u div 2 ^ now * 2 ^ now \<le> u" using split uint_ge_0[of wrd] by linarith
          then have "u div 2 ^ now * 2 ^ now * 2 ^ pos \<le> u * 2 ^ pos" by (intro mult_right_mono) simp_all
          moreover have "v div 2 ^ (pos + now) * 2 ^ (pos + now) = u div 2 ^ now * 2 ^ now * 2 ^ pos"
            unfolding u_now by (simp only: power_add ac_simps)
          moreover have "u * 2 ^ pos \<le> 2 ^ 255" using less.prems(2) by (simp only: u_def v_def)
          ultimately show ?thesis by linarith
        qed
        have "\<exists>ds'. wnaf_loop w sign sc (ds @ replicate (pos - length ds) 0 @ [sign * uint wrd]) (pos + now) = Some ds' \<and>
            wnaf_ok w ds' \<and> length ds' \<le> 256 \<and> digits_val ds' = digits_val (ds @ replicate (pos - length ds) 0 @ [sign * uint wrd])
              + sign * (scalar_val sc div 2 ^ (pos + now) * 2 ^ (pos + now))"
          using dec le now less.prems(3,4) pos d
          by (intro less.hyps) (simp_all add: v_def wnaf_ok_snoc wnaf_room_snoc)
        moreover have "2 ^ pos * (sign * uint wrd) + sign * (u div 2 ^ now * 2 ^ (pos + now)) = sign * (u * 2 ^ pos)"
          unfolding power_add using split by (intro digit_identity) linarith
        ultimately show ?thesis using False step u_now by (auto simp: digits_val_snoc[OF len] simp flip: v_def u_def)
      qed
    qed
  qed
qed

lemma top_bit_div:
  fixes v :: int
  assumes "0 \<le> v" "v < 2 ^ 256"
  shows "v div 2 ^ 255 = (if 2 ^ 255 \<le> v then 1 else 0)"
proof (cases "2 ^ 255 \<le> v")
  case True
  have "(2 :: int) ^ 255 \<noteq> 0" by simp
  then have "v div 2 ^ 255 = (v - 2 ^ 255) div 2 ^ 255 + 1" using div_add_self2[of "2 ^ 255" "v - 2 ^ 255"] by simp
  also have "(v - 2 ^ 255) div 2 ^ 255 = 0" using True assms by (intro div_pos_pos_trivial) simp_all
  finally show ?thesis using True by simp
qed (use assms in \<open>simp add: div_pos_pos_trivial\<close>)

lemma wnaf_returns:
  assumes "2 \<le> w" "w < 32" "scalar_val a < scalar_n"
  shows "\<exists>ds. ecmult_wnaf a w = Some ds \<and> wnaf_ok w ds \<and> length ds \<le> 256 \<and>
    digits_val ds = (if 2 ^ 255 \<le> scalar_val a then scalar_val a - scalar_n else scalar_val a)"
proof -
  have ok: "wnaf_ok w []" "wnaf_room w [] 0" by (simp_all add: wnaf_ok_def wnaf_room_def)
  have top: "scalar_get_bits a 255 1 \<noteq> 0 \<longleftrightarrow> 2 ^ 255 \<le> scalar_val a" (is "_ \<longleftrightarrow> ?t")
  proof -
    have "scalar_val a div 2 ^ 255 = (if ?t then 1 else 0)"
      using top_bit_div[of "scalar_val a"] scalar_val_bounds[of a] by simp
    then show ?thesis using get_bits_one[of 255 a] by simp
  qed
  show ?thesis
  proof (cases ?t)
    case True
    have n: "scalar_val (scalar_negate a) = scalar_n - scalar_val a"
      unfolding scalar_negate_spec[OF assms(3)] using True assms(3)
      by (metis zmod_zminus1_eq_if mod_pos_pos_trivial order_trans zero_le_numeral zero_le_power not_numeral_le_zero power_not_zero order_antisym scalar_val_bounds(1))
    have "(scalar_n - scalar_val a) \<le> 2 ^ 255" using True by (simp add: scalar_n_def)
    then show ?thesis
      using wnaf_loop_spec[OF assms(1,2), of "- 1" 0 "scalar_negate a" "[]"] ok True top n
      by (auto simp: ecmult_wnaf_def)
  next
    case False
    then show ?thesis
      using wnaf_loop_spec[OF assms(1,2), of 1 0 a "[]"] ok top by (auto simp: ecmult_wnaf_def)
  qed
qed

text \<open>
  C18. \<open>secp256k1_ecmult_wnaf\<close> returns for every reduced scalar and window: the loop ends after at most
  256 digits, each digit is 0 or odd and below half the window, nonzero digits are a window apart, and
  the digits, weighted with powers of two, give the scalar, or the scalar minus the order of the group
  when its top bit is set. (At the window 31, which nothing uses, this is about the definition only: the source's
  \<open>1 << w\<close> overflows an int there.)
\<close>

theorem ecmult_wnaf_correct:
  assumes "2 \<le> w" "w < 32" "scalar_val a < scalar_n"
  shows "\<exists>ds. ecmult_wnaf a w = Some ds \<and> wnaf_ok w ds \<and> length ds \<le> 256 \<and>
    digits_val ds = (if 2 ^ 255 \<le> scalar_val a then scalar_val a - scalar_n else scalar_val a)"
  by (rule wnaf_returns[OF assms])

theorem ecmult_wnaf_correct_witness:
  "\<exists>ds. ecmult_wnaf (Scalar 23 0 0 (2 ^ 63)) 5 = Some ds \<and> wnaf_ok 5 ds \<and> length ds \<le> 256 \<and>
    digits_val ds = 23 + 2 ^ 255 - scalar_n"
  using ecmult_wnaf_correct[of 5 "Scalar 23 0 0 (2 ^ 63)"] by (simp add: scalar_n_def)

end
