(* ===== verification/Ecmult_Spec.thy ===== *)
theory Ecmult_Spec
  imports Wnaf
begin

text \<open>
  The double multiplication of ecmult_impl.h refines a double-and-add over points: the table of odd
  multiples holds the odd multiples on an isomorphic curve, and every turn of the main loop doubles
  and adds the entries that the digits of the two wNAF forms select.
\<close>

section \<open>Isomorphic curves\<close>

text \<open>
  Scaling the coordinates by \<open>c ^ 2\<close> and \<open>c ^ 3\<close> maps the curve to an isomorphic one, where the
  formulas of addition, which do not depend on the constant of the curve, are the same.
\<close>

primrec ec_scale :: "int \<Rightarrow> point \<Rightarrow> point" where
  "ec_scale c Infinity = Infinity"
| "ec_scale c (Affine x y) = Affine (x * (c * c)) (y * (c * c * c))"

lemma ec_scale_Infinity_iff [simp]: "ec_scale c P = Infinity \<longleftrightarrow> P = Infinity"
  by (cases P) simp_all

lemma ec_scale_neg: "ec_scale c (ec_neg P) = ec_neg (ec_scale c P)"
  by (cases P) simp_all

lemma third_point_scale:
  "third_point (l * c) (x1 * (c * c)) (y1 * (c * c * c)) (x2 * (c * c)) = ec_scale c (third_point l x1 y1 x2)"
  by (simp add: third_point_def Let_def algebra_simps)

lemma scale_mod: "a mod fe_p = b mod fe_p \<Longrightarrow> a * d mod fe_p = b * d mod fe_p" for a b d :: int
  by (rule mod_mult_cong) simp_all

lemma ec_add_scale:
  assumes "ec_add P Q R" "coprime c fe_p"
  shows "ec_add (ec_scale c P) (ec_scale c Q) (ec_scale c R)"
  using assms(1)
proof cases
  case (opposite x1 x2 y1 y2)
  have "(y1 + y2) * (c * c * c) mod fe_p = 0" using scale_mod[of "y1 + y2" 0] opposite(5) by simp
  then have "(y1 * (c * c * c) + y2 * (c * c * c)) mod fe_p = 0" by (simp only: distrib_right)
  moreover have "coprime (2 * (y1 * (c * c * c))) fe_p" using opposite(6) assms(2) by simp
  ultimately show ?thesis using opposite(1-3) scale_mod[OF opposite(4)]
    by (simp only: ec_scale.simps) (rule ec_add.opposite)
next
  case (tangent x1 x2 y1 y2 l)
  have "l * (2 * y1) * (c * c * c * c) mod fe_p = 3 * x1 * x1 * (c * c * c * c) mod fe_p" by (rule scale_mod[OF tangent(7)])
  then have "l * c * (2 * (y1 * (c * c * c))) mod fe_p = 3 * (x1 * (c * c)) * (x1 * (c * c)) mod fe_p"
    by (simp only: ac_simps)
  moreover have "coprime (2 * (y1 * (c * c * c))) fe_p" using tangent(6) assms(2) by simp
  ultimately show ?thesis using scale_mod[OF tangent(4)] scale_mod[OF tangent(5)]
    unfolding tangent(1-3) ec_scale.simps third_point_scale[symmetric] by (intro ec_add.tangent)
next
  case (chord x2 x1 l y2 y1)
  have "l * (x2 - x1) * (c * c * c) mod fe_p = (y2 - y1) * (c * c * c) mod fe_p" by (rule scale_mod[OF chord(5)])
  then have "l * c * (x2 * (c * c) - x1 * (c * c)) mod fe_p = (y2 * (c * c * c) - y1 * (c * c * c)) mod fe_p"
    unfolding left_diff_distrib[symmetric] by (simp only: ac_simps)
  moreover have "coprime (x2 * (c * c) - x1 * (c * c)) fe_p"
    unfolding left_diff_distrib[symmetric] using chord(4) assms(2) by simp
  ultimately show ?thesis unfolding chord(1-3) ec_scale.simps third_point_scale[symmetric] by (intro ec_add.chord)
qed simp_all

lemma table_entry_scale: "table_entry e x y c \<longleftrightarrow> ge_represents e (ec_scale c (Affine x y))"
  by (simp add: table_entry_def)

lemma gej_at_unscale:
  assumes "gej_at r (x * (c * c)) (y * (c * c * c)) z" "fe_is 8 Z c" "coprime c fe_p"
  shows "gej_at (r\<lparr> gej_z := fe_mul (gej_z r) Z \<rparr>) x y (z * c)"
proof -
  note a = gej_at_fields[OF assms(1)]
  have "fe_is 1 (fe_mul (gej_z r) Z) (z * c)" by (rule fe_is_eq, (rule a assms(2) fe_calc | (simp; fail))+)
  moreover have "coprime (z * c) fe_p" using a(5) assms(3) by simp
  moreover have "fe_is 8 (gej_x r) (x * (z * c * (z * c)))" "fe_is 8 (gej_y r) (y * (z * c * (z * c) * (z * c)))"
    by (rule fe_is_eq[OF a(1) refl], algebra) (rule fe_is_eq[OF a(2) refl], algebra)
  ultimately show ?thesis using a(4) by (auto simp: gej_at_def elim: fe_is_weaken)
qed

lemma gej_represents_unscale:
  assumes "gej_represents r (ec_scale c P)" "fe_is 8 Z c" "coprime c fe_p"
  shows "gej_represents (if \<not> gej_infinity r then r\<lparr> gej_z := fe_mul (gej_z r) Z \<rparr> else r) P"
proof (cases P)
  case (Affine x y)
  then obtain z where "gej_at r (x * (c * c)) (y * (c * c * c)) z" using assms(1) by auto
  from gej_at_unscale[OF this assms(2,3)] gej_at_fields(4)[OF this] show ?thesis by (auto simp: Affine)
qed (use assms(1) in simp)

section \<open>The table of odd multiples\<close>

text \<open>
  \<open>odd_multiples ps\<close>: the entries are finite, and with \<open>D\<close> the double of the first one, each entry is
  the one before it plus \<open>D\<close>, by a chord.
\<close>

definition chord_sum :: "int \<Rightarrow> int \<Rightarrow> point \<Rightarrow> point \<Rightarrow> bool" where
  "chord_sum xd yd P R \<longleftrightarrow> (\<exists>x y l. P = Affine x y \<and> coprime (xd - x) fe_p \<and>
     l * (xd - x) mod fe_p = (yd - y) mod fe_p \<and> R = third_point l x y xd)"

definition odd_multiples :: "point list \<Rightarrow> bool" where
  "odd_multiples ps \<longleftrightarrow> (\<exists>xd yd. ps ! 0 \<noteq> Infinity \<and> ec_add (ps ! 0) (ps ! 0) (Affine xd yd) \<and>
     (\<forall>i. Suc i < length ps \<longrightarrow> chord_sum xd yd (ps ! i) (ps ! Suc i)))"

lemma chord_sum_ec_add: "chord_sum xd yd P R \<Longrightarrow> ec_add P (Affine xd yd) R"
  by (auto simp: chord_sum_def intro: ec_add.chord)

lemma odd_multiples_finite:
  assumes "odd_multiples ps" "i < length ps"
  shows "ps ! i \<noteq> Infinity"
proof (cases i)
  case (Suc k)
  then show ?thesis using assms by (auto simp: odd_multiples_def chord_sum_def third_point_def Let_def)
qed (use assms in \<open>auto simp: odd_multiples_def\<close>)

text \<open>One chord of the table, with the ratio of the z coordinates that it reports.\<close>

lemma gej_add_ge_var_ratio:
  assumes "gej_at a x1 y1 Z" "ge_represents b (Affine x2 y2)" "coprime (x2 - x1) fe_p"
    "l * (x2 - x1) mod fe_p = (y2 - y1) mod fe_p"
  shows "\<exists>h x3 y3. snd (gej_add_ge_var r a b (Some h0)) = Some h \<and> fe_verify_magnitude 8 h \<and>
    third_point l x1 y1 x2 = Affine x3 y3 \<and> gej_at (fst (gej_add_ge_var r a b (Some h0))) x3 y3 (Z * fe_val h)"
proof -
  note a = gej_at_fields[OF assms(1)]
  have b: "fe_is 8 (ge_x b) x2" "fe_is 8 (ge_y b) y2" "\<not> ge_infinity b" using assms(2) by simp_all
  define u1 where "u1 = fe_normalize_weak (gej_x a)"
  define s1 where "s1 = fe_normalize_weak (gej_y a)"
  define h where "h = fe_add (fe_negate u1 1) (fe_mul (ge_x b) (fe_sqr (gej_z a)))"
  define i where "i = fe_add (fe_negate s1 1) (fe_mul (fe_mul (ge_y b) (fe_sqr (gej_z a))) (gej_z a))"
  have u1: "fe_is 1 u1 (x1 * (Z * Z))" and s1: "fe_is 1 s1 (y1 * (Z * Z * Z))"
    using fe_is_normalize_weak[OF a(1)] fe_is_normalize_weak[OF a(2)] by (simp_all add: u1_def s1_def)
  have h: "fe_is 3 h ((x2 - x1) * (Z * Z))" unfolding h_def
    by (rule fe_is_eq, (rule u1 a b fe_calc | (simp; fail))+) (simp add: algebra_simps)
  have i: "fe_is 3 i ((y2 - y1) * (Z * Z * Z))" unfolding i_def
    by (rule fe_is_eq, (rule s1 a b fe_calc | (simp; fail))+) (simp add: algebra_simps)
  have Z': "coprime ((x2 - x1) * (Z * Z)) fe_p" using assms(3) a(5) by simp
  then have nz: "\<not> fe_normalizes_to_zero_var h" using fe_is_zero_var[OF h] coprime_mod_zero by simp
  let ?g = "\<lparr> gej_x = fst (gej_add_xy u1 s1 h i), gej_y = snd (gej_add_xy u1 s1 h i), gej_z = fe_mul (gej_z a) h, gej_infinity = False \<rparr>"
  have eq: "gej_add_ge_var r a b (Some h0) = (?g, Some h)"
    using a(4) b(3) nz by (simp add: gej_add_ge_var_def Let_def u1_def s1_def h_def i_def split: prod.split)
  have hv: "fe_val h mod fe_p = (x2 - x1) * (Z * Z) mod fe_p" using h by (rule fe_is_mod)
  have "fe_is 1 (fe_mul (gej_z a) h) (Z * ((x2 - x1) * (Z * Z)))" by (rule fe_is_eq, (rule h a fe_calc | (simp; fail))+)
  then have z: "fe_is 1 (fe_mul (gej_z a) h) (Z * fe_val h)" and z': "fe_is 1 (fe_mul (gej_z a) h) ((x2 - x1) * (Z * Z) * Z)"
    using mod_mult_cong[OF refl hv[symmetric], of Z] by (auto elim!: fe_is_weaken simp: ac_simps)
  note v = gej_add_xy_chord[OF u1 s1 h i assms(4)]
  have c: "coprime (Z * fe_val h) fe_p"
  proof -
    have "fe_p \<noteq> 0" by (simp add: fe_p_def)
    then show ?thesis using Z' a(5) hv by (metis coprime_mod_left_iff coprime_mult_left_iff)
  qed
  have e: "(x2 - x1) * (Z * Z) * Z mod fe_p = Z * fe_val h mod fe_p" using mod_mult_cong[OF refl hv[symmetric], of Z] by (simp add: ac_simps)
  have "gej_at ?g (l * l - x1 - x2) (l * (x1 - (l * l - x1 - x2)) - y1) (Z * fe_val h)"
    unfolding gej_at_def gej.simps using v z c mod_mult_cong[OF e e] mod_mult_cong[OF mod_mult_cong[OF e e] e]
    by (auto elim!: fe_is_weaken intro!: mod_mult_cong)
  moreover have "fe_verify_magnitude 8 h" using h by (rule fe_is_magnitude[OF fe_is_weaken]) simp_all
  ultimately show ?thesis by (auto simp: eq third_point_def Let_def)
qed

text \<open>The z coordinate of an entry: the one of the first entry times the ratios up to it.\<close>

fun ratio_prod :: "fe list \<Rightarrow> int \<Rightarrow> nat \<Rightarrow> int" where
  "ratio_prod zr z0 0 = z0"
| "ratio_prod zr z0 (Suc i) = ratio_prod zr z0 i * fe_val (zr ! Suc i)"

lemma ratio_prod_update [simp]: "i < k \<Longrightarrow> ratio_prod (zr[k := h]) z0 i = ratio_prod zr z0 i"
  by (induction i) simp_all

definition point_x :: "point \<Rightarrow> int" where
  "point_x P = (case P of Infinity \<Rightarrow> 0 | Affine x y \<Rightarrow> x)"

definition point_y :: "point \<Rightarrow> int" where
  "point_y P = (case P of Infinity \<Rightarrow> 0 | Affine x y \<Rightarrow> y)"

lemma point_xy: "P \<noteq> Infinity \<Longrightarrow> P = Affine (point_x P) (point_y P)"
  by (cases P) (simp_all add: point_x_def point_y_def)

definition scaled_at :: "int \<Rightarrow> gej \<Rightarrow> point \<Rightarrow> int \<Rightarrow> bool" where
  "scaled_at c a P z \<longleftrightarrow> P \<noteq> Infinity \<and> gej_at a (point_x P * (c * c)) (point_y P * (c * c * c)) z"

lemma odd_multiples_step_spec:
  assumes "ge_represents d_ge (ec_scale c (Affine xd yd))" "coprime c fe_p" "chord_sum xd yd P R" "scaled_at c (prej ! i) P z"
    "Suc i < length prej" "length zr = length prej"
  shows "\<exists>g h. odd_multiples_step d_ge (Suc i) (prej, zr) = (prej[Suc i := g], zr[Suc i := h]) \<and>
    fe_verify_magnitude 8 h \<and> scaled_at c g R (z * fe_val h)"
proof -
  from assms(3) obtain x y l where P: "P = Affine x y" and l: "coprime (xd - x) fe_p" "l * (xd - x) mod fe_p = (yd - y) mod fe_p"
    and R: "R = third_point l x y xd" by (auto simp: chord_sum_def)
  have a: "gej_at (prej ! i) (x * (c * c)) (y * (c * c * c)) z" using assms(4) by (simp add: scaled_at_def P point_x_def point_y_def)
  have co: "coprime (xd * (c * c) - x * (c * c)) fe_p"
    unfolding left_diff_distrib[symmetric] using l(1) assms(2) by simp
  have "l * (xd - x) * (c * c * c) mod fe_p = (yd - y) * (c * c * c) mod fe_p" by (rule scale_mod[OF l(2)])
  then have sl: "l * c * (xd * (c * c) - x * (c * c)) mod fe_p = (yd * (c * c * c) - y * (c * c * c)) mod fe_p"
    unfolding left_diff_distrib[symmetric] by (simp only: ac_simps)
  from gej_add_ge_var_ratio[OF a assms(1)[unfolded ec_scale.simps] co sl, of "prej ! Suc i" "zr ! Suc i"] obtain h x3 y3 where
    h: "snd (gej_add_ge_var (prej ! Suc i) (prej ! i) d_ge (Some (zr ! Suc i))) = Some h" "fe_verify_magnitude 8 h"
    "third_point (l * c) (x * (c * c)) (y * (c * c * c)) (xd * (c * c)) = Affine x3 y3"
    "gej_at (fst (gej_add_ge_var (prej ! Suc i) (prej ! i) d_ge (Some (zr ! Suc i)))) x3 y3 (z * fe_val h)" by blast
  have "R \<noteq> Infinity" by (simp add: R third_point_def Let_def)
  moreover have "x3 = point_x R * (c * c)" "y3 = point_y R * (c * c * c)"
    using h(3) point_xy[OF calculation] by (metis R ec_scale.simps(2) point.inject third_point_scale)+
  ultimately have "scaled_at c (fst (gej_add_ge_var (prej ! Suc i) (prej ! i) d_ge (Some (zr ! Suc i)))) R (z * fe_val h)"
    using h(4) by (simp add: scaled_at_def)
  moreover obtain g where "gej_add_ge_var (prej ! Suc i) (prej ! i) d_ge (Some (zr ! Suc i)) = (g, Some h)"
    using h(1) by (metis prod.collapse)
  ultimately show ?thesis using h(2) by (intro exI[of _ g] exI[of _ h]) (simp add: odd_multiples_step_def)
qed

lemma odd_multiples_loop_spec:
  assumes "ge_represents d_ge (ec_scale c (Affine xd yd))" "coprime c fe_p" "scaled_at c (prej ! 0) (ps ! 0) z0"
    "\<forall>i. Suc i < n \<longrightarrow> chord_sum xd yd (ps ! i) (ps ! Suc i)" "length prej = n" "length zr = n" "k < n"
  shows "\<exists>p zr'. fold (odd_multiples_step d_ge) [1..<Suc k] (prej, zr) = (p, zr') \<and> length p = n \<and> length zr' = n \<and>
    zr' ! 0 = zr ! 0 \<and> (\<forall>i \<le> k. scaled_at c (p ! i) (ps ! i) (ratio_prod zr' z0 i)) \<and>
    (\<forall>i \<le> k. 0 < i \<longrightarrow> fe_verify_magnitude 8 (zr' ! i))"
  using assms(7)
proof (induction k)
  case 0
  then show ?case using assms(3,5,6) by simp
next
  case (Suc k)
  then obtain p zr' where f: "fold (odd_multiples_step d_ge) [1..<Suc k] (prej, zr) = (p, zr')"
    and len: "length p = n" "length zr' = n" and z: "zr' ! 0 = zr ! 0"
    and inv: "\<forall>i \<le> k. scaled_at c (p ! i) (ps ! i) (ratio_prod zr' z0 i)"
      "\<forall>i \<le> k. 0 < i \<longrightarrow> fe_verify_magnitude 8 (zr' ! i)" by auto
  have k: "Suc k < length p" "length zr' = length p" using Suc.prems len by simp_all
  have sc: "scaled_at c (p ! k) (ps ! k) (ratio_prod zr' z0 k)" using inv(1) by simp
  have ch: "chord_sum xd yd (ps ! k) (ps ! Suc k)" using assms(4) Suc.prems by simp
  from odd_multiples_step_spec[OF assms(1,2) ch sc k] obtain g h where
    s: "odd_multiples_step d_ge (Suc k) (p, zr') = (p[Suc k := g], zr'[Suc k := h])" "fe_verify_magnitude 8 h"
      "scaled_at c g (ps ! Suc k) (ratio_prod zr' z0 k * fe_val h)" by blast
  have "fold (odd_multiples_step d_ge) [1..<Suc (Suc k)] (prej, zr) = (p[Suc k := g], zr'[Suc k := h])"
    using f s(1) by simp
  moreover have "scaled_at c (p[Suc k := g] ! i) (ps ! i) (ratio_prod (zr'[Suc k := h]) z0 i)" if "i \<le> Suc k" for i
    using that inv(1) s(3) k by (cases "i = Suc k") auto
  moreover have "fe_verify_magnitude 8 (zr'[Suc k := h] ! i)" if "i \<le> Suc k" "0 < i" for i
    using that inv(2) s(2) k by (cases "i = Suc k") auto
  ultimately show ?case using len z by simp
qed

text \<open>The loops that fill the tables do not look at the z coordinates.\<close>

definition same_xy :: "gej list \<Rightarrow> gej list \<Rightarrow> bool" where
  "same_xy a b \<longleftrightarrow> length a = length b \<and> (\<forall>i < length a. gej_x (a ! i) = gej_x (b ! i) \<and> gej_y (a ! i) = gej_y (b ! i) \<and>
     gej_infinity (a ! i) = gej_infinity (b ! i))"

lemma same_xy_zinv: "same_xy a b \<Longrightarrow> i < length a \<Longrightarrow> ge_set_gej_zinv (a ! i) zi = ge_set_gej_zinv (b ! i) zi"
  by (simp add: same_xy_def ge_set_gej_zinv_def)

lemma set_table_loop_same: "same_xy a b \<Longrightarrow> n \<le> length a \<Longrightarrow> set_table_loop a zr r zi n = set_table_loop b zr r zi n"
  by (induction n arbitrary: r zi) (simp_all add: Let_def same_xy_zinv)

lemma globalz_loop_same: "same_xy a b \<Longrightarrow> n \<le> length a \<Longrightarrow> globalz_loop a zr hi r zs n = globalz_loop b zr hi r zs n"
  by (induction n arbitrary: r zs) (simp_all add: Let_def same_xy_zinv)

lemma tables_same:
  assumes "same_xy a b" "a \<noteq> []" "gej_z (last a) = gej_z (last b)"
  shows "ge_globalz_set_table_gej r g a zr = ge_globalz_set_table_gej r g b zr"
    "ge_set_table_gej_var r a zr = ge_set_table_gej_var r b zr"
proof -
  have b: "b \<noteq> []" "length b = length a" using assms(1,2) by (auto simp: same_xy_def)
  then have "gej_z (a ! (length a - 1)) = gej_z (b ! (length a - 1))" using assms(2,3) by (simp add: last_conv_nth)
  moreover have "length a - 1 < length a" using assms(2) by simp
  moreover from this have "gej_x (a ! (length a - 1)) = gej_x (b ! (length a - 1))" "gej_y (a ! (length a - 1)) = gej_y (b ! (length a - 1))"
    using assms(1) by (auto simp: same_xy_def)
  ultimately show "ge_globalz_set_table_gej r g a zr = ge_globalz_set_table_gej r g b zr"
    "ge_set_table_gej_var r a zr = ge_set_table_gej_var r b zr"
    using b set_table_loop_same[OF assms(1)] globalz_loop_same[OF assms(1)] same_xy_zinv[OF assms(1)]
    by (simp_all add: ge_globalz_set_table_gej_def ge_set_table_gej_var_def Let_def)
qed

lemma gej_double_represents:
  assumes "gej_represents a P" "ec_add P P R"
  shows "gej_represents (fst (gej_double_var r a rzr)) R"
  using assms(2)
proof cases
  case (opposite x1 x2 y1 y2)
  then have "(2 * y1) mod fe_p = 0" by simp
  then show ?thesis using coprime_mod_zero[OF opposite(6)] by simp
next
  case (tangent x1 x2 y1 y2 l)
  then obtain z where "gej_at a x1 y1 z" using assms(1) by auto
  from gej_double_at[OF this tangent(7,6)] show ?thesis by (simp add: tangent)
next
  case (chord x2 x1 l y2 y1)
  then show ?thesis using coprime_mod_zero[OF chord(4)] by simp
qed (use assms(1) in \<open>simp_all add: gej_double_var_def\<close>)

text \<open>
  The table of the code is, up to z coordinates that are never read, a table with z ratios of the odd
  multiples.
\<close>

lemma odd_multiples_table_spec:
  assumes "odd_multiples ps" "gej_represents a (ps ! 0)" "length ps = n" "0 < n" "length prej = n" "length zr = n"
  shows "\<exists>q zr' a' z. ecmult_odd_multiples_table n prej zr a = (q, zr') \<and> same_xy q a' \<and> length q = n \<and>
    gej_z (last q) = gej_z (last a') \<and> fe_verify_magnitude 8 (zr' ! 0) \<and>
    z_ratios a' zr' (\<lambda>i. point_x (ps ! i)) (\<lambda>i. point_y (ps ! i)) z"
proof -
  from assms(1) obtain xd yd where D: "ec_add (ps ! 0) (ps ! 0) (Affine xd yd)" "ps ! 0 \<noteq> Infinity"
    and ch: "\<forall>i. Suc i < n \<longrightarrow> chord_sum xd yd (ps ! i) (ps ! Suc i)" by (auto simp: odd_multiples_def assms(3))
  define d where "d = fst (gej_double_var gej_clear a None)"
  have "gej_represents d (Affine xd yd)" using gej_double_represents[OF assms(2) D(1)] by (simp add: d_def)
  then obtain c where d: "gej_at d xd yd c" by auto
  note df = gej_at_fields[OF d]
  define d_ge where "d_ge = \<lparr> ge_x = gej_x d, ge_y = gej_y d, ge_infinity = False \<rparr>"
  have dg: "ge_represents d_ge (ec_scale c (Affine xd yd))" using df by (simp add: d_ge_def)
  obtain z0 where a: "gej_at a (point_x (ps ! 0)) (point_y (ps ! 0)) z0"
    using assms(2) point_xy[OF D(2)] by (metis gej_represents.simps(2))
  define a_ge where "a_ge = ge_set_gej_zinv a (gej_z d)"
  define g0 where "g0 = \<lparr> gej_x = ge_x a_ge, gej_y = ge_y a_ge, gej_z = gej_z a, gej_infinity = False \<rparr>"
  note zi = ge_set_gej_zinv_at[OF a df(3) refl, folded a_ge_def]
  have "gej_at g0 (point_x (ps ! 0) * (c * c)) (point_y (ps ! 0) * (c * c * c)) z0"
  proof (rule gej_atI)
    show "fe_is 1 (gej_x g0) (point_x (ps ! 0) * (z0 * c * (z0 * c)))" "fe_is 1 (gej_y g0) (point_y (ps ! 0) * (z0 * c * (z0 * c) * (z0 * c)))"
      "fe_is 8 (gej_z g0) z0" "\<not> gej_infinity g0" "coprime z0 fe_p"
      using zi gej_at_fields[OF a] unfolding g0_def gej.simps by blast+
    show "fe_p dvd point_x (ps ! 0) * (z0 * c * (z0 * c)) - point_x (ps ! 0) * (c * c) * (z0 * z0)"
      "fe_p dvd point_y (ps ! 0) * (z0 * c * (z0 * c) * (z0 * c)) - point_y (ps ! 0) * (c * c * c) * (z0 * z0 * z0)"
      by (simp_all add: ac_simps)
  qed simp_all
  then have g0: "scaled_at c g0 (ps ! 0) z0" using D(2) by (simp add: scaled_at_def)
  define prej0 where "prej0 = prej[0 := g0]"
  define zr0 where "zr0 = zr[0 := gej_z d]"
  have l0: "length prej0 = n" "length zr0 = n" "prej0 ! 0 = g0" "zr0 ! 0 = gej_z d" using assms(4-6) by (simp_all add: prej0_def zr0_def)
  have n: "n - 1 < n" "Suc (n - 1) = n" using assms(4) by simp_all
  from odd_multiples_loop_spec[OF dg df(5) g0[folded l0(3)] ch l0(1,2) n(1), unfolded n(2)] obtain p zr' where
    f: "fold (odd_multiples_step d_ge) [1..<n] (prej0, zr0) = (p, zr')" and len: "length p = n" "length zr' = n"
    and z: "zr' ! 0 = gej_z d" and inv: "\<forall>i \<le> n - 1. scaled_at c (p ! i) (ps ! i) (ratio_prod zr' z0 i)"
      "\<forall>i \<le> n - 1. 0 < i \<longrightarrow> fe_verify_magnitude 8 (zr' ! i)" by (auto simp: l0)
  define a' where "a' = map (\<lambda>g. g\<lparr> gej_z := fe_mul (gej_z g) (gej_z d) \<rparr>) p"
  define q where "q = p[n - 1 := (p ! (n - 1))\<lparr> gej_z := fe_mul (gej_z (p ! (n - 1))) (gej_z d) \<rparr>]"
  have "ecmult_odd_multiples_table n prej zr a = (q, zr')"
    using f by (simp add: ecmult_odd_multiples_table_def Let_def q_def prej0_def zr0_def g0_def a_ge_def d_ge_def flip: d_def)
  moreover have "length q = n" "p \<noteq> []" using len n by (auto simp: q_def)
  moreover have "same_xy q a'" using len by (auto simp: same_xy_def q_def a'_def nth_list_update)
  moreover have "gej_z (last q) = gej_z (last a')"
    using calculation(2,3) len n by (simp add: last_conv_nth q_def a'_def)
  moreover have "fe_verify_magnitude 8 (zr' ! 0)" unfolding z using df(3) by (rule fe_is_magnitude)
  moreover have "z_ratios a' zr' (\<lambda>i. point_x (ps ! i)) (\<lambda>i. point_y (ps ! i)) (\<lambda>i. ratio_prod zr' z0 i * c)"
    unfolding z_ratios_def
  proof (intro conjI allI impI)
    fix i assume i: "i < length a'"
    then have "scaled_at c (p ! i) (ps ! i) (ratio_prod zr' z0 i)" using inv(1) len n by (simp add: a'_def)
    then show "gej_at (a' ! i) (point_x (ps ! i)) (point_y (ps ! i)) (ratio_prod zr' z0 i * c)"
      using i gej_at_unscale[OF _ df(3,5)] by (simp add: scaled_at_def a'_def)
    assume "0 < i"
    then show "fe_verify_magnitude 8 (zr' ! i)" using i inv(2) len n by (simp add: a'_def)
    show "ratio_prod zr' z0 (i - 1) * c * fe_val (zr' ! i) mod fe_p = ratio_prod zr' z0 i * c mod fe_p"
      using \<open>0 < i\<close> by (cases i) (simp_all add: ac_simps)
  qed
  ultimately show ?thesis by blast
qed

lemma odd_multiples_globalz_spec:
  assumes "odd_multiples ps" "gej_represents a (ps ! 0)" "length ps = ECMULT_TABLE_SIZE WINDOW_A"
    "ecmult_odd_multiples_table_globalz_windowa a = (pre, Z)"
  shows "\<exists>c. coprime c fe_p \<and> fe_is 8 Z c \<and> length pre = length ps \<and>
    (\<forall>i < length ps. ge_represents (pre ! i) (ec_scale c (ps ! i)))"
proof -
  let ?n = "ECMULT_TABLE_SIZE WINDOW_A"
  have n: "0 < ?n" by (simp add: ECMULT_TABLE_SIZE_def)
  from odd_multiples_table_spec[OF assms(1-3) n length_replicate length_replicate] obtain q zr' a' z where
    t: "ecmult_odd_multiples_table ?n (replicate ?n gej_clear) (replicate ?n fe_clear) a = (q, zr')" "same_xy q a'" "length q = ?n"
    "gej_z (last q) = gej_z (last a')" "fe_verify_magnitude 8 (zr' ! 0)"
    "z_ratios a' zr' (\<lambda>i. point_x (ps ! i)) (\<lambda>i. point_y (ps ! i)) z" by blast
  have q: "q \<noteq> []" "a' \<noteq> []" "length a' = ?n" using t(2,3) n by (auto simp: same_xy_def)
  have g: "ge_globalz_set_table_gej (replicate ?n ge_clear) fe_clear a' zr' = (pre, Z)"
    using assms(4) t(1) tables_same(1)[OF t(2) q(1) t(4)] by (simp add: ecmult_odd_multiples_table_globalz_windowa_def Let_def)
  have len: "length (replicate ?n ge_clear) = length a'" using q by simp
  note s = ge_globalz_set_table_gej_spec[OF t(6) q(2) len g t(5)]
  have l: "length a' - 1 < length a'" using q n by simp
  note at = gej_at_fields[OF z_ratiosD(1)[OF t(6) l]]
  have "fe_is 8 Z (z (length a' - 1))" using at(3) q(2) by (simp add: s(2) last_conv_nth)
  moreover have "ge_represents (pre ! i) (ec_scale (z (length a' - 1)) (ps ! i))" if i: "i < length ps" for i
    using s(3) i q(3) assms(3) point_xy[OF odd_multiples_finite[OF assms(1) i]] table_entry_scale by metis
  ultimately show ?thesis using at(5) s(1) q(3) assms(3) by auto
qed

section \<open>The main loop\<close>

text \<open>The point that a nonzero digit selects in a table of odd multiples.\<close>

definition digit_point :: "point list \<Rightarrow> int \<Rightarrow> point" where
  "digit_point ps n = (if n > 0 then ps ! nat ((n - 1) div 2) else ec_neg (ps ! nat ((- n - 1) div 2)))"

lemma digit_index:
  assumes "wnaf_digit w n" "n \<noteq> 0" "2 \<le> w"
  shows "n > 0 \<Longrightarrow> nat ((n - 1) div 2) < ECMULT_TABLE_SIZE w" "\<not> n > 0 \<Longrightarrow> nat ((- n - 1) div 2) < ECMULT_TABLE_SIZE w"
proof -
  have "\<bar>n\<bar> < 2 ^ (w - 1)" "odd n" using assms by (auto simp: wnaf_digit_def)
  moreover have "(2 :: int) ^ (w - 1) = 2 * 2 ^ (w - 2)" using assms(3) by (simp add: power_Suc[symmetric] Suc_diff_le numeral_2_eq_2 del: power_Suc)
  ultimately have b: "\<bar>n\<bar> < 2 * 2 ^ (w - 2)" by simp
  show "nat ((n - 1) div 2) < ECMULT_TABLE_SIZE w" if "n > 0"
  proof -
    have "(n - 1) div 2 < 2 ^ (w - 2)" using b that by linarith
    then show ?thesis by (simp add: ECMULT_TABLE_SIZE_def nat_less_iff that)
  qed
  show "nat ((- n - 1) div 2) < ECMULT_TABLE_SIZE w" if "\<not> n > 0"
  proof -
    have "(- n - 1) div 2 < 2 ^ (w - 2)" "0 \<le> - n - 1" using b that assms(2) by linarith+
    then show ?thesis by (simp add: ECMULT_TABLE_SIZE_def nat_less_iff)
  qed
qed

lemma table_get_ge_represents:
  assumes "\<forall>i < ECMULT_TABLE_SIZE w. ge_represents (pre ! i) (ec_scale c (ps ! i))" "wnaf_digit w n" "n \<noteq> 0" "2 \<le> w"
  shows "ge_represents (table_get_ge pre n) (ec_scale c (digit_point ps n))"
  using assms(1) digit_index[OF assms(2-4)]
  by (auto simp: table_get_ge_def digit_point_def ec_scale_neg intro!: ge_neg_represents)

text \<open>Every integer is the value of a field element, so an inverse of \<open>c\<close> has a representation.\<close>

lemma fe_exists: "\<exists>f. fe_is 1 f v"
proof -
  define u where "u = v mod fe_p"
  have u: "0 \<le> u" "u < 2 ^ 256" using pos_mod_bound[of fe_p v] pos_mod_sign[of fe_p v] by (simp_all add: u_def fe_p_num)
  define q1 q2 q3 q4 where "q1 = u div 2 ^ 52" and "q2 = q1 div 2 ^ 52" and "q3 = q2 div 2 ^ 52" and "q4 = q3 div 2 ^ 52"
  define l0 l1 l2 l3 where "l0 = u mod 2 ^ 52" and "l1 = q1 mod 2 ^ 52" and "l2 = q2 mod 2 ^ 52" and "l3 = q3 mod 2 ^ 52"
  note d = q1_def q2_def q3_def q4_def l0_def l1_def l2_def l3_def
  have e: "u = l0 + 2 ^ 52 * q1" "q1 = l1 + 2 ^ 52 * q2" "q2 = l2 + 2 ^ 52 * q3" "q3 = l3 + 2 ^ 52 * q4" by (simp_all add: d)
  have l: "0 \<le> l0" "l0 < 2 ^ 52" "0 \<le> l1" "l1 < 2 ^ 52" "0 \<le> l2" "l2 < 2 ^ 52" "0 \<le> l3" "l3 < 2 ^ 52" by (simp_all add: d)
  have q4: "0 \<le> q4" "q4 < 2 ^ 48" using u e l by simp_all
  have w: "uint (word_of_int x :: u64) = x" if "0 \<le> x" "x < 2 ^ 52" for x :: int
    using that by (intro word_of_int_inverse) simp_all
  have "uint (word_of_int q4 :: u64) = q4" using q4 by (intro w) simp_all
  then have "fe_val (Fe (word_of_int l0) (word_of_int l1) (word_of_int l2) (word_of_int l3) (word_of_int q4)) = u
    \<and> fe_verify_magnitude 1 (Fe (word_of_int l0) (word_of_int l1) (word_of_int l2) (word_of_int l3) (word_of_int q4))"
    using e l q4 w[of l0] w[of l1] w[of l2] w[of l3] by (simp add: fe_verify_magnitude_within)
  then have "fe_is 1 (Fe (word_of_int l0) (word_of_int l1) (word_of_int l2) (word_of_int l3) (word_of_int q4)) v"
    by (simp add: fe_is_def u_def)
  then show ?thesis by blast
qed

lemma coprime_inverse:
  assumes "coprime c fe_p"
  shows "\<exists>w. c * w mod fe_p = 1 mod fe_p \<and> coprime w fe_p"
proof -
  obtain w where w: "w * c mod fe_p = 1 mod fe_p" using slope_exists[OF assms] by blast
  have "fe_p \<noteq> 0" by (simp add: fe_p_def)
  then have "coprime (w * c) fe_p" using w by (metis coprime_1_left coprime_mod_left_iff)
  then show ?thesis using w by (auto simp: mult.commute)
qed

text \<open>
  \<open>gej_add_zinv_var r b Z\<close> adds the affine \<open>b\<close> on the isomorphic curve of scale \<open>Z\<close>, where \<open>b\<close> has the
  z coordinate \<open>1 / Z\<close>.
\<close>

lemma gej_add_zinv_var_scaled:
  assumes "gej_represents a (ec_scale c P)" "ge_represents b Q" "ec_add P Q R" "fe_is 8 Z c" "coprime c fe_p"
  shows "gej_represents (gej_add_zinv_var r a b Z) (ec_scale c R)"
proof -
  obtain w where w: "c * w mod fe_p = 1 mod fe_p" "coprime w fe_p" using coprime_inverse[OF assms(5)] by blast
  obtain bz where bz: "fe_is 1 bz w" using fe_exists by blast
  have b8: "fe_is 8 bz w" using bz by (rule fe_is_weaken) simp_all
  have "w * c mod fe_p = 1" using w(1) by (simp add: fe_p_def mult.commute)
  note inv = inverse_cancels[OF this]
  have q: "gej_represents \<lparr> gej_x = ge_x b, gej_y = ge_y b, gej_z = bz, gej_infinity = ge_infinity b \<rparr> (ec_scale c Q)"
  proof (cases Q)
    case (Affine x y)
    have i: "x mod fe_p = x * (c * c) * (w * w) mod fe_p" "y mod fe_p = y * (c * c * c) * (w * w * w) mod fe_p"
      using inv[of x] inv[of y] by (simp_all add: mod_eq_dvd_iff dvd_diff_commute ac_simps)
    have "gej_at \<lparr> gej_x = ge_x b, gej_y = ge_y b, gej_z = bz, gej_infinity = ge_infinity b \<rparr> (x * (c * c)) (y * (c * c * c)) w"
      using assms(2) Affine b8 w(2) i unfolding gej_at_def gej.simps
      by (auto elim: fe_is_weaken)
    then show ?thesis by (auto simp: Affine)
  qed (use assms(2) in simp)
  have "fe_val bz * fe_val Z mod fe_p = w * c mod fe_p"
    using mod_mult_cong[OF fe_is_mod[OF b8] fe_is_mod[OF assms(4)]] .
  then have "fe_val bz * fe_val Z mod fe_p = 1" using w(1) by (simp add: mult.commute fe_p_def)
  from gej_add_zinv_var_represents[OF assms(1) q ec_add_scale[OF assms(3,5)] fe_is_magnitude[OF assms(4)] this]
  show ?thesis .
qed

definition add_digit :: "(int \<Rightarrow> point) \<Rightarrow> int list \<Rightarrow> nat \<Rightarrow> point \<Rightarrow> point \<Rightarrow> bool" where
  "add_digit M ds i P R \<longleftrightarrow> (if i < length ds \<and> ds ! i \<noteq> 0 then ec_add P (M (ds ! i)) R else R = P)"

text \<open>
  The specification of the loop: from position \<open>bits\<close> down, double, then add the points that the digits
  of the two lists select; \<open>interleaved \<dots> i R\<close> says that \<open>R\<close> is reached when position \<open>i\<close> is done.
\<close>

inductive interleaved :: "(int \<Rightarrow> point) \<Rightarrow> int list \<Rightarrow> (int \<Rightarrow> point) \<Rightarrow> int list \<Rightarrow> nat \<Rightarrow> point \<Rightarrow> bool"
  for M ds N es where
  start: "interleaved M ds N es (max (length ds) (length es)) Infinity"
| turn: "interleaved M ds N es (Suc i) R \<Longrightarrow> ec_add R R R1 \<Longrightarrow> add_digit M ds i R1 R2 \<Longrightarrow> add_digit N es i R2 R3 \<Longrightarrow>
    interleaved M ds N es i R3"

lemma interleaved_le: "interleaved M ds N es i R \<Longrightarrow> i \<le> max (length ds) (length es)"
  by (induction rule: interleaved.induct) simp_all

lemma ecmult_step_represents:
  assumes "gej_represents r (ec_scale c R)" "ec_add R R R1" "add_digit M ds i R1 R2" "add_digit N es i R2 R3"
    "\<And>n. n \<in> set ds \<Longrightarrow> n \<noteq> 0 \<Longrightarrow> ge_represents (table_get_ge pre_a n) (ec_scale c (M n))"
    "\<And>n. n \<in> set es \<Longrightarrow> n \<noteq> 0 \<Longrightarrow> ge_represents (table_get_ge_storage pre n) (N n)" "fe_is 8 Z c" "coprime c fe_p"
  shows "gej_represents (ecmult_step pre_a ds pre es Z i r) (ec_scale c R3)"
proof -
  define r1 where "r1 = fst (gej_double_var r r None)"
  have r1: "gej_represents r1 (ec_scale c R1)"
    unfolding r1_def by (rule gej_double_represents[OF assms(1) ec_add_scale[OF assms(2,8)]])
  define r2 where "r2 = (if i < length ds \<and> ds ! i \<noteq> 0 then fst (gej_add_ge_var r1 r1 (table_get_ge pre_a (ds ! i)) None) else r1)"
  have r2: "gej_represents r2 (ec_scale c R2)"
  proof (cases "i < length ds \<and> ds ! i \<noteq> 0")
    case True
    then have "ec_add R1 (M (ds ! i)) R2" using assms(3) by (simp add: add_digit_def)
    from gej_add_ge_var_represents[OF r1 assms(5) ec_add_scale[OF this assms(8)]] True show ?thesis by (simp add: r2_def)
  qed (use assms(3) r1 in \<open>auto simp: add_digit_def r2_def\<close>)
  show ?thesis
  proof (cases "i < length es \<and> es ! i \<noteq> 0")
    case True
    then have "ec_add R2 (N (es ! i)) R3" using assms(4) by (simp add: add_digit_def)
    from gej_add_zinv_var_scaled[OF r2 assms(6) this assms(7,8)] True
    show ?thesis by (simp add: ecmult_step_def Let_def r1_def[symmetric] r2_def[symmetric])
  qed (use assms(4) r2 in \<open>auto simp: add_digit_def ecmult_step_def Let_def r1_def[symmetric] r2_def[symmetric]\<close>)
qed

lemma ecmult_loop_represents:
  assumes "interleaved M ds N es i R"
    "\<And>n. n \<in> set ds \<Longrightarrow> n \<noteq> 0 \<Longrightarrow> ge_represents (table_get_ge pre_a n) (ec_scale c (M n))"
    "\<And>n. n \<in> set es \<Longrightarrow> n \<noteq> 0 \<Longrightarrow> ge_represents (table_get_ge_storage pre n) (N n)" "fe_is 8 Z c" "coprime c fe_p"
  shows "gej_represents (fold (ecmult_step pre_a ds pre es Z) (rev [i..<max (length ds) (length es)]) gej_set_infinity) (ec_scale c R)"
  using assms(1)
proof (induction rule: interleaved.induct)
  case start
  then show ?case by (simp add: gej_set_infinity_def)
next
  case (turn i R R1 R2 R3)
  have "Suc i \<le> max (length ds) (length es)" using turn(1) by (rule interleaved_le)
  then have "rev [i..<max (length ds) (length es)] = rev [Suc i..<max (length ds) (length es)] @ [i]"
    by (simp add: upt_conv_Cons)
  then show ?case using ecmult_step_represents[OF turn(5,2-4) assms(2-5)] by simp
qed

text \<open>A public key for the witnesses: with the generator it adds up to a point whose x coordinate is \<open>lambda\<close>.
  Its odd multiples are a multiple of the key each, and the step between them is its double.\<close>

definition key_x :: int where "key_x = 69939316144478939751190975129654217461744719715366279458457575505926057407992"
definition key_y :: int where "key_y = 88917674648379519895787737527028418620955503968405956969305054798357974034929"
definition key_slope :: int where "key_slope = 89351254732535528920253155323245011150688770130805905658180165437563832832335"
definition verify_key :: ge where
  "verify_key = \<lparr> ge_x = Fe 0x291b2338cb5f8 0x18bd565fda165 0x8b4bb4bf3c1 0x456773c7c630 0x9aa040082e03, ge_y = Fe 0xb69ab531529f1 0x3f0d0199e3ab9 0xb106ebf3cf19d 0xc75feef37b10b 0xc4959ed11b1d, ge_infinity = False \<rparr>"

lemma verify_key_represents: "ge_represents verify_key (Affine key_x key_y)"
  by (simp add: verify_key_def key_x_def key_y_def fe_is_def)

definition key2_x :: int where "key2_x = 6550144665470530812117873716329368745268981465568168529889523785553741806781688903436772071420182821356116803465746957036526262425152468504065813322055572"
definition key2_y :: int where "key2_y = (- 530122622552828342249936210210222264922596158603990683243637639184599479744949175253441799382641438503357568639713276950476307058979046038783831936316597946080697640406681303403287561967121061735946529120102717921620881267690676649)"

definition odd_multiples_key :: "point list" where
  "odd_multiples_key = [Affine 69939316144478939751190975129654217461744719715366279458457575505926057407992 88917674648379519895787737527028418620955503968405956969305054798357974034929,
    Affine (- 5194568195208546469461096941130015745316798830071547231906650505641631412063610837507339905349266388174308159171462525571988401919638955796980340409925608) 191254412218710497530570547644798612734899373158200918609743071067739054921025542477215902957575078554836815670733961586855352336573204493825167964431811910574966964496040831758780370881342813788142367591132108605364347361752667471,
    Affine 1552269579005771047302356034623882183580717147021562057812910491813124835764336323822103901911187425024811810428262736466793323687229359571372154016671917 (- 555073912258961821466741101017866533444137361885775139533271357547931825116646387352139250223191024611243325793610601477721596683499921638612942385182504560045169304378887680775737833303023368330527303126299738014088840453762162246),
    Affine (- 1601329249361691804638890226696255897635636815339029343066530494207520719734044340833805815943170561454924659673282993344436263342002224216134270006887489) 809346397370075974526396707267425075026503423016628737718130067962071182312550447510000784646748018345526063623030654324765382945097516660502503751662023748852951436443490949278915524499938169796815687522018625809640464030247239046,
    Affine (- 4890397230764027171521248726342401947859872102467647211896209793248767455952713695007473311022997939358987177693702705598422624968708840496600514062993162) (- 784207462019494092404317562921816618973388826738088778697715269385284582917953675797275474630482044700316810425022008262900151338201527866461466068553631766515130626847333641630792517665215655003726517426143828656496452667954205899),
    Affine 3325950954585373544946556832353628730866874490698813610111627166846675197092024417293496631913447355836053251011843720523394724396339152293860851008503519 204055405244816649706384126022022342636070906598232186275329946316980759946218362282447670735609274498745455947517602426243986091164505519482869249447693177223731667114801235304051804737055155157485467521782124482395292054447384086,
    Affine (- 8074209660045671715563368644173121779743367528597388902374026786170437978689050400503107796025706327785045534477120345266469328420917692308725004717958490) 279865763893590101657164938200757399711302611828620086928372590384834014782960920523841701542859698358575995418193428288356309792743090484425363850668457855419963168333386451248331845504315751070353280425271000111793072071235319373,
    Affine 8796636269507027439849212106971906440581392364173981148440967841355144911703152086578762537753660950779421318629374312173116474881104125012345572734947818 (- 1718600908511302545501362667146701110703002415385599867636432868371049295733237105907595096720435102588668219386992601205007832255079326965391772603241465885757900186505286952011323309821974139242242601164011349437509645450850698933)]"

lemma odd_multiples_key_double: "ec_add (Affine key_x key_y) (Affine key_x key_y) (Affine key2_x key2_y)"
proof -
  have "71736781255862764314910848304313935548143941871483562540612571254846521340935 * (2 * key_y) = 1 + fe_p * 110174500141502396636094962123740939291023717166524450147652755221409137648483" by (simp add: key_y_def fe_p_num)
  then have "coprime (2 * key_y) fe_p" by (rule coprime_by_inverse)
  moreover have "80932964022520087189755705655949840840037618478133913459170372089068844132834 * (2 * key_y) = 3 * key_x * key_x + fe_p * (- 2433515998901379041292257635625156349099462858402205288330034685703072036740)" by (simp add: key_x_def key_y_def fe_p_num)
  then have "80932964022520087189755705655949840840037618478133913459170372089068844132834 * (2 * key_y) mod fe_p = 3 * key_x * key_x mod fe_p" by (simp only: mod_mult_self2)
  ultimately have "ec_add (Affine key_x key_y) (Affine key_x key_y) (third_point 80932964022520087189755705655949840840037618478133913459170372089068844132834 key_x key_y key_x)"
    by (intro tangent) simp_all
  then show ?thesis by (simp add: third_point_def Let_def key_x_def key_y_def key2_x_def key2_y_def)
qed

lemma chord_sumI:
  assumes "u * (xd - x) = 1 + fe_p * k" "l * (xd - x) = yd - y + fe_p * m" "third_point l x y xd = R"
  shows "chord_sum xd yd (Affine x y) R"
  unfolding chord_sum_def using coprime_by_inverse[OF assms(1)] assms(2,3) by (metis mod_mult_self2)

lemma odd_multiples_key_0: "chord_sum key2_x key2_y (odd_multiples_key ! 0) (odd_multiples_key ! 1)"
proof -
  have "chord_sum key2_x key2_y (Affine 69939316144478939751190975129654217461744719715366279458457575505926057407992 88917674648379519895787737527028418620955503968405956969305054798357974034929) (Affine (- 5194568195208546469461096941130015745316798830071547231906650505641631412063610837507339905349266388174308159171462525571988401919638955796980340409925608) 191254412218710497530570547644798612734899373158200918609743071067739054921025542477215902957575078554836815670733961586855352336573204493825167964431811910574966964496040831758780370881342813788142367591132108605364347361752667471)"
    by (rule chord_sumI[of "113924612026347738472512376293341770734490622635131770548687916584939570479495" _ _ "6444504928145791789553950113429824744200950502860250407518999403056472254584635365881681614790130367640744185018264164957333503853773509834059720986588973" "36818154085477782717600744416490686856005029151913823071304065995054699140134" _ _ "6660963311125151216366482106931461128673765464846452473468972715366089675539299625317920145782581031432687037302371259156290190144500954387150553057511646"])
      (simp_all add: fe_p_num third_point_def Let_def key2_x_def key2_y_def)
  then show ?thesis by (simp add: odd_multiples_key_def)
qed

lemma odd_multiples_key_1: "chord_sum key2_x key2_y (odd_multiples_key ! 1) (odd_multiples_key ! 2)"
proof -
  have "chord_sum key2_x key2_y (Affine (- 5194568195208546469461096941130015745316798830071547231906650505641631412063610837507339905349266388174308159171462525571988401919638955796980340409925608) 191254412218710497530570547644798612734899373158200918609743071067739054921025542477215902957575078554836815670733961586855352336573204493825167964431811910574966964496040831758780370881342813788142367591132108605364347361752667471) (Affine 1552269579005771047302356034623882183580717147021562057812910491813124835764336323822103901911187425024811810428262736466793323687229359571372154016671917 (- 555073912258961821466741101017866533444137361885775139533271357547931825116646387352139250223191024611243325793610601477721596683499921638612942385182504560045169304378887680775737833303023368330527303126299738014088840453762162246))"
    by (rule chord_sumI[of "25189265718405643556185938002056269067810174992024141581792985372076360371523" _ _ "2554930090497763366284973641518742622245621073510742912038840519412967491492325421218547080383098482433611037611070344454866238157689289536801783961453053" "53924447602805866758209127408459648140018116929623471744772860927082784844891" _ _ "11699453710181859655656719625807402388403048749237123095781349053719141001888128196754645358822915870874447831751906767563750365094518166334297909936728500"])
      (simp_all add: fe_p_num third_point_def Let_def key2_x_def key2_y_def)
  then show ?thesis by (simp add: odd_multiples_key_def)
qed

lemma odd_multiples_key_2: "chord_sum key2_x key2_y (odd_multiples_key ! 2) (odd_multiples_key ! 3)"
proof -
  have "chord_sum key2_x key2_y (Affine 1552269579005771047302356034623882183580717147021562057812910491813124835764336323822103901911187425024811810428262736466793323687229359571372154016671917 (- 555073912258961821466741101017866533444137361885775139533271357547931825116646387352139250223191024611243325793610601477721596683499921638612942385182504560045169304378887680775737833303023368330527303126299738014088840453762162246)) (Affine (- 1601329249361691804638890226696255897635636815339029343066530494207520719734044340833805815943170561454924659673282993344436263342002224216134270006887489) 809346397370075974526396707267425075026503423016628737718130067962071182312550447510000784646748018345526063623030654324765382945097516660502503751662023748852951436443490949278915524499938169796815687522018625809640464030247239046)"
    by (rule chord_sumI[of "4071057454327341461206245609105457367624343054057878370449299558876983056251" _ _ "175716983436137683829422313915883272093984735470717856141659850915380495686964183370172314055307240341231476650139211340221188857896090554342940730880708" "80629306056263500839358322131388061384361689052821712086326053606092898792800" _ _ "3264678206959777984844643250693698367970132510942209421887949662213512766174147206902898285245764377779421368874689023299136963243103977336118392943919981"])
      (simp_all add: fe_p_num third_point_def Let_def key2_x_def key2_y_def)
  then show ?thesis by (simp add: odd_multiples_key_def)
qed

lemma odd_multiples_key_3: "chord_sum key2_x key2_y (odd_multiples_key ! 3) (odd_multiples_key ! 4)"
proof -
  have "chord_sum key2_x key2_y (Affine (- 1601329249361691804638890226696255897635636815339029343066530494207520719734044340833805815943170561454924659673282993344436263342002224216134270006887489) 809346397370075974526396707267425075026503423016628737718130067962071182312550447510000784646748018345526063623030654324765382945097516660502503751662023748852951436443490949278915524499938169796815687522018625809640464030247239046) (Affine (- 4890397230764027171521248726342401947859872102467647211896209793248767455952713695007473311022997939358987177693702705598422624968708840496600514062993162) (- 784207462019494092404317562921816618973388826738088778697715269385284582917953675797275474630482044700316810425022008262900151338201527866461466068553631766515130626847333641630792517665215655003726517426143828656496452667954205899))"
    by (rule chord_sumI[of "3600642159126928115141209384560842058166143727647128693632561977755751357398" _ _ "253476216122280306599336899860873112624798052496845963971060507246082668076150806158044838237556796772086493272681214420051277077338520894619913462485379" "7643179007769727484948743062300580649998524362200875635472270142106985770339" _ _ "12105940945224648576638301795795412475264205330150162258477902193923961449959644966262355830433842641057033976573401004495842802079672011977397565334610898"])
      (simp_all add: fe_p_num third_point_def Let_def key2_x_def key2_y_def)
  then show ?thesis by (simp add: odd_multiples_key_def)
qed

lemma odd_multiples_key_4: "chord_sum key2_x key2_y (odd_multiples_key ! 4) (odd_multiples_key ! 5)"
proof -
  have "chord_sum key2_x key2_y (Affine (- 4890397230764027171521248726342401947859872102467647211896209793248767455952713695007473311022997939358987177693702705598422624968708840496600514062993162) (- 784207462019494092404317562921816618973388826738088778697715269385284582917953675797275474630482044700316810425022008262900151338201527866461466068553631766515130626847333641630792517665215655003726517426143828656496452667954205899)) (Affine 3325950954585373544946556832353628730866874490698813610111627166846675197092024417293496631913447355836053251011843720523394724396339152293860851008503519 204055405244816649706384126022022342636070906598232186275329946316980759946218362282447670735609274498745455947517602426243986091164505519482869249447693177223731667114801235304051804737055155157485467521782124482395292054447384086)"
    by (rule chord_sumI[of "52140262620655536840851789832945073285936840260580888996382025938403751194033" _ _ "5151585595538635157940294164161300155407956838033694445600296845563819011958977254027176914900656385474198252383143220495962780891301938545546584501635667" "70609478041491548654570376604299600538775107228762536912683233189012711016173" _ _ "4782069794106657369019443622798420923808862856797871623456119093213418628648881081449085885469185084777737014926457646459113651764053530534748513528411164"])
      (simp_all add: fe_p_num third_point_def Let_def key2_x_def key2_y_def)
  then show ?thesis by (simp add: odd_multiples_key_def)
qed

lemma odd_multiples_key_5: "chord_sum key2_x key2_y (odd_multiples_key ! 5) (odd_multiples_key ! 6)"
proof -
  have "chord_sum key2_x key2_y (Affine 3325950954585373544946556832353628730866874490698813610111627166846675197092024417293496631913447355836053251011843720523394724396339152293860851008503519 204055405244816649706384126022022342636070906598232186275329946316980759946218362282447670735609274498745455947517602426243986091164505519482869249447693177223731667114801235304051804737055155157485467521782124482395292054447384086) (Affine (- 8074209660045671715563368644173121779743367528597388902374026786170437978689050400503107796025706327785045534477120345266469328420917692308725004717958490) 279865763893590101657164938200757399711302611828620086928372590384834014782960920523841701542859698358575995418193428288356309792743090484425363850668457855419963168333386451248331845504315751070353280425271000111793072071235319373)"
    by (rule chord_sumI[of "77035838780989076152995425430524347568294799677991211447235550072038692843449" _ _ "2145038305694403265283612653829049760288812684686430058683503385436992621426510946382142973465347094229810721347259339015973594454864869103263821368520692" "42448627304192448308964342902161852922751143130373706138015089548832488349051" _ _ "7522453655727121129458529672022229183049121583613629729516415376127490192399423169110424360815657540752321750995659540780892928114600778474507110295568426"])
      (simp_all add: fe_p_num third_point_def Let_def key2_x_def key2_y_def)
  then show ?thesis by (simp add: odd_multiples_key_def)
qed

lemma odd_multiples_key_6: "chord_sum key2_x key2_y (odd_multiples_key ! 6) (odd_multiples_key ! 7)"
proof -
  have "chord_sum key2_x key2_y (Affine (- 8074209660045671715563368644173121779743367528597388902374026786170437978689050400503107796025706327785045534477120345266469328420917692308725004717958490) 279865763893590101657164938200757399711302611828620086928372590384834014782960920523841701542859698358575995418193428288356309792743090484425363850668457855419963168333386451248331845504315751070353280425271000111793072071235319373) (Affine 8796636269507027439849212106971906440581392364173981148440967841355144911703152086578762537753660950779421318629374312173116474881104125012345572734947818 (- 1718600908511302545501362667146701110703002415385599867636432868371049295733237105907595096720435102588668219386992601205007832255079326965391772603241465885757900186505286952011323309821974139242242601164011349437509645450850698933))"
    by (rule chord_sumI[of "54259925996714666916906141204876572889736944645062988897085401731792415625033" _ _ "6852941238722528303583570878465997249136428700560360678552932987969854963214858191382046264173089599942572325329343094328156511606510681372835396929825715" "85279371919192079239712254925653124334529094731484769405343384299055357048570" _ _ "17765843518325657925787414879715204390618903652903775651866807982081408071536868312483594951847606328828826690634398896854551317948261099250598660441786174"])
      (simp_all add: fe_p_num third_point_def Let_def key2_x_def key2_y_def)
  then show ?thesis by (simp add: odd_multiples_key_def)
qed

lemma odd_multiples_key_length: "length odd_multiples_key = 8"
  by (simp add: odd_multiples_key_def)

lemma odd_multiples_key_ok: "odd_multiples odd_multiples_key"
  unfolding odd_multiples_def
proof (intro exI conjI allI impI)
  show "odd_multiples_key ! 0 \<noteq> Infinity" by (simp add: odd_multiples_key_def)
  show "ec_add (odd_multiples_key ! 0) (odd_multiples_key ! 0) (Affine key2_x key2_y)"
    using odd_multiples_key_double by (simp add: odd_multiples_key_def key_x_def key_y_def)
  fix i assume "Suc i < length odd_multiples_key"
  then have "i < 7" by (simp add: odd_multiples_key_def)
  then consider "i = 0" | "i = 1" | "i = 2" | "i = 3" | "i = 4" | "i = 5" | "i = 6" by linarith
  then show "chord_sum key2_x key2_y (odd_multiples_key ! i) (odd_multiples_key ! Suc i)"
    using odd_multiples_key_0 odd_multiples_key_1[unfolded numeral_2_eq_2] odd_multiples_key_2 odd_multiples_key_3 odd_multiples_key_4
      odd_multiples_key_5 odd_multiples_key_6 by cases simp_all
qed

lemma chord_key_g: "ec_add (Affine key_x key_y) (Affine g_x g_y) (third_point key_slope key_x key_y g_x)"
proof (rule chord)
  have "73760998361366557157782900401548923779942624824231389497242529046559828287602 * (g_x - key_x) = 1 + fe_p * (- 9474319482454628066722809844517153011163750897311821327220101565438597611535)" by (simp add: g_x_def key_x_def fe_p_num)
  then show "coprime (g_x - key_x) fe_p" by (rule coprime_by_inverse)
  have "key_slope * (g_x - key_x) = g_y - key_y + fe_p * (- 11476828572016956995956009711677733484485941430552673748618067044100586917705)"
    by (simp add: g_x_def key_x_def g_y_def key_y_def key_slope_def fe_p_num)
  then show "key_slope * (g_x - key_x) mod fe_p = (g_y - key_y) mod fe_p" by (simp only: mod_mult_self2)
qed

lemma wnaf_loop_rest:
  assumes "pos \<le> 256" "scalar_val sc div 2 ^ pos = 0"
  shows "wnaf_loop w sg sc ds pos = Some ds"
  using assms
proof (induction "256 - pos" arbitrary: pos)
  case 0
  then show ?case by (subst wnaf_loop.simps) simp
next
  case (Suc k)
  have "scalar_get_bits sc (word_of_nat pos) 1 = 0" using Suc get_bits_one[of pos sc] by simp
  moreover have "scalar_val sc div 2 ^ (pos + 1) = 0"
    using Suc.prems(2) zdiv_zmult2_eq[of 2 "scalar_val sc" "2 ^ pos"] by (simp add: mult.commute)
  ultimately show ?case using Suc.hyps(1)[of "pos + 1"] Suc.hyps(2) Suc.prems by (subst wnaf_loop.simps) simp
qed

lemma ecmult_wnaf_one:
  assumes "2 \<le> w" "w < 32"
  shows "ecmult_wnaf (Scalar 1 0 0 0) w = Some [1]"
proof -
  let ?a = "Scalar 1 0 0 0"
  have top: "scalar_get_bits ?a 255 1 = 0" using get_bits_one[of 255 ?a] by simp
  have low: "scalar_get_bits ?a (word_of_nat 0) 1 \<noteq> 0" using get_bits_one[of 0 ?a] by simp
  have "(2 :: int) ^ 2 \<le> 2 ^ w" using assms(1) by (intro power_increasing) simp_all
  then have m: "1 mod 2 ^ w = (1 :: int)" using assms(1) by simp
  have v: "uint (scalar_get_bits_var ?a (word_of_nat 0) (word_of_nat w)) = 1"
    using get_bits_var_value[of w 0 ?a] assms m by simp
  have half: "(2 :: int) ^ 1 \<le> 2 ^ (w - 1)" using assms(1) by (intro power_increasing) simp_all
  have "Suc (w - 1) = w" using assms by simp
  then have t: "scalar_get_bits_var ?a (word_of_nat 0) (word_of_nat w) AND push_bit (w - 1) 1 = 0"
    using window_test[of "w - 1" "scalar_get_bits_var ?a (word_of_nat 0) (word_of_nat w)"] v half m assms
    by (auto simp: mod_pos_pos_trivial)
  have "wnaf_loop w 1 ?a [1] w = Some [1]"
    by (rule wnaf_loop_rest) (use assms half m in \<open>simp_all add: mod_eq_self_iff_div_eq_0\<close>)
  then have "wnaf_loop w 1 ?a [] 0 = Some [1]"
    using low v t[simplified] assms by (subst wnaf_loop.simps) (simp add: Let_def)
  then show ?thesis using top by (simp add: ecmult_wnaf_def)
qed

lemma ecmult_returns:
  assumes "scalar_val na < scalar_n" "scalar_val ng < scalar_n"
    and "odd_multiples ps" "length ps = ECMULT_TABLE_SIZE WINDOW_A" "gej_represents a (ps ! 0)" "pre_g ctx = Some pre"
    and "\<And>es n. ecmult_wnaf ng WINDOW_G = Some es \<Longrightarrow> n \<in> set es \<Longrightarrow> n \<noteq> 0 \<Longrightarrow> ge_represents (table_get_ge_storage pre n) (N n)"
  shows "\<exists>ds es r. ecmult_wnaf na WINDOW_A = Some ds \<and> ecmult_wnaf ng WINDOW_G = Some es \<and> ecmult ctx a na ng = Some r \<and>
    (\<forall>R. interleaved (digit_point ps) ds N es 0 R \<longrightarrow> gej_represents r R)"
proof -
  obtain ds where ds: "ecmult_wnaf na WINDOW_A = Some ds" "wnaf_ok WINDOW_A ds"
    using wnaf_returns[OF _ _ assms(1), of WINDOW_A] by (auto simp: WINDOW_A_def)
  obtain es where es: "ecmult_wnaf ng WINDOW_G = Some es"
    using wnaf_returns[OF _ _ assms(2), of WINDOW_G] by (auto simp: WINDOW_G_def)
  obtain pre_a Z where t: "ecmult_odd_multiples_table_globalz_windowa a = (pre_a, Z)" by fastforce
  from odd_multiples_globalz_spec[OF assms(3,5,4) t] obtain c where c: "coprime c fe_p" "fe_is 8 Z c"
    "\<forall>i < ECMULT_TABLE_SIZE WINDOW_A. ge_represents (pre_a ! i) (ec_scale c (ps ! i))" by (auto simp: assms(4))
  define r where "r = fold (ecmult_step pre_a ds pre es Z) (rev [0..<max (length ds) (length es)]) gej_set_infinity"
  have "gej_represents r (ec_scale c R)" if "interleaved (digit_point ps) ds N es 0 R" for R
    unfolding r_def using ds(2) assms(7)[OF es]
    by (intro ecmult_loop_represents[OF that _ _ c(2,1)] table_get_ge_represents[OF c(3)]) (auto simp: wnaf_ok_def WINDOW_A_def)
  from gej_represents_unscale[OF this c(2,1)]
  have "gej_represents (if \<not> gej_infinity r then r\<lparr> gej_z := fe_mul (gej_z r) Z \<rparr> else r) R"
    if "interleaved (digit_point ps) ds N es 0 R" for R using that by blast
  moreover have "(if length es > length ds then length es else length ds) = max (length ds) (length es)" by simp
  then have "ecmult ctx a na ng = Some (if \<not> gej_infinity r then r\<lparr> gej_z := fe_mul (gej_z r) Z \<rparr> else r)"
    using ds(1) es t assms(6) by (simp add: ecmult_def Let_def r_def)
  ultimately show ?thesis using ds(1) es by blast
qed

text \<open>
  C4. \<open>secp256k1_ecmult\<close> (Shamir's trick with two wNAF forms) returns for every pair of reduced scalars, and its
  result represents the point that doubling and adding over the digits of the two forms gives, when the
  context holds the multiples of the generator that the digits of \<open>ng\<close> select and \<open>a\<close> has the odd
  multiples \<open>ps\<close>. The tables, the isomorphic curve of the first one and the final correction of the z
  coordinate do not show.
\<close>

theorem ecmult_refines:
  assumes "scalar_val na < scalar_n" "scalar_val ng < scalar_n"
    and "odd_multiples ps" "length ps = ECMULT_TABLE_SIZE WINDOW_A" "gej_represents a (ps ! 0)" "pre_g ctx = Some pre"
    and "\<And>es n. ecmult_wnaf ng WINDOW_G = Some es \<Longrightarrow> n \<in> set es \<Longrightarrow> n \<noteq> 0 \<Longrightarrow> ge_represents (table_get_ge_storage pre n) (N n)"
  shows "\<exists>ds es r. ecmult_wnaf na WINDOW_A = Some ds \<and> ecmult_wnaf ng WINDOW_G = Some es \<and> ecmult ctx a na ng = Some r \<and>
    (\<forall>R. interleaved (digit_point ps) ds N es 0 R \<longrightarrow> gej_represents r R)"
  by (rule ecmult_returns[OF assms])

theorem ecmult_refines_witness:
  "\<exists>r. ecmult \<lparr> pre_g = Some [ge_to_storage ge_const_g] \<rparr> (gej_set_ge verify_key) (Scalar 1 0 0 0) (Scalar 1 0 0 0) = Some r \<and>
    gej_represents r (third_point key_slope key_x key_y g_x)"
proof -
  let ?N = "\<lambda>_ :: int. Affine g_x g_y" and ?pre = "[ge_to_storage ge_const_g]"
  have one: "ecmult_wnaf (Scalar 1 0 0 0) WINDOW_A = Some [1]" "ecmult_wnaf (Scalar 1 0 0 0) WINDOW_G = Some [1]"
    by (simp_all add: ecmult_wnaf_one WINDOW_A_def WINDOW_G_def)
  have p0: "odd_multiples_key ! 0 = Affine key_x key_y" "digit_point odd_multiples_key 1 = Affine key_x key_y"
    by (simp_all add: odd_multiples_key_def key_x_def key_y_def digit_point_def)
  have "ge_represents (table_get_ge_storage ?pre 1) (Affine g_x g_y)"
    using ge_storage_represents generator_represents(1) by (simp add: table_get_ge_storage_def)
  then have tab: "ge_represents (table_get_ge_storage ?pre n) (?N n)"
    if "ecmult_wnaf (Scalar 1 0 0 0) WINDOW_G = Some es" "n \<in> set es" "n \<noteq> 0" for es n using that one by auto
  have "interleaved (digit_point odd_multiples_key) [1] ?N [1] (Suc 0) Infinity"
    using start[of "digit_point odd_multiples_key" "[1]" ?N "[1]"] by simp
  from turn[OF this, of Infinity "Affine key_x key_y" "third_point key_slope key_x key_y g_x"]
  have i: "interleaved (digit_point odd_multiples_key) [1] ?N [1] 0 (third_point key_slope key_x key_y g_x)"
    using chord_key_g p0(2) by (simp add: add_digit_def)
  have "\<exists>ds es r. ecmult_wnaf (Scalar 1 0 0 0) WINDOW_A = Some ds \<and> ecmult_wnaf (Scalar 1 0 0 0) WINDOW_G = Some es \<and>
      ecmult \<lparr> pre_g = Some ?pre \<rparr> (gej_set_ge verify_key) (Scalar 1 0 0 0) (Scalar 1 0 0 0) = Some r \<and>
      (\<forall>R. interleaved (digit_point odd_multiples_key) ds ?N es 0 R \<longrightarrow> gej_represents r R)"
  proof (rule ecmult_refines[OF _ _ odd_multiples_key_ok])
    show "gej_represents (gej_set_ge verify_key) (odd_multiples_key ! 0)"
      unfolding p0(1) by (rule gej_set_ge_represents[OF verify_key_represents])
    show "ge_represents (table_get_ge_storage ?pre n) (?N n)"
      if "ecmult_wnaf (Scalar 1 0 0 0) WINDOW_G = Some es" "n \<in> set es" "n \<noteq> 0" for es n using tab that .
  qed (simp_all add: scalar_n_def ECMULT_TABLE_SIZE_def WINDOW_A_def odd_multiples_key_length)
  then show ?thesis using one i by auto
qed

end
