(* ===== verification/Ecmult_Gen.thy ===== *)
theory Ecmult_Gen
  imports Ecmult Sha256
begin

text \<open>
  Multiplication of the fixed generators: ecmult_gen.h and ecmult_gen_impl.h. A context holds a
  table with 16 entries for every 4-bit digit of the scalar, the blinding scalar and the blinded
  starting point; the second one, for 64-bit values times the second generator, only has the table.

  The two retry loops of the blinding are partial functions: None is a loop that does not end.
\<close>

record ecmult_gen_context =
  prec :: "ge_storage list list option"
  blind :: scalar
  initial :: gej

record ecmult_gen2_context =
  prec2 :: "ge_storage list list option"

definition ecmult_gen_context_init :: "ecmult_gen_context \<Rightarrow> ecmult_gen_context" where
  "ecmult_gen_context_init ctx = ctx\<lparr> prec := None \<rparr>"

definition ecmult_gen2_context_init :: "ecmult_gen2_context" where
  "ecmult_gen2_context_init = \<lparr> prec2 = None \<rparr>"

section \<open>Building the tables\<close>

definition nums_b32 :: "u8 list" where
  "nums_b32 = map of_char ''The scalar for this x is unknown''"

definition nums_point :: "ge \<Rightarrow> gej" where
  "nums_point g =
     (let (nums_x, _) = fe_set_b32 nums_b32;
          (nums_ge, _) = ge_set_xo_var nums_x False;
          nums_gej = gej_set_ge nums_ge
      in fst (gej_add_ge_var nums_gej nums_gej g None))"

text \<open>One digit: the 16 entries \<open>numsbase + i * gbase\<close>, then the two bases for the next digit.\<close>

definition gen_row :: "gej \<Rightarrow> gej \<Rightarrow> gej list" where
  "gen_row numsbase gbase =
     fold (\<lambda>i row. row @ [fst (gej_add_var gej_clear (row ! (i - 1)) gbase None)]) [1..<16] [numsbase]"

definition gen_step :: "nat \<Rightarrow> gej \<Rightarrow> nat \<Rightarrow> gej list \<times> gej \<times> gej \<Rightarrow> gej list \<times> gej \<times> gej" where
  "gen_step last_but_one nums_gej j st = (case st of (precj, gbase, numsbase) \<Rightarrow>
     (let precj = precj @ gen_row numsbase gbase;
          gbase = ((\<lambda>p. fst (gej_double_var p p None)) ^^ 4) gbase;
          numsbase = fst (gej_double_var numsbase numsbase None);
          numsbase = (if j = last_but_one then
                        (let numsbase = gej_neg numsbase
                         in fst (gej_add_var numsbase numsbase nums_gej None))
                      else numsbase)
      in (precj, gbase, numsbase)))"

definition gen_precj :: "nat \<Rightarrow> ge \<Rightarrow> gej list" where
  "gen_precj rows g =
     (let nums_gej = nums_point g
      in fst (fold (gen_step (rows - 2) nums_gej) [0..<rows] ([], gej_set_ge g, nums_gej)))"

definition gen_table :: "nat \<Rightarrow> ge \<Rightarrow> ge_storage list list" where
  "gen_table rows g =
     (let prec = ge_set_all_gej_var (replicate (rows * 16) ge_clear) (gen_precj rows g)
      in map (\<lambda>j. map (\<lambda>i. ge_to_storage (prec ! (j * 16 + i))) [0..<16]) [0..<rows])"

section \<open>The multiplication\<close>

definition gen_digit :: "ge_storage list \<Rightarrow> nat \<Rightarrow> ge_storage \<Rightarrow> ge_storage" where
  "gen_digit row bits sel = fold (\<lambda>i sel. ge_storage_cmov sel (row ! i) (i = bits)) [0..<16] sel"

definition storage_zero :: ge_storage where
  "storage_zero = \<lparr> st_x = Fe_Storage 0 0 0 0, st_y = Fe_Storage 0 0 0 0 \<rparr>"

text \<open>\<open>digits ! j\<close> are the four bits for row \<open>j\<close>; \<open>sel\<close> keeps its value from one row to the next.\<close>

definition gen_loop :: "ge_storage list list \<Rightarrow> nat list \<Rightarrow> gej \<Rightarrow> gej" where
  "gen_loop table digits r =
     fst (fold (\<lambda>j (r, sel).
                  let sel = gen_digit (table ! j) (digits ! j) sel
                  in (gej_add_ge r (ge_from_storage sel), sel))
            [0..<length digits] (r, storage_zero))"

definition ecmult_gen :: "ecmult_gen_context \<Rightarrow> scalar \<Rightarrow> gej" where
  "ecmult_gen ctx gn =
     (let r = initial ctx;
          gnb = fst (scalar_add gn (blind ctx))
      in gen_loop (the (prec ctx)) (map (\<lambda>j. unat (scalar_get_bits gnb (word_of_nat (j * 4)) 4)) [0..<64]) r)"

definition ecmult_gen2_small :: "ecmult_gen2_context \<Rightarrow> u64 \<Rightarrow> gej" where
  "ecmult_gen2_small ctx gn =
     gen_loop (the (prec2 ctx)) (map (\<lambda>j. unat (drop_bit (j * 4) gn AND 15)) [0..<16]) gej_set_infinity"

definition ecmult_gen_gen2 :: "ecmult_gen_context \<Rightarrow> ecmult_gen2_context \<Rightarrow> scalar \<Rightarrow> u64 \<Rightarrow> gej" where
  "ecmult_gen_gen2 gen_ctx gen2_ctx sec value =
     (let rj = ecmult_gen gen_ctx sec;
          vj = ecmult_gen2_small gen2_ctx value
      in fst (gej_add_var rj rj vj None))"

section \<open>Blinding\<close>

partial_function (option) blind_field_loop :: "rfc6979_t \<Rightarrow> (fe \<times> rfc6979_t) option" where
  "blind_field_loop rng =
     (let (nonce32, rng) = rfc6979_generate rng 32;
          (sf, ok) = fe_set_b32 nonce32
      in if \<not> ok \<or> fe_is_zero sf then blind_field_loop rng else Some (sf, rng))"

partial_function (option) blind_scalar_loop :: "rfc6979_t \<Rightarrow> (scalar \<times> rfc6979_t) option" where
  "blind_scalar_loop rng =
     (let (nonce32, rng) = rfc6979_generate rng 32;
          (b, overflow) = scalar_set_b32 nonce32
      in if overflow \<noteq> 0 \<or> scalar_is_zero b then blind_scalar_loop rng else Some (b, rng))"

definition ecmult_gen_blind :: "ecmult_gen_context \<Rightarrow> u8 list option \<Rightarrow> ecmult_gen_context option" where
  "ecmult_gen_blind ctx seed32 =
     (let ctx = (if seed32 = None
                 then ctx\<lparr> initial := gej_neg (gej_set_ge ge_const_g), blind := scalar_set_int 1 \<rparr> else ctx);
          nonce32 = scalar_get_b32 (blind ctx);
          rng = rfc6979_initialize (case seed32 of Some seed \<Rightarrow> seed | None \<Rightarrow> nonce32) nonce32 None
      in case blind_field_loop rng of None \<Rightarrow> None
         | Some (sf, rng) \<Rightarrow>
           (let ctx = ctx\<lparr> initial := gej_rescale (initial ctx) sf \<rparr>
            in case blind_scalar_loop rng of None \<Rightarrow> None
               | Some (b, rng) \<Rightarrow>
                 (let gb = ecmult_gen ctx b
                  in Some (ctx\<lparr> blind := scalar_negate b, initial := gb \<rparr>))))"

section \<open>The contexts\<close>

definition ecmult_gen_context_build :: "ecmult_gen_context \<Rightarrow> ecmult_gen_context option" where
  "ecmult_gen_context_build ctx =
     (if prec ctx \<noteq> None then Some ctx
      else ecmult_gen_blind (ctx\<lparr> prec := Some (gen_table 64 ge_const_g) \<rparr>) None)"

definition ecmult_gen2_context_build :: "ecmult_gen2_context \<Rightarrow> ecmult_gen2_context" where
  "ecmult_gen2_context_build ctx =
     (if prec2 ctx \<noteq> None then ctx else ctx\<lparr> prec2 := Some (gen_table 16 ge_const_g2) \<rparr>)"

definition ecmult_gen_context_is_built :: "ecmult_gen_context \<Rightarrow> bool" where
  "ecmult_gen_context_is_built ctx = (prec ctx \<noteq> None)"

definition ecmult_gen2_context_is_built :: "ecmult_gen2_context \<Rightarrow> bool" where
  "ecmult_gen2_context_is_built ctx = (prec2 ctx \<noteq> None)"

definition ecmult_gen_context_clone :: "ecmult_gen_context \<Rightarrow> ecmult_gen_context \<Rightarrow> ecmult_gen_context" where
  "ecmult_gen_context_clone dst src =
     (case prec src of None \<Rightarrow> dst\<lparr> prec := None \<rparr>
      | Some t \<Rightarrow> dst\<lparr> prec := Some t, initial := initial src, blind := blind src \<rparr>)"

definition ecmult_gen2_context_clone :: "ecmult_gen2_context \<Rightarrow> ecmult_gen2_context" where
  "ecmult_gen2_context_clone src =
     (case prec2 src of None \<Rightarrow> \<lparr> prec2 = None \<rparr> | Some t \<Rightarrow> \<lparr> prec2 = Some t \<rparr>)"

definition ecmult_gen_context_clear :: "ecmult_gen_context \<Rightarrow> ecmult_gen_context" where
  "ecmult_gen_context_clear ctx = ctx\<lparr> blind := scalar_clear, initial := gej_clear, prec := None \<rparr>"

definition ecmult_gen2_context_clear :: "ecmult_gen2_context \<Rightarrow> ecmult_gen2_context" where
  "ecmult_gen2_context_clear ctx = ctx\<lparr> prec2 := None \<rparr>"

end
