(* ===== verification/Ecdsa.thy ===== *)
theory Ecdsa
  imports Ecmult_Gen
begin

text \<open>
  ECDSA signatures: ecdsa.h and ecdsa_impl.h. A byte string that the C code takes as a pointer and
  a length is a list together with the length argument; reading past its end is not defined in C
  and \<open>xs ! i\<close> is unspecified there.
\<close>

record ecdsa_sig =
  sig_r :: scalar
  sig_s :: scalar

definition ecdsa_const_order_as_fe :: fe where
  "ecdsa_const_order_as_fe = fe_const 0xFFFFFFFF 0xFFFFFFFF 0xFFFFFFFF 0xFFFFFFFE 0xBAAEDCE6 0xAF48A03B 0xBFD25E8C 0xD0364141"

definition ecdsa_const_p_minus_order :: fe where
  "ecdsa_const_p_minus_order = fe_const 0 0 0 1 0x45512319 0x50B75FC4 0x402DA172 0x2FC9BAEE"

section \<open>The DER form\<close>

text \<open>The loops that drop leading zero bytes: \<open>while (len > 0 && p[0] == 0) { len--; p++; }\<close>.\<close>

fun skip_zeros :: "nat \<Rightarrow> u8 list \<Rightarrow> nat \<times> u8 list" where
  "skip_zeros 0 p = (0, p)"
| "skip_zeros (Suc len) p = (if p ! 0 = 0 then skip_zeros len (drop 1 p) else (Suc len, p))"

text \<open>\<open>memcpy(ra + 32 - lenr, rp, lenr)\<close> into an array of zeros.\<close>

definition right_align :: "nat \<Rightarrow> u8 list \<Rightarrow> u8 list" where
  "right_align len p = replicate (32 - len) 0 @ take len p"

text \<open>
  The parser: the fields of \<open>r\<close> are written one after the other, so that a failure on the second
  scalar leaves the first one in place. A result flag and the signature.
\<close>

definition ecdsa_sig_parse :: "ecdsa_sig \<Rightarrow> u8 list \<Rightarrow> int \<Rightarrow> bool \<times> ecdsa_sig" where
  "ecdsa_sig_parse r sg size_arg =
     (if sg ! 0 \<noteq> 0x30 then (False, r)
      else let lenr = unat (sg ! 3) in
      if 5 + int lenr \<ge> size_arg then (False, r)
      else let lens = unat (sg ! (lenr + 5)) in
      if unat (sg ! 1) \<noteq> lenr + lens + 4 then (False, r)
      else if int lenr + int lens + 6 > size_arg then (False, r)
      else if sg ! 2 \<noteq> 0x02 then (False, r)
      else if lenr = 0 then (False, r)
      else if sg ! (lenr + 4) \<noteq> 0x02 then (False, r)
      else if lens = 0 then (False, r)
      else let (lens, sp) = skip_zeros lens (drop (6 + lenr) sg) in
      if lens > 32 then (False, r)
      else let (lenr, rp) = skip_zeros lenr (drop 4 sg) in
      if lenr > 32 then (False, r)
      else let ra = right_align lenr rp;
               sa = right_align lens sp;
               (rr, overflow) = scalar_set_b32 ra;
               r = r\<lparr> sig_r := rr \<rparr> in
      if overflow \<noteq> 0 then (False, r)
      else let (ss, overflow) = scalar_set_b32 sa;
               r = r\<lparr> sig_s := ss \<rparr> in
      if overflow \<noteq> 0 then (False, r) else (True, r))"

text \<open>\<open>while (len > 1 && p[0] == 0 && p[1] < 0x80) { len--; p++; }\<close>\<close>

fun strip_zeros :: "nat \<Rightarrow> u8 list \<Rightarrow> nat \<times> u8 list" where
  "strip_zeros 0 p = (0, p)"
| "strip_zeros (Suc len) p =
     (if len > 0 \<and> p ! 0 = 0 \<and> p ! 1 < 0x80 then strip_zeros len (drop 1 p) else (Suc len, p))"

text \<open>The output buffer has room for \<open>size_arg\<close> bytes; the result is None, or the bytes written.\<close>

definition ecdsa_sig_serialize :: "int \<Rightarrow> ecdsa_sig \<Rightarrow> u8 list option" where
  "ecdsa_sig_serialize size_arg a =
     (let r = 0 # scalar_get_b32 (sig_r a);
          s' = 0 # scalar_get_b32 (sig_s a);
          (lenR, rp) = strip_zeros 33 r;
          (lenS, sp) = strip_zeros 33 s'
      in if size_arg < 6 + int lenS + int lenR then None
         else Some ([0x30, word_of_nat (4 + lenS + lenR), 0x02, word_of_nat lenR] @ take lenR rp
                @ [0x02, word_of_nat lenS] @ take lenS sp))"

section \<open>Verification, recovery and signing\<close>

definition ecdsa_sig_verify :: "ecmult_context \<Rightarrow> ecdsa_sig \<Rightarrow> ge \<Rightarrow> scalar \<Rightarrow> bool option" where
  "ecdsa_sig_verify ctx sg pubkey message =
     (if scalar_is_zero (sig_r sg) \<or> scalar_is_zero (sig_s sg) then Some False
      else
        (let sn = scalar_inverse_var (sig_s sg);
             u1 = scalar_mul sn message;
             u2 = scalar_mul sn (sig_r sg);
             pubkeyj = gej_set_ge pubkey
         in case ecmult ctx pubkeyj u2 u1 of None \<Rightarrow> None
            | Some pr \<Rightarrow> Some
              (if gej_is_infinity pr then False
               else
                 (let c = scalar_get_b32 (sig_r sg);
                      xr = fst (fe_set_b32 c)
                  in if gej_eq_x_var xr pr then True
                     else if fe_cmp_var xr ecdsa_const_p_minus_order \<ge> 0 then False
                     else
                       (let xr = fe_add xr ecdsa_const_order_as_fe
                        in if gej_eq_x_var xr pr then True else False)))))"

definition ecdsa_sig_recover :: "ecmult_context \<Rightarrow> ecdsa_sig \<Rightarrow> ge \<Rightarrow> scalar \<Rightarrow> u32 \<Rightarrow> (bool \<times> ge) option" where
  "ecdsa_sig_recover ctx sg pubkey message recid =
     (if scalar_is_zero (sig_r sg) \<or> scalar_is_zero (sig_s sg) then Some (False, pubkey)
      else
        (let brx = scalar_get_b32 (sig_r sg);
             fx = fst (fe_set_b32 brx)
         in if recid AND 2 \<noteq> 0 \<and> fe_cmp_var fx ecdsa_const_p_minus_order \<ge> 0 then Some (False, pubkey)
            else
              (let fx = (if recid AND 2 \<noteq> 0 then fe_add fx ecdsa_const_order_as_fe else fx);
                   (x, ok) = ge_set_xo_var fx (recid AND 1 \<noteq> 0)
               in if \<not> ok then Some (False, pubkey)
                  else
                    (let xj = gej_set_ge x;
                         rn = scalar_inverse_var (sig_r sg);
                         u1 = scalar_mul rn message;
                         u1 = scalar_negate u1;
                         u2 = scalar_mul rn (sig_s sg)
                     in case ecmult ctx xj u2 u1 of None \<Rightarrow> None
                        | Some qj \<Rightarrow>
                          (let (pubkey, qj) = ge_set_gej_var pubkey qj
                           in Some (\<not> gej_is_infinity qj, pubkey))))))"

text \<open>
  Signing returns the flag, the signature and the recovery id, which the code only stores when the
  pointer \<open>recid\<close> is not NULL. On the first failure only \<open>r\<close> has been written.
\<close>

definition ecdsa_sig_sign ::
  "ecmult_gen_context \<Rightarrow> ecdsa_sig \<Rightarrow> scalar \<Rightarrow> scalar \<Rightarrow> scalar \<Rightarrow> u32 option \<Rightarrow> bool \<times> ecdsa_sig \<times> u32 option" where
  "ecdsa_sig_sign ctx sg seckey message nonce recid =
     (let rp = ecmult_gen ctx nonce;
          (r, rp) = ge_set_gej rp;
          rx = fe_normalize (ge_x r);
          ry = fe_normalize (ge_y r);
          b = fe_get_b32 rx;
          (sr, overflow) = scalar_set_b32 b;
          sg = sg\<lparr> sig_r := sr \<rparr>
      in if scalar_is_zero sr then (False, sg, recid)
         else
           (let recid = map_option (\<lambda>_. (if overflow \<noteq> 0 then 2 else 0) OR (if fe_is_odd ry then 1 else 0)) recid;
                n = scalar_mul sr seckey;
                n = fst (scalar_add n message);
                ss = scalar_inverse nonce;
                ss = scalar_mul ss n;
                sg = sg\<lparr> sig_s := ss \<rparr>
            in if scalar_is_zero ss then (False, sg, recid)
               else if scalar_is_high ss then
                 (let ss = scalar_negate ss
                  in (True, sg\<lparr> sig_s := ss \<rparr>, map_option (\<lambda>r. r XOR 1) recid))
               else (True, sg, recid)))"

end
