(* ===== verification/Ecdsa_Der.thy ===== *)
theory Ecdsa_Der
  imports Ecdsa
begin

text \<open>
  The DER form of a signature: what \<open>ecdsa_sig_serialize\<close> writes, \<open>ecdsa_sig_parse\<close> reads back, and
  the lengths that the two functions keep to.
\<close>

lemma skip_zeros_spec:
  assumes "len \<le> length p"
  shows "\<exists>k \<le> len. skip_zeros len p = (len - k, drop k p) \<and> take k p = replicate k 0 \<and> (k < len \<longrightarrow> p ! k \<noteq> 0)"
  using assms
proof (induction len p rule: skip_zeros.induct)
  case (2 len p)
  then obtain x xs where p: "p = x # xs" by (cases p) auto
  show ?case
  proof (cases "x = 0")
    case True
    then obtain k where "k \<le> len" "skip_zeros len xs = (len - k, drop k xs)" "take k xs = replicate k 0" "k < len \<longrightarrow> xs ! k \<noteq> 0"
      using 2 p by auto
    then show ?thesis using True p by (intro exI[of _ "Suc k"]) auto
  qed (use p in \<open>auto intro: exI[of _ 0]\<close>)
qed simp

lemma strip_zeros_spec:
  assumes "len \<le> length p" "0 < len"
  shows "\<exists>k < len. strip_zeros len p = (len - k, drop k p) \<and> take k p = replicate k 0"
  using assms
proof (induction len p rule: strip_zeros.induct)
  case (2 len p)
  then obtain x xs where p: "p = x # xs" by (cases p) auto
  show ?case
  proof (cases "0 < len \<and> x = 0 \<and> xs ! 0 < 0x80")
    case True
    then obtain k where "k < len" "strip_zeros len xs = (len - k, drop k xs)" "take k xs = replicate k 0"
      using 2 p by auto
    then show ?thesis using True p by (intro exI[of _ "Suc k"]) auto
  qed (use p in \<open>auto intro!: exI[of _ 0]\<close>)
qed simp

text \<open>Stripping and skipping zeros of \<open>0 # b\<close>, then aligning to the right, gives \<open>b\<close> back.\<close>

lemma integer_roundtrip:
  assumes "length b = 32" "strip_zeros 33 (0 # b) = (len, p)"
  shows "0 < len" "len \<le> 33" "length p = len"
    "fst (skip_zeros len (p @ rest)) \<le> 32"
    "right_align (fst (skip_zeros len (p @ rest))) (snd (skip_zeros len (p @ rest))) = b"
proof -
  obtain k where k: "k < 33" "len = 33 - k" "p = drop k (0 # b)" "take k (0 # b) = replicate k 0"
    using strip_zeros_spec[of 33 "0 # b"] assms by auto
  then show len: "0 < len" "len \<le> 33" "length p = len" using assms(1) by simp_all
  obtain j where j: "j \<le> len" "skip_zeros len (p @ rest) = (len - j, drop j (p @ rest))"
    "take j (p @ rest) = replicate j 0" "j < len \<longrightarrow> (p @ rest) ! j \<noteq> 0"
    using skip_zeros_spec[of len "p @ rest"] len by auto
  have pj: "drop j (p @ rest) = drop (k + j) (0 # b) @ rest" "take j p = replicate j 0"
    using j(1,3) len k(3) by (simp_all add: add.commute)
  have tk: "take (k + j) (0 # b) = replicate (k + j) 0"
    using k(4) pj(2) unfolding k(3) by (simp add: take_add replicate_add)
  have pos: "0 < k + j"
  proof (rule ccontr)
    assume "\<not> 0 < k + j"
    then have "(p @ rest) ! j = 0" "j < len" using k len by simp_all
    then show False using j(4) by simp
  qed
  then show "fst (skip_zeros len (p @ rest)) \<le> 32" using j(2) k(2) by (simp only: fst_conv)
  obtain m where m: "k + j = Suc m" using pos by (cases "k + j") auto
  then have "take m b = replicate m 0" using tk by simp
  moreover have "m \<le> 32" using m j(1) k(1,2) by arith
  moreover have "len - j = 32 - m" using m k(1,2) by simp
  moreover have "32 - (len - j) = m" using calculation by simp
  ultimately show "right_align (fst (skip_zeros len (p @ rest))) (snd (skip_zeros len (p @ rest))) = b"
    using assms(1) unfolding j(2) fst_conv snd_conv pj(1) m
    by (simp add: right_align_def) (metis append_take_drop_id)
qed

lemma length_get_b32: "length (scalar_get_b32 a) = 32"
  by (cases a) (simp add: bytes_of_limb_def)

lemma unat_of_nat8: "n < 256 \<Longrightarrow> unat (word_of_nat n :: u8) = n"
  by (simp add: unsigned_of_nat take_bit_nat_eq_self)

lemma ecdsa_sig_parse_serialize:
  assumes "scalar_val (sig_r a) < scalar_n" "scalar_val (sig_s a) < scalar_n" "ecdsa_sig_serialize cap a = Some out"
  shows "ecdsa_sig_parse r0 (out @ rest) (int (length out)) = (True, a)" "int (length out) \<le> cap" "length out \<le> 72" "8 \<le> length out"
proof -
  obtain lr rp where R: "strip_zeros 33 (0 # scalar_get_b32 (sig_r a)) = (lr, rp)" by fastforce
  obtain ls sp where S: "strip_zeros 33 (0 # scalar_get_b32 (sig_s a)) = (ls, sp)" by fastforce
  note r = integer_roundtrip[OF length_get_b32 R] and s' = integer_roundtrip[OF length_get_b32 S]
  have cap: "6 + int ls + int lr \<le> cap"
    and out: "out = [0x30, word_of_nat (4 + ls + lr), 0x02, word_of_nat lr] @ rp @ [0x02, word_of_nat ls] @ sp"
    using assms(3) R S r(3) s'(3) by (auto simp: ecdsa_sig_serialize_def split: if_splits)
  then show len: "int (length out) \<le> cap" "length out \<le> 72" "8 \<le> length out" using r(1-3) s'(1-3) by simp_all
  let ?o = "out @ rest"
  have u: "unat (word_of_nat lr :: u8) = lr" "unat (word_of_nat ls :: u8) = ls" "unat (word_of_nat (4 + ls + lr) :: u8) = 4 + ls + lr"
    using r(2) s'(2) by (intro unat_of_nat8; simp)+
  have o: "?o ! 0 = 0x30" "?o ! 1 = word_of_nat (4 + ls + lr)" "?o ! 2 = 0x02" "?o ! 3 = word_of_nat lr"
    "?o ! (lr + 4) = 0x02" "?o ! (lr + 5) = word_of_nat ls"
    "drop 4 ?o = rp @ [0x02, word_of_nat ls] @ sp @ rest"
    using r(3) by (simp_all add: out nth_append numeral_2_eq_2 numeral_3_eq_3 nth_Cons')
  have "drop (6 + lr) ?o = drop (lr + 2) (drop 4 ?o)" by (simp only: drop_drop) (simp add: add.commute)
  also have "\<dots> = sp @ rest" unfolding o(7) using r(3) by simp
  finally have o8: "drop (6 + lr) ?o = sp @ rest" .
  have l: "length out = 6 + lr + ls" using r(3) s'(3) by (simp add: out)
  obtain ls' sp' where S': "skip_zeros ls (sp @ rest) = (ls', sp')" by fastforce
  obtain lr' rp' where R': "skip_zeros lr (rp @ [0x02, word_of_nat ls] @ sp @ rest) = (lr', rp')" by fastforce
  have sc: "ls' \<le> 32" "right_align ls' sp' = scalar_get_b32 (sig_s a)" "lr' \<le> 32" "right_align lr' rp' = scalar_get_b32 (sig_r a)"
    using s'(4,5)[of rest] r(4,5)[of "[0x02, word_of_nat ls] @ sp @ rest"] S' R' by auto
  show "ecdsa_sig_parse r0 ?o (int (length out)) = (True, a)"
    unfolding ecdsa_sig_parse_def Let_def o(1,2,3,4) u o(5,6,7) o8 S' R' l
    using r(1) s'(1) sc scalar_set_get_b32[OF assms(1)] scalar_set_get_b32[OF assms(2)] by simp
qed

lemma ecdsa_sig_serialize_fits: "72 \<le> cap \<Longrightarrow> ecdsa_sig_serialize cap a \<noteq> None"
proof -
  assume "72 \<le> cap"
  moreover obtain lr rp where R: "strip_zeros 33 (0 # scalar_get_b32 (sig_r a)) = (lr, rp)" by fastforce
  moreover obtain ls sp where S: "strip_zeros 33 (0 # scalar_get_b32 (sig_s a)) = (ls, sp)" by fastforce
  ultimately show ?thesis
    using integer_roundtrip(2)[OF length_get_b32 R] integer_roundtrip(2)[OF length_get_b32 S]
    by (simp add: ecdsa_sig_serialize_def)
qed

text \<open>
  C20. DER round trip: a signature with reduced scalars is written in 8 to 72 bytes, never more than the
  buffer holds and always when it holds 72; the parser accepts these bytes and returns the same signature,
  whatever lies behind them and whatever it finds in its result.
\<close>

theorem ecdsa_der_roundtrip:
  assumes "scalar_val (sig_r a) < scalar_n" "scalar_val (sig_s a) < scalar_n"
  shows "(\<forall>out. ecdsa_sig_serialize cap a = Some out \<longrightarrow> 8 \<le> length out \<and> length out \<le> 72 \<and> int (length out) \<le> cap \<and>
      ecdsa_sig_parse r0 (out @ rest) (int (length out)) = (True, a)) \<and>
    (72 \<le> cap \<longrightarrow> ecdsa_sig_serialize cap a \<noteq> None)"
  using ecdsa_sig_parse_serialize[OF assms] ecdsa_sig_serialize_fits by blast

theorem ecdsa_der_roundtrip_witness:
  "ecdsa_sig_parse \<lparr> sig_r = scalar_clear, sig_s = scalar_clear \<rparr> (the (ecdsa_sig_serialize 72 \<lparr> sig_r = Scalar 7 0 0 1, sig_s = Scalar 1 0 0 0 \<rparr>) @ [9, 9])
     (int (length (the (ecdsa_sig_serialize 72 \<lparr> sig_r = Scalar 7 0 0 1, sig_s = Scalar 1 0 0 0 \<rparr>))))
   = (True, \<lparr> sig_r = Scalar 7 0 0 1, sig_s = Scalar 1 0 0 0 \<rparr>)"
proof -
  let ?a = "\<lparr> sig_r = Scalar 7 0 0 1, sig_s = Scalar 1 0 0 0 \<rparr>"
  have "scalar_val (sig_r ?a) < scalar_n" "scalar_val (sig_s ?a) < scalar_n" by (simp_all add: scalar_n_def)
  from ecdsa_der_roundtrip[OF this, of 72 "\<lparr> sig_r = scalar_clear, sig_s = scalar_clear \<rparr>" "[9, 9]"] show ?thesis by force
qed

end
