(* ===== verification/Ecdsa_Spec.thy ===== *)
theory Ecdsa_Spec
  imports Ecmult_Spec Ecdsa_Der
begin

text \<open>
  Signing and verifying: \<open>ecdsa_sig_verify\<close> accepts exactly when the x coordinate of the point that
  it recomputes, reduced modulo the order of the group, is the first scalar of the signature, and
  \<open>ecdsa_sig_sign\<close> solves the equation of ECDSA with a low second scalar.
\<close>

section \<open>The comparison of the x coordinate\<close>

lemma order_below_p: "scalar_n < fe_p" "fe_p < 2 * scalar_n"
  by (simp_all add: scalar_n_def fe_p_def)

lemma x_mod_order:
  assumes "0 \<le> X" "X < fe_p" "0 \<le> r" "r < scalar_n"
  shows "X mod scalar_n = r \<longleftrightarrow> X = r \<or> r < fe_p - scalar_n \<and> X = r + scalar_n"
proof (cases "X < scalar_n")
  case True
  then show ?thesis using assms by auto
next
  case False
  then have "X mod scalar_n = X - scalar_n"
    using assms(2) order_below_p(2) by (metis int_mod_pos_eq minus_mod_self2 diff_ge_0_iff_ge mod_pos_pos_trivial linorder_not_le add_diff_cancel_left' diff_less_eq mult_2 order.strict_trans)
  then show ?thesis using False assms by auto
qed

lemma order_as_fe: "fe_is 1 ecdsa_const_order_as_fe scalar_n"
  by (simp add: ecdsa_const_order_as_fe_def fe_const_def fe_is_def scalar_n_def)

lemma p_minus_order: "fe_verify_normalized ecdsa_const_p_minus_order" "fe_val ecdsa_const_p_minus_order = fe_p - scalar_n"
  by (simp_all add: ecdsa_const_p_minus_order_def fe_const_def scalar_n_def fe_p_def)

text \<open>The first scalar as a field element.\<close>

lemma scalar_as_fe:
  assumes "scalar_val a < scalar_n"
  defines "xr \<equiv> fst (fe_set_b32 (scalar_get_b32 a))"
  shows "fe_is 1 xr (scalar_val a)" "fe_verify_normalized xr" "fe_val xr = scalar_val a"
proof -
  note s = fe_set_b32_spec[OF scalar_get_b32_val(1), of a]
  show v: "fe_val xr = scalar_val a" using s(2) by (simp add: xr_def scalar_get_b32_val)
  then show "fe_verify_normalized xr"
    using s(1) assms(1) order_below_p(1) by (simp add: fe_verify_normalized_iff xr_def)
  then have "fe_verify_magnitude 1 xr" by (rule fe_verify_normalized_magnitude)
  then show "fe_is 1 xr (scalar_val a)" using fe_is_self v by metis
qed

definition point_accepts :: "int \<Rightarrow> point \<Rightarrow> bool" where
  "point_accepts r P = (case P of Infinity \<Rightarrow> False | Affine x y \<Rightarrow> x mod fe_p mod scalar_n = r)"

lemma verify_tests:
  assumes "scalar_val a < scalar_n" "gej_represents pr P"
  defines "xr \<equiv> fst (fe_set_b32 (scalar_get_b32 a))"
  shows "(if gej_is_infinity pr then False
     else if gej_eq_x_var xr pr then True
     else if fe_cmp_var xr ecdsa_const_p_minus_order \<ge> 0 then False
     else gej_eq_x_var (fe_add xr ecdsa_const_order_as_fe) pr) \<longleftrightarrow> point_accepts (scalar_val a) P"
proof (cases P)
  case (Affine x y)
  define r where "r = scalar_val a"
  have r: "0 \<le> r" "r < scalar_n" using assms(1) scalar_val_bounds(1)[of a] by (simp_all add: r_def)
  note f = scalar_as_fe[OF assms(1), folded xr_def r_def]
  have X: "0 \<le> x mod fe_p" "x mod fe_p < fe_p" by (simp_all add: fe_p_num)
  have r8: "fe_is 8 xr r" using f(1) by (rule fe_is_weaken) simp_all
  have "fe_is 2 (fe_add xr ecdsa_const_order_as_fe) (r + scalar_n)"
    by (rule fe_is_eq, (rule f order_as_fe fe_calc | (simp; fail))+)
  then have r8': "fe_is 8 (fe_add xr ecdsa_const_order_as_fe) (r + scalar_n)" by (rule fe_is_weaken) simp_all
  have e1: "gej_eq_x_var xr pr \<longleftrightarrow> r mod fe_p = x mod fe_p" and
    e2: "gej_eq_x_var (fe_add xr ecdsa_const_order_as_fe) pr \<longleftrightarrow> (r + scalar_n) mod fe_p = x mod fe_p"
    using gej_eq_x_var_iff[OF assms(2)[unfolded Affine]] r8 r8' by blast+
  have c: "fe_cmp_var xr ecdsa_const_p_minus_order \<ge> 0 \<longleftrightarrow> fe_p - scalar_n \<le> r"
    unfolding fe_cmp_var_sgn[OF f(2) p_minus_order(1)] f(3) p_minus_order(2) by (simp add: sgn_if)
  have m: "r mod fe_p = r" using r order_below_p(1) by (intro mod_pos_pos_trivial) simp_all
  have m': "r < fe_p - scalar_n \<Longrightarrow> (r + scalar_n) mod fe_p = r + scalar_n"
    using r by (intro mod_pos_pos_trivial) (simp_all add: scalar_n_def)
  have "\<not> gej_is_infinity pr" using assms(2) by (auto simp: Affine gej_at_def gej_is_infinity_def)
  then show ?thesis unfolding e1 e2 c m Affine point_accepts_def point.case r_def[symmetric] x_mod_order[OF X r]
    using m' by auto
qed (use assms(2) in \<open>simp add: point_accepts_def gej_is_infinity_def\<close>)

lemma ecdsa_sig_verify_value:
  assumes "0 < scalar_val (sig_r sg)" "scalar_val (sig_r sg) < scalar_n" "0 < scalar_val (sig_s sg)"
    "ecmult ctx (gej_set_ge pubkey) (scalar_mul (scalar_inverse_var (sig_s sg)) (sig_r sg))
      (scalar_mul (scalar_inverse_var (sig_s sg)) msg) = Some pr" "gej_represents pr P"
  shows "ecdsa_sig_verify ctx sg pubkey msg = Some (point_accepts (scalar_val (sig_r sg)) P)"
  using assms(1,3,4) verify_tests[OF assms(2,5)] by (auto simp: ecdsa_sig_verify_def Let_def is_zero_iff split: if_splits)

section \<open>The scalars\<close>

lemma inverse_times:
  assumes "scalar_val x ^ nat (scalar_n - 1) mod scalar_n = 1"
  shows "scalar_val (scalar_mul (scalar_inverse x) b) * scalar_val x mod scalar_n = scalar_val b mod scalar_n"
proof -
  have "scalar_val x * scalar_val (scalar_inverse x) mod scalar_n = 1"
    using scalar_inverse_mul[OF assms] by (simp only: scalar_mul_spec)
  moreover have "scalar_val (scalar_mul (scalar_inverse x) b) * scalar_val x mod scalar_n
      = (scalar_val x * scalar_val (scalar_inverse x) mod scalar_n) * scalar_val b mod scalar_n"
    by (simp add: scalar_mul_spec mod_mult_left_eq mod_mult_right_eq ac_simps)
  ultimately show ?thesis by simp
qed

lemma inverse_var_eq: "scalar_inverse_var x = scalar_inverse x"
  by (simp add: scalar_inverse_var_def)

text \<open>Cancelling an invertible scalar.\<close>

lemma cancel_scalar:
  assumes "scalar_val x ^ nat (scalar_n - 1) mod scalar_n = 1" "a * scalar_val x mod scalar_n = b * scalar_val x mod scalar_n"
  shows "a mod scalar_n = b mod scalar_n"
proof -
  have i: "scalar_val x * scalar_val (scalar_inverse x) mod scalar_n = 1"
    using scalar_inverse_mul[OF assms(1)] by (simp only: scalar_mul_spec)
  have "a * (scalar_val x * scalar_val (scalar_inverse x)) mod scalar_n = b * (scalar_val x * scalar_val (scalar_inverse x)) mod scalar_n"
    using mod_mult_cong[OF assms(2) refl, of "scalar_val (scalar_inverse x)"] by (simp only: mult.assoc)
  then show ?thesis using i by (metis mod_mult_right_eq mult.right_neutral)
qed

section \<open>Signing\<close>

text \<open>
  The first scalar of the signature, the x coordinate of the nonce point, and what signing makes of it.
\<close>

definition nonce_r :: "ecmult_gen_context \<Rightarrow> scalar \<Rightarrow> scalar" where
  "nonce_r ctx nonce = fst (scalar_set_b32 (fe_get_b32 (fe_normalize (ge_x (fst (ge_set_gej (ecmult_gen ctx nonce)))))))"

lemma scalar_high_negate:
  assumes "scalar_val a < scalar_n" "0 < scalar_val a"
  shows "0 < scalar_val (if scalar_is_high a then scalar_negate a else a)"
    "scalar_val (if scalar_is_high a then scalar_negate a else a) \<le> scalar_n div 2"
    "scalar_val (if scalar_is_high a then scalar_negate a else a) * k mod scalar_n
      \<in> {scalar_val a * k mod scalar_n, (- (scalar_val a * k)) mod scalar_n}"
proof -
  have n: "scalar_is_high a \<Longrightarrow> scalar_val (scalar_negate a) = scalar_n - scalar_val a"
    using assms by (simp add: scalar_negate_spec zmod_zminus1_eq_if)
  have odd: "scalar_n = 2 * (scalar_n div 2) + 1" by (simp add: scalar_n_def)
  show "0 < scalar_val (if scalar_is_high a then scalar_negate a else a)" using n assms by simp
  show "scalar_val (if scalar_is_high a then scalar_negate a else a) \<le> scalar_n div 2"
    using n is_high_iff[of a] odd by (cases "scalar_is_high a") auto
  have "(scalar_n - scalar_val a) * k = - (scalar_val a * k) + k * scalar_n" by algebra
  then have "(scalar_n - scalar_val a) * k mod scalar_n = (- (scalar_val a * k)) mod scalar_n" by (simp only: mod_mult_self1)
  then show "scalar_val (if scalar_is_high a then scalar_negate a else a) * k mod scalar_n
      \<in> {scalar_val a * k mod scalar_n, (- (scalar_val a * k)) mod scalar_n}" using n by simp
qed

text \<open>The flag and the scalars of the result.\<close>

lemma ecdsa_sig_sign_result:
  assumes "ecdsa_sig_sign ctx sg d msg nonce recid = (ok, sg', rid)"
  defines "r \<equiv> nonce_r ctx nonce"
  defines "s0 \<equiv> scalar_mul (scalar_inverse nonce) (fst (scalar_add (scalar_mul r d) msg))"
  shows "ok \<longleftrightarrow> scalar_val r \<noteq> 0 \<and> scalar_val s0 \<noteq> 0" "sig_r sg' = r"
    "ok \<Longrightarrow> sig_s sg' = (if scalar_is_high s0 then scalar_negate s0 else s0)"
  using assms(1) unfolding ecdsa_sig_sign_def r_def s0_def nonce_r_def
  by (auto simp: Let_def is_zero_iff split: prod.splits if_splits)

lemma sign_equation:
  fixes r d :: scalar
  assumes "scalar_val msg < scalar_n" "scalar_val nonce ^ nat (scalar_n - 1) mod scalar_n = 1"
  defines "s0 \<equiv> scalar_mul (scalar_inverse nonce) (fst (scalar_add (scalar_mul r d) msg))"
  shows "scalar_val s0 * scalar_val nonce mod scalar_n = (scalar_val msg + scalar_val r * scalar_val d) mod scalar_n"
proof -
  have "scalar_val (fst (scalar_add (scalar_mul r d) msg)) = (scalar_val msg + scalar_val r * scalar_val d) mod scalar_n"
    using scalar_add_spec(1)[OF scalar_mul_reduced assms(1)]
    by (simp add: scalar_mul_spec mod_add_left_eq mod_add_right_eq add.commute)
  then show ?thesis using inverse_times[OF assms(2)] by (simp add: s0_def)
qed

text \<open>
  The scalars that the verification of such a signature computes combine to the nonce, up to its sign.
\<close>

lemma verify_scalars:
  assumes "scalar_val sc ^ nat (scalar_n - 1) mod scalar_n = 1"
    "scalar_val sc * k mod scalar_n = e mod scalar_n" "e mod scalar_n = sg * (scalar_val msg + scalar_val r * d) mod scalar_n"
    "sg * sg = 1"
  shows "(scalar_val (scalar_mul (scalar_inverse_var sc) msg) + scalar_val (scalar_mul (scalar_inverse_var sc) r) * d) mod scalar_n
    = sg * k mod scalar_n"
proof (rule cancel_scalar[OF assms(1)])
  let ?u1 = "scalar_val (scalar_mul (scalar_inverse_var sc) msg)" and ?u2 = "scalar_val (scalar_mul (scalar_inverse_var sc) r)"
  have u: "?u1 * scalar_val sc mod scalar_n = scalar_val msg mod scalar_n" "?u2 * scalar_val sc mod scalar_n = scalar_val r mod scalar_n"
    using inverse_times[OF assms(1)] by (simp_all add: inverse_var_eq)
  have "(?u1 + ?u2 * d) * scalar_val sc mod scalar_n = (?u1 * scalar_val sc + ?u2 * scalar_val sc * d) mod scalar_n"
    by (simp add: algebra_simps)
  also have "\<dots> = (scalar_val msg + scalar_val r * d) mod scalar_n"
    by (rule mod_add_cong[OF u(1) mod_mult_cong[OF u(2) refl]])
  also have "\<dots> = sg * (sg * (scalar_val msg + scalar_val r * d)) mod scalar_n"
    using assms(4) by (simp only: mult.assoc[symmetric] mult_1_left)
  also have "\<dots> = sg * (scalar_val sc * k) mod scalar_n"
    by (rule mod_mult_cong[OF refl]) (simp only: assms(2,3))
  finally show "(?u1 + ?u2 * d) * scalar_val sc mod scalar_n = sg * k * scalar_val sc mod scalar_n"
    by (simp only: ac_simps)
qed

section \<open>The properties\<close>

text \<open>
  C15. Signing: with the x coordinate \<open>r\<close> of the nonce point and \<open>e = m + r d\<close>, \<open>ecdsa_sig_sign\<close> fails exactly when
  \<open>r\<close> or \<open>e\<close> is 0 modulo the order, and otherwise returns \<open>r\<close> and an \<open>s\<close> in the lower half with \<open>s k = e\<close> or
  \<open>s k = - e\<close>; then \<open>u1\<close> and \<open>u2\<close> of the verification satisfy \<open>u1 + u2 d = k\<close> or \<open>- k\<close>, provided that \<open>s\<close> and the
  nonce \<open>k\<close> satisfy Fermat's congruence for the order.
\<close>

theorem ecdsa_sig_sign_correct:
  assumes "scalar_val msg < scalar_n" "scalar_val nonce ^ nat (scalar_n - 1) mod scalar_n = 1"
  shows "case ecdsa_sig_sign ctx sg d msg nonce recid of (ok, sg', _) \<Rightarrow>
    let r = scalar_val (nonce_r ctx nonce); e = scalar_val msg + r * scalar_val d; k = scalar_val nonce; sn = scalar_inverse_var (sig_s sg')
    in scalar_val (sig_r sg') = r \<and> ok = (r \<noteq> 0 \<and> e mod scalar_n \<noteq> 0) \<and>
      (if ok then 0 < scalar_val (sig_s sg') \<and> scalar_val (sig_s sg') \<le> scalar_n div 2 \<and>
         scalar_val (sig_s sg') * k mod scalar_n \<in> {e mod scalar_n, (- e) mod scalar_n} \<and>
         (if scalar_val (sig_s sg') ^ nat (scalar_n - 1) mod scalar_n = 1
          then (scalar_val (scalar_mul sn msg) + scalar_val (scalar_mul sn (sig_r sg')) * scalar_val d) mod scalar_n
            \<in> {k mod scalar_n, (- k) mod scalar_n} else True)
       else True)"
proof -
  obtain ok sg' rid where S: "ecdsa_sig_sign ctx sg d msg nonce recid = (ok, sg', rid)" by (metis prod_cases3)
  define r where "r = nonce_r ctx nonce"
  define s0 where "s0 = scalar_mul (scalar_inverse nonce) (fst (scalar_add (scalar_mul r d) msg))"
  define e where "e = scalar_val msg + scalar_val r * scalar_val d"
  define k where "k = scalar_val nonce"
  define s' where "s' = (if scalar_is_high s0 then scalar_negate s0 else s0)"
  note R = ecdsa_sig_sign_result[OF S, folded r_def, folded s0_def]
  have eq: "scalar_val s0 * k mod scalar_n = e mod scalar_n"
    unfolding s0_def k_def e_def by (rule sign_equation[OF assms])
  have s0: "scalar_val s0 < scalar_n" unfolding s0_def by (rule scalar_mul_reduced)
  have zero: "scalar_val s0 = 0 \<longleftrightarrow> e mod scalar_n = 0"
  proof
    assume "e mod scalar_n = 0"
    then have "scalar_val s0 * scalar_val nonce mod scalar_n = 0 * scalar_val nonce mod scalar_n" using eq by (simp add: k_def)
    from cancel_scalar[OF assms(2) this] show "scalar_val s0 = 0"
      using s0 scalar_val_bounds(1)[of s0] by simp
  qed (use eq in simp)
  have main: "0 < scalar_val s' \<and> scalar_val s' \<le> scalar_n div 2 \<and> scalar_val s' * k mod scalar_n \<in> {e mod scalar_n, (- e) mod scalar_n}" if ok
  proof -
    have "0 < scalar_val s0" using R(1) that scalar_val_bounds(1)[of s0] by simp
    moreover have "(- (scalar_val s0 * k)) mod scalar_n = (- e) mod scalar_n" using eq by (metis mod_minus_eq)
    ultimately show ?thesis using scalar_high_negate(1,2)[OF s0] scalar_high_negate(3)[OF s0, of k] eq unfolding s'_def by metis
  qed
  have scal: "(scalar_val (scalar_mul (scalar_inverse_var s') msg) + scalar_val (scalar_mul (scalar_inverse_var s') r) * scalar_val d) mod scalar_n
      \<in> {k mod scalar_n, (- k) mod scalar_n}" if ok "scalar_val s' ^ nat (scalar_n - 1) mod scalar_n = 1"
  proof -
    from main[OF that(1)] consider "scalar_val s' * k mod scalar_n = e mod scalar_n" | "scalar_val s' * k mod scalar_n = (- e) mod scalar_n" by blast
    then show ?thesis
    proof cases
      case 1
      then show ?thesis using verify_scalars[OF that(2) 1, where sg = 1 and msg = msg and r = r and d = "scalar_val d"] by (simp add: e_def)
    next
      case 2
      then show ?thesis using verify_scalars[OF that(2) 2, where sg = "- 1" and msg = msg and r = r and d = "scalar_val d"] by (simp add: e_def)
    qed
  qed
  show ?thesis using main scal R zero
    unfolding S prod.case Let_def r_def[symmetric] e_def[symmetric] k_def[symmetric] by (cases ok) (simp_all add: s'_def)
qed

text \<open>The context for the witness: the table of the generator, without blinding.\<close>

definition plain_gen :: ecmult_gen_context where
  "plain_gen = \<lparr> prec = Some (gen_table 64 ge_const_g), blind = scalar_set_int 0, initial = gej_set_infinity \<rparr>"

theorem ecdsa_sig_sign_correct_witness:
  "case ecdsa_sig_sign plain_gen \<lparr> sig_r = scalar_clear, sig_s = scalar_clear \<rparr> (Scalar 5 0 0 0) (Scalar 7 0 0 0) (Scalar 1 0 0 0) None of
    (ok, sg', _) \<Rightarrow> scalar_val (sig_r sg') = scalar_val (nonce_r plain_gen (Scalar 1 0 0 0)) \<and>
      ok = (scalar_val (sig_r sg') \<noteq> 0 \<and> (7 + scalar_val (sig_r sg') * 5) mod scalar_n \<noteq> 0)"
proof -
  have "scalar_val (Scalar 7 0 0 0) < scalar_n" by (simp add: scalar_n_def)
  moreover have "scalar_val (Scalar 1 0 0 0) = 1" by simp
  then have "scalar_val (Scalar 1 0 0 0) ^ nat (scalar_n - 1) mod scalar_n = 1"
    by (simp only: power_one) (simp add: scalar_n_def)
  ultimately show ?thesis
    using ecdsa_sig_sign_correct[where msg = "Scalar 7 0 0 0" and nonce = "Scalar 1 0 0 0" and ctx = plain_gen and d = "Scalar 5 0 0 0" and recid = None
      and sg = "\<lparr> sig_r = scalar_clear, sig_s = scalar_clear \<rparr>"]
    by (auto simp: Let_def split: prod.splits)
qed

text \<open>
  C8. Verification: for a signature with reduced scalars that are not 0, with \<open>u1 s = m\<close> and \<open>u2 s = r\<close> modulo the
  order, \<open>ecdsa_sig_verify\<close> returns, and it accepts exactly when the point that doubling and adding over the
  digits of \<open>u2\<close> (multiples of the public key) and \<open>u1\<close> (multiples of the generator) reaches is finite and its
  x coordinate, taken modulo the prime and then modulo the order, is \<open>r\<close>. No inversion of the z coordinate
  is made, and both candidates \<open>r\<close> and \<open>r + n\<close> for the x coordinate are tried.
\<close>

theorem ecdsa_sig_verify_correct:
  assumes "0 < scalar_val (sig_r sg)" "scalar_val (sig_r sg) < scalar_n" "0 < scalar_val (sig_s sg)"
    and "scalar_val (sig_s sg) ^ nat (scalar_n - 1) mod scalar_n = 1"
    and "odd_multiples ps" "length ps = ECMULT_TABLE_SIZE WINDOW_A" "ge_represents pubkey (ps ! 0)" "pre_g ctx = Some pre"
    and "\<And>es n. ecmult_wnaf (scalar_mul (scalar_inverse_var (sig_s sg)) msg) WINDOW_G = Some es \<Longrightarrow> n \<in> set es \<Longrightarrow> n \<noteq> 0 \<Longrightarrow>
      ge_represents (table_get_ge_storage pre n) (N n)"
  shows "\<exists>u1 u2 ds es b. scalar_val u1 < scalar_n \<and> scalar_val u2 < scalar_n \<and>
    scalar_val u1 * scalar_val (sig_s sg) mod scalar_n = scalar_val msg mod scalar_n \<and>
    scalar_val u2 * scalar_val (sig_s sg) mod scalar_n = scalar_val (sig_r sg) \<and>
    ecmult_wnaf u2 WINDOW_A = Some ds \<and> ecmult_wnaf u1 WINDOW_G = Some es \<and>
    ecdsa_sig_verify ctx sg pubkey msg = Some b \<and>
    (\<forall>R. interleaved (digit_point ps) ds N es 0 R \<longrightarrow> b = point_accepts (scalar_val (sig_r sg)) R)"
proof -
  let ?u1 = "scalar_mul (scalar_inverse_var (sig_s sg)) msg" and ?u2 = "scalar_mul (scalar_inverse_var (sig_s sg)) (sig_r sg)"
  have "\<exists>ds es r. ecmult_wnaf ?u2 WINDOW_A = Some ds \<and> ecmult_wnaf ?u1 WINDOW_G = Some es \<and>
      ecmult ctx (gej_set_ge pubkey) ?u2 ?u1 = Some r \<and> (\<forall>R. interleaved (digit_point ps) ds N es 0 R \<longrightarrow> gej_represents r R)"
  proof (rule ecmult_returns[OF scalar_mul_reduced scalar_mul_reduced assms(5,6) gej_set_ge_represents[OF assms(7)] assms(8)])
    show "ge_represents (table_get_ge_storage pre n) (N n)" if "ecmult_wnaf ?u1 WINDOW_G = Some es" "n \<in> set es" "n \<noteq> 0" for es n
      using assms(9) that .
  qed
  then obtain ds es r where e: "ecmult_wnaf ?u2 WINDOW_A = Some ds" "ecmult_wnaf ?u1 WINDOW_G = Some es"
    "ecmult ctx (gej_set_ge pubkey) ?u2 ?u1 = Some r" "\<forall>R. interleaved (digit_point ps) ds N es 0 R \<longrightarrow> gej_represents r R" by blast
  have "scalar_val ?u1 * scalar_val (sig_s sg) mod scalar_n = scalar_val msg mod scalar_n"
    "scalar_val ?u2 * scalar_val (sig_s sg) mod scalar_n = scalar_val (sig_r sg)"
    using inverse_times[OF assms(4)] assms(1,2) by (simp_all add: inverse_var_eq)
  moreover obtain b where b: "ecdsa_sig_verify ctx sg pubkey msg = Some b"
    using e(3) assms(1,3) by (auto simp: ecdsa_sig_verify_def Let_def is_zero_iff)
  moreover have "\<forall>R. interleaved (digit_point ps) ds N es 0 R \<longrightarrow> b = point_accepts (scalar_val (sig_r sg)) R"
    using ecdsa_sig_verify_value[OF assms(1-3) e(3)] e(4) b by auto
  ultimately show ?thesis using e(1,2) scalar_mul_reduced by blast
qed

text \<open>
  The witness: \<open>r\<close>, \<open>s\<close> and the message are all \<open>lambda\<close>, a cube root of 1 modulo the order, so that \<open>u1\<close> and
  \<open>u2\<close> are 1, and the key is the one of Ecmult_Spec.
\<close>

definition lambda_scalar :: scalar where
  "lambda_scalar = Scalar 0xdf02967c1b23bd72 0x122e22ea20816678 0xa5261c028812645a 0x5363ad4cc05c30e0"

lemma lambda_scalar_val: "scalar_val lambda_scalar = lambda"
  by (simp add: lambda_scalar_def lambda_def)

lemma lambda_cubed: "lambda ^ 3 mod scalar_n = 1"
  by (simp add: lambda_def scalar_n_def)

lemma lambda_fermat: "lambda ^ nat (scalar_n - 1) mod scalar_n = 1"
proof -
  have "nat (scalar_n - 1) = 3 * (nat (scalar_n - 1) div 3)" by (simp add: scalar_n_def)
  then have "lambda ^ nat (scalar_n - 1) = (lambda ^ 3) ^ (nat (scalar_n - 1) div 3)" by (metis power_mult)
  then have "lambda ^ nat (scalar_n - 1) mod scalar_n = (lambda ^ 3 mod scalar_n) ^ (nat (scalar_n - 1) div 3) mod scalar_n"
    by (simp only: power_mod)
  then show ?thesis unfolding lambda_cubed power_one by (simp add: scalar_n_def)
qed

lemma lambda_divides_itself:
  assumes "scalar_val u < scalar_n" "scalar_val u * lambda mod scalar_n = lambda"
  shows "u = Scalar 1 0 0 0"
proof -
  have "scalar_val u * lambda mod scalar_n = 1 * lambda mod scalar_n" using assms(2) by (simp add: lambda_def scalar_n_def)
  then have "scalar_val u mod scalar_n = 1 mod scalar_n"
    using cancel_scalar[of lambda_scalar "scalar_val u" 1] lambda_fermat by (simp add: lambda_scalar_val)
  then have "scalar_val u = 1" using assms(1) scalar_val_bounds(1)[of u] by (simp add: scalar_n_def)
  then show ?thesis by (intro scalar_val_inj) simp
qed

theorem ecdsa_sig_verify_correct_witness:
  "ecdsa_sig_verify \<lparr> pre_g = Some [ge_to_storage ge_const_g] \<rparr> \<lparr> sig_r = lambda_scalar, sig_s = lambda_scalar \<rparr> verify_key lambda_scalar
    = Some True"
proof -
  let ?N = "\<lambda>_ :: int. Affine g_x g_y" and ?pre = "[ge_to_storage ge_const_g]" and ?sg = "\<lparr> sig_r = lambda_scalar, sig_s = lambda_scalar \<rparr>"
  let ?u = "scalar_mul (scalar_inverse_var lambda_scalar) lambda_scalar"
  have l: "0 < lambda" "lambda < scalar_n" "lambda mod scalar_n = lambda" by (simp_all add: lambda_def scalar_n_def)
  have f: "scalar_val lambda_scalar ^ nat (scalar_n - 1) mod scalar_n = 1" using lambda_fermat by (simp only: lambda_scalar_val)
  have one: "ecmult_wnaf (Scalar 1 0 0 0) WINDOW_A = Some [1]" "ecmult_wnaf (Scalar 1 0 0 0) WINDOW_G = Some [1]"
    by (simp_all add: ecmult_wnaf_one WINDOW_A_def WINDOW_G_def)
  have p0: "odd_multiples_key ! 0 = Affine key_x key_y" "digit_point odd_multiples_key 1 = Affine key_x key_y"
    by (simp_all add: odd_multiples_key_def key_x_def key_y_def digit_point_def)
  have u: "?u = Scalar 1 0 0 0"
    using inverse_times[OF f, of lambda_scalar] l by (intro lambda_divides_itself scalar_mul_reduced) (simp add: inverse_var_eq lambda_scalar_val)
  have "ge_represents (table_get_ge_storage ?pre 1) (Affine g_x g_y)"
    using ge_storage_represents generator_represents(1) by (simp add: table_get_ge_storage_def)
  then have tab: "ge_represents (table_get_ge_storage ?pre n) (?N n)"
    if "ecmult_wnaf ?u WINDOW_G = Some es" "n \<in> set es" "n \<noteq> 0" for es n using that one u by auto
  obtain u1 u2 ds es b where v: "scalar_val u1 < scalar_n" "scalar_val u2 < scalar_n" "scalar_val u1 * lambda mod scalar_n = lambda"
    "scalar_val u2 * lambda mod scalar_n = lambda" "ecmult_wnaf u2 WINDOW_A = Some ds" "ecmult_wnaf u1 WINDOW_G = Some es"
    "ecdsa_sig_verify \<lparr> pre_g = Some ?pre \<rparr> ?sg verify_key lambda_scalar = Some b"
    "\<forall>R. interleaved (digit_point odd_multiples_key) ds ?N es 0 R \<longrightarrow> b = point_accepts lambda R"
    using ecdsa_sig_verify_correct[of ?sg odd_multiples_key verify_key "\<lparr> pre_g = Some ?pre \<rparr>" ?pre lambda_scalar ?N]
      f l tab odd_multiples_key_ok odd_multiples_key_length verify_key_represents
    by (auto simp: lambda_scalar_val p0 ECMULT_TABLE_SIZE_def WINDOW_A_def)
  have "u1 = Scalar 1 0 0 0" "u2 = Scalar 1 0 0 0" using v(1-4) lambda_divides_itself by blast+
  then have d: "ds = [1]" "es = [1]" using v(5,6) one by simp_all
  have "interleaved (digit_point odd_multiples_key) [1] ?N [1] (Suc 0) Infinity"
    using start[of "digit_point odd_multiples_key" "[1]" ?N "[1]"] by simp
  from turn[OF this, of Infinity "Affine key_x key_y" "third_point key_slope key_x key_y g_x"]
  have "interleaved (digit_point odd_multiples_key) [1] ?N [1] 0 (third_point key_slope key_x key_y g_x)"
    using chord_key_g p0(2) by (simp add: add_digit_def)
  then have "b = point_accepts lambda (third_point key_slope key_x key_y g_x)" using v(8) d by blast
  also have "\<dots> = True"
    by (simp add: point_accepts_def third_point_def Let_def key_slope_def key_x_def g_x_def fe_p_num scalar_n_def lambda_def)
  finally show ?thesis using v(7) by simp
qed

end
