(* ===== verification/Eckey.thy ===== *)
theory Eckey
  imports Ecdsa
begin

text \<open>
  Keys: eckey.h and eckey_impl.h. The serialisations return the bytes written (their length is what
  the C code stores in \<open>*size\<close>), the parsers take the bytes and the length argument.
\<close>

section \<open>Public keys\<close>

text \<open>The result flag, and the group element where the code has written it.\<close>

definition eckey_pubkey_parse :: "u8 list \<Rightarrow> int \<Rightarrow> bool \<times> ge option" where
  "eckey_pubkey_parse pub size_arg =
     (if size_arg = 33 \<and> (pub ! 0 = 0x02 \<or> pub ! 0 = 0x03) then
        (let (x, ok) = fe_set_b32 (drop 1 pub)
         in if ok then (let (e, ok) = ge_set_xo_var x (pub ! 0 = 0x03) in (ok, Some e)) else (False, None))
      else if size_arg = 65 \<and> (pub ! 0 = 0x04 \<or> pub ! 0 = 0x06 \<or> pub ! 0 = 0x07) then
        (let (x, okx) = fe_set_b32 (drop 1 pub);
             (y, oky) = fe_set_b32 (drop 33 pub)
         in if \<not> okx \<or> \<not> oky then (False, None)
            else
              (let e = ge_set_xy x y
               in if (pub ! 0 = 0x06 \<or> pub ! 0 = 0x07) \<and> fe_is_odd y \<noteq> (pub ! 0 = 0x07) then (False, Some e)
                  else (ge_is_valid_var e, Some e)))
      else (False, None))"

definition eckey_pubkey_serialize :: "ge \<Rightarrow> bool \<Rightarrow> u8 list option \<times> ge" where
  "eckey_pubkey_serialize e compressed =
     (if ge_is_infinity e then (None, e)
      else
        (let e = e\<lparr> ge_x := fe_normalize_var (ge_x e) \<rparr>;
             e = e\<lparr> ge_y := fe_normalize_var (ge_y e) \<rparr>;
             xs = fe_get_b32 (ge_x e)
         in if compressed then (Some ((0x02 OR (if fe_is_odd (ge_y e) then 0x01 else 0x00)) # xs), e)
            else (Some (0x04 # xs @ fe_get_b32 (ge_y e)), e)))"

section \<open>Private keys\<close>

text \<open>
  The parser of the DER structure walks a pointer over the input; \<open>p\<close> is the rest of the input
  from the pointer on. \<open>c\<close> starts as 32 zero bytes.
\<close>

definition eckey_privkey_parse :: "u8 list \<Rightarrow> bool \<times> scalar option" where
  "eckey_privkey_parse privkey =
     (let p = privkey in
      if length p < 1 \<or> p ! 0 \<noteq> 0x30 then (False, None)
      else let p = drop 1 p in
      if length p < 1 \<or> p ! 0 AND 0x80 = 0 then (False, None)
      else let lenb = unat (p ! 0 AND NOT 0x80); p = drop 1 p in
      if lenb < 1 \<or> lenb > 2 then (False, None)
      else if length p < lenb then (False, None)
      else let len = unat (p ! (lenb - 1)) OR (if lenb > 1 then push_bit 8 (unat (p ! (lenb - 2))) else 0);
               p = drop lenb p in
      if length p < len then (False, None)
      else if length p < 3 \<or> p ! 0 \<noteq> 0x02 \<or> p ! 1 \<noteq> 0x01 \<or> p ! 2 \<noteq> 0x01 then (False, None)
      else let p = drop 3 p in
      if length p < 2 \<or> p ! 0 \<noteq> 0x04 \<or> p ! 1 > 0x20 \<or> length p < 2 + unat (p ! 1) then (False, None)
      else let c = replicate (32 - unat (p ! 1)) 0 @ take (unat (p ! 1)) (drop 2 p);
               (key, overflow) = scalar_set_b32 c
           in (overflow = 0, Some key))"

definition begin_compressed :: "u8 list" where
  "begin_compressed = [
     0x30, 0x81, 0xD3, 0x02, 0x01, 0x01, 0x04, 0x20]"

definition middle_compressed :: "u8 list" where
  "middle_compressed = [
     0xA0, 0x81, 0x85, 0x30, 0x81, 0x82, 0x02, 0x01, 0x01, 0x30, 0x2C, 0x06, 0x07, 0x2A, 0x86, 0x48,
     0xCE, 0x3D, 0x01, 0x01, 0x02, 0x21, 0x00, 0xFF, 0xFF, 0xFF, 0xFF, 0xFF, 0xFF, 0xFF, 0xFF, 0xFF,
     0xFF, 0xFF, 0xFF, 0xFF, 0xFF, 0xFF, 0xFF, 0xFF, 0xFF, 0xFF, 0xFF, 0xFF, 0xFF, 0xFF, 0xFF, 0xFF,
     0xFF, 0xFF, 0xFE, 0xFF, 0xFF, 0xFC, 0x2F, 0x30, 0x06, 0x04, 0x01, 0x00, 0x04, 0x01, 0x07, 0x04,
     0x21, 0x02, 0x79, 0xBE, 0x66, 0x7E, 0xF9, 0xDC, 0xBB, 0xAC, 0x55, 0xA0, 0x62, 0x95, 0xCE, 0x87,
     0x0B, 0x07, 0x02, 0x9B, 0xFC, 0xDB, 0x2D, 0xCE, 0x28, 0xD9, 0x59, 0xF2, 0x81, 0x5B, 0x16, 0xF8,
     0x17, 0x98, 0x02, 0x21, 0x00, 0xFF, 0xFF, 0xFF, 0xFF, 0xFF, 0xFF, 0xFF, 0xFF, 0xFF, 0xFF, 0xFF,
     0xFF, 0xFF, 0xFF, 0xFF, 0xFE, 0xBA, 0xAE, 0xDC, 0xE6, 0xAF, 0x48, 0xA0, 0x3B, 0xBF, 0xD2, 0x5E,
     0x8C, 0xD0, 0x36, 0x41, 0x41, 0x02, 0x01, 0x01, 0xA1, 0x24, 0x03, 0x22, 0x00]"

definition begin_uncompressed :: "u8 list" where
  "begin_uncompressed = [
     0x30, 0x82, 0x01, 0x13, 0x02, 0x01, 0x01, 0x04, 0x20]"

definition middle_uncompressed :: "u8 list" where
  "middle_uncompressed = [
     0xA0, 0x81, 0xA5, 0x30, 0x81, 0xA2, 0x02, 0x01, 0x01, 0x30, 0x2C, 0x06, 0x07, 0x2A, 0x86, 0x48,
     0xCE, 0x3D, 0x01, 0x01, 0x02, 0x21, 0x00, 0xFF, 0xFF, 0xFF, 0xFF, 0xFF, 0xFF, 0xFF, 0xFF, 0xFF,
     0xFF, 0xFF, 0xFF, 0xFF, 0xFF, 0xFF, 0xFF, 0xFF, 0xFF, 0xFF, 0xFF, 0xFF, 0xFF, 0xFF, 0xFF, 0xFF,
     0xFF, 0xFF, 0xFE, 0xFF, 0xFF, 0xFC, 0x2F, 0x30, 0x06, 0x04, 0x01, 0x00, 0x04, 0x01, 0x07, 0x04,
     0x41, 0x04, 0x79, 0xBE, 0x66, 0x7E, 0xF9, 0xDC, 0xBB, 0xAC, 0x55, 0xA0, 0x62, 0x95, 0xCE, 0x87,
     0x0B, 0x07, 0x02, 0x9B, 0xFC, 0xDB, 0x2D, 0xCE, 0x28, 0xD9, 0x59, 0xF2, 0x81, 0x5B, 0x16, 0xF8,
     0x17, 0x98, 0x48, 0x3A, 0xDA, 0x77, 0x26, 0xA3, 0xC4, 0x65, 0x5D, 0xA4, 0xFB, 0xFC, 0x0E, 0x11,
     0x08, 0xA8, 0xFD, 0x17, 0xB4, 0x48, 0xA6, 0x85, 0x54, 0x19, 0x9C, 0x47, 0xD0, 0x8F, 0xFB, 0x10,
     0xD4, 0xB8, 0x02, 0x21, 0x00, 0xFF, 0xFF, 0xFF, 0xFF, 0xFF, 0xFF, 0xFF, 0xFF, 0xFF, 0xFF, 0xFF,
     0xFF, 0xFF, 0xFF, 0xFF, 0xFE, 0xBA, 0xAE, 0xDC, 0xE6, 0xAF, 0x48, 0xA0, 0x3B, 0xBF, 0xD2, 0x5E,
     0x8C, 0xD0, 0x36, 0x41, 0x41, 0x02, 0x01, 0x01, 0xA1, 0x44, 0x03, 0x42, 0x00]"

definition eckey_privkey_serialize :: "ecmult_gen_context \<Rightarrow> scalar \<Rightarrow> bool \<Rightarrow> u8 list option" where
  "eckey_privkey_serialize ctx key compressed =
     (let rp = ecmult_gen ctx key;
          (r, rp) = ge_set_gej rp
      in if compressed then
           (case fst (eckey_pubkey_serialize r True) of None \<Rightarrow> None
            | Some pub \<Rightarrow> Some (begin_compressed @ scalar_get_b32 key @ middle_compressed @ pub))
         else
           (case fst (eckey_pubkey_serialize r False) of None \<Rightarrow> None
            | Some pub \<Rightarrow> Some (begin_uncompressed @ scalar_get_b32 key @ middle_uncompressed @ pub)))"

section \<open>Tweaks\<close>

definition eckey_privkey_tweak_add :: "scalar \<Rightarrow> scalar \<Rightarrow> bool \<times> scalar" where
  "eckey_privkey_tweak_add key tweak =
     (let key = fst (scalar_add key tweak)
      in if scalar_is_zero key then (False, key) else (True, key))"

definition eckey_pubkey_tweak_add :: "ecmult_context \<Rightarrow> ge \<Rightarrow> scalar \<Rightarrow> (bool \<times> ge) option" where
  "eckey_pubkey_tweak_add ctx key tweak =
     (let pt = gej_set_ge key;
          one = scalar_set_int 1
      in case ecmult ctx pt one tweak of None \<Rightarrow> None
         | Some pt \<Rightarrow> Some (if gej_is_infinity pt then (False, key) else (True, fst (ge_set_gej pt))))"

definition eckey_privkey_tweak_mul :: "scalar \<Rightarrow> scalar \<Rightarrow> bool \<times> scalar" where
  "eckey_privkey_tweak_mul key tweak =
     (if scalar_is_zero tweak then (False, key) else (True, scalar_mul key tweak))"

definition eckey_pubkey_tweak_mul :: "ecmult_context \<Rightarrow> ge \<Rightarrow> scalar \<Rightarrow> (bool \<times> ge) option" where
  "eckey_pubkey_tweak_mul ctx key tweak =
     (if scalar_is_zero tweak then Some (False, key)
      else
        (let zero = scalar_set_int 0;
             pt = gej_set_ge key
         in case ecmult ctx pt tweak zero of None \<Rightarrow> None
            | Some pt \<Rightarrow> Some (True, fst (ge_set_gej pt))))"

end
