(* ===== verification/Rangeproof_Context.thy ===== *)
theory Rangeproof_Context
  imports Ecmult_Gen
begin

text \<open>
  The context of the range proofs, from rangeproof.h and rangeproof_impl.h: the table of the
  multiples of the second generator that a public key ring is expanded with. The proofs themselves
  are not modelled.
\<close>

definition rangeproof_offsets :: "nat list" where
  "rangeproof_offsets = [0, 96, 189, 276, 360, 438, 510, 579, 642, 699, 753, 801, 843, 882, 915, 942, 966, 984, 996, 1005]"

record rangeproof_context =
  rp_prec :: "ge_storage list option"

definition rangeproof_context_init :: rangeproof_context where
  "rangeproof_context_init = \<lparr> rp_prec = None \<rparr>"

definition double_of :: "gej \<Rightarrow> gej" where
  "double_of a = fst (gej_double_var a a None)"

text \<open>The inner loop; the array is written upwards, so \<open>pos\<close> is the length of \<open>precj\<close>.\<close>

function rangeproof_row :: "nat \<Rightarrow> gej list \<Rightarrow> gej \<Rightarrow> gej list" where
  "rangeproof_row pmax precj gj =
     (if length precj < pmax then
        (let precj = precj @ [gj];
             precj = precj @ [double_of gj];
             precj = precj @ [fst (gej_add_var gej_clear (last precj) gj None)];
             gj = (if length precj < pmax - 1 then double_of (precj ! (length precj - 2)) else gj)
         in rangeproof_row pmax precj gj)
      else precj)"
  by pat_completeness auto
termination
  by (relation "measure (\<lambda>(pmax, precj, gj). pmax - length precj)") auto

declare rangeproof_row.simps [simp del]

definition rangeproof_step :: "nat \<Rightarrow> gej list \<times> gej \<Rightarrow> gej list \<times> gej" where
  "rangeproof_step i st = (case st of (precj, one) \<Rightarrow>
     (let pmax = rangeproof_offsets ! (i + 1);
          precj = rangeproof_row pmax precj one;
          one = (if i < 18 then
                   (let one = double_of one;
                        gj = double_of (double_of one)
                    in fst (gej_add_var one one gj None))
                 else one)
      in (precj, one)))"

definition rangeproof_context_build :: "rangeproof_context \<Rightarrow> rangeproof_context" where
  "rangeproof_context_build ctx =
     (if rp_prec ctx \<noteq> None then ctx
      else
        (let one = gej_neg (gej_set_ge ge_const_g2);
             precj = fst (fold rangeproof_step [0..<19] ([], one));
             prec = ge_set_all_gej_var (replicate 1005 ge_clear) precj
         in ctx\<lparr> rp_prec := Some (map ge_to_storage prec) \<rparr>))"

definition rangeproof_context_is_built :: "rangeproof_context \<Rightarrow> bool" where
  "rangeproof_context_is_built ctx = (rp_prec ctx \<noteq> None)"

definition rangeproof_context_clone :: "rangeproof_context \<Rightarrow> rangeproof_context" where
  "rangeproof_context_clone src = \<lparr> rp_prec = rp_prec src \<rparr>"

definition rangeproof_context_clear :: "rangeproof_context \<Rightarrow> rangeproof_context" where
  "rangeproof_context_clear ctx = ctx\<lparr> rp_prec := None \<rparr>"

text \<open>The rows fill the table: every row ends at its offset, so that all 1005 entries are written.\<close>

lemma rangeproof_row_length:
  assumes "length precj \<le> pmax" "3 dvd pmax - length precj"
  shows "length (rangeproof_row pmax precj gj) = pmax"
  using assms
proof (induction pmax precj gj rule: rangeproof_row.induct)
  case (1 pmax precj gj)
  show ?case
  proof (cases "length precj < pmax")
    case True
    obtain k where k: "pmax - length precj = 3 * k" using 1(3) by (elim dvdE)
    then obtain m where "k = Suc m" using True by (cases k) auto
    with k True have "Suc (Suc (Suc (length precj))) \<le> pmax" "pmax - Suc (Suc (Suc (length precj))) = 3 * m" by auto
    then show ?thesis unfolding rangeproof_row.simps[of pmax precj gj] Let_def if_P[OF True]
      by (intro 1(1)[OF True refl refl refl refl]) simp_all
  qed (use 1 in \<open>simp add: rangeproof_row.simps\<close>)
qed

end
