(* ===== verification/Secp256k1.thy ===== *)
theory Secp256k1
  imports Eckey Rangeproof_Context
begin

text \<open>
  The functions of the library, secp256k1.c. An output buffer is part of the result. A function
  that might not return has an option as its result: None stands for an endless loop or for the
  abort of a failed DEBUG_CHECK (the checks that a pointer is not NULL hold by construction here).
  The range proof functions, which only pass their arguments on, are not modelled.
\<close>

record secp_context =
  ecmult_ctx :: ecmult_context
  ecmult_gen_ctx :: ecmult_gen_context
  ecmult_gen2_ctx :: ecmult_gen2_context
  rangeproof_ctx :: rangeproof_context

definition CONTEXT_VERIFY :: u32 where "CONTEXT_VERIFY = push_bit 0 1"
definition CONTEXT_SIGN :: u32 where "CONTEXT_SIGN = push_bit 1 1"
definition CONTEXT_COMMIT :: u32 where "CONTEXT_COMMIT = push_bit 7 1"
definition CONTEXT_RANGEPROOF :: u32 where "CONTEXT_RANGEPROOF = push_bit 8 1"

definition DEBUG_CHECK :: "bool \<Rightarrow> 'a option \<Rightarrow> 'a option" where
  "DEBUG_CHECK c k = (if c then k else None)"

text \<open>\<open>ret\<close> is fresh memory: its blinding values are only set when the table for signing is built.\<close>

definition context_create :: "secp_context \<Rightarrow> u32 \<Rightarrow> secp_context option" where
  "context_create ret flags =
     (let ec = ecmult_context_init;
          gen = ecmult_gen_context_init (ecmult_gen_ctx ret);
          gen2 = ecmult_gen2_context_init;
          rp = rangeproof_context_init
      in case (if flags AND CONTEXT_SIGN \<noteq> 0 then ecmult_gen_context_build gen else Some gen) of None \<Rightarrow> None
         | Some gen \<Rightarrow> Some \<lparr>
             ecmult_ctx = (if flags AND CONTEXT_VERIFY \<noteq> 0 then ecmult_context_build ec else ec),
             ecmult_gen_ctx = gen,
             ecmult_gen2_ctx = (if flags AND CONTEXT_COMMIT \<noteq> 0 then ecmult_gen2_context_build gen2 else gen2),
             rangeproof_ctx = (if flags AND CONTEXT_RANGEPROOF \<noteq> 0 then rangeproof_context_build rp else rp) \<rparr>)"

definition context_clone :: "secp_context \<Rightarrow> secp_context \<Rightarrow> secp_context" where
  "context_clone ret ctx = \<lparr>
     ecmult_ctx = ecmult_context_clone (ecmult_ctx ctx),
     ecmult_gen_ctx = ecmult_gen_context_clone (ecmult_gen_ctx ret) (ecmult_gen_ctx ctx),
     ecmult_gen2_ctx = ecmult_gen2_context_clone (ecmult_gen2_ctx ctx),
     rangeproof_ctx = rangeproof_context_clone (rangeproof_ctx ctx) \<rparr>"

text \<open>The contents of the context when it is freed.\<close>

definition context_destroy :: "secp_context \<Rightarrow> secp_context" where
  "context_destroy ctx = \<lparr>
     ecmult_ctx = ecmult_context_clear (ecmult_ctx ctx),
     ecmult_gen_ctx = ecmult_gen_context_clear (ecmult_gen_ctx ctx),
     ecmult_gen2_ctx = ecmult_gen2_context_clear (ecmult_gen2_ctx ctx),
     rangeproof_ctx = rangeproof_context_clear (rangeproof_ctx ctx) \<rparr>"

section \<open>Signatures\<close>

definition sig_uninit :: ecdsa_sig where
  "sig_uninit = \<lparr> sig_r = scalar_clear, sig_s = scalar_clear \<rparr>"

definition ecdsa_verify :: "secp_context \<Rightarrow> u8 list \<Rightarrow> u8 list \<Rightarrow> int \<Rightarrow> u8 list \<Rightarrow> int \<Rightarrow> int option" where
  "ecdsa_verify ctx msg32 sg siglen pubkey pubkeylen =
     DEBUG_CHECK (ecmult_context_is_built (ecmult_ctx ctx))
       (let m = fst (scalar_set_b32 msg32)
        in case eckey_pubkey_parse pubkey pubkeylen of
             (True, Some q) \<Rightarrow>
               (case ecdsa_sig_parse sig_uninit sg siglen of
                  (True, sgv) \<Rightarrow> map_option (\<lambda>ok. if ok then 1 else 0) (ecdsa_sig_verify (ecmult_ctx ctx) sgv q m)
                | _ \<Rightarrow> Some (- 2))
           | _ \<Rightarrow> Some (- 1))"

text \<open>
  A nonce function takes the message, the key, the attempt and its data, and returns a flag and the
  nonce. The default one loops while \<open>i <= counter\<close> in 32 bits: for the largest counter for ever.
\<close>

type_synonym nonce_function = "u8 list \<Rightarrow> u8 list \<Rightarrow> u32 \<Rightarrow> u8 list option \<Rightarrow> (int \<times> u8 list) option"

definition nonce_function_rfc6979 :: nonce_function where
  "nonce_function_rfc6979 msg32 key32 counter data =
     (let rng = rfc6979_initialize key32 msg32 data
      in if counter = - 1 then None
         else
           (let (nonce32, rng) = ((\<lambda>(_ :: u8 list, rng). rfc6979_generate rng 32) ^^ (unat counter + 1)) ([], rng)
            in Some (1, nonce32)))"

text \<open>The loop over the attempts, shared by the two signing functions.\<close>

partial_function (option) sign_loop ::
  "ecmult_gen_context \<Rightarrow> nonce_function \<Rightarrow> u8 list \<Rightarrow> u8 list \<Rightarrow> u8 list option \<Rightarrow> scalar \<Rightarrow> scalar \<Rightarrow>
    u32 \<Rightarrow> ecdsa_sig \<Rightarrow> u32 option \<Rightarrow> (int \<times> ecdsa_sig \<times> u32 option) option" where
  "sign_loop gen noncefp msg32 seckey noncedata sec msg count sg recid =
     (case noncefp msg32 seckey count noncedata of None \<Rightarrow> None
      | Some (ret, nonce32) \<Rightarrow>
        (if ret = 0 then Some (ret, sg, recid)
         else
           (let (non, overflow) = scalar_set_b32 nonce32
            in if \<not> scalar_is_zero non \<and> overflow = 0 then
                 (let (ok, sg, recid) = ecdsa_sig_sign gen sg sec msg non recid
                  in if ok then Some (ret, sg, recid)
                     else sign_loop gen noncefp msg32 seckey noncedata sec msg (count + 1) sg recid)
               else sign_loop gen noncefp msg32 seckey noncedata sec msg (count + 1) sg recid)))"

definition nonce_or_default :: "nonce_function option \<Rightarrow> nonce_function" where
  "nonce_or_default noncefp = (case noncefp of None \<Rightarrow> nonce_function_rfc6979 | Some f \<Rightarrow> f)"

text \<open>The flag and the signature bytes; no bytes when \<open>*signaturelen\<close> is set to 0.\<close>

definition ecdsa_sign ::
  "secp_context \<Rightarrow> u8 list \<Rightarrow> int \<Rightarrow> u8 list \<Rightarrow> nonce_function option \<Rightarrow> u8 list option \<Rightarrow> (int \<times> u8 list) option" where
  "ecdsa_sign ctx msg32 signaturelen seckey noncefp noncedata =
     DEBUG_CHECK (ecmult_gen_context_is_built (ecmult_gen_ctx ctx))
       (let (sec, overflow) = scalar_set_b32 seckey
        in if overflow = 0 \<and> \<not> scalar_is_zero sec then
             (let msg = fst (scalar_set_b32 msg32)
              in case sign_loop (ecmult_gen_ctx ctx) (nonce_or_default noncefp) msg32 seckey noncedata sec msg 0 sig_uninit None of
                   None \<Rightarrow> None
                 | Some (ret, sg, _) \<Rightarrow>
                   (if ret \<noteq> 0 then
                      (case ecdsa_sig_serialize signaturelen sg of None \<Rightarrow> Some (0, []) | Some out \<Rightarrow> Some (1, out))
                    else Some (0, [])))
           else Some (0, []))"

definition ecdsa_sign_compact ::
  "secp_context \<Rightarrow> u8 list \<Rightarrow> u8 list \<Rightarrow> nonce_function option \<Rightarrow> u8 list option \<Rightarrow> u32 option \<Rightarrow> (int \<times> u8 list \<times> u32 option) option" where
  "ecdsa_sign_compact ctx msg32 seckey noncefp noncedata recid =
     DEBUG_CHECK (ecmult_gen_context_is_built (ecmult_gen_ctx ctx))
       (let (sec, overflow) = scalar_set_b32 seckey
        in if overflow = 0 \<and> \<not> scalar_is_zero sec then
             (let msg = fst (scalar_set_b32 msg32)
              in case sign_loop (ecmult_gen_ctx ctx) (nonce_or_default noncefp) msg32 seckey noncedata sec msg 0 sig_uninit recid of
                   None \<Rightarrow> None
                 | Some (ret, sg, recid) \<Rightarrow>
                   (if ret \<noteq> 0 then Some (ret, scalar_get_b32 (sig_r sg) @ scalar_get_b32 (sig_s sg), recid)
                    else Some (ret, replicate 64 0, recid)))
           else Some (0, replicate 64 0, recid))"

definition ecdsa_recover_compact :: "secp_context \<Rightarrow> u8 list \<Rightarrow> u8 list \<Rightarrow> bool \<Rightarrow> u32 \<Rightarrow> u8 list option option" where
  "ecdsa_recover_compact ctx msg32 sig64 compressed recid =
     DEBUG_CHECK (ecmult_context_is_built (ecmult_ctx ctx) \<and> sint recid \<ge> 0 \<and> sint recid \<le> 3)
       (let (rr, overflow) = scalar_set_b32 sig64
        in if overflow \<noteq> 0 then Some None
           else
             (let (ss, overflow) = scalar_set_b32 (drop 32 sig64)
              in if overflow \<noteq> 0 then Some None
                 else
                   (let m = fst (scalar_set_b32 msg32)
                    in case ecdsa_sig_recover (ecmult_ctx ctx) \<lparr> sig_r = rr, sig_s = ss \<rparr> ge_clear m recid of
                         None \<Rightarrow> None
                       | Some (ok, q) \<Rightarrow> Some (if ok then fst (eckey_pubkey_serialize q compressed) else None))))"

section \<open>Keys\<close>

definition point_multiply :: "u8 list \<Rightarrow> int \<Rightarrow> u8 list \<Rightarrow> (int \<times> u8 list option) option" where
  "point_multiply point pointlen scal =
     (case eckey_pubkey_parse point pointlen of
        (True, Some pt) \<Rightarrow>
          (let (k, overflow) = scalar_set_b32 scal
           in if overflow \<noteq> 0 then Some (- 2, None)
              else
                (case ecdh_point_multiply pt k of None \<Rightarrow> None
                 | Some res \<Rightarrow>
                   (let pt = fst (ge_set_gej res);
                        out = fst (eckey_pubkey_serialize pt (pointlen \<le> 33))
                    in Some (if out = None then 0 else 1, out))))
      | _ \<Rightarrow> Some (- 3, None))"

definition ec_seckey_verify :: "u8 list \<Rightarrow> bool" where
  "ec_seckey_verify seckey = (let (sec, overflow) = scalar_set_b32 seckey in \<not> scalar_is_zero sec \<and> overflow = 0)"

definition ec_pubkey_verify :: "u8 list \<Rightarrow> int \<Rightarrow> bool" where
  "ec_pubkey_verify pubkey pubkeylen = fst (eckey_pubkey_parse pubkey pubkeylen)"

text \<open>The bytes of the public key; None when the function returns 0 and sets \<open>*pubkeylen\<close> to 0.\<close>

definition ec_pubkey_create :: "secp_context \<Rightarrow> u8 list \<Rightarrow> bool \<Rightarrow> u8 list option option" where
  "ec_pubkey_create ctx seckey compressed =
     DEBUG_CHECK (ecmult_gen_context_is_built (ecmult_gen_ctx ctx))
       (let (sec, overflow) = scalar_set_b32 seckey
        in Some (if overflow = 0 then
             (let pj = ecmult_gen (ecmult_gen_ctx ctx) sec;
                  p = fst (ge_set_gej pj)
              in fst (eckey_pubkey_serialize p compressed))
           else None))"

definition ec_pubkey_decompress :: "u8 list \<Rightarrow> int \<Rightarrow> u8 list option" where
  "ec_pubkey_decompress pubkey pubkeylen =
     (case eckey_pubkey_parse pubkey pubkeylen of
        (True, Some p) \<Rightarrow> fst (eckey_pubkey_serialize p False)
      | _ \<Rightarrow> None)"

text \<open>The tweaks of a private key change the buffer only on success.\<close>

definition ec_privkey_tweak_add :: "u8 list \<Rightarrow> u8 list \<Rightarrow> bool \<times> u8 list" where
  "ec_privkey_tweak_add seckey tweak =
     (let (trm, overflow) = scalar_set_b32 tweak;
          sec = fst (scalar_set_b32 seckey);
          (ok, sec) = eckey_privkey_tweak_add sec trm;
          ret = (ok \<and> overflow = 0)
      in (ret, if ret then scalar_get_b32 sec else seckey))"

definition ec_pubkey_tweak_add :: "secp_context \<Rightarrow> u8 list \<Rightarrow> int \<Rightarrow> u8 list \<Rightarrow> u8 list option option" where
  "ec_pubkey_tweak_add ctx pubkey pubkeylen tweak =
     DEBUG_CHECK (ecmult_context_is_built (ecmult_ctx ctx))
       (let (trm, overflow) = scalar_set_b32 tweak
        in if overflow \<noteq> 0 then Some None
           else
             (case eckey_pubkey_parse pubkey pubkeylen of
                (True, Some p) \<Rightarrow>
                  (case eckey_pubkey_tweak_add (ecmult_ctx ctx) p trm of None \<Rightarrow> None
                   | Some (ok, p) \<Rightarrow> Some (if ok then fst (eckey_pubkey_serialize p (pubkeylen \<le> 33)) else None))
              | _ \<Rightarrow> Some None))"

definition ec_privkey_tweak_mul :: "u8 list \<Rightarrow> u8 list \<Rightarrow> bool \<times> u8 list" where
  "ec_privkey_tweak_mul seckey tweak =
     (let (factor, overflow) = scalar_set_b32 tweak;
          sec = fst (scalar_set_b32 seckey);
          (ok, sec) = eckey_privkey_tweak_mul sec factor;
          ret = (ok \<and> overflow = 0)
      in (ret, if ret then scalar_get_b32 sec else seckey))"

definition ec_pubkey_tweak_mul :: "secp_context \<Rightarrow> u8 list \<Rightarrow> int \<Rightarrow> u8 list \<Rightarrow> u8 list option option" where
  "ec_pubkey_tweak_mul ctx pubkey pubkeylen tweak =
     DEBUG_CHECK (ecmult_context_is_built (ecmult_ctx ctx))
       (let (factor, overflow) = scalar_set_b32 tweak
        in if overflow \<noteq> 0 then Some None
           else
             (case eckey_pubkey_parse pubkey pubkeylen of
                (True, Some p) \<Rightarrow>
                  (case eckey_pubkey_tweak_mul (ecmult_ctx ctx) p factor of None \<Rightarrow> None
                   | Some (ok, p) \<Rightarrow> Some (if ok then fst (eckey_pubkey_serialize p (pubkeylen \<le> 33)) else None))
              | _ \<Rightarrow> Some None))"

definition ec_privkey_export :: "secp_context \<Rightarrow> u8 list \<Rightarrow> bool \<Rightarrow> u8 list option option" where
  "ec_privkey_export ctx seckey compressed =
     DEBUG_CHECK (ecmult_gen_context_is_built (ecmult_gen_ctx ctx))
       (let key = fst (scalar_set_b32 seckey)
        in Some (eckey_privkey_serialize (ecmult_gen_ctx ctx) key compressed))"

definition ec_privkey_import :: "u8 list \<Rightarrow> u8 list option" where
  "ec_privkey_import privkey =
     (case eckey_privkey_parse privkey of
        (True, Some key) \<Rightarrow> Some (scalar_get_b32 key)
      | _ \<Rightarrow> None)"

definition context_randomize :: "secp_context \<Rightarrow> u8 list option \<Rightarrow> (int \<times> secp_context) option" where
  "context_randomize ctx seed32 =
     DEBUG_CHECK (ecmult_gen_context_is_built (ecmult_gen_ctx ctx))
       (case ecmult_gen_blind (ecmult_gen_ctx ctx) seed32 of None \<Rightarrow> None
        | Some gen \<Rightarrow> Some (1, ctx\<lparr> ecmult_gen_ctx := gen \<rparr>))"

section \<open>Pedersen commitments\<close>

definition sign_and_abs64 :: "u64 \<Rightarrow> bool \<times> u64" where
  "sign_and_abs64 inp =
     (let ret = (sint inp < 0);
          mask0 = flag ret + NOT 0;
          mask1 = NOT mask0;
          out = inp;
          out = (out AND mask0) OR ((NOT out + 1) AND mask1)
      in (ret, out))"

definition pedersen_commit :: "secp_context \<Rightarrow> u8 list \<Rightarrow> u64 \<Rightarrow> u8 list option option" where
  "pedersen_commit ctx blnd value =
     DEBUG_CHECK (ecmult_gen_context_is_built (ecmult_gen_ctx ctx) \<and> ecmult_gen2_context_is_built (ecmult_gen2_ctx ctx))
       (let (sec, overflow) = scalar_set_b32 blnd
        in Some (if overflow = 0 then
             (let rj = ecmult_gen_gen2 (ecmult_gen_ctx ctx) (ecmult_gen2_ctx ctx) sec value
              in if \<not> gej_is_infinity rj then
                   (let r = fst (ge_set_gej rj) in fst (eckey_pubkey_serialize r True))
                 else None)
           else None))"

text \<open>The first \<open>npositive\<close> blinding factors count with a positive sign, the others are subtracted.\<close>

fun blind_sum_loop :: "u8 list list \<Rightarrow> nat \<Rightarrow> nat \<Rightarrow> scalar \<Rightarrow> scalar option" where
  "blind_sum_loop [] i npositive acc = Some acc"
| "blind_sum_loop (b # bs) i npositive acc =
     (let (x, overflow) = scalar_set_b32 b
      in if overflow \<noteq> 0 then None
         else
           (let x = (if i \<ge> npositive then scalar_negate x else x)
            in blind_sum_loop bs (i + 1) npositive (fst (scalar_add acc x))))"

definition pedersen_blind_sum :: "u8 list list \<Rightarrow> nat \<Rightarrow> u8 list option" where
  "pedersen_blind_sum blinds npositive =
     map_option scalar_get_b32 (blind_sum_loop blinds 0 npositive (scalar_set_int 0))"

fun tally_loop :: "u8 list list \<Rightarrow> gej \<Rightarrow> gej option" where
  "tally_loop [] accj = Some accj"
| "tally_loop (c # cs) accj =
     (case eckey_pubkey_parse c 33 of
        (True, Some a) \<Rightarrow> tally_loop cs (fst (gej_add_ge_var accj accj a None))
      | _ \<Rightarrow> None)"

definition pedersen_verify_tally :: "secp_context \<Rightarrow> u8 list list \<Rightarrow> u8 list list \<Rightarrow> u64 \<Rightarrow> bool option" where
  "pedersen_verify_tally ctx commits ncommits excess =
     DEBUG_CHECK (ecmult_gen2_context_is_built (ecmult_gen2_ctx ctx))
       (let accj = gej_set_infinity;
            accj = (if excess \<noteq> 0 then
                      (let (neg, ex) = sign_and_abs64 excess;
                           accj = ecmult_gen2_small (ecmult_gen2_ctx ctx) ex
                       in if neg then gej_neg accj else accj)
                    else accj)
        in case tally_loop ncommits accj of None \<Rightarrow> Some False
           | Some accj \<Rightarrow>
             (let accj = gej_neg accj
              in case tally_loop commits accj of None \<Rightarrow> Some False
                 | Some accj \<Rightarrow> Some (gej_is_infinity accj)))"

end
