(* ===== verification/Api_Spec.thy ===== *)
theory Api_Spec
  imports Secp256k1 Ecdsa_Spec
begin

text \<open>
  Keys and the functions of secp256k1.c: which public keys the parser accepts, the round trips of
  the encodings, the tweaks of private keys, and the sums of Pedersen commitments.
\<close>

section \<open>Public keys\<close>

lemma fe_set_b32_is:
  assumes "32 \<le> length a" "fe_set_b32 a = (x, ok)"
  shows "fe_is 8 x (be_val (take 32 a))" "ok \<longleftrightarrow> be_val (take 32 a) < fe_p"
proof -
  have l: "length (take 32 a) = 32" using assms(1) by simp
  have e: "fe_set_b32 (take 32 a) = (x, ok)" using assms fe_set_b32_take by metis
  note v = fe_set_b32_spec[OF l, unfolded e fst_conv snd_conv]
  have "fe_verify_magnitude 8 x" unfolding fe_verify_magnitude_within using v(1) by (auto elim!: fe_within_mono)
  then show "fe_is 8 x (be_val (take 32 a))" using v(2) fe_is_self by metis
  show "ok \<longleftrightarrow> be_val (take 32 a) < fe_p" by (rule v(3))
qed

lemma pubkey_parse_sound:
  assumes "eckey_pubkey_parse pub (int (length pub)) = (True, Some e)"
  shows "\<exists>y. ge_represents e (Affine (be_val (take 32 (drop 1 pub))) y) \<and> on_curve (Affine (be_val (take 32 (drop 1 pub))) y) \<and>
    be_val (take 32 (drop 1 pub)) < fe_p"
proof (cases "length pub = 33")
  case True
  then have c: "pub ! 0 = 0x02 \<or> pub ! 0 = 0x03" using assms by (auto simp: eckey_pubkey_parse_def split: if_splits)
  obtain x ok where x: "fe_set_b32 (drop 1 pub) = (x, ok)" by fastforce
  have p: "ok" "ge_set_xo_var x (pub ! 0 = 0x03) = (e, True)"
    using assms True c x by (auto simp: eckey_pubkey_parse_def split: if_splits prod.splits)
  have l: "32 \<le> length (drop 1 pub)" using True by simp
  note f = fe_set_b32_is[OF l x]
  from ge_set_xo_var_spec[OF f(1) p(2)] f(2) p(1) show ?thesis by blast
next
  case False
  then have c: "length pub = 65" "pub ! 0 = 0x04 \<or> pub ! 0 = 0x06 \<or> pub ! 0 = 0x07"
    using assms by (auto simp: eckey_pubkey_parse_def split: if_splits)
  obtain x okx where x: "fe_set_b32 (drop 1 pub) = (x, okx)" by fastforce
  obtain y oky where y: "fe_set_b32 (drop 33 pub) = (y, oky)" by fastforce
  have p: "okx" "e = ge_set_xy x y" "ge_is_valid_var e"
    using assms False c x y by (auto simp: eckey_pubkey_parse_def Let_def split: if_splits)
  have l: "32 \<le> length (drop 1 pub)" "32 \<le> length (drop 33 pub)" using c(1) by simp_all
  note fx = fe_set_b32_is[OF l(1) x] and fy = fe_set_b32_is[OF l(2) y]
  have g: "ge_represents e (Affine (be_val (take 32 (drop 1 pub))) (be_val (take 32 (drop 33 pub))))"
    using fx(1) fy(1) by (simp add: p(2) ge_set_xy_def)
  then show ?thesis using ge_is_valid_var_iff[OF g] p(1,3) fx(2) by blast
qed

lemma pubkey_parse_sizes:
  assumes "fst (eckey_pubkey_parse pub n)"
  shows "n = 33 \<and> pub ! 0 \<in> {2, 3} \<or> n = 65 \<and> pub ! 0 \<in> {4, 6, 7}"
  using assms by (auto simp: eckey_pubkey_parse_def split: if_splits)

lemma fe_is_normalize_var:
  assumes "fe_is m a v" "m \<le> 2047"
  shows "fe_verify_normalized (fe_normalize_var a)" "fe_is 8 (fe_normalize_var a) v"
proof -
  note n = fe_normalize_spec[OF fe_is_magnitude[OF assms(1)] assms(2)]
  show "fe_verify_normalized (fe_normalize_var a)" using n(1) unfolding n(3) .
  show "fe_is 8 (fe_normalize_var a) v" unfolding n(3) by (rule fe_is_weaken[OF fe_is_normalize[OF assms]]) simp_all
qed

text \<open>The uncompressed form, read back.\<close>

lemma pubkey_uncompressed_roundtrip:
  assumes "ge_represents e P" "ge_is_valid_var e"
  shows "\<exists>out e'. eckey_pubkey_serialize e False = (Some out, e') \<and> length out = 65 \<and> ge_represents e' P \<and>
    eckey_pubkey_parse out 65 = (True, Some e')"
proof -
  have c: "P \<noteq> Infinity" "on_curve P" using ge_is_valid_var_iff[OF assms(1)] assms(2) by auto
  then obtain x y where P: "P = Affine x y" by (cases P) auto
  have e: "\<not> ge_infinity e" "fe_is 8 (ge_x e) x" "fe_is 8 (ge_y e) y" using assms(1) by (simp_all add: P)
  define x' where "x' = fe_normalize_var (ge_x e)"
  define y' where "y' = fe_normalize_var (ge_y e)"
  have n: "fe_verify_normalized x'" "fe_verify_normalized y'" and v: "fe_is 8 x' x" "fe_is 8 y' y"
    using fe_is_normalize_var[OF e(2)] fe_is_normalize_var[OF e(3)] by (simp_all add: x'_def y'_def)
  let ?e = "\<lparr> ge_x = x', ge_y = y', ge_infinity = False \<rparr>"
  have g: "ge_represents ?e P" using v by (simp add: P)
  have val: "ge_is_valid_var ?e" using ge_is_valid_var_iff[OF g] c by simp
  let ?out = "0x04 # fe_get_b32 x' @ fe_get_b32 y'"
  have l: "length (fe_get_b32 x') = 32" "length (fe_get_b32 y') = 32"
    using n fe_get_b32_spec(1) by (simp_all add: fe_verify_normalized_iff)
  have "eckey_pubkey_serialize e False = (Some ?out, ?e)"
    using e(1) by (cases e) (simp add: eckey_pubkey_serialize_def ge_is_infinity_def x'_def y'_def Let_def)
  moreover have "fe_set_b32 (drop 1 ?out) = (x', True)" "fe_set_b32 (drop 33 ?out) = (y', True)"
    using fe_set_b32_take[of "drop 1 ?out"] fe_set_get_b32[OF n(1)] fe_set_get_b32[OF n(2)] l by simp_all
  then have "eckey_pubkey_parse ?out 65 = (True, Some ?e)"
    using val by (simp add: eckey_pubkey_parse_def ge_set_xy_def)
  ultimately show ?thesis using g l by auto
qed

lemma length_fe_get_b32: "length (fe_get_b32 a) = 32"
  using fold_update_rev(1)[of 32 31 "\<lambda>i. ucast (fold (\<lambda>j c. c OR get_b32_nibble (n_list a) i j) [0..<2] 0)" "0 :: u8"]
  by (simp add: fe_get_b32_def)

text \<open>Euler's criterion: \<open>y\<close> raised to half of the prime less one is 1 or -1.\<close>

definition euler :: "int \<Rightarrow> bool" where
  "euler y \<longleftrightarrow> y ^ nat ((fe_p - 1) div 2) mod fe_p \<in> {1, fe_p - 1}"

lemma fe_sqrt_var_euler:
  assumes "fe_verify_magnitude 8 c" "fe_val c mod fe_p = y ^ 2 mod fe_p" "euler y"
  shows "fe_val (fst (fe_sqrt_var c)) mod fe_p \<in> {y mod fe_p, (- y) mod fe_p}" "snd (fe_sqrt_var c)"
proof -
  let ?z = "fe_val (fst (fe_sqrt_var c))" and ?e = "y ^ nat ((fe_p - 1) div 2)"
  have k: "2 * nat ((fe_p + 1) div 4) = Suc (nat ((fe_p - 1) div 2))" by (simp add: fe_p_num)
  have "?z mod fe_p = fe_val c ^ nat ((fe_p + 1) div 4) mod fe_p"
    using fe_sqrt_var_power(1)[OF assms(1)] by (simp add: fe_power_def)
  also have "\<dots> = (fe_val c mod fe_p) ^ nat ((fe_p + 1) div 4) mod fe_p" by (simp only: power_mod)
  also have "\<dots> = y ^ (2 * nat ((fe_p + 1) div 4)) mod fe_p" unfolding assms(2) power_mod power_mult ..
  also have "\<dots> = y * (?e mod fe_p) mod fe_p" unfolding k power_Suc by (simp only: mod_mult_right_eq)
  finally have z: "?z mod fe_p = y * (?e mod fe_p) mod fe_p" .
  have "y * (fe_p - 1) mod fe_p = (- y) mod fe_p"
    using mod_mult_self2[of "- y" fe_p y] by (simp add: algebra_simps)
  then show m: "?z mod fe_p \<in> {y mod fe_p, (- y) mod fe_p}"
    using assms(3) unfolding z euler_def by auto
  have "(?z mod fe_p) ^ 2 mod fe_p = y ^ 2 mod fe_p" using m
  proof
    assume "?z mod fe_p = y mod fe_p"
    then show ?thesis by (simp only: power_mod)
  next
    assume "?z mod fe_p \<in> {(- y) mod fe_p}"
    then have "?z mod fe_p = (- y) mod fe_p" by simp
    then show ?thesis by (simp only: power_mod power2_minus)
  qed
  then have "?z ^ 2 mod fe_p = y ^ 2 mod fe_p" by (simp only: power_mod)
  then show "snd (fe_sqrt_var c)" using fe_sqrt_var_power(3)[OF assms(1)] assms(2) by simp
qed

lemma ge_set_xo_var_euler:
  assumes "fe_is 8 x v" "on_curve (Affine v y)" "euler y" "0 \<le> y" "y < fe_p"
  shows "\<exists>g. ge_set_xo_var x (odd y) = (g, True) \<and> ge_represents g (Affine v y)"
proof -
  define c where "c = fe_add (fe_set_int 7) (fe_mul x (fe_sqr x))"
  note c = ge_set_xo_var_radicand[OF assms(1), folded c_def]
  obtain z ok where z: "fe_sqrt_var c = (z, ok)" by fastforce
  have "fe_val c mod fe_p = y ^ 2 mod fe_p" using c(2) assms(2) by (simp add: power2_eq_square)
  from fe_sqrt_var_euler[OF c(1) this assms(3)] z
  have r: "fe_val z mod fe_p \<in> {y mod fe_p, (- y) mod fe_p}" and ok by simp_all
  define n where "n = fe_normalize_var z"
  have zm: "fe_verify_magnitude 1 z" using fe_sqrt_var_power(2)[OF c(1)] z by simp
  have nv: "fe_verify_normalized n" "fe_val n = fe_val z mod fe_p"
    using fe_normalize_spec[OF zm] by (simp_all add: n_def)
  have nm: "fe_is 1 n (fe_val n)" using nv(1) by (intro fe_is_self fe_verify_normalized_magnitude)
  have neg: "fe_is 2 (fe_negate n 1) (- fe_val n)" by (rule fe_is_eq, (rule nm fe_calc | (simp; fail))+)
  define w where "w = (if fe_is_odd n \<noteq> odd y then fe_negate n 1 else n)"
  have "y \<noteq> 0" using assms(3) by (auto simp: euler_def fe_p_num)
  then have y: "0 < y" "y < fe_p" "y mod fe_p = y" using assms(4,5) by simp_all
  have w: "fe_is 8 w y"
  proof (cases "fe_val z mod fe_p = y mod fe_p")
    case True
    then have "fe_val n = y" using nv(2) y(3) by simp
    then show ?thesis using nm by (auto simp: w_def fe_is_odd_iff elim: fe_is_weaken)
  next
    case False
    then have v: "fe_val n = (- y) mod fe_p" using nv(2) r by simp
    then have "fe_is_odd n \<noteq> odd y" using odd_negation[OF y(1,2)] by (simp add: fe_is_odd_iff)
    moreover have "(- fe_val n) mod fe_p = y mod fe_p" unfolding v by (simp add: mod_minus_eq)
    ultimately show ?thesis using neg by (auto simp: w_def elim: fe_is_weaken)
  qed
  then show ?thesis
    using assms(1) \<open>ok\<close> unfolding w_def n_def by (simp add: ge_set_xo_var_def Let_def z flip: c_def)
qed

lemma fe_val_nonneg: "0 \<le> fe_val a"
  by (cases a) simp

text \<open>The compressed form, read back.\<close>

lemma pubkey_compressed_roundtrip:
  assumes "ge_represents e (Affine x y)" "on_curve (Affine x y)" "euler y"
  shows "\<exists>out e' e''. eckey_pubkey_serialize e True = (Some out, e') \<and> length out = 33 \<and>
    eckey_pubkey_parse out 33 = (True, Some e'') \<and> ge_represents e'' (Affine x y)"
proof -
  have e: "\<not> ge_infinity e" "fe_is 8 (ge_x e) x" "fe_is 8 (ge_y e) y" using assms(1) by simp_all
  define x' where "x' = fe_normalize_var (ge_x e)"
  define y' where "y' = fe_normalize_var (ge_y e)"
  have n: "fe_verify_normalized x'" "fe_verify_normalized y'" and v: "fe_is 8 x' x" "fe_is 8 y' y"
    using fe_is_normalize_var[OF e(2)] fe_is_normalize_var[OF e(3)] by (simp_all add: x'_def y'_def)
  have val: "fe_val y' mod fe_p = y mod fe_p" "0 \<le> fe_val y'" "fe_val y' < fe_p"
    using v(2) n(2) fe_val_nonneg[of y'] by (auto simp: fe_is_def fe_verify_normalized_iff)
  have "fe_val y' ^ k mod fe_p = y ^ k mod fe_p" for k using val(1) by (metis power_mod)
  then have "euler (fe_val y')" using assms(3) by (simp add: euler_def)
  moreover have "on_curve (Affine x (fe_val y'))" using assms(2) val(1) by simp (metis mod_mult_eq)
  ultimately obtain g where g: "ge_set_xo_var x' (odd (fe_val y')) = (g, True)" "ge_represents g (Affine x (fe_val y'))"
    using ge_set_xo_var_euler[OF v(1) _ _ val(2,3)] by blast
  let ?out = "(0x02 OR (if fe_is_odd y' then 0x01 else 0x00)) # fe_get_b32 x'"
  have "fst (eckey_pubkey_serialize e True) = Some ?out"
    using e(1) by (simp add: eckey_pubkey_serialize_def ge_is_infinity_def x'_def y'_def Let_def)
  moreover have "fe_set_b32 (fe_get_b32 x') = (x', True)" by (rule fe_set_get_b32[OF n(1)])
  then have "eckey_pubkey_parse ?out 33 = (True, Some g)"
    using g(1) by (cases "odd (fe_val y')") (simp_all add: eckey_pubkey_parse_def fe_is_odd_iff)
  moreover have "ge_represents g (Affine x y)" using g(2) val(1) by (simp add: fe_is_def)
  ultimately show ?thesis by (auto simp: length_fe_get_b32 intro!: exI[of _ ?out] prod_eqI)
qed

section \<open>Private keys\<close>

lemma length_scalar_get_b32: "length (scalar_get_b32 a) = 32"
  by (rule scalar_get_b32_val(1))

lemma length_pubkey_serialize:
  "fst (eckey_pubkey_serialize e compressed) = Some pub \<Longrightarrow> length pub = (if compressed then 33 else 65)"
  by (auto simp: eckey_pubkey_serialize_def Let_def length_fe_get_b32 split: if_splits)

lemma pubkey_serialize_infinity: "fst (eckey_pubkey_serialize (fst (ge_set_gej a)) compressed) = None \<longleftrightarrow> gej_is_infinity a"
  by (simp add: eckey_pubkey_serialize_def ge_is_infinity_def gej_is_infinity_def ge_set_gej_def Let_def)

lemma privkey_roundtrip_compressed:
  assumes "scalar_val key < scalar_n" "length rest \<ge> 174"
  shows "eckey_privkey_parse (begin_compressed @ scalar_get_b32 key @ rest) = (True, Some key)"
  using assms scalar_set_get_b32[OF assms(1)] length_scalar_get_b32[of key]
  by (simp add: eckey_privkey_parse_def begin_compressed_def Let_def)

lemma privkey_roundtrip_uncompressed:
  assumes "scalar_val key < scalar_n" "length rest \<ge> 238"
  shows "eckey_privkey_parse (begin_uncompressed @ scalar_get_b32 key @ rest) = (True, Some key)"
  using assms scalar_set_get_b32[OF assms(1)] length_scalar_get_b32[of key]
  by (simp add: eckey_privkey_parse_def begin_uncompressed_def Let_def)

section \<open>Tweaks of private keys\<close>

lemma flag_zero [simp]: "flag b = 0 \<longleftrightarrow> \<not> b"
  by (simp add: flag_def)

lemma tweak_add_spec:
  assumes "length seckey = 32" "length tweak = 32"
  shows "fst (ec_privkey_tweak_add seckey tweak) \<longleftrightarrow> be_val tweak < scalar_n \<and> (be_val seckey + be_val tweak) mod scalar_n \<noteq> 0"
    "fst (ec_privkey_tweak_add seckey tweak) \<Longrightarrow> length (snd (ec_privkey_tweak_add seckey tweak)) = 32 \<and>
      be_val (snd (ec_privkey_tweak_add seckey tweak)) = (be_val seckey + be_val tweak) mod scalar_n"
    "\<not> fst (ec_privkey_tweak_add seckey tweak) \<Longrightarrow> snd (ec_privkey_tweak_add seckey tweak) = seckey"
proof -
  note k = scalar_set_b32_spec[OF assms(1)] and t = scalar_set_b32_spec[OF assms(2)]
  have r: "scalar_val (fst (scalar_set_b32 seckey)) < scalar_n" "scalar_val (fst (scalar_set_b32 tweak)) < scalar_n"
    unfolding k(1) t(1) by (simp_all add: scalar_n_num)
  have sum: "scalar_val (fst (scalar_add (fst (scalar_set_b32 seckey)) (fst (scalar_set_b32 tweak)))) = (be_val seckey + be_val tweak) mod scalar_n"
    unfolding scalar_add_spec(1)[OF r] k(1) t(1) by (simp add: mod_add_eq)
  show "fst (ec_privkey_tweak_add seckey tweak) \<longleftrightarrow> be_val tweak < scalar_n \<and> (be_val seckey + be_val tweak) mod scalar_n \<noteq> 0"
    using sum t(2) by (auto simp: ec_privkey_tweak_add_def eckey_privkey_tweak_add_def Let_def is_zero_iff split: prod.split)
  show "length (snd (ec_privkey_tweak_add seckey tweak)) = 32 \<and>
      be_val (snd (ec_privkey_tweak_add seckey tweak)) = (be_val seckey + be_val tweak) mod scalar_n" if "fst (ec_privkey_tweak_add seckey tweak)"
    using that sum by (auto simp: ec_privkey_tweak_add_def eckey_privkey_tweak_add_def Let_def scalar_get_b32_val length_scalar_get_b32 split: prod.splits if_splits)
  show "snd (ec_privkey_tweak_add seckey tweak) = seckey" if "\<not> fst (ec_privkey_tweak_add seckey tweak)"
    using that by (auto simp: ec_privkey_tweak_add_def Let_def split: prod.splits)
qed

lemma tweak_mul_spec:
  assumes "length seckey = 32" "length tweak = 32"
  shows "fst (ec_privkey_tweak_mul seckey tweak) \<longleftrightarrow> 0 < be_val tweak \<and> be_val tweak < scalar_n"
    "fst (ec_privkey_tweak_mul seckey tweak) \<Longrightarrow> length (snd (ec_privkey_tweak_mul seckey tweak)) = 32 \<and>
      be_val (snd (ec_privkey_tweak_mul seckey tweak)) = be_val seckey * be_val tweak mod scalar_n"
    "\<not> fst (ec_privkey_tweak_mul seckey tweak) \<Longrightarrow> snd (ec_privkey_tweak_mul seckey tweak) = seckey"
proof -
  note k = scalar_set_b32_spec[OF assms(1)] and t = scalar_set_b32_spec[OF assms(2)]
  have z: "be_val tweak < scalar_n \<Longrightarrow> scalar_is_zero (fst (scalar_set_b32 tweak)) \<longleftrightarrow> be_val tweak = 0"
    using be_val_bounds(1)[of tweak] by (simp add: is_zero_iff t(1))
  show "fst (ec_privkey_tweak_mul seckey tweak) \<longleftrightarrow> 0 < be_val tweak \<and> be_val tweak < scalar_n"
    using z t(2) be_val_bounds(1)[of tweak]
    by (auto simp: ec_privkey_tweak_mul_def eckey_privkey_tweak_mul_def Let_def split: prod.split)
  have prod: "scalar_val (scalar_mul (fst (scalar_set_b32 seckey)) (fst (scalar_set_b32 tweak))) = be_val seckey * be_val tweak mod scalar_n"
    unfolding scalar_mul_spec k(1) t(1) by (simp add: mod_mult_eq)
  show "length (snd (ec_privkey_tweak_mul seckey tweak)) = 32 \<and>
      be_val (snd (ec_privkey_tweak_mul seckey tweak)) = be_val seckey * be_val tweak mod scalar_n" if "fst (ec_privkey_tweak_mul seckey tweak)"
    using that prod by (auto simp: ec_privkey_tweak_mul_def eckey_privkey_tweak_mul_def Let_def scalar_get_b32_val length_scalar_get_b32 split: prod.splits if_splits)
  show "snd (ec_privkey_tweak_mul seckey tweak) = seckey" if "\<not> fst (ec_privkey_tweak_mul seckey tweak)"
    using that by (auto simp: ec_privkey_tweak_mul_def Let_def split: prod.splits)
qed

section \<open>Pedersen commitments\<close>

lemma blind_sum_loop_spec:
  assumes "\<forall>b \<in> set bs. length b = 32" "scalar_val acc < scalar_n"
  shows "case blind_sum_loop bs i npositive acc of None \<Rightarrow> \<exists>b \<in> set bs. scalar_n \<le> be_val b
    | Some a \<Rightarrow> (\<forall>b \<in> set bs. be_val b < scalar_n) \<and>
        scalar_val a = (scalar_val acc + sum_list (map be_val (take (npositive - i) bs)) - sum_list (map be_val (drop (npositive - i) bs))) mod scalar_n"
  using assms
proof (induction bs arbitrary: i acc)
  case Nil
  then show ?case using scalar_val_bounds(1)[of acc] by simp
next
  case (Cons b bs)
  note s = scalar_set_b32_spec[of b]
  have l: "length b = 32" using Cons.prems(1) by simp
  show ?case
  proof (cases "be_val b < scalar_n")
    case False
    then have "snd (scalar_set_b32 b) \<noteq> 0" using s(2)[OF l] by simp
    then show ?thesis using False by (auto split: prod.split)
  next
    case True
    then have ov: "snd (scalar_set_b32 b) = 0" using s(2)[OF l] by simp
    have v: "scalar_val (fst (scalar_set_b32 b)) = be_val b" using s(1)[OF l] True be_val_bounds(1)[of b] by simp
    define x where "x = (if i \<ge> npositive then scalar_negate (fst (scalar_set_b32 b)) else fst (scalar_set_b32 b))"
    have vx: "scalar_val x = (if i \<ge> npositive then - be_val b else be_val b) mod scalar_n"
      using v True be_val_bounds(1)[of b] by (simp add: x_def scalar_negate_spec)
    then have xn: "scalar_val x < scalar_n" by (simp add: scalar_n_num)
    define acc' where "acc' = fst (scalar_add acc x)"
    have acc': "scalar_val acc' = (scalar_val acc + (if i \<ge> npositive then - be_val b else be_val b)) mod scalar_n"
      unfolding acc'_def scalar_add_spec(1)[OF Cons.prems(2) xn] vx by (simp only: mod_add_right_eq)
    have an: "scalar_val acc' < scalar_n" unfolding acc' by (simp add: scalar_n_num)
    obtain y where y: "scalar_set_b32 b = (y, 0)" using ov by (metis prod.collapse)
    have step: "blind_sum_loop (b # bs) i npositive acc = blind_sum_loop bs (i + 1) npositive acc'"
      by (simp add: x_def acc'_def y)
    have total: "(scalar_val acc' + t) mod scalar_n = (scalar_val acc + (if i \<ge> npositive then - be_val b else be_val b) + t) mod scalar_n" for t
      unfolding acc' by (simp only: mod_add_left_eq)
    have IH: "case blind_sum_loop bs (i + 1) npositive acc' of None \<Rightarrow> \<exists>b \<in> set bs. scalar_n \<le> be_val b
      | Some a \<Rightarrow> (\<forall>b \<in> set bs. be_val b < scalar_n) \<and>
        scalar_val a = (scalar_val acc' + sum_list (map be_val (take (npositive - (i + 1)) bs)) - sum_list (map be_val (drop (npositive - (i + 1)) bs))) mod scalar_n"
      using Cons.prems(1) by (intro Cons.IH[OF _ an]) simp
    show ?thesis
    proof (cases "i < npositive")
      case pos: True
      then obtain k where k: "npositive - i = Suc k" "npositive - (i + 1) = k" by (metis Suc_diff_Suc add.commute plus_1_eq_Suc)
      show ?thesis using IH total[of "sum_list (map be_val (take k bs)) - sum_list (map be_val (drop k bs))"] pos True
        unfolding step k by (auto simp: add.assoc add_diff_eq split: option.splits)
    next
      case neg: False
      then have k: "npositive - i = 0" "npositive - (i + 1) = 0" by simp_all
      show ?thesis using IH total[of "- sum_list (map be_val bs)"] neg True
        unfolding step k by (auto simp: algebra_simps split: option.splits)
    qed
  qed
qed

lemma sign_and_abs64_spec: "fst (sign_and_abs64 x) = (sint x < 0)" "uint (snd (sign_and_abs64 x)) = \<bar>sint x\<bar>"
proof -
  show "fst (sign_and_abs64 x) = (sint x < 0)" by (simp add: sign_and_abs64_def Let_def)
  have v: "snd (sign_and_abs64 x) = (if sint x < 0 then - x else x)"
    by (simp add: sign_and_abs64_def Let_def flag_def not_eq_complement)
  have x: "x = word_of_int (sint x)" by simp
  have b: "- (2 ^ 63) \<le> sint x" "sint x < 2 ^ 63" using sint_greater_eq[of x] sint_less[of x] by simp_all
  show "uint (snd (sign_and_abs64 x)) = \<bar>sint x\<bar>"
  proof (cases "sint x < 0")
    case True
    then have "snd (sign_and_abs64 x) = word_of_int (- sint x)" using v x by (metis wi_hom_neg)
    then show ?thesis using True b by (simp only: word_of_int_inverse abs_of_neg) (rule word_of_int_inverse, simp_all)
  next
    case False
    then have "snd (sign_and_abs64 x) = word_of_int (sint x)" using v by simp
    then show ?thesis using False b by (simp only: abs_of_nonneg) (rule word_of_int_inverse, simp_all)
  qed
qed


section \<open>The properties\<close>

text \<open>
  C23. Public keys: every key that the parser accepts is a point of the curve with the x coordinate of the
  input, below the prime; its uncompressed form has 65 bytes and is read back as the same point, and so is the
  compressed form of 33 bytes when Euler's criterion holds for the y coordinate.
\<close>
theorem pubkey_parse_correct:
  assumes "eckey_pubkey_parse pub (int (length pub)) = (True, Some e)"
  shows "\<exists>y. let x = be_val (take 32 (drop 1 pub)) in
    x < fe_p \<and> on_curve (Affine x y) \<and> ge_represents e (Affine x y) \<and>
    (\<exists>out e'. eckey_pubkey_serialize e False = (Some out, e') \<and> length out = 65 \<and>
      eckey_pubkey_parse out 65 = (True, Some e') \<and> ge_represents e' (Affine x y)) \<and>
    (euler y \<longrightarrow> (\<exists>out e' e''. eckey_pubkey_serialize e True = (Some out, e') \<and> length out = 33 \<and>
      eckey_pubkey_parse out 33 = (True, Some e'') \<and> ge_represents e'' (Affine x y)))"
proof -
  define x where "x = be_val (take 32 (drop 1 pub))"
  obtain y where y: "ge_represents e (Affine x y)" "on_curve (Affine x y)" "x < fe_p"
    using pubkey_parse_sound[OF assms] unfolding x_def by blast
  have "ge_is_valid_var e" using ge_is_valid_var_iff[OF y(1)] y(2) by simp
  from pubkey_uncompressed_roundtrip[OF y(1) this] pubkey_compressed_roundtrip[OF y(1,2)] y
  show ?thesis unfolding Let_def x_def[symmetric] by blast
qed

text \<open>The point with the y coordinate 1, in the uncompressed form.\<close>

definition unit_pub :: "u8 list" where
  "unit_pub = 0x04 # fe_get_b32 unit_x @ fe_get_b32 (fe_set_int 1)"

lemma unit_pub_parsed: "eckey_pubkey_parse unit_pub 65 = (True, Some (ge_set_xy unit_x (fe_set_int 1)))"
proof -
  have m: "fe_verify_magnitude 8 unit_x" by (simp add: unit_x_def)
  have n: "fe_verify_normalized unit_x" "fe_verify_normalized (fe_set_int 1)"
    by (simp_all add: unit_x_def fe_set_int_def)
  have g: "ge_represents (ge_set_xy unit_x (fe_set_int 1)) (Affine (fe_val unit_x) 1)"
    using fe_is_self[OF m] by (simp add: ge_set_xy_def fe_is_def fe_set_int_def)
  have v: "ge_is_valid_var (ge_set_xy unit_x (fe_set_int 1))"
    using ge_is_valid_var_iff[OF g] unit_x_cube by simp
  have "fe_set_b32 (drop 1 unit_pub) = (unit_x, True)" "fe_set_b32 (drop 33 unit_pub) = (fe_set_int 1, True)"
    using fe_set_b32_take[of "drop 1 unit_pub"] fe_set_get_b32[OF n(1)] fe_set_get_b32[OF n(2)]
    by (simp_all add: unit_pub_def length_fe_get_b32)
  then show ?thesis using v by (simp add: eckey_pubkey_parse_def unit_pub_def)
qed

theorem pubkey_parse_correct_witness:
  "\<exists>e out e'. eckey_pubkey_parse unit_pub 65 = (True, Some e) \<and> eckey_pubkey_serialize e False = (Some out, e') \<and>
    length out = 65 \<and> eckey_pubkey_parse out 65 = (True, Some e')"
proof -
  have l: "length unit_pub = 65" by (simp add: unit_pub_def length_fe_get_b32)
  then have p: "eckey_pubkey_parse unit_pub (int (length unit_pub)) = (True, Some (ge_set_xy unit_x (fe_set_int 1)))"
    using unit_pub_parsed by simp
  show ?thesis using pubkey_parse_correct[OF p] unit_pub_parsed unfolding Let_def by blast
qed

text \<open>
  Private keys: \<open>eckey_privkey_serialize\<close> fails exactly when the public key is the point at infinity; what it
  writes has 214 bytes (279 for the uncompressed form) and is read back by \<open>eckey_privkey_parse\<close> as the same key,
  whatever follows it in the buffer.
\<close>
theorem privkey_roundtrip:
  assumes "scalar_val key < scalar_n"
  shows "case eckey_privkey_serialize ctx key compressed of None \<Rightarrow> gej_is_infinity (ecmult_gen ctx key)
    | Some out \<Rightarrow> \<not> gej_is_infinity (ecmult_gen ctx key) \<and> length out = (if compressed then 214 else 279) \<and>
        eckey_privkey_parse (out @ rest) = (True, Some key)"
proof (cases "fst (eckey_pubkey_serialize (fst (ge_set_gej (ecmult_gen ctx key))) compressed)")
  case None
  then have "gej_is_infinity (ecmult_gen ctx key)" by (rule pubkey_serialize_infinity[THEN iffD1])
  then show ?thesis using None by (cases compressed) (simp_all add: eckey_privkey_serialize_def Let_def case_prod_unfold)
next
  case (Some pub)
  then have inf: "\<not> gej_is_infinity (ecmult_gen ctx key)" using pubkey_serialize_infinity by (metis option.distinct(1))
  have m: "length middle_compressed = 141" "length middle_uncompressed = 173"
    by (simp_all add: middle_compressed_def middle_uncompressed_def)
  show ?thesis
    using inf Some m length_pubkey_serialize[OF Some] length_scalar_get_b32[of key]
      privkey_roundtrip_compressed[OF assms, of "middle_compressed @ pub @ rest"]
      privkey_roundtrip_uncompressed[OF assms, of "middle_uncompressed @ pub @ rest"]
    by (cases compressed) (simp_all add: eckey_privkey_serialize_def Let_def begin_compressed_def begin_uncompressed_def case_prod_unfold)
qed

theorem privkey_roundtrip_witness:
  "case eckey_privkey_serialize plain_gen (Scalar 5 0 0 0) True of None \<Rightarrow> gej_is_infinity (ecmult_gen plain_gen (Scalar 5 0 0 0))
    | Some out \<Rightarrow> length out = 214 \<and> eckey_privkey_parse out = (True, Some (Scalar 5 0 0 0))"
proof -
  have "scalar_val (Scalar 5 0 0 0) < scalar_n" by (simp add: scalar_n_def)
  from privkey_roundtrip[OF this, of plain_gen True "[]"] show ?thesis by (simp split: option.splits)
qed

text \<open>
  The tweaks of a private key: the addition succeeds exactly when the tweak is below the order and the
  sum is not 0, the multiplication exactly when the tweak is neither 0 nor too big; then the buffer holds the
  32 bytes of the sum or product modulo the order, and otherwise it is unchanged.
\<close>
theorem privkey_tweaks_correct:
  assumes "length seckey = 32" "length tweak = 32"
  defines "sm \<equiv> (be_val seckey + be_val tweak) mod scalar_n" and "pr \<equiv> be_val seckey * be_val tweak mod scalar_n"
  shows "(case ec_privkey_tweak_add seckey tweak of (ok, out) \<Rightarrow>
      ok = (be_val tweak < scalar_n \<and> sm \<noteq> 0) \<and> length out = 32 \<and> be_val out = (if ok then sm else be_val seckey)) \<and>
    (case ec_privkey_tweak_mul seckey tweak of (ok, out) \<Rightarrow>
      ok = (0 < be_val tweak \<and> be_val tweak < scalar_n) \<and> length out = 32 \<and> be_val out = (if ok then pr else be_val seckey))"
proof -
  note add = tweak_add_spec[OF assms(1,2), folded sm_def] and mul = tweak_mul_spec[OF assms(1,2), folded pr_def]
  have "case ec_privkey_tweak_add seckey tweak of (ok, out) \<Rightarrow>
      ok = (be_val tweak < scalar_n \<and> sm \<noteq> 0) \<and> length out = 32 \<and> be_val out = (if ok then sm else be_val seckey)"
    using add assms(1) by (cases "ec_privkey_tweak_add seckey tweak") auto
  moreover have "case ec_privkey_tweak_mul seckey tweak of (ok, out) \<Rightarrow>
      ok = (0 < be_val tweak \<and> be_val tweak < scalar_n) \<and> length out = 32 \<and> be_val out = (if ok then pr else be_val seckey)"
    using mul assms(1) by (cases "ec_privkey_tweak_mul seckey tweak") auto
  ultimately show ?thesis by blast
qed

theorem privkey_tweaks_correct_witness:
  "ec_privkey_tweak_add (replicate 31 0 @ [3]) (replicate 31 0 @ [4]) = (True, snd (ec_privkey_tweak_add (replicate 31 0 @ [3]) (replicate 31 0 @ [4]))) \<and>
   be_val (snd (ec_privkey_tweak_add (replicate 31 0 @ [3]) (replicate 31 0 @ [4]))) = 7 \<and>
   be_val (snd (ec_privkey_tweak_mul (replicate 31 0 @ [3]) (replicate 31 0 @ [4]))) = 12 \<and>
   \<not> fst (ec_privkey_tweak_mul (replicate 31 0 @ [3]) (replicate 32 0))"
proof -
  have l: "length (replicate 31 0 @ [3 :: u8]) = 32" "length (replicate 31 0 @ [4 :: u8]) = 32" "length (replicate 32 (0 :: u8)) = 32" by simp_all
  have v: "be_val (replicate 31 0 @ [3 :: u8]) = 3" "be_val (replicate 31 0 @ [4 :: u8]) = 4" "be_val (replicate 32 (0 :: u8)) = 0" by code_simp+
  show ?thesis
    using privkey_tweaks_correct[OF l(1) l(2)] privkey_tweaks_correct[OF l(1) l(3)]
    by (auto simp: v case_prod_unfold scalar_n_def prod_eq_iff split: if_splits)
qed

text \<open>
  \<open>pedersen_blind_sum\<close> fails exactly when a blinding factor is not below the order; otherwise its 32 bytes
  are the sum of the first \<open>npositive\<close> factors less the sum of the others, modulo the order.
\<close>
theorem pedersen_blind_sum_correct:
  assumes "\<forall>b \<in> set bs. length b = 32"
  shows "case pedersen_blind_sum bs npositive of None \<Rightarrow> \<exists>b \<in> set bs. scalar_n \<le> be_val b
    | Some out \<Rightarrow> (\<forall>b \<in> set bs. be_val b < scalar_n) \<and> length out = 32 \<and>
        be_val out = (sum_list (map be_val (take npositive bs)) - sum_list (map be_val (drop npositive bs))) mod scalar_n"
proof -
  have z: "scalar_val (scalar_set_int 0) = 0" by (simp add: scalar_set_int_def)
  then have "scalar_val (scalar_set_int 0) < scalar_n" by (simp add: scalar_n_num)
  from blind_sum_loop_spec[OF assms this, where i = 0 and npositive = npositive] z show ?thesis
    by (auto simp: pedersen_blind_sum_def scalar_get_b32_val length_scalar_get_b32 split: option.splits)
qed

theorem pedersen_blind_sum_correct_witness:
  "case pedersen_blind_sum [replicate 31 0 @ [9], replicate 31 0 @ [2], replicate 31 0 @ [4]] 2 of None \<Rightarrow> False | Some out \<Rightarrow> be_val out = 7"
proof -
  have "\<forall>b \<in> set [replicate 31 0 @ [9 :: u8], replicate 31 0 @ [2], replicate 31 0 @ [4]]. length b = 32" by simp
  from pedersen_blind_sum_correct[OF this, of 2]
  have "case pedersen_blind_sum [replicate 31 0 @ [9], replicate 31 0 @ [2], replicate 31 0 @ [4]] 2 of
      None \<Rightarrow> \<exists>b \<in> set [replicate 31 0 @ [9 :: u8], replicate 31 0 @ [2], replicate 31 0 @ [4]]. scalar_n \<le> be_val b
    | Some out \<Rightarrow> be_val out = (be_val (replicate 31 0 @ [9 :: u8]) + be_val (replicate 31 0 @ [2 :: u8]) - be_val (replicate 31 0 @ [4 :: u8])) mod scalar_n"
    by (auto split: option.splits)
  moreover have "be_val (replicate 31 0 @ [9 :: u8]) = 9" "be_val (replicate 31 0 @ [2 :: u8]) = 2" "be_val (replicate 31 0 @ [4 :: u8]) = 4" by code_simp+
  ultimately show ?thesis by (auto simp: scalar_n_def split: option.splits)
qed

text \<open>
  \<open>sign_and_abs64\<close> gives the sign and the absolute value of every 64 bit integer, also of the least one, whose
  absolute value is only representable in the unsigned result.
\<close>
theorem sign_and_abs64_correct: "fst (sign_and_abs64 x) = (sint x < 0) \<and> uint (snd (sign_and_abs64 x)) = \<bar>sint x\<bar>"
  using sign_and_abs64_spec by simp

end
