(* ===== verification/Spec2Isabelle.thy ===== *)
theory Spec2Isabelle
  imports Http_Api Key_Text Json_Relaxed_Spec Sha256_Spec Field_Bytes Num_Gmp Group_Ops Ecdsa_Spec Api_Spec
begin

text \<open>
  A verification development for a small blockchain node (simple_blockchain) and the libraries that are bundled with
  it: the parts of fc that the node uses, and the elliptic curve library secp256k1.

  \<^bold>\<open>The program.\<close> The node is a set of plugins over two libraries. libraries/chain holds the data of
  the chain: \<open>Transaction\<close>, \<open>Block\<close>, and the static \<open>Buffer\<close> with the pool of transactions and the cached
  last block. plugins/sqlite_plugin keeps the blocks, as JSON texts, in a table of an SQLite database.
  plugins/chain_plugin has the calls of the API: \<open>push_transaction\<close> validates a transaction and puts it into the
  pool, \<open>publish_blk\<close> packs the pool into a block, signs it, appends it to the store and caches it,
  \<open>check_chain\<close> walks the stored blocks from the first to the last. plugins/chain_api_plugin and plugins/http_plugin serve
  the calls over HTTP, with JSON bodies. A block is identified by the SHA-256 hash of the binary form that
  libraries/fc (raw.hpp) gives its header; the signatures are ECDSA signatures on secp256k1, computed by
  libraries/fc/secp256k1/upstream.

  \<^bold>\<open>Theories and sources.\<close>
  \<^item> Prelude: the integer types, and the collections of rewrite rules shared by all theories (\<open>nowrap\<close>
    reads word operations that do not wrap as integer arithmetic).
  \<^item> Wire: libraries/fc/include/fc/io/raw.hpp, the packers of the types that reach a digest, and the exceptions.
  \<^item> Chain: libraries/chain (transaction.cpp, block.cpp, buffer.cpp). Records \<open>transaction\<close>, \<open>block\<close>, \<open>buffer\<close>; the
    digests, \<open>validate\<close>, \<open>check_block\<close>, \<open>push_trxs\<close>, \<open>build_block\<close>, the loop of \<open>check_chain\<close>.
  \<^item> Store, Reference_Db: plugins/sqlite_plugin/sqlite_plugin.cpp and fc's hex.cpp: the texts of the SQL
    statements, the callbacks, the four operations. The locale \<open>block_store\<close> is what the node relies on, the locale
    \<open>sqlite_db\<close> what the plugin relies on; a sublocale proves the first from the second, and Reference_Db
    interprets the second with an executable table that parses the statements.
  \<^item> Node, Node_Progress: plugins/chain_plugin/chain_plugin.cpp: start-up and the handlers, and the node as a
    transition system (\<open>node_step\<close>, \<open>node_run\<close>) whose events are API calls and restarts; what becomes of accepted
    transactions.
  \<^item> Base64, Variant: fc's base64.cpp, variant.cpp and variant_object.cpp, the dynamic values and their conversions.
  \<^item> Json, Json_Spec: io/json.cpp, the printer and the default parser. Json_Relaxed, Json_Relaxed_Spec:
    io/json_relaxed.hpp, the strict and the relaxed parser, and the pretty printer.
  \<^item> Block_Codec: the JSON form of blocks and transactions (reflect/variant.hpp and the lists of members in libraries/chain).
  \<^item> Base58, Key_Text: fc's crypto/base58.cpp, and the texts of keys and signatures of crypto/common.hpp, public_key.cpp,
    signature.cpp and private_key.cpp.
  \<^item> Chain_Api: the results of the calls of chain_plugin as variants, and its helpers for keys and hexadecimal texts.
    Http_Api: the handlers of plugins/chain_api_plugin/chain_api_plugin.cpp, and the dispatch, the check of the host and the
    answers to exceptions of plugins/http_plugin/http_plugin.cpp.
  \<^item> Sha256, Hash_Interface, Sha256_Spec: hash_impl.h. The locale \<open>streaming_hash\<close> is interpreted for SHA-256
    and for HMAC; HMAC and the RFC 6979 generator are proved over it.
  \<^item> Field, Field_Spec, Field_Ops, Field_Bytes, Field_Pow: field_5x52_impl.h, field_5x52_int128_impl.h and
    field_impl.h. An element is five 64-bit limbs in base 2^52, \<open>fe_val\<close> is its value.
  \<^item> Scalar, Scalar_Spec, Scalar_Mul, Scalar_Order, Scalar_Bits: scalar_4x64_impl.h and scalar_impl.h. A
    scalar is four 64-bit limbs, \<open>scalar_val\<close> is its value.
  \<^item> Num_Gmp: num_gmp_impl.h, and the branches of \<open>secp256k1_fe_inv_var\<close> and \<open>secp256k1_scalar_inverse_var\<close> that
    invert with GMP, which are the ones that are built. The locale \<open>gmp\<close> is what they rely on of GMP.
  \<^item> Group, Curve, Group_Spec, Group_Add, Group_Ops: group_impl.h. Curve holds the specification, points and
    the relation \<open>ec_add\<close>; \<open>ge_represents\<close> and \<open>gej_represents\<close> relate affine and jacobian coordinates to points.
  \<^item> Ecmult, Wnaf, Ecmult_Spec: ecmult_impl.h and ecdh_impl.h. \<open>interleaved\<close> is double-and-add over the digits
    of two wNAF forms, on points.
  \<^item> Ecmult_Gen: ecmult_gen_impl.h. Rangeproof_Context: the context of rangeproof_impl.h.
  \<^item> Ecdsa, Ecdsa_Der, Ecdsa_Spec: ecdsa_impl.h. Eckey: eckey_impl.h. Secp256k1, Api_Spec: secp256k1.c.

  \<^bold>\<open>What the lemmas show.\<close> For the node: the digests commit to the header and to the transaction; a successful
  walk means that every block is numbered, signed by the producer and linked to its predecessor, and tampering with
  a header is detected unless two different preimages have the same hash; from an empty database every
  sequence of calls and restarts leads to a chain that checks, in which stored blocks stay. Between restarts, no accepted
  transaction is lost, duplicated or reordered, as long as the database accepts the statements (and transactions are
  lost when it does not); a restart loses the transactions in the pool, which is only in memory, and nothing else. The
  next \<open>publish_blk\<close> stores the pool, unless the pool has outgrown what can be packed. Over HTTP: every request, with whatever
  texts in it, has the outcome of a specification that names for each resource the step of the node and the answer, so
  that the chain of a server always checks. For fc: what is printed as JSON, as base 58
  or as the text of a key is read back, with the exceptions stated; the parsers return on every text. For secp256k1: the
  field and scalar arithmetic is arithmetic modulo the prime and the order with no lost carry, within stated
  magnitudes; the variable-time additions refine the addition of points on every branch, the constant-time one
  where its unified slope is defined, the double multiplication refines
  \<open>interleaved\<close>, and verification accepts exactly the signatures whose recomputed x coordinate is \<open>r\<close>;
  the hashes equal their definitions on whole messages; the encodings of scalars, field elements, keys and
  signatures are read back.

  \<^bold>\<open>Conventions.\<close> Machine integers are words. A C function that writes through pointers returns what it
  writes; an exception is the left part of a sum, where \<open>Abort\<close> stands for undefined behaviour and a failed \<open>assert\<close>, and
  \<open>Endless_Loop\<close> for a loop that does not end; a loop whose end is not evident is a partial function into an
  option, so None is a loop that does not end (the wNAF loops, the retry loops of nonces and blinding, the digits of
  base 58) or, in Secp256k1, the abort of a failed DEBUG_CHECK. The VERIFY_CHECKs are not part of the
  release build; the bounds that they track are the predicates \<open>fe_verify_magnitude\<close> and
  \<open>fe_verify_normalized\<close>, and lemmas carry them: 8 for the inputs of multiplications, up to 2047 for
  normalisation (2048 is shown to be one too many), and \<open>gej_ok\<close> and \<open>ge_ok\<close> for the coordinates of points.

  \<^bold>\<open>Fuel.\<close> Only the mutually recursive parsers of JSON have fuel. They are called with \<open>enough_fuel\<close>, three turns for
  each character and three more: \<open>json_parser_returns\<close> and \<open>relaxed_parsers_return\<close> prove that this is enough for every text.

  \<^bold>\<open>Parameters.\<close> Code that is not in the repository is an argument. The hash and signature classes that the node calls
  are a record \<open>crypto\<close>, private keys the record \<open>key_ops\<close>; \<open>sqlite3_exec\<close> and the JSON codec are arguments of the store, and
  Block_Codec gives the codec; \<open>lexical\<close> holds the conversions of numbers by boost and iostream, \<open>block_leaves\<close> the texts of
  times, keys and signatures, of which Key_Text gives the keys and signatures; \<open>bn_ops\<close> holds the numbers of OpenSSL, \<open>rip\<close> and
  \<open>sha\<close> its hashes; \<open>gmp_ops\<close> holds the functions of GMP; the texts of exceptions are fields of \<open>server\<close>; the clock and uninitialised members are arguments of the
  handlers. Laws are assumed in the locales \<open>sqlite_db\<close>, \<open>lexical_laws\<close>, \<open>block_leaf_laws\<close>, \<open>bignum\<close>, \<open>gmp\<close>, \<open>block_store\<close> and
  \<open>streaming_hash\<close>, every one of which is interpreted, and in the predicates \<open>crypto_ok\<close> and \<open>signer_ok\<close>, which say that a signature
  recovers the key that made it.

  \<^bold>\<open>Primality.\<close> That the field prime and the group order are prime is not proved. Where an inverse or a square
  root needs it, the theorem asks for Fermat's congruence (or Euler's criterion) for the one number
  concerned, which a reader who accepts primality has for every number that is not 0. For the same reason
  \<open>ec_add\<close> asks for denominators that are coprime to the prime, and the order of the group and the associativity
  of \<open>ec_add\<close> are not used: \<open>interleaved\<close> fixes the order of the additions as the code has it.

  \<^bold>\<open>Configuration.\<close> libsecp256k1-config.h, with which the library is compiled, selects the representations 5x52 and 4x64
  with 128-bit integers and no endomorphism (its split of scalars and \<open>ge_mul_lambda\<close> are modelled none the less), on a
  little-endian 64-bit host. Two of its choices are not what the definitions of Field and Scalar follow:
  \<^item> It defines \<open>USE_FIELD_INV_NUM\<close> and \<open>USE_SCALAR_INV_NUM\<close>, so that the variable-time inverses that are built
    are \<open>fe_inv_var_num\<close> and \<open>scalar_inverse_var_num\<close> of Num_Gmp. \<open>fe_inv_var\<close> and \<open>scalar_inverse_var\<close>, on which the group
    operations and the signatures are modelled, are the branches \<open>USE_FIELD_INV_BUILTIN\<close> and \<open>USE_SCALAR_INV_BUILTIN\<close>,
    which are not compiled here. \<open>fe_inverses_correct\<close> and \<open>scalar_inverses_correct\<close> prove that both return the same
    value modulo the prime, and the same scalar, where Fermat's congruence holds, which the theorems about inversions ask for; the
    field element has other limbs, since the built branch normalises it. At zero the built branches are undefined
    (\<open>mpn_gcdext\<close> wants operands that are not zero), where the modelled ones give zero.
  \<^item> On x86-64 it defines \<open>USE_ASM_X86_64\<close>: the multiplication and the square of field elements (field_5x52_asm_impl.h) and
    \<open>secp256k1_scalar_reduce_512\<close>, \<open>secp256k1_scalar_mul_512\<close> and \<open>secp256k1_scalar_sqr_512\<close> are inline assembly there. Modelled are the C
    versions of the same functions, field_5x52_int128_impl.h and the \<open>#else\<close> branches of scalar_4x64_impl.h,
    which other 64-bit hosts compile. That the assembly computes the same is not proved: on x86-64 the theorems about
    these functions, and what rests on them, hold of the built library only as far as it does.

  \<^bold>\<open>Sizes.\<close> Lengths and counts are natural numbers. The source has an \<open>int\<close> in \<open>DecodeBase58\<close> and a \<open>uint32_t\<close> in
  \<open>to_hex\<close>, so the models are the source's for texts below 2 GiB and 4 GiB. The digits of \<open>wnaf_loop\<close> are
  integers, the source's are ints, which is the same for windows up to 30 (the library uses 5 and 16). The law of \<open>sqlite_db\<close>
  for an INSERT asks for texts without quotes and NULs but leaves out the limit of SQLite on the length of a statement; when
  a statement is refused for it, \<open>publish_blk_loses_on_sql_error\<close> applies and the chain theorems do not.

  \<^bold>\<open>Not modelled.\<close> The range proofs and ring signatures, which the node does not use; the 32-bit representations
  and the x86-64 assembly of the arithmetic, and the functions of num_gmp_impl.h that only the tests call; sockets, TLS, options and headers of the HTTP server, the plugin framework, the
  timer that runs shell scripts and the command line tools, which are I/O and glue; the classes of fc between the node
  and secp256k1 (elliptic_secp256k1.cpp), which stand behind \<open>crypto\<close> and \<open>key_ops\<close>, because that recovery gives back the
  signing key needs the group law, which is not proved; the packers of raw.hpp that the node does not call; the codecs and
  ciphers of fc that the node does not call; vendored code (SQLite, websocketpp, miniz). Timing is outside the model: a
  constant-time function is its result.
\<close>

end
